(* ===== verification/Prelude.thy ===== *)
theory Prelude
  imports Main "HOL-Library.Word"
begin

unbundle bit_operations_syntax

text \<open>
  What every component of the development shares: the names of the C integer types, the
  scan loop \<open>for (i = lo; i < n; i++) if (P(i)) return i;\<close> that the allocators, the tables
  and the scheduler of E-comOS are built from, bit maps held in byte arrays, little-endian
  encodings of integers, and a few facts on lists and words.
\<close>

named_theorems bitmap_simps \<open>test, set and clear on a bitmap\<close>
named_theorems le_simps \<open>lengths and round trips of the little-endian encodings\<close>

section \<open>C integer types\<close>

type_synonym u8 = "8 word"
type_synonym u16 = "16 word"
type_synonym u32 = "32 word"
type_synonym u64 = "64 word"

section \<open>The scan loop\<close>

text \<open>The first index of \<open>{i..<n}\<close> that satisfies the test, as a C for-loop finds it.\<close>

function scan :: "(nat \<Rightarrow> bool) \<Rightarrow> nat \<Rightarrow> nat \<Rightarrow> nat option" where
  "scan P i n = (if i < n then (if P i then Some i else scan P (Suc i) n) else None)"
  by pat_completeness auto
termination
  by (relation "measure (\<lambda>(P, i, n). n - i)") auto

declare scan.simps [simp del]

lemma scan_Some_iff:
  "scan P i n = Some k \<longleftrightarrow> i \<le> k \<and> k < n \<and> P k \<and> (\<forall>j. i \<le> j \<and> j < k \<longrightarrow> \<not> P j)"
proof (induction P i n rule: scan.induct)
  case (1 P i n)
  show ?case
  proof (cases "i < n \<and> \<not> P i")
    case True
    then have "scan P i n = scan P (Suc i) n" by (simp add: scan.simps [of P i n])
    with True 1 show ?thesis by (auto simp: Suc_le_eq) (metis le_neq_implies_less)
  next
    case False
    then show ?thesis by (subst scan.simps) (auto simp: leD)
  qed
qed

lemma scan_None_iff: "scan P i n = None \<longleftrightarrow> (\<forall>j. i \<le> j \<and> j < n \<longrightarrow> \<not> P j)"
proof (induction P i n rule: scan.induct)
  case (1 P i n)
  show ?case
  proof (cases "i < n \<and> \<not> P i")
    case True
    then have "scan P i n = scan P (Suc i) n" by (simp add: scan.simps [of P i n])
    with True 1 show ?thesis by (auto simp: Suc_le_eq) (metis le_neq_implies_less)
  next
    case False
    then show ?thesis by (subst scan.simps) auto
  qed
qed

lemma scan_SomeD:
  assumes "scan P i n = Some k"
  shows "i \<le> k" "k < n" "P k" "\<And>j. i \<le> j \<Longrightarrow> j < k \<Longrightarrow> \<not> P j"
  using assms by (auto simp: scan_Some_iff)

lemma scan_NoneD: "scan P i n = None \<Longrightarrow> i \<le> j \<Longrightarrow> j < n \<Longrightarrow> \<not> P j"
  by (auto simp: scan_None_iff)

lemma scan_exists: "i \<le> j \<Longrightarrow> j < n \<Longrightarrow> P j \<Longrightarrow> \<exists>k. scan P i n = Some k \<and> k \<le> j"
  by (cases "scan P i n") (auto simp: scan_None_iff scan_Some_iff, metis not_le)

lemma scan_cong:
  assumes eq: "\<And>j. i \<le> j \<Longrightarrow> j < n \<Longrightarrow> P j = Q j"
  shows "scan P i n = scan Q i n"
proof (cases "scan Q i n")
  case None
  then have "\<forall>j. i \<le> j \<and> j < n \<longrightarrow> \<not> P j" using eq by (auto dest: scan_NoneD)
  with None show ?thesis by (metis scan_None_iff)
next
  case (Some k)
  then have "scan P i n = Some k" using eq unfolding scan_Some_iff by auto
  with Some show ?thesis by simp
qed

lemma scan_first: "i < n \<Longrightarrow> P i \<Longrightarrow> scan P i n = Some i"
  by (subst scan.simps) simp

text \<open>A table that is searched by its keys is an association list.\<close>

lemma map_of_scan: "map_of (map (\<lambda>i. (f i, g i)) [m..<n]) k = map_option g (scan (\<lambda>i. f i = k) m n)"
proof (induction "n - m" arbitrary: m)
  case (Suc d)
  then have "m < n" by simp
  with Suc.hyps(1) [of "Suc m"] Suc.hyps(2) show ?case
    by (subst scan.simps) (simp add: upt_conv_Cons del: upt_Suc)
qed (simp add: scan.simps)

section \<open>Bit maps in byte arrays\<close>

text \<open>
  \<open>bm[i / 8] & (1 << (i % 8))\<close>, \<open>bm[i / 8] |= 1 << (i % 8)\<close> and
  \<open>bm[i / 8] &= ~(1 << (i % 8))\<close>, on an array of bytes.
\<close>

definition bm_test :: "u8 list \<Rightarrow> nat \<Rightarrow> bool" where
  "bm_test bm i \<longleftrightarrow> (bm ! (i div 8)) AND push_bit (i mod 8) 1 \<noteq> 0"

definition bm_set :: "u8 list \<Rightarrow> nat \<Rightarrow> u8 list" where
  "bm_set bm i = bm[i div 8 := (bm ! (i div 8)) OR push_bit (i mod 8) 1]"

definition bm_clear :: "u8 list \<Rightarrow> nat \<Rightarrow> u8 list" where
  "bm_clear bm i = bm[i div 8 := (bm ! (i div 8)) AND NOT (push_bit (i mod 8) 1)]"

lemma bit_exp_u8: "bit (2 ^ k :: u8) j \<longleftrightarrow> j = k \<and> k < 8"
  by (auto simp: bit_exp_iff)

lemma push_bit_one_bit: "bit (push_bit k (1 :: u8)) j \<longleftrightarrow> j = k \<and> k < 8"
  by (simp add: bit_exp_u8)

lemma bm_test_bit: "bm_test bm i \<longleftrightarrow> bit (bm ! (i div 8)) (i mod 8)"
proof
  assume "bm_test bm i"
  then obtain j where "bit ((bm ! (i div 8)) AND push_bit (i mod 8) 1) j"
    by (auto simp: bm_test_def bit_eq_iff)
  then show "bit (bm ! (i div 8)) (i mod 8)"
    by (auto simp: bit_and_iff bit_exp_u8)
next
  assume "bit (bm ! (i div 8)) (i mod 8)"
  then have "bit ((bm ! (i div 8)) AND push_bit (i mod 8) 1) (i mod 8)"
    by (simp add: bit_and_iff bit_exp_u8)
  then show "bm_test bm i" by (auto simp: bm_test_def)
qed

lemma length_bm_set [simp]: "length (bm_set bm i) = length bm"
  by (simp add: bm_set_def)

lemma length_bm_clear [simp]: "length (bm_clear bm i) = length bm"
  by (simp add: bm_clear_def)

lemma div_mod_8_eq: "i div 8 = j div 8 \<Longrightarrow> i mod 8 = j mod 8 \<Longrightarrow> i = (j :: nat)"
  by (metis div_mult_mod_eq)

lemma bm_test_set [bitmap_simps]:
  assumes "i div 8 < length bm"
  shows "bm_test (bm_set bm i) j \<longleftrightarrow> i = j \<or> bm_test bm j"
proof (cases "j div 8 = i div 8")
  case True
  with assms have "bm_set bm i ! (j div 8) = (bm ! (i div 8)) OR push_bit (i mod 8) 1"
    by (simp add: bm_set_def)
  with True show ?thesis
    by (auto simp: bm_test_bit bit_or_iff bit_exp_u8 dest: div_mod_8_eq)
next
  case False
  then have "bm_set bm i ! (j div 8) = bm ! (j div 8)"
    by (simp add: bm_set_def nth_list_update)
  with False show ?thesis by (auto simp: bm_test_bit)
qed

lemma bm_test_clear [bitmap_simps]:
  assumes "i div 8 < length bm"
  shows "bm_test (bm_clear bm i) j \<longleftrightarrow> i \<noteq> j \<and> bm_test bm j"
proof (cases "j div 8 = i div 8")
  case True
  with assms have "bm_clear bm i ! (j div 8) = (bm ! (i div 8)) AND NOT (push_bit (i mod 8) 1)"
    by (simp add: bm_clear_def)
  with True show ?thesis
    by (auto simp: bm_test_bit bit_and_iff bit_not_iff bit_exp_u8 dest: div_mod_8_eq)
next
  case False
  then have "bm_clear bm i ! (j div 8) = bm ! (j div 8)"
    by (simp add: bm_clear_def nth_list_update)
  with False show ?thesis by (auto simp: bm_test_bit)
qed

lemma bm_test_zeroes [simp]: "i div 8 < n \<Longrightarrow> \<not> bm_test (replicate n 0) i"
  by (simp add: bm_test_def)

section \<open>Counting loops that fill an array\<close>

text \<open>\<open>for (i = 0; i < n; i++) xs[i] = f(i);\<close> on an array that has room for \<open>n\<close> elements.\<close>

definition fill_loop :: "(nat \<Rightarrow> 'a) \<Rightarrow> nat \<Rightarrow> 'a list \<Rightarrow> 'a list" where
  "fill_loop f n xs = fold (\<lambda>i ys. ys[i := f i]) [0..<n] xs"

lemma fill_loop_0 [simp]: "fill_loop f 0 xs = xs"
  by (simp add: fill_loop_def)

lemma fill_loop_Suc: "fill_loop f (Suc n) xs = (fill_loop f n xs)[n := f n]"
  by (simp add: fill_loop_def)

lemma length_fill_loop [simp]: "length (fill_loop f n xs) = length xs"
  by (induction n) (simp_all add: fill_loop_Suc)

lemma fill_loop_eq: "n \<le> length xs \<Longrightarrow> fill_loop f n xs = map f [0..<n] @ drop n xs"
proof (induction n)
  case 0
  then show ?case by simp
next
  case (Suc n)
  then have "drop n xs = xs ! n # drop (Suc n) xs" by (simp add: Cons_nth_drop_Suc)
  with Suc show ?case by (simp add: fill_loop_Suc list_update_append)
qed

section \<open>Ring buffers\<close>

text \<open>The \<open>n\<close> elements of a circular array from index \<open>h\<close> on.\<close>

definition ring :: "'a list \<Rightarrow> nat \<Rightarrow> nat \<Rightarrow> 'a list" where
  "ring buf h n = map (\<lambda>k. buf ! ((h + k) mod length buf)) [0..<n]"

lemma length_ring [simp]: "length (ring buf h n) = n"
  by (simp add: ring_def)

lemma ring_0 [simp]: "ring buf h 0 = []"
  by (simp add: ring_def)

lemma ring_index_inj:
  assumes "k < n" "n < l" "(h + k) mod l = (h + n) mod (l :: nat)"
  shows False
proof -
  from assms(3) have "(h + n - (h + k)) mod l = 0"
    by (metis add_le_cancel_left assms(1) less_imp_le_nat mod_eq_dvd_iff_nat mod_0_imp_dvd dvd_imp_mod_0)
  with assms(1,2) show False by simp
qed

lemma ring_snoc:
  assumes "n < length buf"
  shows "ring (buf[(h + n) mod length buf := x]) h (Suc n) = ring buf h n @ [x]"
proof -
  have "0 < length buf" using assms by (rule le_less_trans [OF le0])
  then have "(h + n) mod length buf < length buf" by (rule mod_less_divisor)
  then have last: "buf[(h + n) mod length buf := x] ! ((h + n) mod length buf) = x" by simp
  have "buf[(h + n) mod length buf := x] ! ((h + k) mod length buf) = buf ! ((h + k) mod length buf)"
    if "k < n" for k
    using ring_index_inj [OF that assms] by (metis nth_list_update_neq)
  with last show ?thesis by (simp add: ring_def)
qed

lemma ring_Cons:
  assumes "h < length buf"
  shows "ring buf h (Suc n) = buf ! h # ring buf ((h + 1) mod length buf) n"
proof (rule nth_equalityI)
  fix i assume "i < length (ring buf h (Suc n))"
  then show "ring buf h (Suc n) ! i = (buf ! h # ring buf ((h + 1) mod length buf) n) ! i"
    using assms by (cases i) (auto simp: ring_def mod_simps simp del: upt_Suc)
qed simp

text \<open>Indices of a circular array of size \<open>n\<close>, with the wrap-around written as a case split.\<close>

lemma wrap_succ: "t < n \<Longrightarrow> Suc t mod n = (if Suc t = n then 0 else Suc t)" for t n :: nat
  by simp

lemma wrap_diff:
  fixes h t n :: nat
  assumes "h < n" "t < n"
  shows "(t + n - h) mod n = (if h \<le> t then t - h else t + n - h)"
proof (cases "h \<le> t")
  case True
  then have "(t + n - h) mod n = ((t - h) + n) mod n" by simp
  also have "\<dots> = (t - h) mod n" by (rule mod_add_self2)
  finally show ?thesis using assms True by simp
qed (use assms in simp)

lemma wrap_add:
  fixes a b n :: nat
  assumes "a < n" "b < n"
  shows "(a + b) mod n = (if a + b < n then a + b else a + b - n)"
  using assms by (simp add: mod_if)

lemma ring_full_iff:
  fixes h t n :: nat
  assumes "h < n" "t < n"
  shows "(t + 1) mod n = h \<longleftrightarrow> n - 1 \<le> (t + n - h) mod n"
  using assms wrap_succ [OF assms(2)] wrap_diff [OF assms] by (auto split: if_splits)

lemma ring_empty_iff:
  fixes h t n :: nat
  assumes "h < n" "t < n"
  shows "h = t \<longleftrightarrow> (t + n - h) mod n = 0"
  using assms by (auto simp: wrap_diff)

lemma ring_advance_tail:
  fixes h t n :: nat
  assumes "h < n" "t < n" "(t + 1) mod n \<noteq> h"
  shows "((t + 1) mod n + n - h) mod n = Suc ((t + n - h) mod n)"
proof -
  have "(t + 1) mod n < n" using assms(1) by simp
  from wrap_diff [OF assms(1) this] wrap_diff [OF assms(1,2)] wrap_succ [OF assms(2)] assms
  show ?thesis by (auto split: if_splits)
qed

lemma ring_tail_index:
  fixes h t n :: nat
  assumes "h < n" "t < n"
  shows "(h + (t + n - h) mod n) mod n = t"
  using assms by (simp add: wrap_diff)

lemma ring_advance_head:
  fixes h t n :: nat
  assumes "h < n" "t < n" "h \<noteq> t"
  shows "(t + n - h) mod n = Suc ((t + n - (h + 1) mod n) mod n)"
proof -
  have "(h + 1) mod n < n" using assms(1) by simp
  from wrap_diff [OF this assms(2)] wrap_diff [OF assms(1,2)] wrap_succ [OF assms(1)] assms
  show ?thesis by (auto split: if_splits)
qed

section \<open>Words\<close>

lemma unat_succ_mod:
  fixes x :: "'a :: len word"
  assumes "unat x < m" and "m < 2 ^ LENGTH('a)"
  shows "unat ((x + 1) mod of_nat m) = (unat x + 1) mod m"
proof -
  have "unat (x + 1) = unat x + 1" using assms by (subst unat_add_lem [THEN iffD1]) auto
  then show ?thesis using assms by (simp add: unat_mod_distrib unat_of_nat take_bit_eq_mod)
qed

lemma unat_of_nat_small: "n < 2 ^ LENGTH('a :: len) \<Longrightarrow> unat (of_nat n :: 'a word) = n"
  by (simp add: unat_of_nat take_bit_nat_eq_self)

lemma unat_take_bit_mod: "unat (take_bit n (a :: 'a :: len word)) = unat a mod 2 ^ n"
  by (subst take_bit_eq_mod [symmetric]) (rule unsigned_take_bit_eq)

lemma unat_drop_bit_div: "unat (drop_bit n (a :: 'a :: len word)) = unat a div 2 ^ n"
  by (subst drop_bit_eq_div [symmetric]) (rule unat_drop_bit_eq)

section \<open>Little-endian words\<close>

text \<open>\<open>a | b << 8 | c << 16 | d << 24\<close> on bytes, and the word in four bytes of memory.\<close>

definition le_word :: "u8 \<Rightarrow> u8 \<Rightarrow> u8 \<Rightarrow> u8 \<Rightarrow> u32" where
  "le_word a b c d = ucast a OR push_bit 8 (ucast b) OR push_bit 16 (ucast c) OR push_bit 24 (ucast d)"

lemma le_word_bytes:
  "ucast (drop_bit 0 (le_word a b c d)) = a" "ucast (drop_bit 8 (le_word a b c d)) = b"
  "ucast (drop_bit 16 (le_word a b c d)) = c" "ucast (drop_bit 24 (le_word a b c d)) = d"
  unfolding le_word_def
  by (rule bit_word_eqI; auto simp: bit_simps dest: bit_imp_le_length)+

lemma le_word_byte:
  "r < 4 \<Longrightarrow> ucast (drop_bit (8 * r) (le_word (f 0) (f 1) (f 2) (f 3))) = f r"
  using le_word_bytes [of "f 0" "f 1" "f 2" "f 3"] by (auto simp: less_Suc_eq numeral_eq_Suc)

definition le_bytes :: "u32 \<Rightarrow> u8 list" where
  "le_bytes w = [ucast w, ucast (drop_bit 8 w), ucast (drop_bit 16 w), ucast (drop_bit 24 w)]"

lemma le_word_split [le_simps]:
  "le_word (ucast w) (ucast (drop_bit 8 w)) (ucast (drop_bit 16 w)) (ucast (drop_bit 24 w)) = w"
  unfolding le_word_def
proof (rule bit_word_eqI)
  fix n assume n: "n < LENGTH(32)"
  consider "n < 8" | "8 \<le> n" "n < 16" | "16 \<le> n" "n < 24" | "24 \<le> n" by linarith
  then show "bit (ucast (ucast w :: u8) OR push_bit 8 (ucast (ucast (drop_bit 8 w) :: u8)) OR
      push_bit 16 (ucast (ucast (drop_bit 16 w) :: u8)) OR
      push_bit 24 (ucast (ucast (drop_bit 24 w) :: u8) :: u32)) n = bit w n"
    using n by cases (auto simp: bit_simps dest: bit_imp_le_length)
qed

lemma length_le_bytes [simp]: "length (le_bytes w) = 4"
  by (simp add: le_bytes_def)

lemma ucast_byte: "(ucast (w AND 0xFF) :: u8) = ucast (w :: u32)"
proof -
  have "w AND 0xFF = take_bit 8 w" by (simp add: take_bit_eq_mask mask_eq_exp_minus_1)
  then show ?thesis by (intro bit_word_eqI) (simp add: bit_simps)
qed

text \<open>An unsigned integer in \<open>k\<close> bytes, least significant first, and the integer bytes stand for.\<close>

primrec le_enc :: "nat \<Rightarrow> nat \<Rightarrow> u8 list" where
  "le_enc 0 n = []"
| "le_enc (Suc k) n = of_nat n # le_enc k (n div 256)"

primrec le_dec :: "u8 list \<Rightarrow> nat" where
  "le_dec [] = 0"
| "le_dec (b # bs) = unat b + 256 * le_dec bs"

lemma length_le_enc [simp]: "length (le_enc k n) = k"
  by (induction k arbitrary: n) simp_all

lemma le_dec_enc [le_simps]: "le_dec (le_enc k n) = n mod 256 ^ k"
proof (induction k arbitrary: n)
  case (Suc k)
  have "n mod (256 * 256 ^ k) = n mod 256 + 256 * (n div 256 mod 256 ^ k)"
    by (simp add: mod_mult2_eq)
  then show ?case by (simp add: Suc unat_of_nat take_bit_eq_mod)
qed simp

lemma le_dec_bound: "le_dec bs < 256 ^ length bs"
proof (induction bs)
  case (Cons b bs)
  then have "le_dec bs + 1 \<le> 256 ^ length bs" by simp
  then have "256 * (le_dec bs + 1) \<le> 256 * 256 ^ length bs" by (rule mult_le_mono2)
  with unsigned_less [where 'a = nat, of b] show ?case by simp
qed simp

lemma le_enc_dec [le_simps]: "length bs = k \<Longrightarrow> le_enc k (le_dec bs) = bs"
proof (induction k arbitrary: bs)
  case (Suc k)
  then obtain b cs where bs: "bs = b # cs" "length cs = k" by (cases bs) auto
  have "(unat b + 256 * le_dec cs) div 256 = le_dec cs"
    using unsigned_less [where 'a = nat, of b] by simp
  moreover have "(of_nat (unat b + 256 * le_dec cs) :: u8) = b"
    using unsigned_less [where 'a = nat, of b]
    by (simp only: word_unat_eq_iff unat_of_nat take_bit_eq_mod) simp
  ultimately show ?case using Suc.IH [OF bs(2)] bs(1) by simp
qed simp

end
