(* ===== verification/Interfaces.thy ===== *)
theory Interfaces
  imports Prelude
begin

text \<open>
  The contracts that several components of the system provide and others rely on: a bounded
  first-in first-out message queue (the kernel's IPC ring, the boot loader's shared-memory
  queues), an allocator of numbered resources (physical pages, inodes, blocks), a store of blocks
  (a disk in a host file, swap space) and a registry of
  services in which the first registration of a name wins. Each is a locale; the components interpret it on their own operations, and what a client may conclude
  from the contract is proved once here.
\<close>

section \<open>Bounded message queues\<close>

datatype 'a qop = Send 'a | Receive

text \<open>
  A client's session with a queue: the final queue, the requests the queue accepted and the
  messages it handed out, both in order.
\<close>

fun run_fifo :: "('a \<Rightarrow> 'q \<Rightarrow> 'q option) \<Rightarrow> ('q \<Rightarrow> ('m \<times> 'q) option) \<Rightarrow> 'q \<Rightarrow> 'a qop list
    \<Rightarrow> 'q \<times> 'a list \<times> 'm list" where
  "run_fifo enq deq q [] = (q, [], [])"
| "run_fifo enq deq q (Send a # ops) =
     (case enq a q of
        None \<Rightarrow> run_fifo enq deq q ops
      | Some q' \<Rightarrow> (case run_fifo enq deq q' ops of (r, acc, got) \<Rightarrow> (r, a # acc, got)))"
| "run_fifo enq deq q (Receive # ops) =
     (case deq q of
        None \<Rightarrow> run_fifo enq deq q ops
      | Some (m, q') \<Rightarrow> (case run_fifo enq deq q' ops of (r, acc, got) \<Rightarrow> (r, acc, m # got)))"

locale bounded_fifo =
  fixes enq :: "'a \<Rightarrow> 'q \<Rightarrow> 'q option"
    and deq :: "'q \<Rightarrow> ('m \<times> 'q) option"
    and entry :: "'a \<Rightarrow> 'm"
    and items :: "'q \<Rightarrow> 'm list"
    and wf :: "'q \<Rightarrow> bool"
    and cap :: nat
  assumes enq_room: "wf q \<Longrightarrow> length (items q) < cap \<Longrightarrow>
      \<exists>q'. enq a q = Some q' \<and> wf q' \<and> items q' = items q @ [entry a]"
    and enq_full: "wf q \<Longrightarrow> cap \<le> length (items q) \<Longrightarrow> enq a q = None"
    and deq_empty: "wf q \<Longrightarrow> items q = [] \<Longrightarrow> deq q = None"
    and deq_head: "wf q \<Longrightarrow> items q = m # ms \<Longrightarrow>
      \<exists>q'. deq q = Some (m, q') \<and> wf q' \<and> items q' = ms"
begin

lemma enq_SomeD:
  assumes "wf q" and "enq a q = Some q'"
  shows "wf q'" "items q' = items q @ [entry a]" "length (items q) < cap"
proof -
  show room: "length (items q) < cap" using enq_full [OF assms(1), of a] assms(2) by fastforce
  then show "wf q'" "items q' = items q @ [entry a]"
    using enq_room [OF assms(1), of a] assms(2) by auto
qed

lemma deq_SomeD:
  assumes "wf q" and "deq q = Some (m, q')"
  shows "wf q'" "items q = m # items q'"
proof -
  obtain x xs where ne: "items q = x # xs"
    using deq_empty [OF assms(1)] assms(2) by (cases "items q") auto
  from deq_head [OF assms(1) ne] assms(2)
  show "wf q'" "items q = m # items q'" using ne by auto
qed

lemma deq_NoneD: "wf q \<Longrightarrow> deq q = None \<Longrightarrow> items q = []"
  using deq_head by (cases "items q") fastforce+

text \<open>
  Nothing is lost, duplicated or reordered: what was pending and what was accepted since, in
  order, is what was handed out followed by what is still pending.
\<close>

lemma session_order:
  assumes "wf q" and "run_fifo enq deq q ops = (q', acc, got)"
  shows "wf q' \<and> items q @ map entry acc = got @ items q' \<and>
    (length (items q) \<le> cap \<longrightarrow> length (items q') \<le> cap)"
  using assms
proof (induction ops arbitrary: q q' acc got)
  case Nil
  then show ?case by simp
next
  case (Cons x ops)
  show ?case
  proof (cases x)
    case (Send a)
    show ?thesis
    proof (cases "enq a q")
      case None
      with Send Cons show ?thesis by simp
    next
      case (Some q1)
      obtain r acc1 got1 where run: "run_fifo enq deq q1 ops = (r, acc1, got1)"
        by (cases "run_fifo enq deq q1 ops")
      with Send Some Cons.prems(2) have "q' = r" "acc = a # acc1" "got = got1" by simp_all
      with Cons.IH [OF enq_SomeD(1) [OF Cons.prems(1) Some] run]
        enq_SomeD(2,3) [OF Cons.prems(1) Some] show ?thesis by simp
    qed
  next
    case Receive
    show ?thesis
    proof (cases "deq q")
      case None
      with Receive Cons show ?thesis by simp
    next
      case (Some p)
      obtain m q1 where p: "p = (m, q1)" by (cases p)
      with Some have d: "deq q = Some (m, q1)" by simp
      obtain r acc1 got1 where run: "run_fifo enq deq q1 ops = (r, acc1, got1)"
        by (cases "run_fifo enq deq q1 ops")
      with Receive d Cons.prems(2) have "q' = r" "acc = acc1" "got = m # got1" by simp_all
      with Cons.IH [OF deq_SomeD(1) [OF Cons.prems(1) d] run]
        deq_SomeD(2) [OF Cons.prems(1) d] show ?thesis by simp
    qed
  qed
qed

end

section \<open>Allocators of numbered resources\<close>

text \<open>\<open>n\<close> allocations in a row; the resources obtained, in order.\<close>

fun alloc_many :: "('s \<Rightarrow> 'r option \<times> 's) \<Rightarrow> nat \<Rightarrow> 's \<Rightarrow> 'r list \<times> 's" where
  "alloc_many al 0 s = ([], s)"
| "alloc_many al (Suc n) s =
     (case al s of
        (None, s') \<Rightarrow> alloc_many al n s'
      | (Some r, s') \<Rightarrow> (case alloc_many al n s' of (rs, s'') \<Rightarrow> (r # rs, s'')))"

locale allocator =
  fixes al :: "'s \<Rightarrow> 'r option \<times> 's"
    and pool :: "'s \<Rightarrow> 'r set"
    and used :: "'s \<Rightarrow> 'r \<Rightarrow> bool"
    and wf :: "'s \<Rightarrow> bool"
  assumes alloc_Some: "wf s \<Longrightarrow> al s = (Some r, s') \<Longrightarrow>
      r \<in> pool s \<and> \<not> used s r \<and> pool s' = pool s \<and> wf s' \<and>
      (\<forall>q \<in> pool s. used s' q \<longleftrightarrow> used s q \<or> q = r)"
    and alloc_None: "wf s \<Longrightarrow> al s = (None, s') \<Longrightarrow> s' = s \<and> (\<forall>r \<in> pool s. used s r)"
begin

lemma alloc_succeeds:
  assumes "wf s" and "r \<in> pool s" and "\<not> used s r"
  shows "\<exists>q s'. al s = (Some q, s')"
  using alloc_None [OF assms(1)] assms by (cases "al s"; cases "fst (al s)") auto

text \<open>No resource is handed out twice, and only resources that were free are.\<close>

lemma alloc_many_distinct:
  assumes "wf s" and "alloc_many al n s = (rs, s')"
  shows "wf s' \<and> pool s' = pool s \<and> distinct rs \<and> set rs \<subseteq> {r \<in> pool s. \<not> used s r} \<and>
    (\<forall>q \<in> pool s. used s' q \<longleftrightarrow> used s q \<or> q \<in> set rs)"
  using assms
proof (induction n arbitrary: s rs s')
  case 0
  then show ?case by simp
next
  case (Suc n)
  obtain x s1 where a: "al s = (x, s1)" by (cases "al s")
  show ?case
  proof (cases x)
    case None
    with a alloc_None [OF Suc.prems(1)] have "s1 = s" by simp
    with None a Suc show ?thesis by auto
  next
    case (Some r)
    from alloc_Some [OF Suc.prems(1)] a Some
    have r: "r \<in> pool s" "\<not> used s r" "pool s1 = pool s" "wf s1"
      "\<forall>q \<in> pool s. used s1 q \<longleftrightarrow> used s q \<or> q = r" by auto
    obtain rs1 where rs: "rs = r # rs1" and m: "alloc_many al n s1 = (rs1, s')"
      using Suc.prems(2) a Some by (auto split: prod.splits)
    from Suc.IH [OF r(4) m] r rs show ?thesis by auto
  qed
qed

lemma alloc_many_full:
  assumes "wf s" and "alloc_many al n s = (rs, s')" and "length rs < n"
  shows "\<forall>r \<in> pool s. used s' r"
  using assms
proof (induction n arbitrary: s rs s')
  case 0
  then show ?case by simp
next
  case (Suc n)
  obtain x s1 where a: "al s = (x, s1)" by (cases "al s")
  show ?case
  proof (cases x)
    case None
    with a alloc_None [OF Suc.prems(1)] have full: "\<forall>r \<in> pool s. used s r" and "s1 = s" by auto
    with None a Suc.prems alloc_many_distinct [OF Suc.prems(1)] show ?thesis
      by (metis (mono_tags, lifting) alloc_many.simps(2) option.simps(4) prod.simps(2))
  next
    case (Some r)
    from alloc_Some [OF Suc.prems(1)] a Some
    have r: "pool s1 = pool s" "wf s1" by auto
    obtain rs1 where rs: "rs = r # rs1" and m: "alloc_many al n s1 = (rs1, s')"
      using Suc.prems(2) a Some by (auto split: prod.splits)
    from Suc.IH [OF r(2) m] Suc.prems(3) rs r(1) show ?thesis by simp
  qed
qed

end

section \<open>Registries\<close>

text \<open>Registrations in a row; those that find the table full have no effect.\<close>

fun reg_all :: "('k \<Rightarrow> 'v \<Rightarrow> 's \<Rightarrow> 's option) \<Rightarrow> ('k \<times> 'v) list \<Rightarrow> 's \<Rightarrow> 's" where
  "reg_all reg [] s = s"
| "reg_all reg ((k, v) # kvs) s =
     (case reg k v s of None \<Rightarrow> reg_all reg kvs s | Some s' \<Rightarrow> reg_all reg kvs s')"

locale registry =
  fixes reg :: "'k \<Rightarrow> 'v \<Rightarrow> 's \<Rightarrow> 's option"
    and look :: "'k \<Rightarrow> 's \<Rightarrow> 'v option"
    and wf :: "'s \<Rightarrow> bool"
    and entries :: "'s \<Rightarrow> nat"
    and room :: nat
  assumes reg_room: "wf s \<Longrightarrow> entries s < room \<Longrightarrow>
      \<exists>s'. reg k v s = Some s' \<and> wf s' \<and> entries s' = Suc (entries s) \<and>
        (\<forall>j. look j s' = (if look j s = None \<and> j = k then Some v else look j s))"
    and reg_full: "wf s \<Longrightarrow> room \<le> entries s \<Longrightarrow> reg k v s = None"
begin

text \<open>
  After any registrations a lookup finds the first registration of the key among those that fit,
  and an earlier registration is never displaced.
\<close>

lemma reg_all_look:
  assumes "wf s"
  shows "wf (reg_all reg kvs s) \<and> look j (reg_all reg kvs s) =
    (case look j s of Some v \<Rightarrow> Some v | None \<Rightarrow> map_of (take (room - entries s) kvs) j)"
  using assms
proof (induction kvs arbitrary: s)
  case Nil
  then show ?case by (simp split: option.split)
next
  case (Cons kv kvs)
  obtain k v where kv: "kv = (k, v)" by (cases kv)
  show ?case
  proof (cases "entries s < room")
    case True
    from reg_room [OF Cons.prems True, of k v] obtain s' where
      s': "reg k v s = Some s'" "wf s'" "entries s' = Suc (entries s)"
        "\<And>j. look j s' = (if look j s = None \<and> j = k then Some v else look j s)" by blast
    have "room - entries s = Suc (room - entries s')" using True s'(3) by simp
    with Cons.IH [OF s'(2)] show ?thesis by (auto simp: kv s'(1,4) split: option.split)
  next
    case False
    then have "reg k v s = None" using reg_full [OF Cons.prems] by simp
    moreover have "take (room - entries s) xs = []" for xs :: "('k \<times> 'v) list" using False by simp
    ultimately show ?thesis using Cons.IH [OF Cons.prems] by (simp only: reg_all.simps kv option.simps)
  qed
qed

end

section \<open>Stores of blocks\<close>

locale block_store =
  fixes wr :: "'b \<Rightarrow> 'v list \<Rightarrow> 'd \<Rightarrow> 'd"
    and rd :: "'b \<Rightarrow> 'd \<Rightarrow> 'v list"
    and valid :: "'d \<Rightarrow> 'b \<Rightarrow> bool"
    and bsize :: "'d \<Rightarrow> nat"
  assumes wr_same: "valid d b \<Longrightarrow> length data = bsize d \<Longrightarrow> rd b (wr b data d) = data"
    and wr_other: "valid d b \<Longrightarrow> length data = bsize d \<Longrightarrow> c \<noteq> b \<Longrightarrow> rd c (wr b data d) = rd c d"
    and wr_size: "valid d b \<Longrightarrow> length data = bsize d \<Longrightarrow> bsize (wr b data d) = bsize d"
    and wr_valid: "valid d b \<Longrightarrow> length data = bsize d \<Longrightarrow> valid (wr b data d) = valid d"
begin

text \<open>After any writes a block holds what was written to it last.\<close>

lemma last_write:
  assumes "\<forall>(b, data) \<in> set ws. valid d b \<and> length data = bsize d"
  shows "rd c (fold (\<lambda>(b, data). wr b data) ws d) =
    (case map_of (rev ws) c of Some data \<Rightarrow> data | None \<Rightarrow> rd c d)"
  using assms
proof (induction ws arbitrary: d)
  case (Cons w ws)
  obtain b data where w: "w = (b, data)" by (cases w)
  with Cons.prems have v: "valid d b" "length data = bsize d" by simp_all
  have "\<forall>(b', data') \<in> set ws. valid (wr b data d) b' \<and> length data' = bsize (wr b data d)"
    using Cons.prems v by (auto simp: wr_size wr_valid)
  from Cons.IH [OF this] v show ?case
    by (auto simp: w map_add_def wr_same wr_other split: option.split)
qed simp

end

section \<open>Pools of addresses for clients\<close>

locale address_pool =
  fixes assign :: "'c \<Rightarrow> 's \<Rightarrow> ('a option \<times> 's) option"
    and key :: "'c \<Rightarrow> 'k"
    and held :: "'s \<Rightarrow> ('k \<times> 'a) list"
    and pool :: "'s \<Rightarrow> 'a set"
    and wf :: "'s \<Rightarrow> bool"
    and cap :: nat
  assumes assign_known: "wf s \<Longrightarrow> map_of (held s) (key c) = Some a \<Longrightarrow> assign c s = Some (Some a, s)"
    and assign_new: "wf s \<Longrightarrow> map_of (held s) (key c) = None \<Longrightarrow>
      (assign c s = Some (None, s) \<and> (cap \<le> length (held s) \<or> pool s \<subseteq> snd ` set (held s))) \<or>
      (\<exists>a s'. assign c s = Some (Some a, s') \<and> wf s' \<and> pool s' = pool s \<and> held s' = held s @ [(key c, a)] \<and>
        a \<in> pool s \<and> a \<notin> snd ` set (held s))"
begin

text \<open>No address is held twice, none outside the pool, and no client holds two.\<close>

definition fair :: "'s \<Rightarrow> bool" where
  "fair s \<longleftrightarrow> wf s \<and> distinct (map fst (held s)) \<and> distinct (map snd (held s)) \<and> snd ` set (held s) \<subseteq> pool s"

lemma assign_fair:
  assumes "fair s"
  shows "\<exists>r s'. assign c s = Some (r, s') \<and> fair s' \<and> pool s' = pool s \<and> map_of (held s) \<subseteq>\<^sub>m map_of (held s') \<and>
    (\<forall>a. r = Some a \<longrightarrow> map_of (held s') (key c) = Some a) \<and>
    (r = None \<longrightarrow> s' = s \<and> (cap \<le> length (held s) \<or> pool s \<subseteq> snd ` set (held s)))"
proof (cases "map_of (held s) (key c)")
  case (Some a)
  with assms assign_known [of s c a] show ?thesis by (auto simp: fair_def)
next
  case None
  have wf: "wf s" using assms by (simp add: fair_def)
  from assign_new [OF wf None] show ?thesis
  proof (elim disjE exE conjE)
    fix a s' assume a: "assign c s = Some (Some a, s')" "wf s'" "pool s' = pool s" "held s' = held s @ [(key c, a)]"
      "a \<in> pool s" "a \<notin> snd ` set (held s)"
    have "key c \<notin> fst ` set (held s)" using None by (simp add: map_of_eq_None_iff)
    with a assms None show ?thesis by (auto simp: fair_def map_le_def map_add_def split: option.split)
  qed (use assms in auto)
qed

text \<open>What is held is of the pool, and two clients hold the same address only if they are the same.\<close>

lemma held_unique:
  assumes "fair s" and "map_of (held s) k = Some a" and "map_of (held s) k' = Some a'"
  shows "a = a' \<longleftrightarrow> k = k'" and "a \<in> pool s"
proof -
  have at: "(k, a) \<in> set (held s)" "(k', a') \<in> set (held s)" and d: "distinct (map snd (held s))"
    using assms by (auto simp: fair_def dest: map_of_SomeD)
  from eq_key_imp_eq_value [of "map prod.swap (held s)" a k k'] at d have "k = k'" if "a = a'"
    using that by (auto simp: comp_def)
  with assms(2,3) show "a = a' \<longleftrightarrow> k = k'" by auto
  show "a \<in> pool s" using assms(1) at(1) by (force simp: fair_def)
qed

end

end
