(* ===== verification/Kernel_Mm.thy ===== *)
theory Kernel_Mm
  imports Interfaces
begin

text \<open>
  The kernel's memory manager, kernel/src/mm/mm.c: a bitmap of 4096 physical pages with a hint
  below which no page is free, and the two-level page tables of the first 16 MB. Page tables live
  in pages the allocator hands out, so the state holds the words of physical memory, by address.
  The allocator implements the allocator contract of \<open>Interfaces\<close>; mapping is stated against a
  walk of the tables as the processor does it.
\<close>

section \<open>Constants and state\<close>

definition PAGE_SIZE :: u32 where "PAGE_SIZE = 4096"
definition MEMORY_START :: u32 where "MEMORY_START = 0x100000"
definition MEMORY_SIZE :: u32 where "MEMORY_SIZE = 0x1000000"
definition MAX_PAGES :: nat where "MAX_PAGES = 4096"
definition PAGE_DIRECTORY_ENTRIES :: nat where "PAGE_DIRECTORY_ENTRIES = 1024"
definition PAGE_TABLE_ENTRIES :: nat where "PAGE_TABLE_ENTRIES = 1024"

definition PTE_PRESENT :: u32 where "PTE_PRESENT = 1"
definition PTE_WRITABLE :: u32 where "PTE_WRITABLE = 2"
definition PTE_USER :: u32 where "PTE_USER = 4"

definition MM_FLAG_READ :: u32 where "MM_FLAG_READ = 1"
definition MM_FLAG_WRITE :: u32 where "MM_FLAG_WRITE = 2"
definition MM_FLAG_USER :: u32 where "MM_FLAG_USER = 8"
definition MM_FLAG_USER_RW :: u32 where
  "MM_FLAG_USER_RW = MM_FLAG_READ OR MM_FLAG_WRITE OR MM_FLAG_USER"

record mm_state =
  page_bitmap :: "u8 list"
  next_free_page :: u32
  page_directory :: u32
  page_tables :: "u32 list"
  page_tables_initialized :: bool
  memory :: "u32 \<Rightarrow> u32"
  cr0 :: u64
  cr3 :: u64

text \<open>The statics at boot; what memory and the control registers hold then is unknown.\<close>

definition mm_boot :: "(u32 \<Rightarrow> u32) \<Rightarrow> u64 \<Rightarrow> u64 \<Rightarrow> mm_state" where
  "mm_boot mem c0 c3 = \<lparr>page_bitmap = replicate (MAX_PAGES div 8) 0, next_free_page = 0,
     page_directory = 0, page_tables = replicate 4 0, page_tables_initialized = False,
     memory = mem, cr0 = c0, cr3 = c3\<rparr>"

section \<open>Pages\<close>

definition page_addr :: "nat \<Rightarrow> u32" where
  "page_addr i = MEMORY_START + of_nat i * PAGE_SIZE"

definition mm_alloc_page :: "mm_state \<Rightarrow> u32 \<times> mm_state" where
  "mm_alloc_page s =
     (case scan (\<lambda>i. \<not> bm_test (page_bitmap s) i) (unat (next_free_page s)) MAX_PAGES of
        Some i \<Rightarrow> (page_addr i,
          s\<lparr>page_bitmap := bm_set (page_bitmap s) i, next_free_page := of_nat (i + 1)\<rparr>)
      | None \<Rightarrow> (0, s))"

definition mm_free_page :: "u64 \<Rightarrow> mm_state \<Rightarrow> mm_state" where
  "mm_free_page page s =
     (let addr = ucast page :: u32 in
      if addr < MEMORY_START then s
      else (let page_idx = (addr - MEMORY_START) div PAGE_SIZE in
        if unat page_idx \<ge> MAX_PAGES then s
        else s\<lparr>page_bitmap := bm_clear (page_bitmap s) (unat page_idx),
               next_free_page := (if page_idx < next_free_page s then page_idx
                                  else next_free_page s)\<rparr>))"

section \<open>Page tables\<close>

text \<open>\<open>p[j] = v\<close> and \<open>p[j]\<close> for a pointer \<open>p\<close> to 32-bit words.\<close>

definition store :: "u32 \<Rightarrow> nat \<Rightarrow> u32 \<Rightarrow> (u32 \<Rightarrow> u32) \<Rightarrow> u32 \<Rightarrow> u32" where
  "store p j v mem = mem(p + 4 * of_nat j := v)"

definition load :: "u32 \<Rightarrow> nat \<Rightarrow> (u32 \<Rightarrow> u32) \<Rightarrow> u32" where
  "load p j mem = mem (p + 4 * of_nat j)"

definition clear_table :: "u32 \<Rightarrow> nat \<Rightarrow> (u32 \<Rightarrow> u32) \<Rightarrow> u32 \<Rightarrow> u32" where
  "clear_table p n mem = fold (\<lambda>j m. store p j 0 m) [0..<n] mem"

definition identity_entries :: "u32 \<Rightarrow> u32 \<Rightarrow> nat \<Rightarrow> (u32 \<Rightarrow> u32) \<Rightarrow> u32 \<Rightarrow> u32" where
  "identity_entries p base_addr n mem =
     fold (\<lambda>j m.
        let phys_addr = base_addr + of_nat j * PAGE_SIZE in
        if phys_addr \<ge> MEMORY_START \<and> phys_addr < MEMORY_START + MEMORY_SIZE
        then store p j (phys_addr OR PTE_PRESENT OR PTE_WRITABLE) m
        else m) [0..<n] mem"

text \<open>One turn of the loop over the four page tables; the flag is whether a page was found.\<close>

definition init_table :: "nat \<Rightarrow> mm_state \<Rightarrow> bool \<times> mm_state" where
  "init_table i s =
     (case mm_alloc_page s of (p, s) \<Rightarrow>
        let s = s\<lparr>page_tables := (page_tables s)[i := p]\<rparr> in
        if p = 0 then (False, s)
        else
          (let mem = clear_table p PAGE_TABLE_ENTRIES (memory s);
               mem = identity_entries p (of_nat i * 4 * 1024 * 1024) PAGE_TABLE_ENTRIES mem;
               mem = store (page_directory s) i (p OR PTE_PRESENT OR PTE_WRITABLE) mem
           in (True, s\<lparr>memory := mem\<rparr>)))"

fun init_tables :: "nat list \<Rightarrow> mm_state \<Rightarrow> bool \<times> mm_state" where
  "init_tables [] s = (True, s)"
| "init_tables (i # is) s =
     (case init_table i s of (ok, s') \<Rightarrow> if ok then init_tables is s' else (False, s'))"

definition init_page_tables :: "mm_state \<Rightarrow> int \<times> mm_state" where
  "init_page_tables s =
     (if page_tables_initialized s then (0, s)
      else (case mm_alloc_page s of (p, s) \<Rightarrow>
        let s = s\<lparr>page_directory := p\<rparr> in
        if p = 0 then (-1, s)
        else
          (let s = s\<lparr>memory := clear_table p PAGE_DIRECTORY_ENTRIES (memory s)\<rparr> in
           case init_tables [0, 1, 2, 3] s of (ok, s) \<Rightarrow>
             if ok then (0, s\<lparr>page_tables_initialized := True\<rparr>) else (-1, s))))"

definition mm_map_page :: "u32 \<Rightarrow> u32 \<Rightarrow> u32 \<Rightarrow> mm_state \<Rightarrow> int \<times> mm_state" where
  "mm_map_page virtual_addr physical_addr flags s =
     (case (if page_tables_initialized s then (0, s) else init_page_tables s) of (rc, s) \<Rightarrow>
        if rc \<noteq> 0 then (-1, s)
        else if physical_addr < MEMORY_START \<or> physical_addr \<ge> MEMORY_START + MEMORY_SIZE
        then (-1, s)
        else if virtual_addr \<ge> 16 * 1024 * 1024 then (-1, s)
        else
          (let page_dir_index = drop_bit 22 virtual_addr;
               page_table_index = drop_bit 12 virtual_addr AND 0x3FF
           in if page_dir_index \<ge> 4 \<or> page_tables s ! unat page_dir_index = 0 then (-1, s)
              else (0, s\<lparr>memory := store (page_tables s ! unat page_dir_index)
                     (unat page_table_index) (physical_addr OR flags OR PTE_PRESENT) (memory s)\<rparr>)))"

definition mm_get_page_directory :: "mm_state \<Rightarrow> u32 \<times> mm_state" where
  "mm_get_page_directory s =
     (case (if page_tables_initialized s then (0, s) else init_page_tables s) of (rc, s) \<Rightarrow>
        if rc \<noteq> 0 then (0, s) else (page_directory s, s))"

text \<open>\<open>orl\<close> on the low half of a register clears its high half.\<close>

definition mm_enable_paging :: "mm_state \<Rightarrow> mm_state" where
  "mm_enable_paging s =
     (case mm_get_page_directory s of (pd, s) \<Rightarrow>
        if pd \<noteq> 0
        then s\<lparr>cr3 := ucast pd, cr0 := ucast ((ucast (cr0 s) :: u32) OR 0x80000000)\<rparr>
        else s)"

section \<open>What the processor sees\<close>

text \<open>
  The page-table walk for a 32-bit virtual address: the entry that maps its page, when the
  directory entry is present.
\<close>

definition walk :: "mm_state \<Rightarrow> u32 \<Rightarrow> u32 option" where
  "walk s va =
     (let pde = load (page_directory s) (unat (drop_bit 22 va)) (memory s) in
      if pde AND PTE_PRESENT = 0 then None
      else Some (load (pde AND 0xFFFFF000) (unat (drop_bit 12 va AND 0x3FF)) (memory s)))"

section \<open>Well-formed states\<close>

definition mm_wf :: "mm_state \<Rightarrow> bool" where
  "mm_wf s \<longleftrightarrow> length (page_bitmap s) = MAX_PAGES div 8 \<and> length (page_tables s) = 4 \<and>
     unat (next_free_page s) \<le> MAX_PAGES \<and>
     (\<forall>i < unat (next_free_page s). bm_test (page_bitmap s) i)"

definition mm_pool :: "mm_state \<Rightarrow> u32 set" where
  "mm_pool s = page_addr ` {..<MAX_PAGES}"

definition page_index :: "u32 \<Rightarrow> nat" where
  "page_index a = (unat a - unat MEMORY_START) div 4096"

definition mm_used :: "mm_state \<Rightarrow> u32 \<Rightarrow> bool" where
  "mm_used s a \<longleftrightarrow> bm_test (page_bitmap s) (page_index a)"

lemmas mm_consts = PAGE_SIZE_def MEMORY_START_def MEMORY_SIZE_def MAX_PAGES_def
  PAGE_DIRECTORY_ENTRIES_def PAGE_TABLE_ENTRIES_def

lemma unat_page_addr: "i < MAX_PAGES \<Longrightarrow> unat (page_addr i) = 0x100000 + i * 4096"
  by (simp add: page_addr_def mm_consts unat_word_ariths unat_of_nat take_bit_eq_mod)

lemma page_index_addr [simp]: "i < MAX_PAGES \<Longrightarrow> page_index (page_addr i) = i"
  by (simp add: page_index_def unat_page_addr MEMORY_START_def)

lemma page_addr_inj: "i < MAX_PAGES \<Longrightarrow> j < MAX_PAGES \<Longrightarrow> page_addr i = page_addr j \<longleftrightarrow> i = j"
  by (metis page_index_addr)

lemma page_addr_nonzero [simp]: "i < MAX_PAGES \<Longrightarrow> page_addr i \<noteq> 0"
  using unat_page_addr [of i] by (metis unat_0 add_is_0 zero_neq_numeral)

lemma page_div_8: "i < MAX_PAGES \<Longrightarrow> i div 8 < MAX_PAGES div 8"
  by (simp add: MAX_PAGES_def)

lemma mm_wf_boot [simp]: "mm_wf (mm_boot mem c0 c3)"
  by (simp add: mm_wf_def mm_boot_def MAX_PAGES_def)

lemma mm_alloc_Some:
  assumes "scan (\<lambda>i. \<not> bm_test (page_bitmap s) i) (unat (next_free_page s)) MAX_PAGES = Some i"
    and wf: "mm_wf s"
  shows "i < MAX_PAGES" "\<not> bm_test (page_bitmap s) i" "\<forall>j < i. bm_test (page_bitmap s) j"
    and "mm_wf (snd (mm_alloc_page s))"
    and "mm_alloc_page s = (page_addr i,
      s\<lparr>page_bitmap := bm_set (page_bitmap s) i, next_free_page := of_nat (i + 1)\<rparr>)"
proof -
  note sc = scan_SomeD [OF assms(1)]
  show i: "i < MAX_PAGES" "\<not> bm_test (page_bitmap s) i" using sc by auto
  show low: "\<forall>j < i. bm_test (page_bitmap s) j"
    using sc wf by (auto simp: mm_wf_def) (metis not_le)
  show alloc: "mm_alloc_page s = (page_addr i,
      s\<lparr>page_bitmap := bm_set (page_bitmap s) i, next_free_page := of_nat (i + 1)\<rparr>)"
    using assms(1) by (simp add: mm_alloc_page_def)
  have "unat (of_nat (i + 1) :: u32) = i + 1"
    using i by (intro unat_of_nat_small) (simp add: MAX_PAGES_def)
  then show "mm_wf (snd (mm_alloc_page s))"
    using wf i low page_div_8 [OF i(1)] alloc
    by (auto simp: mm_wf_def bitmap_simps less_Suc_eq)
qed

lemma mm_alloc_None:
  assumes "scan (\<lambda>i. \<not> bm_test (page_bitmap s) i) (unat (next_free_page s)) MAX_PAGES = None"
    and wf: "mm_wf s"
  shows "mm_alloc_page s = (0, s)" "\<forall>j < MAX_PAGES. bm_test (page_bitmap s) j"
  using assms scan_NoneD [OF assms(1)] by (auto simp: mm_alloc_page_def mm_wf_def) (metis not_le)

lemma mm_alloc_cases [case_names Full Page]:
  assumes "mm_wf s"
  obtains "mm_alloc_page s = (0, s)" "\<forall>j < MAX_PAGES. bm_test (page_bitmap s) j"
  | i where "i < MAX_PAGES" "\<not> bm_test (page_bitmap s) i" "\<forall>j < i. bm_test (page_bitmap s) j"
    "mm_alloc_page s = (page_addr i,
      s\<lparr>page_bitmap := bm_set (page_bitmap s) i, next_free_page := of_nat (i + 1)\<rparr>)"
    "mm_wf (snd (mm_alloc_page s))"
  using mm_alloc_Some [OF _ assms] mm_alloc_None [OF _ assms]
  by (cases "scan (\<lambda>i. \<not> bm_test (page_bitmap s) i) (unat (next_free_page s)) MAX_PAGES") blast+

lemma mm_wf_alloc: "mm_wf s \<Longrightarrow> mm_wf (snd (mm_alloc_page s))"
  by (rule mm_alloc_cases [of s]) simp_all

lemma mm_wf_frame [simp]:
  "mm_wf (s\<lparr>memory := m\<rparr>) = mm_wf s" "mm_wf (s\<lparr>page_directory := d\<rparr>) = mm_wf s"
  "mm_wf (s\<lparr>page_tables_initialized := b\<rparr>) = mm_wf s"
  "mm_wf (s\<lparr>page_tables := (page_tables s)[i := p]\<rparr>) = mm_wf s"
  by (simp_all add: mm_wf_def)

lemma mm_wf_init_table: "mm_wf s \<Longrightarrow> mm_wf (snd (init_table i s))"
  using mm_wf_alloc [of s] by (cases "mm_alloc_page s") (simp add: init_table_def Let_def)

lemma mm_wf_init_tables: "mm_wf s \<Longrightarrow> mm_wf (snd (init_tables is s))"
proof (induction "is" arbitrary: s)
  case (Cons i "is")
  with mm_wf_init_table [of s i] show ?case by (cases "init_table i s") simp
qed simp

lemma mm_wf_init_page_tables: "mm_wf s \<Longrightarrow> mm_wf (snd (init_page_tables s))"
proof -
  assume wf: "mm_wf s"
  obtain p s' where a: "mm_alloc_page s = (p, s')" by fastforce
  then have "mm_wf s'" using mm_wf_alloc [OF wf] by simp
  then have "mm_wf (snd (init_tables [0, 1, 2, 3] (s'\<lparr>page_directory := p,
      memory := clear_table p PAGE_DIRECTORY_ENTRIES (memory s')\<rparr>)))"
    by (intro mm_wf_init_tables) simp
  with wf a \<open>mm_wf s'\<close> show ?thesis
    by (auto simp: init_page_tables_def Let_def split: prod.split)
qed

lemma mm_wf_map_page: "mm_wf s \<Longrightarrow> mm_wf (snd (mm_map_page va pa flags s))"
  using mm_wf_init_page_tables [of s]
  by (cases "init_page_tables s") (auto simp: mm_map_page_def Let_def)

lemma mm_wf_get_page_directory: "mm_wf s \<Longrightarrow> mm_wf (snd (mm_get_page_directory s))"
  using mm_wf_init_page_tables [of s]
  by (cases "init_page_tables s") (auto simp: mm_get_page_directory_def)

section \<open>The allocator contract\<close>

definition mm_alloc :: "mm_state \<Rightarrow> u32 option \<times> mm_state" where
  "mm_alloc s = (case mm_alloc_page s of (p, s') \<Rightarrow> (if p = 0 then None else Some p, s'))"

interpretation pages: allocator mm_alloc mm_pool mm_used mm_wf
proof unfold_locales
  fix s r s' assume wf: "mm_wf s" and al: "mm_alloc s = (Some r, s')"
  from wf show "r \<in> mm_pool s \<and> \<not> mm_used s r \<and> mm_pool s' = mm_pool s \<and> mm_wf s' \<and>
      (\<forall>q \<in> mm_pool s. mm_used s' q \<longleftrightarrow> mm_used s q \<or> q = r)"
  proof (cases rule: mm_alloc_cases)
    case Full
    with al show ?thesis by (simp add: mm_alloc_def)
  next
    case (Page i)
    with al have r: "r = page_addr i" and s': "s' = snd (mm_alloc_page s)"
      by (auto simp: mm_alloc_def)
    have "i div 8 < length (page_bitmap s)" using wf page_div_8 [OF Page(1)] by (simp add: mm_wf_def)
    then show ?thesis using Page r s'
      by (auto simp: mm_pool_def mm_used_def bitmap_simps page_addr_inj)
  qed
next
  fix s s' assume wf: "mm_wf s" and al: "mm_alloc s = (None, s')"
  from wf show "s' = s \<and> (\<forall>r \<in> mm_pool s. mm_used s r)"
  proof (cases rule: mm_alloc_cases)
    case Full
    with al show ?thesis by (auto simp: mm_alloc_def mm_pool_def mm_used_def)
  next
    case (Page i)
    with al show ?thesis by (simp add: mm_alloc_def)
  qed
qed

section \<open>Words of a page\<close>

definition slot :: "nat \<Rightarrow> nat \<Rightarrow> u32" where
  "slot i j = page_addr i + 4 * of_nat j"

lemma unat_slot: "i < MAX_PAGES \<Longrightarrow> j < 1024 \<Longrightarrow> unat (slot i j) = 0x100000 + i * 4096 + 4 * j"
  by (simp add: slot_def page_addr_def mm_consts unat_word_ariths unat_of_nat take_bit_eq_mod)

lemma slot_inj:
  assumes "i < MAX_PAGES" "j < 1024" "i' < MAX_PAGES" "j' < 1024"
  shows "slot i j = slot i' j' \<longleftrightarrow> i = i' \<and> j = j'"
proof
  assume "slot i j = slot i' j'"
  then have eq: "i * 4096 + 4 * j = i' * 4096 + 4 * j'"
    using unat_slot [OF assms(1,2)] unat_slot [OF assms(3,4)] by simp
  then have "(i * 4096 + 4 * j) div 4096 = (i' * 4096 + 4 * j') div 4096" by simp
  then have "i = i'" using assms by simp
  with eq show "i = i' \<and> j = j'" by simp
qed simp

lemma store_slot: "store (page_addr i) j v mem = mem(slot i j := v)"
  by (simp add: store_def slot_def)

lemma load_slot: "load (page_addr i) j mem = mem (slot i j)"
  by (simp add: load_def slot_def)

lemma clear_table_slot:
  "i < MAX_PAGES \<Longrightarrow> n \<le> 1024 \<Longrightarrow>
   clear_table (page_addr i) n mem a = (if \<exists>j < n. a = slot i j then 0 else mem a)"
  by (induction n) (auto simp: clear_table_def store_slot less_Suc_eq)

definition identity_entry :: "u32 \<Rightarrow> nat \<Rightarrow> u32" where
  "identity_entry base j =
     (let a = base + of_nat j * PAGE_SIZE in
      if a \<ge> MEMORY_START \<and> a < MEMORY_START + MEMORY_SIZE then a OR PTE_PRESENT OR PTE_WRITABLE
      else 0)"

lemma identity_entries_Suc:
  "identity_entries p b (Suc n) mem =
     (let phys_addr = b + of_nat n * PAGE_SIZE in
        if phys_addr \<ge> MEMORY_START \<and> phys_addr < MEMORY_START + MEMORY_SIZE
        then store p n (phys_addr OR PTE_PRESENT OR PTE_WRITABLE) (identity_entries p b n mem)
        else identity_entries p b n mem)"
  by (simp add: identity_entries_def Let_def)

lemma identity_entries_other:
  "n \<le> 1024 \<Longrightarrow> i < MAX_PAGES \<Longrightarrow> \<forall>j < n. a \<noteq> slot i j \<Longrightarrow>
   identity_entries (page_addr i) b n mem a = mem a"
proof (induction n)
  case 0
  then show ?case by (simp add: identity_entries_def)
next
  case (Suc n)
  then have "identity_entries (page_addr i) b n mem a = mem a" "a \<noteq> slot i n" by simp_all
  then show ?case by (simp add: identity_entries_Suc store_slot Let_def)
qed

lemma identity_entries_slot:
  assumes "i < MAX_PAGES" "\<forall>j < 1024. mem (slot i j) = 0" "n \<le> 1024" "j < n"
  shows "identity_entries (page_addr i) b n mem (slot i j) = identity_entry b j"
  using assms(3,4)
proof (induction n)
  case 0
  then show ?case by simp
next
  case (Suc n)
  show ?case
  proof (cases "j = n")
    case True
    have "\<forall>k < n. slot i n \<noteq> slot i k" using Suc.prems slot_inj [OF assms(1) _ assms(1)] by auto
    then have "identity_entries (page_addr i) b n mem (slot i n) = 0"
      using identity_entries_other [of n i "slot i n"] assms(1,2) Suc.prems by simp
    then show ?thesis using True
      by (simp add: identity_entries_Suc store_slot identity_entry_def Let_def)
  next
    case False
    with Suc.prems slot_inj [OF assms(1) _ assms(1)] have "slot i j \<noteq> slot i n" by auto
    with False Suc show ?thesis by (simp add: identity_entries_Suc store_slot Let_def)
  qed
qed

section \<open>The tables after initialisation\<close>

definition table_base :: "nat \<Rightarrow> u32" where
  "table_base i = of_nat i * 4 * 1024 * 1024"

text \<open>
  The first \<open>k\<close> page tables are in place: the directory and the tables are distinct pages in
  use, and directory entry \<open>t\<close> points at table \<open>t\<close>.
\<close>

definition tables_at :: "nat \<Rightarrow> nat \<Rightarrow> (nat \<Rightarrow> nat) \<Rightarrow> mm_state \<Rightarrow> bool" where
  "tables_at k d q s \<longleftrightarrow>
     d < MAX_PAGES \<and> page_directory s = page_addr d \<and> bm_test (page_bitmap s) d \<and>
     (\<forall>t < k. q t < MAX_PAGES \<and> q t \<noteq> d \<and> bm_test (page_bitmap s) (q t) \<and>
        page_tables s ! t = page_addr (q t) \<and>
        memory s (slot d t) = page_addr (q t) OR PTE_PRESENT OR PTE_WRITABLE \<and>
        (\<forall>t' < k. q t = q t' \<longrightarrow> t = t'))"

definition tables_identity :: "nat \<Rightarrow> (nat \<Rightarrow> nat) \<Rightarrow> mm_state \<Rightarrow> bool" where
  "tables_identity k q s \<longleftrightarrow>
     (\<forall>t < k. \<forall>j < 1024. memory s (slot (q t) j) = identity_entry (table_base t) j)"

lemma init_table_step:
  assumes wf: "mm_wf s" and at: "tables_at k d q s" and id: "tables_identity k q s"
    and k: "k < 4" and free: "\<exists>i < MAX_PAGES. \<not> bm_test (page_bitmap s) i"
  shows "\<exists>i s'. i < MAX_PAGES \<and> init_table k s = (True, s') \<and> mm_wf s' \<and>
    tables_at (Suc k) d (q(k := i)) s' \<and> tables_identity (Suc k) (q(k := i)) s' \<and>
    \<not> bm_test (page_bitmap s) i \<and> page_bitmap s' = bm_set (page_bitmap s) i"
  using wf
proof (cases rule: mm_alloc_cases)
  case Full
  with free show ?thesis by blast
next
  case (Page i)
  let ?mem = "store (page_directory s) k (page_addr i OR PTE_PRESENT OR PTE_WRITABLE)
    (identity_entries (page_addr i) (table_base k) 1024 (clear_table (page_addr i) 1024 (memory s)))"
  let ?s = "s\<lparr>page_bitmap := bm_set (page_bitmap s) i, next_free_page := of_nat (i + 1),
    page_tables := (page_tables s)[k := page_addr i], memory := ?mem\<rparr>"
  let ?q = "q(k := i)"
  have run: "init_table k s = (True, ?s)"
    using Page by (simp add: init_table_def table_base_def Let_def PAGE_TABLE_ENTRIES_def)
  have len: "length (page_tables s) = 4" "length (page_bitmap s) = MAX_PAGES div 8"
    using wf by (auto simp: mm_wf_def)
  note test = bm_test_set [of i "page_bitmap s"]
  have i8: "i div 8 < length (page_bitmap s)" using page_div_8 [OF Page(1)] len by simp
  have d: "d < MAX_PAGES" "page_directory s = page_addr d" "d \<noteq> i"
    using at Page(2) by (auto simp: tables_at_def)
  have q: "q t < MAX_PAGES" "q t \<noteq> i" "q t \<noteq> d" if "t < k" for t
    using at that Page(2) by (auto simp: tables_at_def)
  have dir: "?mem (slot d t) = memory s (slot d t)" if "t < k" for t
    using that k d Page(1) slot_inj [OF d(1) _ d(1)] slot_inj [OF d(1) _ Page(1)]
    by (auto simp: store_slot clear_table_slot identity_entries_other)
  have dir_k: "?mem (slot d k) = page_addr i OR PTE_PRESENT OR PTE_WRITABLE"
    by (simp add: d store_slot)
  have old: "?mem (slot (q t) j) = memory s (slot (q t) j)" if "t < k" "j < 1024" for t j
    using that k d q [OF that(1)] Page(1) slot_inj [OF q(1) [OF that(1)] that(2) d(1), of k]
      slot_inj [OF q(1) [OF that(1)] that(2) Page(1)]
    by (auto simp: store_slot clear_table_slot identity_entries_other)
  have new: "?mem (slot i j) = identity_entry (table_base k) j" if "j < 1024" for j
    using that k d Page(1) slot_inj [OF Page(1) that d(1), of k]
    by (auto simp: store_slot clear_table_slot intro!: identity_entries_slot)
  have "mm_wf ?s" using Page len by (simp add: mm_wf_def)
  moreover have "tables_at (Suc k) d ?q ?s"
    using at len i8 k Page(1) d q dir dir_k
    by (auto simp: tables_at_def less_Suc_eq nth_list_update bitmap_simps)
  moreover have "tables_identity (Suc k) ?q ?s"
    using id old new by (auto simp: tables_identity_def less_Suc_eq)
  ultimately show ?thesis using run Page(1,2) by auto
qed

text \<open>Free pages are counted so that the five pages the tables need can be accounted for.\<close>

definition free_pages :: "mm_state \<Rightarrow> nat" where
  "free_pages s = card {i. i < MAX_PAGES \<and> \<not> bm_test (page_bitmap s) i}"

lemma free_pages_pos: "0 < free_pages s \<longleftrightarrow> (\<exists>i < MAX_PAGES. \<not> bm_test (page_bitmap s) i)"
  by (auto simp: free_pages_def card_gt_0_iff)

lemma free_pages_set:
  assumes "i < MAX_PAGES" "\<not> bm_test (page_bitmap s) i" "length (page_bitmap s) = MAX_PAGES div 8"
    and "page_bitmap s' = bm_set (page_bitmap s) i"
  shows "free_pages s = Suc (free_pages s')"
proof -
  have "{j. j < MAX_PAGES \<and> \<not> bm_test (page_bitmap s) j} =
      insert i {j. j < MAX_PAGES \<and> \<not> bm_test (page_bitmap s') j}"
    using assms page_div_8 [OF assms(1)] by (auto simp: bitmap_simps)
  moreover have "i \<notin> {j. j < MAX_PAGES \<and> \<not> bm_test (page_bitmap s') j}"
    using assms page_div_8 [OF assms(1)] by (auto simp: bitmap_simps)
  ultimately show ?thesis by (simp add: free_pages_def)
qed

lemma init_tables_ok:
  assumes "mm_wf s" "tables_at k d q s" "tables_identity k q s" "k + n = 4" "n \<le> free_pages s"
  shows "\<exists>q' s'. init_tables [k..<4] s = (True, s') \<and> mm_wf s' \<and>
    tables_at 4 d q' s' \<and> tables_identity 4 q' s'"
  using assms
proof (induction n arbitrary: k q s)
  case 0
  then show ?case by auto
next
  case (Suc n)
  then have k: "k < 4" and free: "\<exists>i < MAX_PAGES. \<not> bm_test (page_bitmap s) i"
    using free_pages_pos [of s] by auto
  from init_table_step [OF Suc.prems(1,2,3) k free] obtain i s'
    where i: "i < MAX_PAGES" "init_table k s = (True, s')" "mm_wf s'"
      "tables_at (Suc k) d (q(k := i)) s'" "tables_identity (Suc k) (q(k := i)) s'"
      "\<not> bm_test (page_bitmap s) i" "page_bitmap s' = bm_set (page_bitmap s) i" by blast
  have "free_pages s = Suc (free_pages s')"
    using i free_pages_set [of i s s'] Suc.prems(1) by (simp add: mm_wf_def)
  with Suc.prems have "Suc k + n = 4" "n \<le> free_pages s'" by simp_all
  from Suc.IH [OF i(3,4,5) this] i(2) k show ?case by (simp add: upt_conv_Cons)
qed

lemma init_page_tables_ok:
  assumes wf: "mm_wf s" and un: "\<not> page_tables_initialized s" and free: "5 \<le> free_pages s"
  shows "\<exists>d q s'. init_page_tables s = (0, s') \<and> mm_wf s' \<and> page_tables_initialized s' \<and>
    tables_at 4 d q s' \<and> tables_identity 4 q s'"
  using wf
proof (cases rule: mm_alloc_cases)
  case Full
  with free free_pages_pos [of s] show ?thesis by auto
next
  case (Page i)
  let ?s = "s\<lparr>page_bitmap := bm_set (page_bitmap s) i, next_free_page := of_nat (i + 1),
    page_directory := page_addr i, memory := clear_table (page_addr i) 1024 (memory s)\<rparr>"
  have len: "length (page_bitmap s) = MAX_PAGES div 8" using wf by (simp add: mm_wf_def)
  have "mm_wf ?s" using Page wf by (simp add: mm_wf_def)
  moreover have "tables_at 0 i (\<lambda>_. 0) ?s"
    using Page(1) page_div_8 [OF Page(1)] len by (simp add: tables_at_def bitmap_simps)
  moreover have "tables_identity 0 (\<lambda>_. 0) ?s" by (simp add: tables_identity_def)
  moreover have "4 \<le> free_pages ?s"
    using free_pages_set [of i s ?s] Page(1,2) len free by simp
  ultimately obtain q s' where t: "init_tables [0..<4] ?s = (True, s')" "mm_wf s'"
    "tables_at 4 i q s'" "tables_identity 4 q s'"
    using init_tables_ok [of ?s 0 i "\<lambda>_. 0" 4] by auto
  have "[0..<4] = [0, 1, 2, 3 :: nat]" by (simp add: upt_rec numeral_eq_Suc)
  with t(1) Page un
  have "init_page_tables s = (0, s'\<lparr>page_tables_initialized := True\<rparr>)"
    by (simp add: init_page_tables_def Let_def PAGE_DIRECTORY_ENTRIES_def)
  with t(2-4) show ?thesis
    by (intro exI [of _ i] exI [of _ q] exI [of _ "s'\<lparr>page_tables_initialized := True\<rparr>"])
      (auto simp: mm_wf_def tables_at_def tables_identity_def)
qed

section \<open>The walk\<close>

lemma and_mask12: "(a :: u32) AND 0xFFF = take_bit 12 a"
  by (simp add: take_bit_eq_mask mask_eq_exp_minus_1)

lemma not_mask12: "(0xFFFFF000 :: u32) = NOT (mask 12)"
  by (simp add: mask_eq_exp_minus_1)

lemma frame_eq: "(a :: u32) AND 0xFFFFF000 = push_bit 12 (drop_bit 12 a)"
  unfolding not_mask12 by (rule bit_word_eqI) (auto simp: bit_simps)

lemma unat_frame: "unat ((a :: u32) AND 0xFFFFF000) = unat a div 4096 * 4096"
proof -
  have lt: "unat a div 4096 < 2 ^ 20" using unsigned_less [where 'a = nat, of a] by simp
  have "unat (push_bit 12 (drop_bit 12 a)) = take_bit 32 (push_bit 12 (unat (drop_bit 12 a)))"
    by (simp add: unsigned_push_bit_eq del: push_bit_numeral)
  also have "\<dots> = unat a div 4096 * 4096"
    using lt by (simp only: unat_drop_bit_div push_bit_eq_mult take_bit_eq_mod) simp
  finally show ?thesis by (simp only: frame_eq)
qed

lemma page_addr_aligned: "i < MAX_PAGES \<Longrightarrow> page_addr i AND 0xFFF = 0"
  by (simp add: and_mask12 word_unat_eq_iff unat_take_bit_mod unat_page_addr)

lemma entry_frame:
  fixes a :: u32
  assumes "a AND 0xFFF = 0"
  shows "(a OR PTE_PRESENT OR PTE_WRITABLE) AND 0xFFFFF000 = a" and "(a OR PTE_PRESENT OR PTE_WRITABLE) AND PTE_PRESENT \<noteq> 0"
proof -
  have low: "\<not> bit a n" if "n < 12" for n
    using assms that unfolding and_mask12 by (metis bit_take_bit_iff bit_0_eq bot_apply bot_bool_def)
  have three: "PTE_PRESENT OR PTE_WRITABLE = (mask 2 :: u32)" by (simp add: mask_eq_exp_minus_1 PTE_PRESENT_def PTE_WRITABLE_def)
  show "(a OR PTE_PRESENT OR PTE_WRITABLE) AND 0xFFFFF000 = a"
    unfolding not_mask12 three
  proof (rule bit_word_eqI)
    fix n assume "n < LENGTH(32)"
    then show "bit ((a OR mask 2) AND NOT (mask 12)) n = bit a n"
      using low [of n] by (auto simp: bit_simps)
  qed
  have "bit ((a OR PTE_PRESENT OR PTE_WRITABLE) AND PTE_PRESENT) 0" by (simp add: bit_and_iff bit_or_iff PTE_PRESENT_def)
  then show "(a OR PTE_PRESENT OR PTE_WRITABLE) AND PTE_PRESENT \<noteq> 0" by force
qed

lemma dir_index: "unat (drop_bit 22 (va :: u32)) = unat va div 0x400000"
  by (simp only: unat_drop_bit_div) simp

lemma table_index: "unat (drop_bit 12 (va :: u32) AND 0x3FF) = unat va div 4096 mod 1024"
proof -
  have "drop_bit 12 va AND 0x3FF = take_bit 10 (drop_bit 12 va)"
    by (simp add: take_bit_eq_mask mask_eq_exp_minus_1)
  then show ?thesis by (simp only: unat_take_bit_mod unat_drop_bit_div) simp
qed

lemma split_page_number: "4194304 * (n div 4194304) + n div 4096 mod 1024 * 4096 = n div 4096 * (4096::nat)"
proof -
  have "n div 4194304 = n div 4096 div 1024" by (simp add: div_mult2_eq [symmetric])
  moreover have "n div 4096 = 1024 * (n div 4096 div 1024) + n div 4096 mod 1024" by simp
  ultimately show ?thesis by linarith
qed
lemma walk_tables:
  assumes at: "tables_at 4 d q s" and va: "unat va < 0x1000000"
  shows "walk s va = Some (memory s (slot (q (unat va div 0x400000)) (unat va div 4096 mod 1024)))"
proof -
  let ?t = "unat va div 0x400000"
  have t: "?t < 4" using va by simp
  with at have q: "q ?t < MAX_PAGES" and
    e: "memory s (slot d ?t) = page_addr (q ?t) OR PTE_PRESENT OR PTE_WRITABLE"
    by (auto simp: tables_at_def)
  from at have "load (page_directory s) (unat (drop_bit 22 va)) (memory s) =
      page_addr (q ?t) OR PTE_PRESENT OR PTE_WRITABLE"
    using e by (simp add: tables_at_def load_slot dir_index)
  then show ?thesis using entry_frame [OF page_addr_aligned [OF q]]
    by (simp add: walk_def Let_def table_index load_slot)
qed

lemma identity_entry_table:
  assumes "unat va < 0x1000000"
  shows "identity_entry (table_base (unat va div 0x400000)) (unat va div 4096 mod 1024) =
    (if MEMORY_START \<le> va
     then (va AND 0xFFFFF000) OR PTE_PRESENT OR PTE_WRITABLE else 0)"
proof -
  let ?t = "unat va div 0x400000" and ?j = "unat va div 4096 mod 1024"
  let ?a = "table_base ?t + of_nat ?j * PAGE_SIZE"
  have t: "?t < 4" and j: "?j < 1024" using assms by simp_all
  have "?a = of_nat (4194304 * ?t + ?j * 4096)"
    by (simp only: table_base_def PAGE_SIZE_def of_nat_add of_nat_mult of_nat_numeral) simp
  then have "?a = of_nat (unat va div 4096 * 4096)" by (simp only: split_page_number)
  moreover have "unat va div 4096 * 4096 < 2 ^ LENGTH(32)" using assms by simp
  ultimately have ua: "unat ?a = unat va div 4096 * 4096" by (simp only: unat_of_nat_small)
  then have eq: "?a = va AND 0xFFFFF000" by (simp only: word_unat_eq_iff unat_frame)
  have lo: "MEMORY_START \<le> ?a \<longleftrightarrow> MEMORY_START \<le> va"
    by (simp only: word_le_nat_alt ua MEMORY_START_def) (simp, linarith)
  have hi: "?a < MEMORY_START + MEMORY_SIZE"
    using assms by (simp only: word_less_nat_alt ua MEMORY_START_def MEMORY_SIZE_def) simp
  from lo hi show ?thesis by (simp add: identity_entry_def Let_def eq)
qed

section \<open>Properties\<close>

definition mm_ready :: "mm_state \<Rightarrow> bool" where
  "mm_ready s \<longleftrightarrow> mm_wf s \<and> page_tables_initialized s \<and> (\<exists>d q. tables_at 4 d q s)"

definition same_page :: "u32 \<Rightarrow> u32 \<Rightarrow> bool" where
  "same_page a b \<longleftrightarrow> drop_bit 12 a = drop_bit 12 b"

lemma same_page_div: "same_page a b \<longleftrightarrow> unat a div 4096 = unat b div 4096"
proof -
  have "same_page a b \<longleftrightarrow> unat (drop_bit 12 a) = unat (drop_bit 12 b)"
    by (simp only: same_page_def word_unat_eq_iff)
  then show ?thesis by (simp only: unat_drop_bit_div) simp
qed

lemma page_number_eq:
  "m div 4194304 = n div 4194304 \<and> m div 4096 mod 1024 = n div 4096 mod 1024 \<longleftrightarrow>
   m div 4096 = n div (4096 :: nat)"
proof
  assume "m div 4194304 = n div 4194304 \<and> m div 4096 mod 1024 = n div 4096 mod 1024"
  then have "m div 4096 * 4096 = n div 4096 * 4096"
    by (metis split_page_number)
  then show "m div 4096 = n div 4096" by simp
next
  assume "m div 4096 = n div 4096"
  moreover have "k div 4194304 = k div 4096 div 1024" for k :: nat
    by (simp add: div_mult2_eq [symmetric])
  ultimately show "m div 4194304 = n div 4194304 \<and> m div 4096 mod 1024 = n div 4096 mod 1024"
    by simp
qed

lemma free_pages_boot: "free_pages (mm_boot mem c0 c3) = 4096"
proof -
  have "\<not> bm_test (replicate (MAX_PAGES div 8) 0) i" if "i < MAX_PAGES" for i
    using page_div_8 [OF that] by simp
  then have "{i. i < MAX_PAGES \<and> \<not> bm_test (replicate (MAX_PAGES div 8) 0) i} = {..<MAX_PAGES}"
    by auto
  then show ?thesis by (simp add: free_pages_def mm_boot_def MAX_PAGES_def)
qed

lemma init_boot:
  obtains d q s' where "init_page_tables (mm_boot mem c0 c3) = (0, s')" "mm_wf s'"
    "page_tables_initialized s'" "tables_at 4 d q s'" "tables_identity 4 q s'"
proof -
  have un: "\<not> page_tables_initialized (mm_boot mem c0 c3)" by (simp add: mm_boot_def)
  have "5 \<le> free_pages (mm_boot mem c0 c3)" by (simp add: free_pages_boot)
  from init_page_tables_ok [OF mm_wf_boot un this] that show ?thesis by blast
qed

lemma ready_exists: "\<exists>s. mm_ready s"
  by (rule init_boot [of "\<lambda>_. 0" 0 0]) (auto simp: mm_ready_def)

lemma alloc_boot:
  "mm_alloc_page (mm_boot mem c0 c3) = (page_addr 0,
     (mm_boot mem c0 c3)\<lparr>page_bitmap := bm_set (replicate 512 0) 0, next_free_page := 1\<rparr>)"
proof -
  have "scan (\<lambda>i. \<not> bm_test (replicate 512 0) i) 0 MAX_PAGES = Some 0"
    by (intro scan_first) (simp_all add: MAX_PAGES_def)
  then show ?thesis by (simp add: mm_alloc_page_def mm_boot_def MAX_PAGES_def)
qed

text \<open>
  while a physical page is free, \<open>mm_alloc_page\<close> succeeds: it returns the address of the
  lowest free page and marks that page and no other as used; otherwise it returns 0 and changes
  nothing. The hint never hides a free page.
\<close>

theorem mm_alloc_lowest:
  assumes "mm_wf s"
  shows "case mm_alloc_page s of (p, s') \<Rightarrow> mm_wf s' \<and>
    (if \<exists>i < MAX_PAGES. \<not> bm_test (page_bitmap s) i
     then \<exists>i < MAX_PAGES. \<not> bm_test (page_bitmap s) i \<and> (\<forall>j < i. bm_test (page_bitmap s) j) \<and>
       unat p = 0x100000 + i * 4096 \<and>
       (\<forall>j < MAX_PAGES. bm_test (page_bitmap s') j \<longleftrightarrow> bm_test (page_bitmap s) j \<or> j = i)
     else p = 0 \<and> s' = s)"
  using assms
proof (cases rule: mm_alloc_cases)
  case Full
  with assms show ?thesis by auto
next
  case (Page i)
  have "i div 8 < length (page_bitmap s)" using assms page_div_8 [OF Page(1)] by (simp add: mm_wf_def)
  then have "\<forall>j < MAX_PAGES. bm_test (bm_set (page_bitmap s) i) j \<longleftrightarrow> bm_test (page_bitmap s) j \<or> j = i"
    by (auto simp: bitmap_simps)
  with Page unat_page_addr [OF Page(1)] show ?thesis by auto
qed

theorem mm_alloc_lowest_witness:
  "mm_wf (mm_boot (\<lambda>_. 0) 0 0) \<and> mm_wf (snd (mm_alloc_page (mm_boot (\<lambda>_. 0) 0 0)))"
  using mm_alloc_lowest [OF mm_wf_boot [of "\<lambda>_. 0" 0 0]] by (auto split: prod.splits)

text \<open>
  Any number of page allocations in a row hand out distinct pages that were all free before,
  and they come up short only when no page is left.
\<close>

theorem mm_alloc_many_distinct:
  assumes "mm_wf s" and "alloc_many mm_alloc n s = (ps, s')"
  shows "mm_wf s' \<and> distinct ps \<and> (\<forall>p \<in> set ps. p \<in> mm_pool s \<and> \<not> mm_used s p) \<and>
    (\<forall>p \<in> mm_pool s. mm_used s' p \<longleftrightarrow> mm_used s p \<or> p \<in> set ps) \<and>
    (length ps < n \<longrightarrow> (\<forall>p \<in> mm_pool s. mm_used s' p))"
  using pages.alloc_many_distinct [OF assms] pages.alloc_many_full [OF assms] by auto

theorem mm_alloc_many_distinct_witness:
  "mm_wf (snd (alloc_many mm_alloc 3 (mm_boot (\<lambda>_. 0) 0 0)))"
  using mm_alloc_many_distinct [OF mm_wf_boot [of "\<lambda>_. 0" 0 0] surjective_pairing, of 3] by blast

text \<open>
  \<open>mm_free_page\<close> makes free exactly the page that holds the address, and nothing when the
  address is outside the managed 16 MB; the page is then found again by the allocator, as the
  invariant of the hint is kept.
\<close>

theorem mm_free_page_exact:
  assumes "mm_wf s"
  shows "mm_wf (mm_free_page a s) \<and>
    (\<forall>j < MAX_PAGES. bm_test (page_bitmap (mm_free_page a s)) j \<longleftrightarrow>
       bm_test (page_bitmap s) j \<and> \<not> same_page (ucast a) (page_addr j)) \<and>
    memory (mm_free_page a s) = memory s \<and> page_tables (mm_free_page a s) = page_tables s"
proof -
  let ?a = "ucast a :: u32" and ?n = "unat ((ucast a - MEMORY_START) div PAGE_SIZE)"
  have same: "same_page ?a (page_addr j) \<longleftrightarrow> unat ?a div 4096 = 256 + j" if "j < MAX_PAGES" for j
    using unat_page_addr [OF that] by (simp add: same_page_div)
  show ?thesis
  proof (cases "?a < MEMORY_START")
    case True
    then have "unat ?a div 4096 < 256" by (simp add: word_less_nat_alt MEMORY_START_def)
    with True same assms show ?thesis by (auto simp: mm_free_page_def Let_def)
  next
    case False
    then have ge: "0x100000 \<le> unat ?a" by (simp add: word_less_nat_alt MEMORY_START_def)
    have "unat (?a - MEMORY_START) = unat ?a - 0x100000"
      using False by (simp add: unat_sub MEMORY_START_def not_less)
    then have n: "?n = (unat ?a - 0x100000) div 4096" by (simp add: unat_div_distrib PAGE_SIZE_def)
    have "unat ?a = 256 * 4096 + (unat ?a - 0x100000)" using ge by simp
    then have split: "unat ?a div 4096 = 256 + ?n" unfolding n by (metis div_mult_self3 zero_neq_numeral)
    show ?thesis
    proof (cases "?n \<ge> MAX_PAGES")
      case True
      with False same split assms show ?thesis by (auto simp: mm_free_page_def Let_def)
    next
      case le: False
      then have "?n div 8 < length (page_bitmap s)"
        using assms page_div_8 [of ?n] by (simp add: mm_wf_def)
      note cl = bm_test_clear [OF this]
      let ?h = "(ucast a - MEMORY_START) div PAGE_SIZE"
      have st: "mm_free_page a s = s\<lparr>page_bitmap := bm_clear (page_bitmap s) ?n,
          next_free_page := (if ?h < next_free_page s then ?h else next_free_page s)\<rparr>"
        using False le by (simp add: mm_free_page_def Let_def)
      have "mm_wf (mm_free_page a s)" unfolding st
        using assms le by (auto simp: mm_wf_def cl word_less_nat_alt not_less)
      moreover have "\<forall>j < MAX_PAGES. bm_test (page_bitmap (mm_free_page a s)) j \<longleftrightarrow>
          bm_test (page_bitmap s) j \<and> \<not> same_page ?a (page_addr j)"
        using same split by (auto simp: st cl)
      ultimately show ?thesis by (simp add: st)
    qed
  qed
qed

theorem mm_free_page_exact_witness:
  "bm_test (page_bitmap (snd (mm_alloc_page (mm_boot (\<lambda>_. 0) 0 0)))) 0 \<and>
   \<not> bm_test (page_bitmap (mm_free_page 0x100123 (snd (mm_alloc_page (mm_boot (\<lambda>_. 0) 0 0))))) 0"
proof -
  let ?s = "snd (mm_alloc_page (mm_boot (\<lambda>_. 0) 0 0))"
  have "same_page (ucast (0x100123 :: u64)) (page_addr 0)"
    by (simp add: same_page_div page_addr_def MEMORY_START_def)
  moreover have "bm_test (page_bitmap ?s) 0" by (simp add: alloc_boot bitmap_simps)
  ultimately show ?thesis
    using mm_free_page_exact [OF mm_wf_alloc [OF mm_wf_boot [of "\<lambda>_. 0" 0 0]], of "0x100123"]
    by (simp add: MAX_PAGES_def)
qed

text \<open>
  the first initialisation with five free pages succeeds and identity-maps the managed part
  of the first 16 MB: the walk of the new tables sends every address from 1 MB on to itself,
  writable, and finds the addresses below 1 MB not present.
\<close>

theorem init_page_tables_identity:
  assumes "mm_wf s" and "\<not> page_tables_initialized s" and "5 \<le> free_pages s"
  shows "case init_page_tables s of (rc, s') \<Rightarrow> rc = 0 \<and> mm_ready s' \<and>
    (\<forall>va. unat va < 0x1000000 \<longrightarrow> walk s' va = Some (if MEMORY_START \<le> va
       then (va AND 0xFFFFF000) OR PTE_PRESENT OR PTE_WRITABLE else 0))"
proof -
  from init_page_tables_ok [OF assms] obtain d q s' where run: "init_page_tables s = (0, s')"
    and s': "mm_wf s'" "page_tables_initialized s'" "tables_at 4 d q s'" "tables_identity 4 q s'"
    by blast
  have "walk s' va = Some (if MEMORY_START \<le> va
      then (va AND 0xFFFFF000) OR PTE_PRESENT OR PTE_WRITABLE else 0)" if "unat va < 0x1000000" for va
  proof -
    have "unat va div 0x400000 < 4" "unat va div 4096 mod 1024 < 1024" using that by simp_all
    with s'(4) walk_tables [OF s'(3) that] identity_entry_table [OF that]
    show ?thesis by (simp add: tables_identity_def)
  qed
  with run s' show ?thesis by (auto simp: mm_ready_def)
qed

theorem init_page_tables_identity_witness:
  "fst (init_page_tables (mm_boot (\<lambda>_. 7) 0 0)) = 0 \<and>
   walk (snd (init_page_tables (mm_boot (\<lambda>_. 7) 0 0))) 0x234567 = Some 0x234003"
proof -
  have un: "\<not> page_tables_initialized (mm_boot (\<lambda>_. 7) 0 0)" by (simp add: mm_boot_def)
  from init_page_tables_identity [OF mm_wf_boot un] show ?thesis
    by (auto simp: free_pages_boot MEMORY_START_def PTE_PRESENT_def PTE_WRITABLE_def
        split: prod.splits)
qed

lemma map_page_refused:
  assumes "mm_ready s" and "pa < MEMORY_START \<or> MEMORY_START + MEMORY_SIZE \<le> pa \<or> 16 * 1024 * 1024 \<le> va"
  shows "mm_map_page va pa flags s = (-1, s)"
  using assms by (auto simp: mm_map_page_def mm_ready_def Let_def)

lemma map_page_step:
  assumes "mm_ready s" and "\<not> (pa < MEMORY_START \<or> MEMORY_START + MEMORY_SIZE \<le> pa \<or> 16 * 1024 * 1024 \<le> va)"
  shows "\<exists>s'. mm_map_page va pa flags s = (0, s') \<and> mm_ready s' \<and> (\<forall>a. unat a < 0x1000000 \<longrightarrow>
    walk s' a = (if same_page a va then Some (pa OR flags OR PTE_PRESENT) else walk s a))"
proof -
  from assms(1) obtain d q where at: "tables_at 4 d q s" by (auto simp: mm_ready_def)
  let ?t = "\<lambda>a :: u32. unat a div 0x400000" and ?j = "\<lambda>a :: u32. unat a div 4096 mod 1024"
  have va: "unat va < 0x1000000" using assms(2) by (simp add: word_le_nat_alt)
  then have t: "?t va < 4" by simp
  with at have q: "q (?t va) < MAX_PAGES" "page_tables s ! ?t va = page_addr (q (?t va))"
    by (auto simp: tables_at_def)
  have "\<not> drop_bit 22 va \<ge> 4" using t by (simp only: word_le_nat_alt dir_index) simp
  then have run: "mm_map_page va pa flags s = (0, s\<lparr>memory :=
      (memory s)(slot (q (?t va)) (?j va) := pa OR flags OR PTE_PRESENT)\<rparr>)" (is "_ = (0, ?s)")
    using assms q
    by (simp only: mm_map_page_def Let_def dir_index table_index store_slot mm_ready_def)
      (simp add: store_slot)
  have at': "tables_at 4 d q ?s"
    using at slot_inj [OF _ _ q(1), of d _ "?j va"] t by (auto simp: tables_at_def)
  have walk: "walk ?s a = (if same_page a va then Some (pa OR flags OR PTE_PRESENT) else walk s a)"
    if a: "unat a < 0x1000000" for a
  proof -
    have ta: "?t a < 4" using a by simp
    with at have qa: "q (?t a) < MAX_PAGES" by (simp add: tables_at_def)
    have "slot (q (?t a)) (?j a) = slot (q (?t va)) (?j va) \<longleftrightarrow> q (?t a) = q (?t va) \<and> ?j a = ?j va"
      using slot_inj [OF qa _ q(1)] by simp
    also have "\<dots> \<longleftrightarrow> ?t a = ?t va \<and> ?j a = ?j va" using at ta t by (auto simp: tables_at_def)
    also have "\<dots> \<longleftrightarrow> same_page a va" by (simp only: page_number_eq same_page_div)
    finally show ?thesis by (simp only: walk_tables [OF at' a] walk_tables [OF at a]) simp
  qed
  have "mm_ready ?s" using assms(1) at' by (auto simp: mm_ready_def mm_wf_def)
  with run walk show ?thesis by blast
qed

text \<open>
  on initialised tables \<open>mm_map_page\<close> refuses a physical page outside the managed memory or
  a virtual address beyond 16 MB and changes nothing; otherwise it succeeds, the walk of the
  virtual page then finds the new entry, and every other page below 16 MB keeps its own.
\<close>

theorem mm_map_page_walk:
  assumes "mm_ready s"
  shows "case mm_map_page va pa flags s of (rc, s') \<Rightarrow> mm_ready s' \<and>
    (if pa < MEMORY_START \<or> MEMORY_START + MEMORY_SIZE \<le> pa \<or> 16 * 1024 * 1024 \<le> va
     then rc = -1 \<and> s' = s
     else rc = 0 \<and> (\<forall>a. unat a < 0x1000000 \<longrightarrow>
       walk s' a = (if same_page a va then Some (pa OR flags OR PTE_PRESENT) else walk s a)))"
proof (cases "pa < MEMORY_START \<or> MEMORY_START + MEMORY_SIZE \<le> pa \<or> 16 * 1024 * 1024 \<le> va")
  case True
  from map_page_refused [OF assms True] True assms show ?thesis by simp
next
  case False
  with map_page_step [OF assms False, of flags] show ?thesis by auto
qed

theorem mm_map_page_walk_witness:
  "\<exists>s. mm_ready s \<and> (case mm_map_page 0x400000 0x200000 7 s of (rc, s') \<Rightarrow>
     rc = 0 \<and> walk s' 0x400ABC = Some 0x200007)"
proof -
  obtain s where s: "mm_ready s" using ready_exists by blast
  have "same_page 0x400ABC 0x400000" by (simp add: same_page_div)
  with mm_map_page_walk [OF s, of "0x200000" "0x400000" 7] s show ?thesis
    by (intro exI [of _ s]) (auto simp: mm_consts PTE_PRESENT_def split: prod.splits)
qed

text \<open>
  the user flag of the memory manager's callers is not the user flag of a page-table entry:
  a page-aligned frame mapped with \<open>MM_FLAG_USER_RW\<close> has an entry whose user bit is clear, so
  the processor refuses it to user code.
\<close>

theorem mm_map_page_user_flag:
  assumes "mm_ready s" and "pa AND 0xFFF = 0" and "unat va < 0x1000000"
    and "mm_map_page va pa MM_FLAG_USER_RW s = (0, s')"
  shows "\<exists>e. walk s' va = Some e \<and> e AND PTE_PRESENT \<noteq> 0 \<and> e AND PTE_USER = 0"
proof -
  let ?e = "pa OR MM_FLAG_USER_RW OR PTE_PRESENT"
  have "\<not> (pa < MEMORY_START \<or> MEMORY_START + MEMORY_SIZE \<le> pa \<or> 16 * 1024 * 1024 \<le> va)"
    using map_page_refused [OF assms(1), of pa va MM_FLAG_USER_RW] assms(4) by auto
  from map_page_step [OF assms(1) this, of MM_FLAG_USER_RW] assms(3,4)
  have w: "walk s' va = Some ?e" by (auto simp: same_page_def)
  have "\<not> bit pa 2"
  proof -
    have "bit (pa AND 0xFFF) 2 \<longleftrightarrow> bit pa 2" by (simp add: and_mask12 bit_take_bit_iff)
    with assms(2) show ?thesis by simp
  qed
  then have "\<not> bit ?e n \<or> n \<noteq> 2" for n
    by (auto simp: bit_or_iff MM_FLAG_USER_RW_def MM_FLAG_READ_def MM_FLAG_WRITE_def
        MM_FLAG_USER_def PTE_PRESENT_def bit_numeral_rec)
  then have "?e AND PTE_USER = 0"
    using and_exp_eq_0_iff_not_bit [of ?e 2] by (auto simp: PTE_USER_def)
  moreover have "bit (?e AND PTE_PRESENT) 0"
    by (simp add: bit_and_iff bit_or_iff PTE_PRESENT_def)
  then have "?e AND PTE_PRESENT \<noteq> 0" by force
  ultimately show ?thesis using w by blast
qed

theorem mm_map_page_user_flag_witness:
  "\<exists>s s'. mm_map_page 0x400000 0x200000 MM_FLAG_USER_RW s = (0, s') \<and>
     (\<exists>e. walk s' 0x400000 = Some e \<and> e AND PTE_PRESENT \<noteq> 0 \<and> e AND PTE_USER = 0)"
proof -
  obtain s where s: "mm_ready s" using ready_exists by blast
  have "\<not> (0x200000 < MEMORY_START \<or> MEMORY_START + MEMORY_SIZE \<le> 0x200000 \<or>
      16 * 1024 * 1024 \<le> (0x400000 :: u32))"
    by (simp add: mm_consts)
  from map_page_step [OF s this, of MM_FLAG_USER_RW] obtain s'
    where run: "mm_map_page 0x400000 0x200000 MM_FLAG_USER_RW s = (0, s')" by blast
  with run mm_map_page_user_flag [OF s, of "0x200000" "0x400000" s'] show ?thesis by auto
qed

end
