(* ===== verification/Kernel_Sched.thy ===== *)
theory Kernel_Sched
  imports Kernel_Mm
begin

text \<open>
  The kernel's scheduler, kernel/src/sched/sched.c: a table of 64 threads, creation of a thread
  with a stack page from the memory manager, and round-robin scheduling. The hardware context is
  not switched in the source either: scheduling moves the state \<open>THREAD_RUNNING\<close> and the index of
  the current thread.
\<close>

section \<open>Threads\<close>

datatype thread_state = THREAD_READY | THREAD_RUNNING | THREAD_BLOCKED | THREAD_TERMINATED

record thread =
  tid :: u32
  state :: thread_state
  stack_ptr :: u32
  priority :: u32
  block_reason :: u8
  last_error :: int
  irq_num :: u8

definition MAX_THREADS :: nat where "MAX_THREADS = 64"

record sched_state =
  threads :: "thread list"
  current_thread :: u32
  next_thread_id :: u32
  last_scheduled :: u32

text \<open>Static storage is zero, and the first constant of the enumeration is \<open>THREAD_READY\<close>.\<close>

definition zero_thread :: thread where
  "zero_thread = \<lparr>tid = 0, state = THREAD_READY, stack_ptr = 0, priority = 0, block_reason = 0,
     last_error = 0, irq_num = 0\<rparr>"

definition sched_boot :: sched_state where
  "sched_boot = \<lparr>threads = replicate MAX_THREADS zero_thread, current_thread = 0,
     next_thread_id = 1, last_scheduled = 0\<rparr>"

definition update_thread :: "nat \<Rightarrow> (thread \<Rightarrow> thread) \<Rightarrow> sched_state \<Rightarrow> sched_state" where
  "update_thread i f s = s\<lparr>threads := (threads s)[i := f (threads s ! i)]\<rparr>"

section \<open>Operations\<close>

definition slot_free :: "thread \<Rightarrow> bool" where
  "slot_free t \<longleftrightarrow> state t = THREAD_TERMINATED \<or> tid t = 0"

definition sched_create_thread :: "u32 \<Rightarrow> sched_state \<times> mm_state \<Rightarrow> int \<times> sched_state \<times> mm_state" where
  "sched_create_thread entry_point = (\<lambda>(s, mm).
     case scan (\<lambda>i. slot_free (threads s ! i)) 0 MAX_THREADS of
       None \<Rightarrow> (-1, s, mm)
     | Some i \<Rightarrow>
         (let s = update_thread i (\<lambda>t. t\<lparr>tid := next_thread_id s, state := THREAD_READY,
                    priority := 1\<rparr>) s;
              s = s\<lparr>next_thread_id := next_thread_id s + 1\<rparr>
          in case mm_alloc_page mm of (stack, mm) \<Rightarrow>
            if stack = 0 then (-1, s, mm)
            else
              (let sp = stack + PAGE_SIZE - 4;
                   s = update_thread i (\<lambda>t. t\<lparr>stack_ptr := sp\<rparr>) s
               in (sint (tid (threads s ! i)), s, mm\<lparr>memory := store sp 0 entry_point (memory mm)\<rparr>))))"

definition runnable :: "thread \<Rightarrow> bool" where
  "runnable t \<longleftrightarrow> state t = THREAD_READY \<and> tid t \<noteq> 0"

definition switch_to :: "u32 \<Rightarrow> sched_state \<Rightarrow> sched_state" where
  "switch_to nxt s =
     (let s = (if unat (current_thread s) < MAX_THREADS \<and>
                  tid (threads s ! unat (current_thread s)) \<noteq> 0
               then update_thread (unat (current_thread s)) (\<lambda>t. t\<lparr>state := THREAD_READY\<rparr>) s
               else s);
          s = update_thread (unat nxt) (\<lambda>t. t\<lparr>state := THREAD_RUNNING\<rparr>) s
      in s\<lparr>last_scheduled := nxt, current_thread := nxt\<rparr>)"

text \<open>The search loop: \<open>n\<close> turns are left, \<open>nxt\<close> is the candidate.\<close>

fun schedule_loop :: "nat \<Rightarrow> u32 \<Rightarrow> sched_state \<Rightarrow> sched_state" where
  "schedule_loop 0 nxt s = s"
| "schedule_loop (Suc n) nxt s =
     (if runnable (threads s ! unat nxt) then switch_to nxt s
      else schedule_loop n ((nxt + 1) mod of_nat MAX_THREADS) s)"

definition sched_schedule :: "sched_state \<Rightarrow> sched_state" where
  "sched_schedule s =
     schedule_loop MAX_THREADS ((last_scheduled s + 1) mod of_nat MAX_THREADS) s"

definition sched_yield :: "sched_state \<Rightarrow> sched_state" where
  "sched_yield s = sched_schedule s"

text \<open>The pointer to a thread of the table is its index; the null pointer is \<open>None\<close>.\<close>

definition sched_get_process_by_pid :: "u32 \<Rightarrow> sched_state \<Rightarrow> nat option" where
  "sched_get_process_by_pid pid s = scan (\<lambda>i. tid (threads s ! i) = pid) 0 MAX_THREADS"

definition sched_get_current_pid :: "sched_state \<Rightarrow> u32" where
  "sched_get_current_pid s = tid (threads s ! unat (current_thread s))"

definition sched_get_current_process :: "sched_state \<Rightarrow> nat" where
  "sched_get_current_process s = unat (current_thread s)"

section \<open>The invariant\<close>

text \<open>The table has its size, the indices are in it, and only the current thread may be running.\<close>

definition sched_wf :: "sched_state \<Rightarrow> bool" where
  "sched_wf s \<longleftrightarrow> length (threads s) = MAX_THREADS \<and> unat (current_thread s) < MAX_THREADS \<and>
     unat (last_scheduled s) < MAX_THREADS \<and>
     (\<forall>i < MAX_THREADS. state (threads s ! i) = THREAD_RUNNING \<longrightarrow> i = unat (current_thread s))"

definition index_of :: "sched_state \<Rightarrow> nat" where
  "index_of s = unat (current_thread s)"

text \<open>The turn of the search loop that looks at the thread after \<open>k\<close> others.\<close>

definition turn :: "sched_state \<Rightarrow> nat \<Rightarrow> nat" where
  "turn s k = (unat (last_scheduled s) + 1 + k) mod MAX_THREADS"

lemma sched_wf_boot [simp]: "sched_wf sched_boot"
  by (simp add: sched_wf_def sched_boot_def zero_thread_def MAX_THREADS_def)

lemma update_thread_simps [simp]:
  "current_thread (update_thread i f s) = current_thread s"
  "last_scheduled (update_thread i f s) = last_scheduled s"
  "next_thread_id (update_thread i f s) = next_thread_id s"
  "length (threads (update_thread i f s)) = length (threads s)"
  by (simp_all add: update_thread_def)

lemma update_thread_nth [simp]:
  "i < length (threads s) \<Longrightarrow>
   threads (update_thread i f s) ! j = (if i = j then f (threads s ! i) else threads s ! j)"
  by (simp add: update_thread_def nth_list_update)

lemma unat_next_candidate:
  "unat x < MAX_THREADS \<Longrightarrow> unat ((x + 1) mod of_nat MAX_THREADS :: u32) = (unat x + 1) mod MAX_THREADS"
  by (rule unat_succ_mod) (simp_all add: MAX_THREADS_def)

lemma schedule_loop_scan:
  assumes "unat x < MAX_THREADS"
  shows "schedule_loop n x s =
    (case scan (\<lambda>k. runnable (threads s ! ((unat x + k) mod MAX_THREADS))) 0 n of
       None \<Rightarrow> s
     | Some k \<Rightarrow> switch_to (of_nat ((unat x + k) mod MAX_THREADS)) s)"
  using assms
proof (induction n arbitrary: x)
  case 0
  then show ?case by (simp add: scan.simps)
next
  case (Suc n)
  let ?P = "\<lambda>x k. runnable (threads s ! ((unat x + k) mod MAX_THREADS))"
  let ?y = "(x + 1) mod of_nat MAX_THREADS :: u32"
  have y: "unat ?y = (unat x + 1) mod MAX_THREADS" using unat_next_candidate Suc.prems .
  have y_lt: "unat ?y < MAX_THREADS" unfolding y by (simp add: MAX_THREADS_def)
  have shift: "?P ?y k = ?P x (Suc k)" "(unat ?y + k) mod MAX_THREADS = (unat x + Suc k) mod MAX_THREADS" for k
    unfolding y by (simp_all add: mod_simps)
  show ?case
  proof (cases "runnable (threads s ! unat x)")
    case True
    then have "scan (?P x) 0 (Suc n) = Some 0" using Suc.prems by (intro scan_first) simp_all
    with True Suc.prems show ?thesis by simp
  next
    case False
    have "scan (?P x) 0 (Suc n) = map_option Suc (scan (?P ?y) 0 n)"
    proof (cases "scan (?P ?y) 0 n")
      case None
      have "scan (?P x) 0 (Suc n) = None"
        unfolding scan_None_iff
      proof (intro allI impI)
        fix j assume "0 \<le> j \<and> j < Suc n"
        then show "\<not> ?P x j" using False Suc.prems scan_NoneD [OF None, of "j - 1"]
          by (cases j) (simp_all add: shift)
      qed
      with None show ?thesis by simp
    next
      case (Some k)
      have "scan (?P x) 0 (Suc n) = Some (Suc k)"
        unfolding scan_Some_iff
      proof (intro conjI allI impI)
        show "Suc k < Suc n" "?P x (Suc k)" using scan_SomeD [OF Some] by (simp_all add: shift)
        fix j assume "0 \<le> j \<and> j < Suc k"
        then show "\<not> ?P x j" using False Suc.prems scan_SomeD(4) [OF Some, of "j - 1"]
          by (cases j) (simp_all add: shift)
      qed simp
      with Some show ?thesis by simp
    qed
    with False Suc.IH [OF y_lt] show ?thesis by (auto simp: shift split: option.splits)
  qed
qed

lemma schedule_cases [case_names Idle Switch]:
  assumes "sched_wf s"
  obtains "\<forall>i < MAX_THREADS. \<not> runnable (threads s ! i)" "sched_schedule s = s"
  | k where "k < MAX_THREADS" "runnable (threads s ! turn s k)"
    "\<forall>j < k. \<not> runnable (threads s ! turn s j)" "sched_schedule s = switch_to (of_nat (turn s k)) s"
proof -
  let ?x = "(last_scheduled s + 1) mod of_nat MAX_THREADS :: u32"
  have last: "unat (last_scheduled s) < MAX_THREADS" using assms by (simp add: sched_wf_def)
  have x: "unat ?x = (unat (last_scheduled s) + 1) mod MAX_THREADS" using unat_next_candidate last .
  then have x_lt: "unat ?x < MAX_THREADS" by (simp add: MAX_THREADS_def)
  have t: "(unat ?x + k) mod MAX_THREADS = turn s k" for k
    unfolding x turn_def by (simp add: mod_simps)
  show thesis
  proof (cases "scan (\<lambda>k. runnable (threads s ! turn s k)) 0 MAX_THREADS")
    case None
    have "\<not> runnable (threads s ! i)" if i: "i < MAX_THREADS" for i
    proof -
      let ?k = "(i + MAX_THREADS - unat ?x) mod MAX_THREADS"
      have "?k < MAX_THREADS" by (simp add: MAX_THREADS_def)
      moreover have "turn s ?k = i" using ring_tail_index [OF x_lt i] t [of ?k] by simp
      ultimately show ?thesis using scan_NoneD [OF None, of ?k] by simp
    qed
    moreover have "sched_schedule s = s"
      using None unfolding sched_schedule_def schedule_loop_scan [OF x_lt] t by simp
    ultimately show ?thesis using that(1) by blast
  next
    case (Some k)
    then have "sched_schedule s = switch_to (of_nat (turn s k)) s"
      unfolding sched_schedule_def schedule_loop_scan [OF x_lt] t by simp
    with that(2) scan_SomeD [OF Some] show ?thesis by simp
  qed
qed

section \<open>One scheduling step\<close>

lemma unat_plus_one: "x + 1 \<noteq> 0 \<Longrightarrow> unat (x + 1 :: u32) = unat x + 1"
  using unsigned_less [where 'a = nat, of x]
  by (cases "unat x + 1 = 2 ^ 32") (auto simp: unat_word_ariths word_unat_eq_iff)

lemma turn_lt [simp]: "turn s k < MAX_THREADS"
  by (simp add: turn_def MAX_THREADS_def)

lemma unat_index: "i < MAX_THREADS \<Longrightarrow> unat (of_nat i :: u32) = i"
  by (intro unat_of_nat_small) (simp add: MAX_THREADS_def)

lemma switch_to_effect:
  assumes "sched_wf s" "i < MAX_THREADS"
  shows "unat (current_thread (switch_to (of_nat i) s)) = i"
    and "unat (last_scheduled (switch_to (of_nat i) s)) = i"
    and "next_thread_id (switch_to (of_nat i) s) = next_thread_id s"
    and "length (threads (switch_to (of_nat i) s)) = MAX_THREADS"
    and "j < MAX_THREADS \<Longrightarrow> threads (switch_to (of_nat i) s) ! j =
      (if j = i then (threads s ! j)\<lparr>state := THREAD_RUNNING\<rparr>
       else if j = unat (current_thread s) \<and> tid (threads s ! j) \<noteq> 0
       then (threads s ! j)\<lparr>state := THREAD_READY\<rparr> else threads s ! j)"
  using assms by (auto simp: switch_to_def Let_def unat_index sched_wf_def)

lemma switch_to_wf:
  assumes wf: "sched_wf s" and i: "i < MAX_THREADS"
    and cur: "tid (threads s ! unat (current_thread s)) \<noteq> 0 \<or>
      state (threads s ! unat (current_thread s)) \<noteq> THREAD_RUNNING"
  shows "sched_wf (switch_to (of_nat i) s)"
proof -
  have "j = i" if j: "j < MAX_THREADS"
    and run: "state (threads (switch_to (of_nat i) s) ! j) = THREAD_RUNNING" for j
  proof (rule ccontr)
    assume "j \<noteq> i"
    with run switch_to_effect(5) [OF wf i j] have "state (threads s ! j) = THREAD_RUNNING"
      and "j = unat (current_thread s) \<longrightarrow> tid (threads s ! j) = 0"
      by (simp_all split: if_splits)
    with wf cur j show False by (auto simp: sched_wf_def)
  qed
  then show ?thesis using switch_to_effect(1,2,4) [OF wf i] i
    by (simp add: sched_wf_def [of "switch_to (of_nat i) s"])
qed

text \<open>A running thread has a process id; with it the invariant is kept by every operation.\<close>

definition sched_ok :: "sched_state \<Rightarrow> bool" where
  "sched_ok s \<longleftrightarrow> sched_wf s \<and>
     (\<forall>i < MAX_THREADS. state (threads s ! i) = THREAD_RUNNING \<longrightarrow> tid (threads s ! i) \<noteq> 0)"

lemma sched_okD: "sched_ok s \<Longrightarrow> sched_wf s"
  by (simp add: sched_ok_def)

lemma sched_ok_boot [simp]: "sched_ok sched_boot"
  by (simp add: sched_ok_def) (simp add: sched_boot_def zero_thread_def MAX_THREADS_def)

lemma sched_ok_schedule: "sched_ok s \<Longrightarrow> sched_ok (sched_schedule s)"
proof -
  assume ok: "sched_ok s"
  from sched_okD [OF ok] show "sched_ok (sched_schedule s)"
  proof (cases rule: schedule_cases)
    case Idle
    with ok show ?thesis by simp
  next
    case (Switch k)
    have wf: "sched_wf s" using ok by (simp add: sched_ok_def)
    then have "unat (current_thread s) < MAX_THREADS" by (simp add: sched_wf_def)
    then have "tid (threads s ! unat (current_thread s)) \<noteq> 0 \<or>
        state (threads s ! unat (current_thread s)) \<noteq> THREAD_RUNNING"
      using ok by (auto simp: sched_ok_def)
    with Switch switch_to_wf [OF wf turn_lt] switch_to_effect(5) [OF wf turn_lt] ok show ?thesis
      by (auto simp: sched_ok_def runnable_def)
  qed
qed

lemma sched_ok_update:
  assumes "sched_ok s" "i < MAX_THREADS"
    and "state (f (threads s ! i)) = THREAD_RUNNING \<Longrightarrow>
      state (threads s ! i) = THREAD_RUNNING \<and> tid (f (threads s ! i)) \<noteq> 0"
  shows "sched_ok (update_thread i f s)"
  using assms by (auto simp: sched_ok_def sched_wf_def)

lemma create_cases [case_names Full NoPage Ok]:
  obtains "\<forall>i < MAX_THREADS. \<not> slot_free (threads s ! i)" "sched_create_thread f (s, mm) = (-1, s, mm)"
  | i mm' where "i < MAX_THREADS" "slot_free (threads s ! i)" "mm_alloc_page mm = (0, mm')"
      "sched_create_thread f (s, mm) = (-1,
         update_thread i (\<lambda>t. t\<lparr>tid := next_thread_id s, state := THREAD_READY, priority := 1\<rparr>) s
           \<lparr>next_thread_id := next_thread_id s + 1\<rparr>, mm')"
  | i p mm' where "i < MAX_THREADS" "slot_free (threads s ! i)" "mm_alloc_page mm = (p, mm')" "p \<noteq> 0"
      "length (threads s) = MAX_THREADS \<Longrightarrow> sched_create_thread f (s, mm) = (sint (next_thread_id s),
         update_thread i (\<lambda>t. t\<lparr>tid := next_thread_id s, state := THREAD_READY, priority := 1,
           stack_ptr := p + PAGE_SIZE - 4\<rparr>) s\<lparr>next_thread_id := next_thread_id s + 1\<rparr>,
         mm'\<lparr>memory := store (p + PAGE_SIZE - 4) 0 f (memory mm')\<rparr>)"
proof (cases "scan (\<lambda>i. slot_free (threads s ! i)) 0 MAX_THREADS")
  case None
  with that(1) scan_NoneD [OF None] show thesis by (simp add: sched_create_thread_def)
next
  case (Some i)
  note i = scan_SomeD(2,3) [OF Some]
  obtain p mm' where p: "mm_alloc_page mm = (p, mm')" by fastforce
  show thesis
  proof (cases "p = 0")
    case True
    with that(2) [OF i] p Some show thesis by (simp add: sched_create_thread_def Let_def)
  next
    case False
    have "sched_create_thread f (s, mm) = (sint (next_thread_id s),
         update_thread i (\<lambda>t. t\<lparr>tid := next_thread_id s, state := THREAD_READY, priority := 1,
           stack_ptr := p + PAGE_SIZE - 4\<rparr>) s\<lparr>next_thread_id := next_thread_id s + 1\<rparr>,
         mm'\<lparr>memory := store (p + PAGE_SIZE - 4) 0 f (memory mm')\<rparr>)"
      if "length (threads s) = MAX_THREADS"
      using p Some False i that by (simp add: sched_create_thread_def Let_def update_thread_def)
    with that(3) [OF i p False] show thesis by blast
  qed
qed

lemma sched_ok_create:
  assumes "sched_ok s" shows "sched_ok (fst (snd (sched_create_thread f (s, mm))))"
proof -
  have frame: "sched_ok (q\<lparr>next_thread_id := n\<rparr>) = sched_ok q" for q n
    by (simp add: sched_ok_def sched_wf_def)
  have len: "length (threads s) = MAX_THREADS" using assms by (simp add: sched_ok_def sched_wf_def)
  show ?thesis
    by (rule create_cases [of s f mm]) (use assms len in \<open>auto simp: frame intro!: sched_ok_update\<close>)
qed

section \<open>Round robin\<close>

lemma turn_inj: "j < MAX_THREADS \<Longrightarrow> k < MAX_THREADS \<Longrightarrow> turn s j = turn s k \<Longrightarrow> j = k"
  unfolding turn_def by (metis linorder_neqE_nat ring_index_inj)

text \<open>A thread that is ready to run is at most as many schedulings away as turns of the search loop.\<close>

lemma schedule_progress:
  assumes "sched_ok s" "k < MAX_THREADS" "runnable (threads s ! turn s k)"
  shows "\<exists>n \<le> k. unat (current_thread ((sched_schedule ^^ Suc n) s)) = turn s k \<and>
    state (threads ((sched_schedule ^^ Suc n) s) ! turn s k) = THREAD_RUNNING"
  using assms
proof (induction k arbitrary: s rule: less_induct)
  case (less k)
  have wf: "sched_wf s" using less.prems(1) by (rule sched_okD)
  then show ?case
  proof (cases rule: schedule_cases)
    case Idle
    with less.prems show ?thesis by (meson turn_lt)
  next
    case (Switch j)
    have jk: "j \<le> k" using Switch(3) less.prems(3) by (metis not_le)
    let ?s = "switch_to (of_nat (turn s j)) s"
    note eff = switch_to_effect [OF wf turn_lt [of s j]]
    show ?thesis
    proof (cases "j = k")
      case True
      with Switch eff show ?thesis by (intro exI [of _ 0]) simp
    next
      case False
      with jk have lt: "k - Suc j < k" "k - Suc j < MAX_THREADS" using less.prems(2) by auto
      have "turn ?s (k - Suc j) = (turn s j + 1 + (k - Suc j)) mod MAX_THREADS"
        by (simp only: turn_def [of ?s] eff(2))
      also have "turn s j + 1 + (k - Suc j) = turn s j + (k - j)" using jk False by simp
      also have "(turn s j + (k - j)) mod MAX_THREADS =
          (unat (last_scheduled s) + 1 + j + (k - j)) mod MAX_THREADS"
        unfolding turn_def by (rule mod_add_left_eq)
      also have "\<dots> = turn s k" using jk by (simp add: turn_def)
      finally have t: "turn ?s (k - Suc j) = turn s k" .
      have "turn s k \<noteq> turn s j"
        using turn_inj [of k j s] False less.prems(2) Switch(1) by auto
      then have "runnable (threads ?s ! turn ?s (k - Suc j))"
        using eff(5) [of "turn s k"] less.prems(3) by (auto simp: t runnable_def)
      with less.IH [OF lt(1) _ lt(2), of ?s] sched_ok_schedule [OF less.prems(1)] Switch(4)
      obtain n where "n \<le> k - Suc j" "unat (current_thread ((sched_schedule ^^ Suc n) ?s)) = turn s k"
        "state (threads ((sched_schedule ^^ Suc n) ?s) ! turn s k) = THREAD_RUNNING"
        by (auto simp: t)
      then show ?thesis using Switch(4) lt False jk
        by (intro exI [of _ "Suc n"]) (auto simp: funpow_swap1)
    qed
  qed
qed

lemma turn_surj:
  assumes "i < MAX_THREADS"
  obtains k where "k < MAX_THREADS" "turn s k = i"
proof -
  let ?x = "(unat (last_scheduled s) + 1) mod MAX_THREADS"
  have x: "?x < MAX_THREADS" by (simp add: MAX_THREADS_def)
  let ?k = "(i + MAX_THREADS - ?x) mod MAX_THREADS"
  have "turn s ?k = (?x + ?k) mod MAX_THREADS" unfolding turn_def by (simp only: mod_add_left_eq)
  then have "turn s ?k = i" using ring_tail_index [OF x assms] by simp
  moreover have "?k < MAX_THREADS" by (simp add: MAX_THREADS_def)
  ultimately show thesis using that by blast
qed

section \<open>Properties\<close>

text \<open>
  C21: the scheduler is fair: a thread that is ready with a process id is running within 64
  schedulings, whatever else is ready.
\<close>

theorem sched_fair:
  assumes "sched_ok s" and "i < MAX_THREADS" and "runnable (threads s ! i)"
  shows "\<exists>n. 0 < n \<and> n \<le> 64 \<and> unat (current_thread ((sched_schedule ^^ n) s)) = i \<and>
    state (threads ((sched_schedule ^^ n) s) ! i) = THREAD_RUNNING"
proof -
  obtain k where k: "k < MAX_THREADS" "turn s k = i" using turn_surj assms(2) .
  with schedule_progress [OF assms(1), of k] assms(3) obtain n where "n \<le> k"
    "unat (current_thread ((sched_schedule ^^ Suc n) s)) = i"
    "state (threads ((sched_schedule ^^ Suc n) s) ! i) = THREAD_RUNNING" by auto
  with k(1) show ?thesis by (intro exI [of _ "Suc n"]) (simp add: MAX_THREADS_def)
qed

definition demo_sched :: sched_state where
  "demo_sched = update_thread 5 (\<lambda>t. t\<lparr>tid := 7\<rparr>) (update_thread 3 (\<lambda>t. t\<lparr>tid := 9\<rparr>) sched_boot)"

lemma demo_sched_ok: "sched_ok demo_sched" "length (threads demo_sched) = 64"
  "runnable (threads demo_sched ! 5)"
proof -
  have len: "length (threads sched_boot) = 64" by (simp add: sched_boot_def MAX_THREADS_def)
  then show "length (threads demo_sched) = 64" by (simp add: demo_sched_def)
  have st: "state (threads sched_boot ! j) = THREAD_READY" if "j < 64" for j
    using that by (simp add: sched_boot_def zero_thread_def MAX_THREADS_def)
  show "sched_ok demo_sched" unfolding demo_sched_def
    by (intro sched_ok_update) (simp_all add: st len MAX_THREADS_def)
  show "runnable (threads demo_sched ! 5)" by (simp add: demo_sched_def runnable_def st len)
qed

theorem sched_fair_witness:
  "\<exists>n. 0 < n \<and> n \<le> 64 \<and> unat (current_thread ((sched_schedule ^^ n) demo_sched)) = 5"
  using sched_fair [OF demo_sched_ok(1), of 5] demo_sched_ok(3) by (auto simp: MAX_THREADS_def)

text \<open>
  a scheduling never leaves two threads running: it keeps the invariant that only the current
  thread may be running; it runs the first ready thread after the last one scheduled, and does
  nothing exactly when no thread is ready.
\<close>

theorem sched_schedule_correct:
  assumes "sched_ok s"
  shows "sched_ok (sched_schedule s) \<and>
    (if \<exists>i < MAX_THREADS. runnable (threads s ! i)
     then \<exists>k < MAX_THREADS. runnable (threads s ! turn s k) \<and>
       (\<forall>j < k. \<not> runnable (threads s ! turn s j)) \<and>
       unat (current_thread (sched_schedule s)) = turn s k \<and>
       state (threads (sched_schedule s) ! turn s k) = THREAD_RUNNING \<and>
       (\<forall>i < MAX_THREADS. i \<noteq> turn s k \<longrightarrow> state (threads (sched_schedule s) ! i) \<noteq> THREAD_RUNNING)
     else sched_schedule s = s)"
  using sched_okD [OF assms]
proof (cases rule: schedule_cases)
  case Idle
  with assms show ?thesis by auto
next
  case (Switch k)
  have wf: "sched_wf s" "sched_ok (sched_schedule s)"
    using assms by (simp_all add: sched_okD sched_ok_schedule)
  then have "sched_wf (sched_schedule s)" by (simp add: sched_okD)
  then have only: "\<forall>i < MAX_THREADS. state (threads (sched_schedule s) ! i) = THREAD_RUNNING \<longrightarrow>
      i = unat (current_thread (sched_schedule s))" by (simp add: sched_wf_def)
  have ex: "\<exists>i < MAX_THREADS. runnable (threads s ! i)" using Switch(2) turn_lt by blast
  have now: "unat (current_thread (sched_schedule s)) = turn s k"
    "state (threads (sched_schedule s) ! turn s k) = THREAD_RUNNING"
    using Switch(4) switch_to_effect [OF wf(1) turn_lt [of s k]] by simp_all
  show ?thesis unfolding if_P [OF ex]
    using wf(2) Switch(1-3) now only by (intro conjI exI [of _ k]) auto
qed

theorem sched_schedule_correct_witness:
  "sched_ok (sched_schedule demo_sched) \<and> sched_schedule demo_sched \<noteq> demo_sched"
proof -
  have "state (threads demo_sched ! j) \<noteq> THREAD_RUNNING" if "j < MAX_THREADS" for j
    using that demo_sched_ok by (simp add: demo_sched_def sched_boot_def zero_thread_def MAX_THREADS_def)
  moreover have ex: "\<exists>i < MAX_THREADS. runnable (threads demo_sched ! i)"
    using demo_sched_ok(3) by (intro exI [of _ 5]) (simp add: MAX_THREADS_def)
  ultimately show ?thesis
    using sched_schedule_correct [OF demo_sched_ok(1)] unfolding if_P [OF ex] by (metis turn_lt)
qed

text \<open>Process ids are unique as long as the counter has not wrapped.\<close>

definition pids_ok :: "sched_state \<Rightarrow> bool" where
  "pids_ok s \<longleftrightarrow> next_thread_id s \<noteq> 0 \<and>
     (\<forall>i < MAX_THREADS. tid (threads s ! i) < next_thread_id s \<and>
       (\<forall>j < MAX_THREADS. tid (threads s ! i) \<noteq> 0 \<and> tid (threads s ! i) = tid (threads s ! j) \<longrightarrow> i = j))"

text \<open>
  creating a thread when a slot and a page are free takes a slot of the table that was free,
  gives the thread a process id that no other thread has, makes it ready with its entry point in
  the top word of a fresh stack page, leaves every other thread alone and keeps the invariants.
\<close>

theorem sched_create_thread_ok:
  assumes "sched_ok s" and "pids_ok s" and "next_thread_id s + 1 \<noteq> 0" and "mm_wf mm"
    and "\<exists>i < MAX_THREADS. slot_free (threads s ! i)"
    and "\<exists>i < MAX_PAGES. \<not> bm_test (page_bitmap mm) i"
  shows "case sched_create_thread f (s, mm) of (rc, s', mm') \<Rightarrow>
    rc = sint (next_thread_id s) \<and> sched_ok s' \<and> pids_ok s' \<and> mm_wf mm' \<and>
    (\<exists>i < MAX_THREADS. slot_free (threads s ! i) \<and> runnable (threads s' ! i) \<and>
       tid (threads s' ! i) = next_thread_id s \<and>
       sched_get_process_by_pid (next_thread_id s) s' = Some i \<and>
       (\<exists>p < MAX_PAGES. \<not> bm_test (page_bitmap mm) p \<and> bm_test (page_bitmap mm') p \<and>
          stack_ptr (threads s' ! i) = page_addr p + PAGE_SIZE - 4) \<and>
       memory mm' (stack_ptr (threads s' ! i)) = f \<and>
       (\<forall>j < MAX_THREADS. j \<noteq> i \<longrightarrow> threads s' ! j = threads s ! j))"
proof -
  have len: "length (threads s) = MAX_THREADS" using assms(1) by (simp add: sched_ok_def sched_wf_def)
  obtain p where p: "p < MAX_PAGES" "\<not> bm_test (page_bitmap mm) p"
      "mm_alloc_page mm = (page_addr p, mm\<lparr>page_bitmap := bm_set (page_bitmap mm) p,
         next_free_page := of_nat (p + 1)\<rparr>)" "mm_wf (snd (mm_alloc_page mm))"
    using assms(6) by (cases rule: mm_alloc_cases [OF assms(4)]) blast+
  have p8: "p div 8 < length (page_bitmap mm)" using assms(4) page_div_8 [OF p(1)] by (simp add: mm_wf_def)
  show ?thesis
  proof (cases rule: create_cases [of s f mm])
    case Full
    with assms(5) show ?thesis by blast
  next
    case (NoPage i mm')
    with p show ?thesis by simp
  next
    case (Ok i q mm')
    let ?n = "next_thread_id s"
    let ?s = "update_thread i (\<lambda>t. t\<lparr>tid := ?n, state := THREAD_READY, priority := 1,
        stack_ptr := q + PAGE_SIZE - 4\<rparr>) s\<lparr>next_thread_id := ?n + 1\<rparr>"
    note run = Ok(5) [OF len]
    have q: "q = page_addr p" "mm' = snd (mm_alloc_page mm)" using p(3) Ok(3) by simp_all
    have lt: "unat (?n + 1) = unat ?n + 1" using assms(3) by (rule unat_plus_one)
    have i: "i < length (threads s)" using Ok(1) len by simp
    have others: "tid (threads s ! j) \<noteq> ?n" if "j < MAX_THREADS" for j
      using assms(2) that by (auto simp: pids_ok_def)
    have th: "threads ?s ! j = (if j = i then (threads s ! i)\<lparr>tid := ?n, state := THREAD_READY,
        priority := 1, stack_ptr := q + PAGE_SIZE - 4\<rparr> else threads s ! j)" for j
      using i by simp
    have n0: "?n \<noteq> 0" using assms(2) by (simp add: pids_ok_def)
    have "sched_ok ?s"
      using sched_ok_create [OF assms(1), of f mm] unfolding run by simp
    moreover have "pids_ok ?s"
      using assms(2) others lt th assms(3) Ok(1)
      by (auto simp: pids_ok_def word_less_nat_alt less_Suc_eq)
    moreover have "runnable (threads ?s ! i)" "tid (threads ?s ! i) = ?n" using n0 th by (simp_all add: runnable_def)
    moreover have "sched_get_process_by_pid ?n ?s = Some i"
      unfolding sched_get_process_by_pid_def scan_Some_iff using Ok(1) others th by auto
    moreover have "bm_test (page_bitmap mm') p" using p q p8 by (simp add: bitmap_simps)
    moreover have "stack_ptr (threads ?s ! i) = page_addr p + PAGE_SIZE - 4" using th q by simp
    moreover have "memory (mm'\<lparr>memory := store (q + PAGE_SIZE - 4) 0 f (memory mm')\<rparr>)
        (stack_ptr (threads ?s ! i)) = f" using th by (simp add: store_def)
    moreover have "mm_wf (mm'\<lparr>memory := store (q + PAGE_SIZE - 4) 0 f (memory mm')\<rparr>)"
      using p(4) q by (simp add: mm_wf_def)
    ultimately show ?thesis unfolding run using Ok(1,2) p(1,2) th by auto
  qed
qed

theorem sched_create_thread_ok_witness:
  "\<exists>s' mm'. sched_create_thread 0x123 (sched_boot, mm_boot (\<lambda>_. 0) 0 0) = (1, s', mm') \<and>
     sched_ok s' \<and> pids_ok s'"
proof -
  have free: "\<exists>i < MAX_THREADS. slot_free (threads sched_boot ! i)"
    by (intro exI [of _ 0]) (simp add: sched_boot_def zero_thread_def slot_free_def MAX_THREADS_def)
  have pids: "pids_ok sched_boot"
    by (simp add: pids_ok_def sched_boot_def zero_thread_def MAX_THREADS_def)
  have "\<not> bm_test (page_bitmap (mm_boot (\<lambda>_. 0) 0 0)) 0" by (simp add: mm_boot_def MAX_PAGES_def)
  then have page: "\<exists>i < MAX_PAGES. \<not> bm_test (page_bitmap (mm_boot (\<lambda>_. 0) 0 0)) i"
    by (intro exI [of _ 0]) (simp add: MAX_PAGES_def)
  have nx: "next_thread_id sched_boot + 1 \<noteq> 0" by (simp add: sched_boot_def)
  from sched_create_thread_ok [OF sched_ok_boot pids nx mm_wf_boot free page, of "0x123"]
  show ?thesis by (auto simp: sched_boot_def split: prod.splits)
qed

text \<open>
  when no page is left, \<open>sched_create_thread\<close> reports failure with -1, but the slot it chose
  already holds a ready thread with a process id and without a stack, which the scheduler then
  runs within 64 schedulings.
\<close>

theorem sched_create_thread_no_page:
  assumes "sched_ok s" and "next_thread_id s \<noteq> 0" and "mm_wf mm"
    and "\<exists>i < MAX_THREADS. slot_free (threads s ! i)"
    and "\<forall>p < MAX_PAGES. bm_test (page_bitmap mm) p"
  shows "case sched_create_thread f (s, mm) of (rc, s', mm') \<Rightarrow> rc = -1 \<and> mm' = mm \<and>
    (\<exists>i < MAX_THREADS. slot_free (threads s ! i) \<and> runnable (threads s' ! i) \<and>
       stack_ptr (threads s' ! i) = stack_ptr (threads s ! i) \<and>
       (\<exists>n \<le> 64. unat (current_thread ((sched_schedule ^^ n) s')) = i))"
proof -
  have len: "length (threads s) = MAX_THREADS" using assms(1) by (simp add: sched_ok_def sched_wf_def)
  have none: "mm_alloc_page mm = (0, mm)"
    using assms(5) by (cases rule: mm_alloc_cases [OF assms(3)]) blast+
  show ?thesis
  proof (cases rule: create_cases [of s f mm])
    case (NoPage i mm')
    obtain s' where s': "sched_create_thread f (s, mm) = (-1, s', mm)"
      "s' = update_thread i (\<lambda>t. t\<lparr>tid := next_thread_id s, state := THREAD_READY, priority := 1\<rparr>) s
         \<lparr>next_thread_id := next_thread_id s + 1\<rparr>"
      using NoPage none by simp
    have ok: "sched_ok s'" using sched_ok_create [OF assms(1), of f mm] s'(1) by simp
    have run: "runnable (threads s' ! i)" "stack_ptr (threads s' ! i) = stack_ptr (threads s ! i)"
      using NoPage(1) len assms(2) unfolding s'(2) by (simp_all add: runnable_def)
    obtain k where k: "k < MAX_THREADS" "turn s' k = i" using turn_surj [OF NoPage(1)] .
    with schedule_progress [OF ok k(1)] run(1) obtain n where
      "n \<le> k" "unat (current_thread ((sched_schedule ^^ Suc n) s')) = i" by auto
    with k(1) have "\<exists>n \<le> 64. unat (current_thread ((sched_schedule ^^ n) s')) = i"
      by (intro exI [of _ "Suc n"]) (simp add: MAX_THREADS_def)
    with run NoPage(1,2) show ?thesis unfolding s'(1) by auto
  qed (use assms none in auto)
qed

theorem sched_create_thread_no_page_witness:
  "\<exists>mm s'. sched_create_thread 0x123 (sched_boot, mm) = (-1, s', mm) \<and>
     (\<exists>i < MAX_THREADS. runnable (threads s' ! i))"
proof -
  let ?mm = "mm_boot (\<lambda>_. 0) 0 0\<lparr>page_bitmap := replicate 512 0xFF\<rparr>"
  have wf: "mm_wf ?mm" using mm_wf_boot by (simp add: mm_wf_def mm_boot_def MAX_PAGES_def)
  have full: "\<forall>p < MAX_PAGES. bm_test (page_bitmap ?mm) p"
    by (auto simp: bm_test_bit MAX_PAGES_def bit_mask_iff
        simp flip: mask_eq_exp_minus_1 [of 8, where 'a = "8 word", simplified])
  have free: "\<exists>i < MAX_THREADS. slot_free (threads sched_boot ! i)"
    by (intro exI [of _ 0]) (simp add: sched_boot_def zero_thread_def slot_free_def MAX_THREADS_def)
  have nx: "next_thread_id sched_boot \<noteq> 0" by (simp add: sched_boot_def)
  from sched_create_thread_no_page [OF sched_ok_boot nx wf free full, of "0x123"]
  show ?thesis by (auto split: prod.splits)
qed

lemma schedule_unblocks:
  assumes "sched_ok s" and "state (threads s ! unat (current_thread s)) = THREAD_BLOCKED"
    and "tid (threads s ! unat (current_thread s)) \<noteq> 0"
    and "\<exists>i < MAX_THREADS. runnable (threads s ! i)"
  shows "state (threads (sched_schedule s) ! unat (current_thread s)) = THREAD_READY"
  using sched_okD [OF assms(1)]
proof (cases rule: schedule_cases)
  case Idle
  with assms(4) show ?thesis by blast
next
  case (Switch k)
  have cur: "unat (current_thread s) < MAX_THREADS" using assms(1) by (simp add: sched_ok_def sched_wf_def)
  have "turn s k \<noteq> unat (current_thread s)" using Switch(2) assms(2) by (auto simp: runnable_def)
  with switch_to_effect(5) [OF sched_okD [OF assms(1)] turn_lt cur] Switch(4) assms(3) show ?thesis by auto
qed

text \<open>
  \<open>sched_schedule\<close> puts the current thread back to ready without looking at its state: a
  thread that blocked itself is ready again as soon as another thread is scheduled.
\<close>

theorem sched_schedule_unblocks:
  assumes "sched_ok s" and "state (threads s ! unat (current_thread s)) = THREAD_BLOCKED"
    and "tid (threads s ! unat (current_thread s)) \<noteq> 0"
    and "\<exists>i < MAX_THREADS. runnable (threads s ! i)"
  shows "state (threads (sched_schedule s) ! unat (current_thread s)) = THREAD_READY"
  using schedule_unblocks assms .

theorem sched_schedule_unblocks_witness:
  "\<exists>s. state (threads s ! 0) = THREAD_BLOCKED \<and> state (threads (sched_schedule s) ! 0) = THREAD_READY"
proof -
  let ?s = "update_thread 0 (\<lambda>t. t\<lparr>tid := 1, state := THREAD_BLOCKED\<rparr>) demo_sched"
  have len: "0 < length (threads demo_sched)" by (simp add: demo_sched_ok)
  have ok: "sched_ok ?s" by (rule sched_ok_update [OF demo_sched_ok(1)]) (simp_all add: MAX_THREADS_def)
  have cur: "unat (current_thread ?s) = 0" by (simp add: demo_sched_def sched_boot_def)
  have blocked: "state (threads ?s ! unat (current_thread ?s)) = THREAD_BLOCKED"
    "tid (threads ?s ! unat (current_thread ?s)) \<noteq> 0"
    unfolding cur using len by simp_all
  have "\<exists>i < MAX_THREADS. runnable (threads ?s ! i)"
    using demo_sched_ok(3) len by (intro exI [of _ 5]) (simp add: MAX_THREADS_def)
  from sched_schedule_unblocks [OF ok blocked this] cur blocked(1) show ?thesis by auto
qed

end
