(* ===== verification/Kernel_Ipc.thy ===== *)
theory Kernel_Ipc
  imports Interfaces
begin

text \<open>
  The kernel's IPC subsystem, kernel/src/ipc/ipc.c: one static ring of 32 message slots with a
  head and a tail index. One slot stays empty to tell a full ring from an empty one, so 31
  messages can be pending. The abstraction \<open>pending\<close> is the list of queued messages, oldest
  first; the ring implements the bounded queue contract of \<open>Interfaces\<close> over it.
\<close>

section \<open>Messages and return codes (include/kernel/ipc.h)\<close>

definition ECLIB_OK :: int where "ECLIB_OK = 0"
definition ECLIB_IPC_TIMEOUT :: int where "ECLIB_IPC_TIMEOUT = -1"
definition ECLIB_IPC_BUFFER_OVERFLOW :: int where "ECLIB_IPC_BUFFER_OVERFLOW = -4"

definition IPC_MAX_DATA_SIZE :: nat where "IPC_MAX_DATA_SIZE = 4096"

record ipc_message =
  m_type :: u32
  m_source :: u32
  m_target :: u32
  m_timestamp :: u32
  m_size :: u32
  m_sequence :: u32
  m_data :: "u8 list"

definition zero_message :: ipc_message where
  "zero_message = \<lparr>m_type = 0, m_source = 0, m_target = 0, m_timestamp = 0, m_size = 0,
     m_sequence = 0, m_data = replicate IPC_MAX_DATA_SIZE 0\<rparr>"

section \<open>The queue (src/ipc/ipc.c)\<close>

definition MAX_IPC_QUEUE :: nat where "MAX_IPC_QUEUE = 32"

record ipc_state =
  ipc_queue :: "ipc_message list"
  queue_head :: u32
  queue_tail :: u32

definition ipc_boot :: ipc_state where
  "ipc_boot = \<lparr>ipc_queue = replicate MAX_IPC_QUEUE zero_message, queue_head = 0, queue_tail = 0\<rparr>"

definition ipc_send :: "u32 \<Rightarrow> ipc_message \<Rightarrow> ipc_state \<Rightarrow> int \<times> ipc_state" where
  "ipc_send target msg s =
     (let next_tail = (queue_tail s + 1) mod of_nat MAX_IPC_QUEUE in
      if next_tail = queue_head s then (ECLIB_IPC_BUFFER_OVERFLOW, s)
      else (ECLIB_OK,
        s\<lparr>ipc_queue := (ipc_queue s)[unat (queue_tail s) := msg\<lparr>m_target := target\<rparr>],
          queue_tail := next_tail\<rparr>))"

text \<open>The message is copied through the caller's pointer; \<open>None\<close> when nothing is written there.\<close>

definition ipc_receive :: "ipc_state \<Rightarrow> int \<times> ipc_message option \<times> ipc_state" where
  "ipc_receive s =
     (if queue_head s = queue_tail s then (ECLIB_IPC_TIMEOUT, None, s)
      else (ECLIB_OK, Some (ipc_queue s ! unat (queue_head s)),
        s\<lparr>queue_head := (queue_head s + 1) mod of_nat MAX_IPC_QUEUE\<rparr>))"

text \<open>\<open>src\<close> is the memory at the caller's \<open>data\<close> pointer.\<close>

definition ipc_send_msg ::
  "u32 \<Rightarrow> u32 \<Rightarrow> u32 \<Rightarrow> u32 \<Rightarrow> (nat \<Rightarrow> u8) \<Rightarrow> ipc_state \<Rightarrow> int \<times> ipc_state" where
  "ipc_send_msg type flags receiver_pid data_len src s =
     (if unat data_len > IPC_MAX_DATA_SIZE then (ECLIB_IPC_BUFFER_OVERFLOW, s)
      else
        (let msg = zero_message\<lparr>m_type := type, m_target := receiver_pid, m_size := data_len\<rparr>;
             msg = msg\<lparr>m_data := fill_loop src (unat data_len) (m_data msg)\<rparr>
         in ipc_send receiver_pid msg s))"

definition ipc_receive_msg :: "int \<Rightarrow> ipc_state \<Rightarrow> int \<times> ipc_message option \<times> ipc_state" where
  "ipc_receive_msg timeout_ms s = ipc_receive s"

section \<open>The abstract queue\<close>

definition ipc_wf :: "ipc_state \<Rightarrow> bool" where
  "ipc_wf s \<longleftrightarrow> length (ipc_queue s) = MAX_IPC_QUEUE \<and>
     unat (queue_head s) < MAX_IPC_QUEUE \<and> unat (queue_tail s) < MAX_IPC_QUEUE"

definition ipc_count :: "ipc_state \<Rightarrow> nat" where
  "ipc_count s = (unat (queue_tail s) + MAX_IPC_QUEUE - unat (queue_head s)) mod MAX_IPC_QUEUE"

definition pending :: "ipc_state \<Rightarrow> ipc_message list" where
  "pending s = ring (ipc_queue s) (unat (queue_head s)) (ipc_count s)"

definition ipc_capacity :: nat where "ipc_capacity = MAX_IPC_QUEUE - 1"

lemmas ipc_defs = ipc_send_def ipc_receive_def ipc_wf_def ipc_count_def pending_def
  ipc_capacity_def MAX_IPC_QUEUE_def Let_def

lemma length_pending [simp]: "length (pending s) = ipc_count s"
  by (simp add: pending_def)

lemma ipc_wf_boot [simp]: "ipc_wf ipc_boot"
  by (simp add: ipc_wf_def ipc_boot_def MAX_IPC_QUEUE_def)

lemma pending_boot [simp]: "pending ipc_boot = []"
  by (simp add: pending_def ipc_count_def ipc_boot_def MAX_IPC_QUEUE_def)

lemma unat_next_slot:
  "unat (x :: u32) < MAX_IPC_QUEUE \<Longrightarrow>
   unat ((x + 1) mod of_nat MAX_IPC_QUEUE) = (unat x + 1) mod MAX_IPC_QUEUE"
  by (rule unat_succ_mod) (simp_all add: MAX_IPC_QUEUE_def)

lemma ipc_wf_send: "ipc_wf s \<Longrightarrow> ipc_wf (snd (ipc_send t m s))"
  using unat_next_slot [of "queue_tail s"]
  by (simp add: ipc_send_def Let_def ipc_wf_def MAX_IPC_QUEUE_def)

lemma ipc_wf_receive: "ipc_wf s \<Longrightarrow> ipc_wf (snd (snd (ipc_receive s)))"
  using unat_next_slot [of "queue_head s"]
  by (simp add: ipc_receive_def Let_def ipc_wf_def MAX_IPC_QUEUE_def)

lemma ipc_full_iff:
  assumes "ipc_wf s"
  shows "(queue_tail s + 1) mod of_nat MAX_IPC_QUEUE = queue_head s \<longleftrightarrow>
    ipc_capacity \<le> ipc_count s"
proof -
  have "(queue_tail s + 1) mod of_nat MAX_IPC_QUEUE = queue_head s \<longleftrightarrow>
      (unat (queue_tail s) + 1) mod MAX_IPC_QUEUE = unat (queue_head s)"
    using assms by (simp add: word_unat_eq_iff unat_next_slot ipc_wf_def)
  then show ?thesis using assms ring_full_iff
    by (simp add: ipc_wf_def ipc_count_def ipc_capacity_def MAX_IPC_QUEUE_def)
qed

lemma ipc_send_full:
  "ipc_wf s \<Longrightarrow> ipc_capacity \<le> ipc_count s \<Longrightarrow>
   ipc_send t m s = (ECLIB_IPC_BUFFER_OVERFLOW, s)"
  by (simp add: ipc_send_def ipc_full_iff)

lemma ipc_send_room:
  assumes wf: "ipc_wf s" and room: "ipc_count s < ipc_capacity"
  shows "\<exists>s'. ipc_send t m s = (ECLIB_OK, s') \<and> ipc_wf s' \<and>
    pending s' = pending s @ [m\<lparr>m_target := t\<rparr>]"
proof -
  let ?h = "unat (queue_head s)" and ?t = "unat (queue_tail s)"
  let ?s = "s\<lparr>ipc_queue := (ipc_queue s)[?t := m\<lparr>m_target := t\<rparr>],
    queue_tail := (queue_tail s + 1) mod of_nat MAX_IPC_QUEUE\<rparr>"
  have send: "ipc_send t m s = (ECLIB_OK, ?s)"
    using wf room ipc_full_iff [OF wf] by (simp add: ipc_send_def Let_def)
  have bounds: "?h < 32" "?t < 32" "length (ipc_queue s) = 32"
    using wf by (auto simp: ipc_wf_def MAX_IPC_QUEUE_def)
  have next_tail: "unat ((queue_tail s + 1) mod of_nat MAX_IPC_QUEUE) = (?t + 1) mod 32"
    using unat_next_slot [of "queue_tail s"] bounds by (simp add: MAX_IPC_QUEUE_def)
  have ne: "(?t + 1) mod 32 \<noteq> ?h"
    using room ring_full_iff [OF bounds(1,2)] by (simp add: ipc_count_def ipc_capacity_def MAX_IPC_QUEUE_def)
  have count: "ipc_count ?s = Suc (ipc_count s)"
    using ring_advance_tail [OF bounds(1,2) ne] next_tail
    by (simp add: ipc_count_def MAX_IPC_QUEUE_def)
  have slot: "(?h + ipc_count s) mod length (ipc_queue s) = ?t"
    using ring_tail_index [OF bounds(1,2)] bounds(3)
    by (simp add: ipc_count_def MAX_IPC_QUEUE_def)
  have "ipc_count s < length (ipc_queue s)"
    using room bounds(3) by (simp add: ipc_capacity_def MAX_IPC_QUEUE_def)
  from ring_snoc [OF this, of ?h "m\<lparr>m_target := t\<rparr>"] count slot
  have "pending ?s = pending s @ [m\<lparr>m_target := t\<rparr>]" by (simp add: pending_def)
  moreover have "ipc_wf ?s" using wf next_tail by (simp add: ipc_wf_def MAX_IPC_QUEUE_def)
  ultimately show ?thesis using send by blast
qed

lemma ipc_receive_empty:
  assumes "ipc_wf s" and "pending s = []"
  shows "ipc_receive s = (ECLIB_IPC_TIMEOUT, None, s)"
proof -
  have "ipc_count s = 0" using assms(2) length_pending [of s] by simp
  then have "unat (queue_head s) = unat (queue_tail s)"
    using assms(1) ring_empty_iff [of "unat (queue_head s)" 32 "unat (queue_tail s)"]
    by (simp add: ipc_wf_def ipc_count_def MAX_IPC_QUEUE_def)
  then show ?thesis by (simp add: ipc_receive_def word_unat_eq_iff)
qed

lemma ipc_receive_head:
  assumes wf: "ipc_wf s" and ne: "pending s = m # ms"
  shows "\<exists>s'. ipc_receive s = (ECLIB_OK, Some m, s') \<and> ipc_wf s' \<and> pending s' = ms"
proof -
  let ?h = "unat (queue_head s)" and ?t = "unat (queue_tail s)"
  let ?s = "s\<lparr>queue_head := (queue_head s + 1) mod of_nat MAX_IPC_QUEUE\<rparr>"
  have bounds: "?h < 32" "?t < 32" "length (ipc_queue s) = 32"
    using wf by (auto simp: ipc_wf_def MAX_IPC_QUEUE_def)
  have "ipc_count s \<noteq> 0" using ne length_pending [of s] by auto
  then have diff: "?h \<noteq> ?t"
    using ring_empty_iff [OF bounds(1,2)] by (simp add: ipc_count_def MAX_IPC_QUEUE_def)
  have next_head: "unat ((queue_head s + 1) mod of_nat MAX_IPC_QUEUE) = (?h + 1) mod 32"
    using unat_next_slot [of "queue_head s"] bounds by (simp add: MAX_IPC_QUEUE_def)
  have count: "ipc_count s = Suc (ipc_count ?s)"
    using ring_advance_head [OF bounds(1,2) diff] next_head
    by (simp add: ipc_count_def MAX_IPC_QUEUE_def)
  have "pending s = ipc_queue s ! ?h # pending ?s"
    unfolding pending_def count using ring_Cons [of ?h "ipc_queue s"] bounds next_head by simp
  with ne have "m = ipc_queue s ! ?h" "pending ?s = ms" by auto
  moreover have "ipc_wf ?s" using wf next_head by (simp add: ipc_wf_def MAX_IPC_QUEUE_def)
  ultimately show ?thesis using diff by (simp add: ipc_receive_def word_unat_eq_iff)
qed

section \<open>The queue contract\<close>

text \<open>The two system calls as queue operations: accepted or not, received or not.\<close>

definition kq_enq :: "u32 \<times> ipc_message \<Rightarrow> ipc_state \<Rightarrow> ipc_state option" where
  "kq_enq a s = (case ipc_send (fst a) (snd a) s of
     (rc, s') \<Rightarrow> if rc = ECLIB_OK then Some s' else None)"

definition kq_deq :: "ipc_state \<Rightarrow> (ipc_message \<times> ipc_state) option" where
  "kq_deq s = (case ipc_receive s of
     (rc, m, s') \<Rightarrow> (case m of Some x \<Rightarrow> Some (x, s') | None \<Rightarrow> None))"

definition kq_entry :: "u32 \<times> ipc_message \<Rightarrow> ipc_message" where
  "kq_entry a = (snd a)\<lparr>m_target := fst a\<rparr>"

interpretation kq: bounded_fifo kq_enq kq_deq kq_entry pending ipc_wf ipc_capacity
proof unfold_locales
  fix s a assume "ipc_wf s" "length (pending s) < ipc_capacity"
  then show "\<exists>s'. kq_enq a s = Some s' \<and> ipc_wf s' \<and> pending s' = pending s @ [kq_entry a]"
    using ipc_send_room [of s "fst a" "snd a"] by (auto simp: kq_enq_def kq_entry_def)
next
  fix s a assume "ipc_wf s" "ipc_capacity \<le> length (pending s)"
  then show "kq_enq a s = None"
    by (simp add: kq_enq_def ipc_send_full ECLIB_OK_def ECLIB_IPC_BUFFER_OVERFLOW_def)
next
  fix s assume "ipc_wf s" "pending s = []"
  then show "kq_deq s = None" by (simp add: kq_deq_def ipc_receive_empty)
next
  fix s m ms assume "ipc_wf s" "pending s = m # ms"
  from ipc_receive_head [OF this]
  show "\<exists>s'. kq_deq s = Some (m, s') \<and> ipc_wf s' \<and> pending s' = ms"
    by (auto simp: kq_deq_def)
qed

section \<open>Properties\<close>

lemma ipc_count_bound: "ipc_count s \<le> ipc_capacity"
  by (simp add: ipc_count_def ipc_capacity_def MAX_IPC_QUEUE_def less_Suc_eq_le [symmetric])

text \<open>
  C4: The kernel IPC ring implements a bounded queue of 31 messages: ipc_send appends the message,
  addressed to its target, when fewer than 31 are pending and otherwise returns
  ECLIB_IPC_BUFFER_OVERFLOW and leaves the state alone; ipc_receive hands out the oldest message,
  or returns ECLIB_IPC_TIMEOUT and leaves the state alone when none is pending.
\<close>
theorem ipc_refines_bounded_queue:
  assumes "ipc_wf s"
  shows "(case ipc_send t m s of (rc, s') \<Rightarrow>
      if length (pending s) < 31
      then rc = ECLIB_OK \<and> ipc_wf s' \<and> pending s' = pending s @ [m\<lparr>m_target := t\<rparr>]
      else rc = ECLIB_IPC_BUFFER_OVERFLOW \<and> s' = s) \<and>
    (case ipc_receive s of (rc, x, s') \<Rightarrow>
      (case pending s of
         [] \<Rightarrow> rc = ECLIB_IPC_TIMEOUT \<and> x = None \<and> s' = s
       | y # ys \<Rightarrow> rc = ECLIB_OK \<and> x = Some y \<and> ipc_wf s' \<and> pending s' = ys))"
proof (rule conjI)
  have cap: "ipc_capacity = 31" by (simp add: ipc_capacity_def MAX_IPC_QUEUE_def)
  show "case ipc_send t m s of (rc, s') \<Rightarrow>
      if length (pending s) < 31
      then rc = ECLIB_OK \<and> ipc_wf s' \<and> pending s' = pending s @ [m\<lparr>m_target := t\<rparr>]
      else rc = ECLIB_IPC_BUFFER_OVERFLOW \<and> s' = s"
    using ipc_send_room [OF assms, of t m] ipc_send_full [OF assms, of t m] cap
    by (cases "ipc_count s < 31") auto
  show "case ipc_receive s of (rc, x, s') \<Rightarrow>
      (case pending s of
         [] \<Rightarrow> rc = ECLIB_IPC_TIMEOUT \<and> x = None \<and> s' = s
       | y # ys \<Rightarrow> rc = ECLIB_OK \<and> x = Some y \<and> ipc_wf s' \<and> pending s' = ys)"
    using ipc_receive_empty [OF assms] ipc_receive_head [OF assms]
    by (cases "pending s") fastforce+
qed

theorem ipc_refines_bounded_queue_witness:
  "pending (snd (ipc_send 7 zero_message ipc_boot)) = [zero_message\<lparr>m_target := 7\<rparr>]"
  using ipc_refines_bounded_queue [OF ipc_wf_boot, of 7 zero_message]
  by (auto split: prod.splits)

text \<open>
  Over any session of sends and receives the kernel queue neither loses, duplicates nor
  reorders messages: what was pending followed by what was accepted is exactly what was received
  followed by what is still pending, and at most 31 messages are ever pending.
\<close>
theorem ipc_session_fifo:
  assumes "ipc_wf s" and "run_fifo kq_enq kq_deq s ops = (s', accepted, received)"
  shows "pending s @ map kq_entry accepted = received @ pending s' \<and> length (pending s') \<le> 31"
  using kq.session_order [OF assms] ipc_count_bound [of s']
  by (simp add: ipc_capacity_def MAX_IPC_QUEUE_def)

theorem ipc_session_fifo_witness:
  "\<exists>s' acc got. run_fifo kq_enq kq_deq ipc_boot [Send (7, zero_message), Receive] = (s', acc, got) \<and>
     map kq_entry acc = got @ pending s'"
proof -
  obtain s' acc got
    where run: "run_fifo kq_enq kq_deq ipc_boot [Send (7, zero_message), Receive] = (s', acc, got)"
    by (cases "run_fifo kq_enq kq_deq ipc_boot [Send (7, zero_message), Receive]")
  from ipc_session_fifo [OF ipc_wf_boot run] show ?thesis using run by auto
qed

text \<open>
  ipc_send_msg queues a message that carries exactly the caller's bytes, zero padded to the
  4096-byte data field, with its length and type and no sender; a length over IPC_MAX_DATA_SIZE is
  refused with ECLIB_IPC_BUFFER_OVERFLOW and nothing is queued.
\<close>
theorem ipc_send_msg_payload:
  assumes "ipc_wf s"
  shows "case ipc_send_msg type flags pid len src s of (rc, s') \<Rightarrow>
    if unat len > 4096 \<or> length (pending s) = 31
    then rc = ECLIB_IPC_BUFFER_OVERFLOW \<and> s' = s
    else rc = ECLIB_OK \<and> ipc_wf s' \<and>
      pending s' = pending s @ [\<lparr>m_type = type, m_source = 0, m_target = pid, m_timestamp = 0,
        m_size = len, m_sequence = 0,
        m_data = map src [0..<unat len] @ replicate (4096 - unat len) 0\<rparr>]"
proof (cases "unat len > 4096")
  case True
  then show ?thesis by (simp add: ipc_send_msg_def IPC_MAX_DATA_SIZE_def)
next
  case False
  then have fill: "fill_loop src (unat len) (replicate 4096 0) =
      map src [0..<unat len] @ replicate (4096 - unat len) 0"
    by (simp add: fill_loop_eq)
  have cap: "ipc_capacity = 31" by (simp add: ipc_capacity_def MAX_IPC_QUEUE_def)
  let ?m = "\<lparr>m_type = type, m_source = 0, m_target = pid, m_timestamp = 0, m_size = len,
    m_sequence = 0, m_data = map src [0..<unat len] @ replicate (4096 - unat len) 0\<rparr>"
  have "ipc_send_msg type flags pid len src s = ipc_send pid ?m s"
    using False fill by (simp add: ipc_send_msg_def IPC_MAX_DATA_SIZE_def zero_message_def Let_def)
  then show ?thesis
    using False ipc_count_bound [of s] cap
      ipc_send_room [OF assms, of pid ?m] ipc_send_full [OF assms, of pid ?m]
    by (cases "ipc_count s = 31") auto
qed

theorem ipc_send_msg_payload_witness:
  "fst (ipc_send_msg 1 0 5 4097 (\<lambda>_. 9) ipc_boot) = ECLIB_IPC_BUFFER_OVERFLOW \<and>
   map m_size (pending (snd (ipc_send_msg 1 0 5 2 (\<lambda>_. 9) ipc_boot))) = [2]"
  using ipc_send_msg_payload [OF ipc_wf_boot, where type = 1 and flags = 0 and pid = 5 and len = 4097 and src = "\<lambda>_. 9"]
    ipc_send_msg_payload [OF ipc_wf_boot, where type = 1 and flags = 0 and pid = 5 and len = 2 and src = "\<lambda>_. 9"]
  by (auto split: prod.splits)

end
