(* ===== verification/Kernel_Syscall.thy ===== *)
theory Kernel_Syscall
  imports Kernel_Sched Kernel_Ipc
begin

text \<open>
  The system-call layer, kernel/src/kernel/syscall.c, with the clock of kernel/src/time/time.c: the
  table of threads that wait for an interrupt, the notification an interrupt causes, the time-out
  check of the main loop, the wait itself and the dispatcher of \<open>int 0x80\<close>.

  The wait is a loop that spins until an interrupt has been noted or its entry has gone. What
  happens meanwhile is a trace: before each test of the loop condition the trace says which
  interrupts were noted and how often the clock ticked. A trace that ends before the loop does
  gives no result.
\<close>

section \<open>State\<close>

definition MAX_IRQ_WAITERS :: nat where "MAX_IRQ_WAITERS = 16"
definition MAX_IRQS :: nat where "MAX_IRQS = 16"
definition BLOCK_REASON_NONE :: u8 where "BLOCK_REASON_NONE = 0"
definition BLOCK_REASON_IRQ_WAIT :: u8 where "BLOCK_REASON_IRQ_WAIT = 1"
definition IRQ_WAIT_CLEAR :: u8 where "IRQ_WAIT_CLEAR = 1"
definition IRQ_WAIT_NOWAIT :: u8 where "IRQ_WAIT_NOWAIT = 2"
definition ERR_TIMEOUT :: int where "ERR_TIMEOUT = -3"

record irq_waiter =
  w_pid :: u32
  irq_number :: u8
  w_flags :: u8
  timeout_ms :: u32
  start_time :: u64
  is_active :: bool

definition zero_waiter :: irq_waiter where
  "zero_waiter = \<lparr>w_pid = 0, irq_number = 0, w_flags = 0, timeout_ms = 0, start_time = 0,
     is_active = False\<rparr>"

record kernel =
  sched :: sched_state
  mm :: mm_state
  ipc :: ipc_state
  irq_waiters :: "irq_waiter list"
  num_waiters :: nat
  irq_occurred :: "u32 list"
  irq_occurrence_count :: "u32 list"
  system_ticks :: u64

definition kernel_boot :: "mm_state \<Rightarrow> kernel" where
  "kernel_boot m = \<lparr>sched = sched_boot, mm = m, ipc = ipc_boot,
     irq_waiters = replicate MAX_IRQ_WAITERS zero_waiter, num_waiters = 0,
     irq_occurred = replicate MAX_IRQS 0, irq_occurrence_count = replicate MAX_IRQS 0,
     system_ticks = 0\<rparr>"

definition time_get_current_ms :: "kernel \<Rightarrow> u64" where
  "time_get_current_ms k = system_ticks k"

definition time_tick :: "kernel \<Rightarrow> kernel" where
  "time_tick k = k\<lparr>system_ticks := system_ticks k + 1\<rparr>"

section \<open>Waiters\<close>

definition syscall_irq_init :: "kernel \<Rightarrow> kernel" where
  "syscall_irq_init k = k\<lparr>
     irq_waiters := map (\<lambda>w. w\<lparr>w_pid := 0, is_active := False\<rparr>) (irq_waiters k),
     irq_occurred := map (\<lambda>_. 0) (irq_occurred k),
     irq_occurrence_count := map (\<lambda>_. 0) (irq_occurrence_count k),
     num_waiters := 0\<rparr>"

definition waits_for :: "u32 \<Rightarrow> u8 \<Rightarrow> irq_waiter \<Rightarrow> bool" where
  "waits_for pid irq w \<longleftrightarrow> is_active w \<and> w_pid w = pid \<and> irq_number w = irq"

definition find_irq_waiter :: "u32 \<Rightarrow> u8 \<Rightarrow> kernel \<Rightarrow> nat option" where
  "find_irq_waiter pid irq k = scan (\<lambda>i. waits_for pid irq (irq_waiters k ! i)) 0 (num_waiters k)"

definition add_irq_waiter :: "u32 \<Rightarrow> u8 \<Rightarrow> u8 \<Rightarrow> u32 \<Rightarrow> kernel \<Rightarrow> int \<times> kernel" where
  "add_irq_waiter pid irq flags tmo k =
     (if find_irq_waiter pid irq k \<noteq> None then (-2, k)
      else (case scan (\<lambda>i. \<not> is_active (irq_waiters k ! i)) 0 MAX_IRQ_WAITERS of
         None \<Rightarrow> (-1, k)
       | Some i \<Rightarrow> (0, k\<lparr>
           irq_waiters := (irq_waiters k)[i := \<lparr>w_pid = pid, irq_number = irq, w_flags = flags,
             timeout_ms = tmo, start_time = time_get_current_ms k, is_active = True\<rparr>],
           num_waiters := (if i \<ge> num_waiters k then i + 1 else num_waiters k)\<rparr>)))"

definition deactivate :: "nat \<Rightarrow> kernel \<Rightarrow> kernel" where
  "deactivate i k = k\<lparr>irq_waiters := (irq_waiters k)[i := (irq_waiters k ! i)\<lparr>is_active := False\<rparr>]\<rparr>"

definition remove_irq_waiter :: "u32 \<Rightarrow> u8 \<Rightarrow> kernel \<Rightarrow> kernel" where
  "remove_irq_waiter pid irq k =
     (case find_irq_waiter pid irq k of None \<Rightarrow> k | Some i \<Rightarrow> deactivate i k)"

text \<open>\<open>t = sched_get_process_by_pid(pid); if (t && t->state == THREAD_BLOCKED) { ... }\<close>\<close>

definition wake :: "u32 \<Rightarrow> (thread \<Rightarrow> thread) \<Rightarrow> kernel \<Rightarrow> kernel" where
  "wake pid f k =
     (case sched_get_process_by_pid pid (sched k) of
        None \<Rightarrow> k
      | Some t \<Rightarrow>
          if state (threads (sched k) ! t) = THREAD_BLOCKED
          then k\<lparr>sched := update_thread t f (sched k)\<rparr> else k)"

definition ready_again :: "thread \<Rightarrow> thread" where
  "ready_again t = t\<lparr>state := THREAD_READY, block_reason := BLOCK_REASON_NONE\<rparr>"

definition timed_out :: "thread \<Rightarrow> thread" where
  "timed_out t = t\<lparr>state := THREAD_READY, block_reason := BLOCK_REASON_NONE, last_error := ERR_TIMEOUT\<rparr>"

definition notify_waiter :: "u8 \<Rightarrow> nat \<Rightarrow> kernel \<Rightarrow> kernel" where
  "notify_waiter irq i k =
     (let w = irq_waiters k ! i in
      if \<not> is_active w then k
      else if irq_number w \<noteq> irq then k
      else wake (w_pid w) ready_again (deactivate i k))"

definition syscall_irq_notify :: "u8 \<Rightarrow> kernel \<Rightarrow> kernel" where
  "syscall_irq_notify irq k =
     (if unat irq \<ge> MAX_IRQS then k
      else (let k = k\<lparr>irq_occurred := (irq_occurred k)[unat irq := 1],
                     irq_occurrence_count := (irq_occurrence_count k)
                       [unat irq := irq_occurrence_count k ! unat irq + 1]\<rparr>
            in fold (notify_waiter irq) [0..<num_waiters k] k))"

definition expire_waiter :: "u64 \<Rightarrow> nat \<Rightarrow> kernel \<Rightarrow> kernel" where
  "expire_waiter now i k =
     (let w = irq_waiters k ! i in
      if \<not> is_active w then k
      else if timeout_ms w = 0 then k
      else if now - start_time w < ucast (timeout_ms w) then k
      else wake (w_pid w) timed_out (deactivate i k))"

definition syscall_irq_check_timeouts :: "kernel \<Rightarrow> kernel" where
  "syscall_irq_check_timeouts k =
     fold (expire_waiter (time_get_current_ms k)) [0..<num_waiters k] k"

section \<open>Waiting for an interrupt\<close>

datatype event = Interrupt u8 | Tick

fun run_event :: "event \<Rightarrow> kernel \<Rightarrow> kernel" where
  "run_event (Interrupt irq) k = syscall_irq_notify irq k"
| "run_event Tick k = time_tick k"

definition yield_cpu :: "kernel \<Rightarrow> kernel" where
  "yield_cpu k = k\<lparr>sched := sched_yield (sched k)\<rparr>"

fun irq_wait_loop :: "u32 \<Rightarrow> u8 \<Rightarrow> event list list \<Rightarrow> kernel \<Rightarrow> kernel option" where
  "irq_wait_loop pid irq [] k = None"
| "irq_wait_loop pid irq (es # trace) k =
     (let k = fold run_event es k in
      if irq_occurred k ! unat irq \<noteq> 0 then Some k
      else (let k = syscall_irq_check_timeouts k in
        if find_irq_waiter pid irq k = None then Some k
        else irq_wait_loop pid irq trace (yield_cpu k)))"

definition clear_occurred :: "u8 \<Rightarrow> kernel \<Rightarrow> kernel" where
  "clear_occurred irq k = k\<lparr>irq_occurred := (irq_occurred k)[unat irq := 0]\<rparr>"

definition block_current :: "nat \<Rightarrow> u8 \<Rightarrow> kernel \<Rightarrow> kernel" where
  "block_current t irq k = k\<lparr>sched := update_thread t (\<lambda>t. t\<lparr>state := THREAD_BLOCKED,
     block_reason := BLOCK_REASON_IRQ_WAIT, irq_num := irq\<rparr>) (sched k)\<rparr>"

definition irq_wait_end :: "u32 \<Rightarrow> u8 \<Rightarrow> u8 \<Rightarrow> nat \<Rightarrow> kernel \<Rightarrow> int \<times> kernel" where
  "irq_wait_end pid irq flags t k =
     (let k = (if irq_occurred k ! unat irq \<noteq> 0 \<and> flags AND IRQ_WAIT_CLEAR \<noteq> 0
               then clear_occurred irq k else k);
          k = remove_irq_waiter pid irq k
      in if last_error (threads (sched k) ! t) = ERR_TIMEOUT
         then (-3, k\<lparr>sched := update_thread t (\<lambda>t. t\<lparr>last_error := 0\<rparr>) (sched k)\<rparr>)
         else (0, k))"

definition syscall_irq_wait ::
    "event list list \<Rightarrow> u8 \<Rightarrow> u8 \<Rightarrow> u32 \<Rightarrow> kernel \<Rightarrow> (int \<times> kernel) option" where
  "syscall_irq_wait trace irq flags tmo k =
     (if unat irq \<ge> MAX_IRQS then Some (-1, k)
      else (let pid = sched_get_current_pid (sched k) in
        if pid = 0 then Some (-4, k)
        else if irq_occurred k ! unat irq \<noteq> 0
        then Some (0, if flags AND IRQ_WAIT_CLEAR \<noteq> 0 then clear_occurred irq k else k)
        else if flags AND IRQ_WAIT_NOWAIT \<noteq> 0 then Some (-2, k)
        else (case add_irq_waiter pid irq flags tmo k of (rc, k) \<Rightarrow>
          if rc < 0 then Some (rc, k)
          else (let t = sched_get_current_process (sched k) in
            map_option (irq_wait_end pid irq flags t)
              (irq_wait_loop pid irq trace (block_current t irq k))))))"

definition syscall_irq_get_count :: "u8 \<Rightarrow> kernel \<Rightarrow> int" where
  "syscall_irq_get_count irq k =
     (if unat irq \<ge> MAX_IRQS then -1 else uint (irq_occurrence_count k ! unat irq))"

definition syscall_irq_reset_count :: "u8 \<Rightarrow> kernel \<Rightarrow> int \<times> kernel" where
  "syscall_irq_reset_count irq k =
     (if unat irq \<ge> MAX_IRQS then (-1, k)
      else (uint (irq_occurrence_count k ! unat irq),
            k\<lparr>irq_occurrence_count := (irq_occurrence_count k)[unat irq := 0]\<rparr>))"

section \<open>The dispatcher\<close>

text \<open>
  A message in memory: six 32-bit fields and the data, four bytes to a little-endian word, at
  ascending addresses from the pointer on.
\<close>

definition message_words :: "ipc_message \<Rightarrow> u32 list" where
  "message_words m = [m_type m, m_source m, m_target m, m_timestamp m, m_size m, m_sequence m] @
     map (\<lambda>i. le_word (m_data m ! (4 * i)) (m_data m ! (4 * i + 1)) (m_data m ! (4 * i + 2))
            (m_data m ! (4 * i + 3))) [0..<IPC_MAX_DATA_SIZE div 4]"

definition load_message :: "u32 \<Rightarrow> (u32 \<Rightarrow> u32) \<Rightarrow> ipc_message" where
  "load_message p mem = \<lparr>m_type = load p 0 mem, m_source = load p 1 mem, m_target = load p 2 mem,
     m_timestamp = load p 3 mem, m_size = load p 4 mem, m_sequence = load p 5 mem,
     m_data = map (\<lambda>i. ucast (drop_bit (8 * (i mod 4)) (load p (6 + i div 4) mem)))
       [0..<IPC_MAX_DATA_SIZE]\<rparr>"

definition store_message :: "u32 \<Rightarrow> ipc_message \<Rightarrow> (u32 \<Rightarrow> u32) \<Rightarrow> u32 \<Rightarrow> u32" where
  "store_message p m mem =
     fold (\<lambda>j. store p j (message_words m ! j)) [0..<length (message_words m)] mem"

definition SYS_IPC_SEND :: u32 where "SYS_IPC_SEND = 1"
definition SYS_IPC_RECEIVE :: u32 where "SYS_IPC_RECEIVE = 2"
definition SYS_THREAD_YIELD :: u32 where "SYS_THREAD_YIELD = 3"
definition SYS_ADDRESS_MAP :: u32 where "SYS_ADDRESS_MAP = 4"
definition SYS_IRQ_WAIT :: u32 where "SYS_IRQ_WAIT = 5"
definition SYS_IRQ_GET_COUNT :: u32 where "SYS_IRQ_GET_COUNT = 6"
definition SYS_IRQ_RESET_COUNT :: u32 where "SYS_IRQ_RESET_COUNT = 7"

definition receive_into :: "u32 \<Rightarrow> kernel \<Rightarrow> int \<times> kernel" where
  "receive_into p k =
     (case ipc_receive (ipc k) of
        (rc, None, q) \<Rightarrow> (rc, k\<lparr>ipc := q\<rparr>)
      | (rc, Some m, q) \<Rightarrow> (rc, k\<lparr>ipc := q,
          mm := (mm k)\<lparr>memory := store_message p m (memory (mm k))\<rparr>\<rparr>))"

definition syscall_handler ::
    "event list list \<Rightarrow> u32 \<Rightarrow> u32 \<Rightarrow> u32 \<Rightarrow> u32 \<Rightarrow> kernel \<Rightarrow> (int \<times> kernel) option" where
  "syscall_handler trace syscall_num arg1 arg2 arg3 k =
     (if syscall_num = SYS_IPC_SEND then
        (case ipc_send arg1 (load_message arg2 (memory (mm k))) (ipc k) of
           (rc, q) \<Rightarrow> Some (rc, k\<lparr>ipc := q\<rparr>))
      else if syscall_num = SYS_IPC_RECEIVE then Some (receive_into arg1 k)
      else if syscall_num = SYS_THREAD_YIELD then Some (0, yield_cpu k)
      else if syscall_num = SYS_ADDRESS_MAP then
        (case mm_map_page arg1 arg2 arg3 (mm k) of (rc, m) \<Rightarrow> Some (rc, k\<lparr>mm := m\<rparr>))
      else if syscall_num = SYS_IRQ_WAIT then
        syscall_irq_wait trace (ucast arg1) (ucast arg2) arg3 k
      else if syscall_num = SYS_IRQ_GET_COUNT then Some (syscall_irq_get_count (ucast arg1) k, k)
      else if syscall_num = SYS_IRQ_RESET_COUNT then Some (syscall_irq_reset_count (ucast arg1) k)
      else Some (-1, k))"

section \<open>The invariant of the waiters\<close>

text \<open>
  Every active entry is below the count of entries in use, and no two active entries are for the
  same thread and interrupt.
\<close>

definition waiters_ok :: "kernel \<Rightarrow> bool" where
  "waiters_ok k \<longleftrightarrow> length (irq_waiters k) = MAX_IRQ_WAITERS \<and> num_waiters k \<le> MAX_IRQ_WAITERS \<and>
     length (irq_occurred k) = MAX_IRQS \<and> length (irq_occurrence_count k) = MAX_IRQS \<and>
     (\<forall>i < MAX_IRQ_WAITERS. is_active (irq_waiters k ! i) \<longrightarrow> i < num_waiters k \<and>
       (\<forall>j < MAX_IRQ_WAITERS. is_active (irq_waiters k ! j) \<and>
          w_pid (irq_waiters k ! i) = w_pid (irq_waiters k ! j) \<and>
          irq_number (irq_waiters k ! i) = irq_number (irq_waiters k ! j) \<longrightarrow> i = j))"

definition kernel_ok :: "kernel \<Rightarrow> bool" where
  "kernel_ok k \<longleftrightarrow> sched_ok (sched k) \<and> mm_wf (mm k) \<and> ipc_wf (ipc k) \<and> waiters_ok k"

text \<open>Both an interrupt and a time-out walk the table and fire the entries that satisfy a test.\<close>

definition fire :: "(irq_waiter \<Rightarrow> bool) \<Rightarrow> (thread \<Rightarrow> thread) \<Rightarrow> nat \<Rightarrow> kernel \<Rightarrow> kernel" where
  "fire P f i k = (if P (irq_waiters k ! i)
     then wake (w_pid (irq_waiters k ! i)) f (deactivate i k) else k)"

lemma notify_waiter_fire:
  "notify_waiter irq = fire (\<lambda>w. is_active w \<and> irq_number w = irq) ready_again"
  by (intro ext) (auto simp: notify_waiter_def fire_def Let_def)

definition expired :: "u64 \<Rightarrow> irq_waiter \<Rightarrow> bool" where
  "expired now w \<longleftrightarrow> is_active w \<and> timeout_ms w \<noteq> 0 \<and> \<not> now - start_time w < ucast (timeout_ms w)"

lemma expire_waiter_fire: "expire_waiter now = fire (expired now) timed_out"
  by (intro ext) (auto simp: expire_waiter_def fire_def expired_def Let_def)

lemma deactivate_simps [simp]:
  "sched (deactivate i k) = sched k" "mm (deactivate i k) = mm k" "ipc (deactivate i k) = ipc k"
  "num_waiters (deactivate i k) = num_waiters k" "irq_occurred (deactivate i k) = irq_occurred k"
  "irq_occurrence_count (deactivate i k) = irq_occurrence_count k"
  "system_ticks (deactivate i k) = system_ticks k"
  "length (irq_waiters (deactivate i k)) = length (irq_waiters k)"
  "i < length (irq_waiters k) \<Longrightarrow> irq_waiters (deactivate i k) ! j =
     (if j = i then (irq_waiters k ! i)\<lparr>is_active := False\<rparr> else irq_waiters k ! j)"
  by (simp_all add: deactivate_def nth_list_update)

lemma wake_simps [simp]:
  "mm (wake p f k) = mm k" "ipc (wake p f k) = ipc k" "num_waiters (wake p f k) = num_waiters k"
  "irq_waiters (wake p f k) = irq_waiters k" "irq_occurred (wake p f k) = irq_occurred k"
  "irq_occurrence_count (wake p f k) = irq_occurrence_count k"
  "system_ticks (wake p f k) = system_ticks k"
  "current_thread (sched (wake p f k)) = current_thread (sched k)"
  "last_scheduled (sched (wake p f k)) = last_scheduled (sched k)"
  "length (threads (sched (wake p f k))) = length (threads (sched k))"
  by (simp_all add: wake_def split: option.split)

lemma fire_simps [simp]:
  "mm (fire P f i k) = mm k" "ipc (fire P f i k) = ipc k" "num_waiters (fire P f i k) = num_waiters k"
  "irq_occurred (fire P f i k) = irq_occurred k"
  "irq_occurrence_count (fire P f i k) = irq_occurrence_count k"
  "system_ticks (fire P f i k) = system_ticks k"
  "current_thread (sched (fire P f i k)) = current_thread (sched k)"
  "last_scheduled (sched (fire P f i k)) = last_scheduled (sched k)"
  "length (threads (sched (fire P f i k))) = length (threads (sched k))"
  "length (irq_waiters (fire P f i k)) = length (irq_waiters k)"
  by (simp_all add: fire_def)

text \<open>What waking does to each thread of the table.\<close>

definition wakes :: "kernel \<Rightarrow> u32 \<Rightarrow> nat \<Rightarrow> bool" where
  "wakes k pid t \<longleftrightarrow> sched_get_process_by_pid pid (sched k) = Some t"

lemma wake_thread:
  assumes "length (threads (sched k)) = MAX_THREADS"
  shows "threads (sched (wake pid f k)) ! t =
    (if wakes k pid t \<and> state (threads (sched k) ! t) = THREAD_BLOCKED
     then f (threads (sched k) ! t) else threads (sched k) ! t)"
proof (cases "sched_get_process_by_pid pid (sched k)")
  case None
  then show ?thesis by (simp add: wake_def wakes_def)
next
  case (Some u)
  then have "u < MAX_THREADS" by (simp add: sched_get_process_by_pid_def scan_Some_iff)
  with Some assms show ?thesis by (auto simp: wake_def wakes_def)
qed

text \<open>Waking changes no process id, so it does not change which thread an id names.\<close>

lemma wakes_cong:
  assumes "\<And>i. i < MAX_THREADS \<Longrightarrow> tid (threads (sched k') ! i) = tid (threads (sched k) ! i)"
  shows "wakes k' pid t = wakes k pid t"
  unfolding wakes_def sched_get_process_by_pid_def by (subst scan_cong) (use assms in auto)

lemma fire_fold:
  fixes P :: "irq_waiter \<Rightarrow> bool" and f :: "thread \<Rightarrow> thread" and k :: kernel and n :: nat
  assumes len: "length (irq_waiters k) = MAX_IRQ_WAITERS" "length (threads (sched k)) = MAX_THREADS"
    and n: "n \<le> MAX_IRQ_WAITERS"
    and f: "\<And>t. tid (f t) = tid t" "\<And>t. state (f t) = THREAD_READY"
  defines "k' \<equiv> fold (fire P f) [0..<n] k"
  shows "irq_waiters k' ! i = (if i < n \<and> P (irq_waiters k ! i)
      then (irq_waiters k ! i)\<lparr>is_active := False\<rparr> else irq_waiters k ! i)"
    and "threads (sched k') ! t = (if state (threads (sched k) ! t) = THREAD_BLOCKED \<and>
        (\<exists>i < n. P (irq_waiters k ! i) \<and> wakes k (w_pid (irq_waiters k ! i)) t)
      then f (threads (sched k) ! t) else threads (sched k) ! t)"
    and "length (irq_waiters k') = MAX_IRQ_WAITERS" "length (threads (sched k')) = MAX_THREADS"
    and "mm k' = mm k" "ipc k' = ipc k" "num_waiters k' = num_waiters k"
      "irq_occurred k' = irq_occurred k" "irq_occurrence_count k' = irq_occurrence_count k"
      "system_ticks k' = system_ticks k" "current_thread (sched k') = current_thread (sched k)"
      "last_scheduled (sched k') = last_scheduled (sched k)"
proof -
  have "length (irq_waiters k') = MAX_IRQ_WAITERS \<and> length (threads (sched k')) = MAX_THREADS \<and>
    mm k' = mm k \<and> ipc k' = ipc k \<and> num_waiters k' = num_waiters k \<and>
    irq_occurred k' = irq_occurred k \<and> irq_occurrence_count k' = irq_occurrence_count k \<and>
    system_ticks k' = system_ticks k \<and> current_thread (sched k') = current_thread (sched k) \<and>
    last_scheduled (sched k') = last_scheduled (sched k)"
    unfolding k'_def by (induction n) (use len in simp_all)
  then show "length (irq_waiters k') = MAX_IRQ_WAITERS" "length (threads (sched k')) = MAX_THREADS"
    "mm k' = mm k" "ipc k' = ipc k" "num_waiters k' = num_waiters k"
    "irq_occurred k' = irq_occurred k" "irq_occurrence_count k' = irq_occurrence_count k"
    "system_ticks k' = system_ticks k" "current_thread (sched k') = current_thread (sched k)"
    "last_scheduled (sched k') = last_scheduled (sched k)" by blast+
  have "(\<forall>i. irq_waiters k' ! i = (if i < n \<and> P (irq_waiters k ! i)
      then (irq_waiters k ! i)\<lparr>is_active := False\<rparr> else irq_waiters k ! i)) \<and>
    (\<forall>t. threads (sched k') ! t = (if state (threads (sched k) ! t) = THREAD_BLOCKED \<and>
        (\<exists>i < n. P (irq_waiters k ! i) \<and> wakes k (w_pid (irq_waiters k ! i)) t)
      then f (threads (sched k) ! t) else threads (sched k) ! t)) \<and>
    length (irq_waiters k') = MAX_IRQ_WAITERS \<and> length (threads (sched k')) = MAX_THREADS"
    unfolding k'_def using n
  proof (induction n)
    case 0
    then show ?case using len by simp
  next
    case (Suc n)
    let ?k = "fold (fire P f) [0..<n] k"
    from Suc have n: "n < MAX_IRQ_WAITERS"
      and ws: "\<And>i. irq_waiters ?k ! i = (if i < n \<and> P (irq_waiters k ! i)
        then (irq_waiters k ! i)\<lparr>is_active := False\<rparr> else irq_waiters k ! i)"
      and th: "\<And>t. threads (sched ?k) ! t = (if state (threads (sched k) ! t) = THREAD_BLOCKED \<and>
          (\<exists>i < n. P (irq_waiters k ! i) \<and> wakes k (w_pid (irq_waiters k ! i)) t)
        then f (threads (sched k) ! t) else threads (sched k) ! t)"
      and len: "length (irq_waiters ?k) = MAX_IRQ_WAITERS" "length (threads (sched ?k)) = MAX_THREADS"
      by auto
    have step: "fold (fire P f) [0..<Suc n] k = fire P f n ?k" by simp
    have w: "wakes ?k pid t = wakes k pid t" for pid t by (rule wakes_cong) (simp add: th f)
    have wn: "irq_waiters ?k ! n = irq_waiters k ! n" using ws by simp
    show ?case
    proof (cases "P (irq_waiters k ! n)")
      case False
      then show ?thesis unfolding step by (simp add: fire_def wn ws th len less_Suc_eq) (metis (full_types))
    next
      case True
      have w': "wakes (deactivate n ?k) pid t = wakes k pid t" for pid t
        using w by (simp add: wakes_def)
      show ?thesis unfolding step using True n len
        by (auto simp: fire_def wn ws th wake_thread w' f less_Suc_eq)
    qed
  qed
  then show "irq_waiters k' ! i = (if i < n \<and> P (irq_waiters k ! i)
      then (irq_waiters k ! i)\<lparr>is_active := False\<rparr> else irq_waiters k ! i)"
    and "threads (sched k') ! t = (if state (threads (sched k) ! t) = THREAD_BLOCKED \<and>
        (\<exists>i < n. P (irq_waiters k ! i) \<and> wakes k (w_pid (irq_waiters k ! i)) t)
      then f (threads (sched k) ! t) else threads (sched k) ! t)" by blast+
qed

section \<open>The invariant is kept\<close>

lemma ready_again_simps [simp]: "tid (ready_again t) = tid t" "state (ready_again t) = THREAD_READY"
  by (simp_all add: ready_again_def)

lemma timed_out_simps [simp]: "tid (timed_out t) = tid t" "state (timed_out t) = THREAD_READY"
  "last_error (timed_out t) = ERR_TIMEOUT"
  by (simp_all add: timed_out_def)

lemma kernel_okD:
  assumes "kernel_ok k"
  shows "sched_ok (sched k)" "sched_wf (sched k)" "mm_wf (mm k)" "ipc_wf (ipc k)" "waiters_ok k"
    "length (irq_waiters k) = MAX_IRQ_WAITERS" "length (threads (sched k)) = MAX_THREADS"
    "num_waiters k \<le> MAX_IRQ_WAITERS" "length (irq_occurred k) = MAX_IRQS"
    "length (irq_occurrence_count k) = MAX_IRQS"
  using assms by (auto simp: kernel_ok_def sched_ok_def sched_wf_def waiters_ok_def)

lemma waiters_ok_fewer:
  assumes "waiters_ok k" "length (irq_waiters k') = MAX_IRQ_WAITERS" "num_waiters k' = num_waiters k"
    "length (irq_occurred k') = MAX_IRQS" "length (irq_occurrence_count k') = MAX_IRQS"
    and "\<And>i. i < MAX_IRQ_WAITERS \<Longrightarrow> w_pid (irq_waiters k' ! i) = w_pid (irq_waiters k ! i) \<and>
      irq_number (irq_waiters k' ! i) = irq_number (irq_waiters k ! i) \<and>
      (is_active (irq_waiters k' ! i) \<longrightarrow> is_active (irq_waiters k ! i))"
  shows "waiters_ok k'"
  using assms(1-5) assms(6) unfolding waiters_ok_def by metis

lemma kernel_ok_fire:
  assumes ok: "kernel_ok k" and n: "n \<le> MAX_IRQ_WAITERS"
    and f: "\<And>t. tid (f t) = tid t" "\<And>t. state (f t) = THREAD_READY"
  shows "kernel_ok (fold (fire P f) [0..<n] k)"
proof -
  note ff = fire_fold [OF kernel_okD(6,7) [OF ok] n f, where P = P]
  have "sched_ok (sched (fold (fire P f) [0..<n] k))"
    using kernel_okD(1) [OF ok] f by (auto simp: sched_ok_def sched_wf_def ff split: if_splits)
  moreover have "waiters_ok (fold (fire P f) [0..<n] k)"
    by (rule waiters_ok_fewer [OF kernel_okD(5) [OF ok]])
      (simp_all add: ff kernel_okD [OF ok])
  ultimately show ?thesis using ok by (simp add: kernel_ok_def ff)
qed

lemma kernel_ok_notify: "kernel_ok k \<Longrightarrow> kernel_ok (syscall_irq_notify irq k)"
proof -
  assume ok: "kernel_ok k"
  let ?k = "k\<lparr>irq_occurred := (irq_occurred k)[unat irq := 1], irq_occurrence_count :=
    (irq_occurrence_count k)[unat irq := irq_occurrence_count k ! unat irq + 1]\<rparr>"
  have "kernel_ok ?k" using ok by (simp add: kernel_ok_def waiters_ok_def)
  then show ?thesis using ok kernel_ok_fire [of ?k "num_waiters k" ready_again] kernel_okD(8) [OF ok]
    by (simp add: syscall_irq_notify_def notify_waiter_fire Let_def)
qed

lemma kernel_ok_timeouts: "kernel_ok k \<Longrightarrow> kernel_ok (syscall_irq_check_timeouts k)"
  using kernel_okD(8) unfolding syscall_irq_check_timeouts_def expire_waiter_fire
  by (intro kernel_ok_fire) auto

lemma kernel_ok_event: "kernel_ok k \<Longrightarrow> kernel_ok (run_event e k)"
  by (cases e) (auto simp: kernel_ok_notify time_tick_def, simp add: kernel_ok_def waiters_ok_def)

lemma kernel_ok_events: "kernel_ok k \<Longrightarrow> kernel_ok (fold run_event es k)"
  by (induction es arbitrary: k) (simp_all add: kernel_ok_event)

lemma kernel_ok_sched: "kernel_ok k \<Longrightarrow> sched_ok s \<Longrightarrow> kernel_ok (k\<lparr>sched := s\<rparr>)"
  by (simp add: kernel_ok_def waiters_ok_def)

lemma kernel_ok_yield: "kernel_ok k \<Longrightarrow> kernel_ok (yield_cpu k)"
  by (simp add: yield_cpu_def sched_yield_def kernel_ok_sched sched_ok_schedule kernel_okD)

lemma kernel_ok_wait_loop:
  "kernel_ok k \<Longrightarrow> irq_wait_loop pid irq trace k = Some k' \<Longrightarrow> kernel_ok k'"
proof (induction trace arbitrary: k)
  case (Cons es trace)
  have "kernel_ok (yield_cpu (syscall_irq_check_timeouts (fold run_event es k)))"
    using Cons.prems(1) by (intro kernel_ok_yield kernel_ok_timeouts kernel_ok_events)
  with Cons show ?case
    by (auto simp: Let_def kernel_ok_events kernel_ok_timeouts split: if_splits)
qed simp

lemma kernel_ok_deactivate: "kernel_ok k \<Longrightarrow> i < MAX_IRQ_WAITERS \<Longrightarrow> kernel_ok (deactivate i k)"
proof -
  assume ok: "kernel_ok k" and i: "i < MAX_IRQ_WAITERS"
  have "waiters_ok (deactivate i k)"
    by (rule waiters_ok_fewer [OF kernel_okD(5) [OF ok]]) (use i in \<open>simp_all add: kernel_okD [OF ok]\<close>)
  with ok show ?thesis by (simp add: kernel_ok_def)
qed

lemma kernel_ok_remove: "kernel_ok k \<Longrightarrow> kernel_ok (remove_irq_waiter pid irq k)"
  using kernel_okD(8) [of k] unfolding remove_irq_waiter_def find_irq_waiter_def
  by (fastforce split: option.split simp: scan_Some_iff intro!: kernel_ok_deactivate)

text \<open>A new entry takes the first inactive slot.\<close>

lemma add_cases [case_names Already Full Added]:
  assumes "kernel_ok k"
  obtains "find_irq_waiter pid irq k \<noteq> None" "add_irq_waiter pid irq flags tmo k = (-2, k)"
  | "find_irq_waiter pid irq k = None" "\<forall>i < MAX_IRQ_WAITERS. is_active (irq_waiters k ! i)"
      "add_irq_waiter pid irq flags tmo k = (-1, k)"
  | i where "find_irq_waiter pid irq k = None" "i < MAX_IRQ_WAITERS" "\<not> is_active (irq_waiters k ! i)"
      "\<forall>j < i. is_active (irq_waiters k ! j)"
      "add_irq_waiter pid irq flags tmo k = (0, k\<lparr>
           irq_waiters := (irq_waiters k)[i := \<lparr>w_pid = pid, irq_number = irq, w_flags = flags,
             timeout_ms = tmo, start_time = system_ticks k, is_active = True\<rparr>],
           num_waiters := max (i + 1) (num_waiters k)\<rparr>)"
proof (cases "find_irq_waiter pid irq k = None")
  case False
  with that(1) show thesis by (simp add: add_irq_waiter_def)
next
  case True
  show thesis
  proof (cases "scan (\<lambda>i. \<not> is_active (irq_waiters k ! i)) 0 MAX_IRQ_WAITERS")
    case None
    with True that(2) scan_NoneD [OF None] show thesis by (simp add: add_irq_waiter_def)
  next
    case (Some i)
    from scan_SomeD [OF Some] have "i < MAX_IRQ_WAITERS" "\<not> is_active (irq_waiters k ! i)"
      "\<forall>j < i. is_active (irq_waiters k ! j)" by auto
    with True Some that(3) show thesis
      by (simp add: add_irq_waiter_def time_get_current_ms_def max_def not_le)
  qed
qed

lemma find_NoneD:
  assumes "waiters_ok k" "find_irq_waiter pid irq k = None" "i < MAX_IRQ_WAITERS"
  shows "\<not> waits_for pid irq (irq_waiters k ! i)"
  using assms unfolding find_irq_waiter_def waiters_ok_def waits_for_def by (auto simp: scan_None_iff)

lemma kernel_ok_add: "kernel_ok k \<Longrightarrow> kernel_ok (snd (add_irq_waiter pid irq flags tmo k))"
proof -
  assume ok: "kernel_ok k"
  from ok show ?thesis
  proof (cases rule: add_cases [where pid = pid and irq = irq and flags = flags and tmo = tmo])
    case (Added i)
    let ?w = "\<lparr>w_pid = pid, irq_number = irq, w_flags = flags, timeout_ms = tmo,
      start_time = system_ticks k, is_active = True\<rparr>"
    let ?k = "snd (add_irq_waiter pid irq flags tmo k)"
    have ws: "irq_waiters ?k ! j = (if j = i then ?w else irq_waiters k ! j)" for j
      using Added kernel_okD(6) [OF ok] by (simp add: nth_list_update)
    have fresh: "\<not> waits_for pid irq (irq_waiters k ! j)" if "j < MAX_IRQ_WAITERS" for j
      using find_NoneD [OF kernel_okD(5) [OF ok] Added(1) that] .
    have "waiters_ok ?k"
      unfolding waiters_ok_def
    proof (intro conjI allI impI)
      fix j l assume "j < MAX_IRQ_WAITERS" "is_active (irq_waiters ?k ! j)" "l < MAX_IRQ_WAITERS"
        "is_active (irq_waiters ?k ! l) \<and> w_pid (irq_waiters ?k ! j) = w_pid (irq_waiters ?k ! l) \<and>
         irq_number (irq_waiters ?k ! j) = irq_number (irq_waiters ?k ! l)"
      then show "j = l" using fresh [of j] fresh [of l] kernel_okD(5) [OF ok]
        unfolding ws by (auto simp: waits_for_def waiters_ok_def split: if_splits)
    next
      fix j assume "j < MAX_IRQ_WAITERS" "is_active (irq_waiters ?k ! j)"
      then show "j < num_waiters ?k" using kernel_okD(5) [OF ok] Added
        unfolding ws by (auto simp: waiters_ok_def less_max_iff_disj split: if_splits)
    qed (use Added kernel_okD [OF ok] in auto)
    with ok Added show ?thesis by (simp add: kernel_ok_def)
  qed (use ok in auto)
qed

lemma kernel_ok_clear: "kernel_ok k \<Longrightarrow> kernel_ok (clear_occurred irq k)"
  by (simp add: kernel_ok_def waiters_ok_def clear_occurred_def)

lemma kernel_ok_block:
  "kernel_ok k \<Longrightarrow> t < MAX_THREADS \<Longrightarrow> kernel_ok (block_current t irq k)"
  unfolding block_current_def
  by (intro kernel_ok_sched sched_ok_update) (simp_all add: kernel_okD)

lemma kernel_ok_wait_end:
  assumes "kernel_ok k" "t < MAX_THREADS"
  shows "kernel_ok (snd (irq_wait_end pid irq flags t k))"
proof -
  let ?k = "remove_irq_waiter pid irq (if irq_occurred k ! unat irq \<noteq> 0 \<and> flags AND IRQ_WAIT_CLEAR \<noteq> 0
    then clear_occurred irq k else k)"
  have ok: "kernel_ok ?k" using assms(1) by (intro kernel_ok_remove) (simp add: kernel_ok_clear)
  moreover have "kernel_ok (?k\<lparr>sched := update_thread t (\<lambda>t. t\<lparr>last_error := 0\<rparr>) (sched ?k)\<rparr>)"
    using kernel_okD(1) [OF ok] assms(2) kernel_okD(7) [OF ok]
    by (intro kernel_ok_sched [OF ok] sched_ok_update) (auto simp: sched_ok_def)
  ultimately show ?thesis by (simp add: irq_wait_end_def Let_def)
qed

lemma kernel_ok_irq_wait:
  assumes ok: "kernel_ok k" and run: "syscall_irq_wait trace irq flags tmo k = Some (rc, k')"
  shows "kernel_ok k'"
proof -
  let ?pid = "sched_get_current_pid (sched k)"
  obtain c k1 where add: "add_irq_waiter ?pid irq flags tmo k = (c, k1)" by fastforce
  have ok1: "kernel_ok k1" using kernel_ok_add [OF ok, of ?pid irq flags tmo] add by simp
  let ?t = "sched_get_current_process (sched k1)"
  have t: "?t < MAX_THREADS"
    using kernel_okD(2) [OF ok1] by (simp add: sched_wf_def sched_get_current_process_def)
  have "kernel_ok (snd (irq_wait_end ?pid irq flags ?t k2))"
    if "irq_wait_loop ?pid irq trace (block_current ?t irq k1) = Some k2" for k2
    using kernel_ok_wait_end [OF kernel_ok_wait_loop [OF kernel_ok_block [OF ok1 t] that] t] .
  then show ?thesis using run ok ok1 add kernel_ok_clear [OF ok]
    by (fastforce simp: syscall_irq_wait_def Let_def split: if_splits)
qed

lemma kernel_ok_syscall:
  assumes ok: "kernel_ok k" and run: "syscall_handler trace n a b c k = Some (rc, k')"
  shows "kernel_ok k'"
proof -
  have send: "kernel_ok (k\<lparr>ipc := snd (ipc_send a m (ipc k))\<rparr>)" for m
    using ok ipc_wf_send by (simp add: kernel_ok_def waiters_ok_def)
  have recv: "kernel_ok (snd (receive_into a k))"
    using ok ipc_wf_receive [of "ipc k"]
    by (auto simp: receive_into_def kernel_ok_def waiters_ok_def split: prod.split option.split)
  have map: "kernel_ok (k\<lparr>mm := snd (mm_map_page a b c (mm k))\<rparr>)"
    using ok mm_wf_map_page by (simp add: kernel_ok_def waiters_ok_def)
  have reset: "kernel_ok (snd (syscall_irq_reset_count irq k))" for irq
    using ok by (simp add: syscall_irq_reset_count_def kernel_ok_def waiters_ok_def)
  show ?thesis
    using run ok send [of "load_message b (memory (mm k))"] recv map reset [of "ucast a"] kernel_ok_yield [OF ok] kernel_ok_irq_wait [OF ok]
    by (auto simp: syscall_handler_def split: if_splits prod.splits)
qed

section \<open>Properties of interrupts\<close>

text \<open>
  an interrupt is counted and noted, releases every thread that is blocked and has an active
  entry for it, ends exactly the entries for it, and changes nothing else; a number that is not
  an interrupt changes nothing.
\<close>

theorem syscall_irq_notify_effect:
  assumes "kernel_ok k" and "unat irq < MAX_IRQS"
  shows "let k' = syscall_irq_notify irq k; ws = irq_waiters k in
    irq_occurred k' = (irq_occurred k)[unat irq := 1] \<and>
    irq_occurrence_count k' = (irq_occurrence_count k)
      [unat irq := irq_occurrence_count k ! unat irq + 1] \<and>
    (\<forall>i < MAX_IRQ_WAITERS. is_active (irq_waiters k' ! i) \<longleftrightarrow>
       is_active (ws ! i) \<and> irq_number (ws ! i) \<noteq> irq) \<and>
    (\<forall>t < MAX_THREADS. threads (sched k') ! t =
       (if state (threads (sched k) ! t) = THREAD_BLOCKED \<and>
           (\<exists>i < MAX_IRQ_WAITERS. is_active (ws ! i) \<and> irq_number (ws ! i) = irq \<and>
              wakes k (w_pid (ws ! i)) t)
        then ready_again (threads (sched k) ! t) else threads (sched k) ! t)) \<and>
    mm k' = mm k \<and> ipc k' = ipc k \<and> system_ticks k' = system_ticks k"
proof -
  let ?k = "k\<lparr>irq_occurred := (irq_occurred k)[unat irq := 1], irq_occurrence_count :=
    (irq_occurrence_count k)[unat irq := irq_occurrence_count k ! unat irq + 1]\<rparr>"
  note d = kernel_okD [OF assms(1)]
  have len: "length (irq_waiters ?k) = MAX_IRQ_WAITERS" "length (threads (sched ?k)) = MAX_THREADS"
    "num_waiters k \<le> MAX_IRQ_WAITERS" using d by simp_all
  let ?P = "\<lambda>w. is_active w \<and> irq_number w = irq"
  note ff = fire_fold [OF len, of ready_again ?P, simplified ready_again_simps, OF refl refl]
  have run: "syscall_irq_notify irq k = fold (fire ?P ready_again) [0..<num_waiters k] ?k"
    using assms(2) by (simp add: syscall_irq_notify_def notify_waiter_fire Let_def)
  have below: "is_active (irq_waiters k ! i) \<Longrightarrow> i < num_waiters k" if "i < MAX_IRQ_WAITERS" for i
    using d(5) that by (simp add: waiters_ok_def)
  have wk: "wakes ?k p t = wakes k p t" for p t by (simp add: wakes_def)
  show ?thesis unfolding run Let_def ff wk
    using below d(8) by (auto dest: order.strict_trans2)
qed

section \<open>The wait loop\<close>

lemma wakes_tid: "wakes k pid t \<Longrightarrow> t < MAX_THREADS \<and> tid (threads (sched k) ! t) = pid"
  by (simp add: wakes_def sched_get_process_by_pid_def scan_Some_iff)

lemma timeouts_thread:
  assumes "kernel_ok k"
  shows "threads (sched (syscall_irq_check_timeouts k)) ! t =
    (if state (threads (sched k) ! t) = THREAD_BLOCKED \<and>
        (\<exists>i < num_waiters k. expired (system_ticks k) (irq_waiters k ! i) \<and>
           wakes k (w_pid (irq_waiters k ! i)) t)
     then timed_out (threads (sched k) ! t) else threads (sched k) ! t)"
    and "current_thread (sched (syscall_irq_check_timeouts k)) = current_thread (sched k)"
    and "irq_occurred (syscall_irq_check_timeouts k) = irq_occurred k"
    and "system_ticks (syscall_irq_check_timeouts k) = system_ticks k"
    and "num_waiters (syscall_irq_check_timeouts k) = num_waiters k"
    and "irq_waiters (syscall_irq_check_timeouts k) ! i =
      (if i < num_waiters k \<and> expired (system_ticks k) (irq_waiters k ! i)
       then (irq_waiters k ! i)\<lparr>is_active := False\<rparr> else irq_waiters k ! i)"
  using fire_fold [OF kernel_okD(6,7,8) [OF assms], of timed_out "expired (system_ticks k)"]
  by (simp_all add: syscall_irq_check_timeouts_def expire_waiter_fire time_get_current_ms_def)

text \<open>
  A thread that is not blocked is passed over by interrupts and time-outs, and scheduling keeps it
  so; its error code stays.
\<close>

definition unblocked :: "nat \<Rightarrow> kernel \<Rightarrow> bool" where
  "unblocked t k \<longleftrightarrow> kernel_ok k \<and> state (threads (sched k) ! t) \<noteq> THREAD_BLOCKED \<and>
     last_error (threads (sched k) ! t) \<noteq> ERR_TIMEOUT"

lemma unblocked_notify:
  assumes "unblocked t k" shows "unblocked t (syscall_irq_notify irq k)"
proof -
  have ok: "kernel_ok k" using assms by (simp add: unblocked_def)
  let ?k = "k\<lparr>irq_occurred := (irq_occurred k)[unat irq := 1], irq_occurrence_count :=
    (irq_occurrence_count k)[unat irq := irq_occurrence_count k ! unat irq + 1]\<rparr>"
  have len: "length (irq_waiters ?k) = MAX_IRQ_WAITERS" "length (threads (sched ?k)) = MAX_THREADS"
    "num_waiters k \<le> MAX_IRQ_WAITERS" using kernel_okD [OF ok] by simp_all
  have "threads (sched (syscall_irq_notify irq k)) ! t = threads (sched k) ! t"
    using assms fire_fold(2) [OF len, of ready_again]
    by (simp add: syscall_irq_notify_def notify_waiter_fire Let_def unblocked_def)
  with assms kernel_ok_notify [OF ok] show ?thesis by (simp add: unblocked_def)
qed

lemma unblocked_event: "unblocked t k \<Longrightarrow> unblocked t (run_event e k)"
proof (cases e)
  case Tick
  then show "unblocked t k \<Longrightarrow> ?thesis"
    using kernel_ok_event [of k Tick] by (simp add: unblocked_def time_tick_def)
qed (simp add: unblocked_notify)

lemma unblocked_events: "unblocked t k \<Longrightarrow> unblocked t (fold run_event es k)"
  by (induction es arbitrary: k) (simp_all add: unblocked_event)

lemma unblocked_timeouts: "unblocked t k \<Longrightarrow> unblocked t (syscall_irq_check_timeouts k)"
  by (simp add: unblocked_def timeouts_thread kernel_ok_timeouts)

lemma last_error_schedule:
  assumes "sched_ok s" "t < MAX_THREADS"
  shows "last_error (threads (sched_schedule s) ! t) = last_error (threads s ! t)"
  using sched_okD [OF assms(1)]
  by (cases rule: schedule_cases)
    (simp_all add: switch_to_effect(5) [OF sched_okD [OF assms(1)] turn_lt assms(2)])

lemma not_blocked_schedule:
  assumes "sched_ok s" "t < MAX_THREADS" "state (threads s ! t) \<noteq> THREAD_BLOCKED"
  shows "state (threads (sched_schedule s) ! t) \<noteq> THREAD_BLOCKED"
  using sched_okD [OF assms(1)]
  by (cases rule: schedule_cases)
    (simp_all add: assms(3) switch_to_effect(5) [OF sched_okD [OF assms(1)] turn_lt assms(2)])

lemma unblocked_yield: "t < MAX_THREADS \<Longrightarrow> unblocked t k \<Longrightarrow> unblocked t (yield_cpu k)"
  using kernel_ok_yield [of k] kernel_okD(1) [of k]
  by (simp add: unblocked_def yield_cpu_def sched_yield_def last_error_schedule not_blocked_schedule)

lemma unblocked_wait_loop:
  "t < MAX_THREADS \<Longrightarrow> unblocked t k \<Longrightarrow> irq_wait_loop pid irq trace k = Some k' \<Longrightarrow> unblocked t k'"
proof (induction trace arbitrary: k)
  case (Cons es trace)
  let ?k = "syscall_irq_check_timeouts (fold run_event es k)"
  have "unblocked t ?k" "unblocked t (yield_cpu ?k)"
    using Cons.prems by (simp_all add: unblocked_yield unblocked_timeouts unblocked_events)
  with Cons show ?case by (auto simp: Let_def unblocked_events split: if_splits)
qed simp

lemma remove_threads [simp]: "sched (remove_irq_waiter pid irq k) = sched k"
  by (simp add: remove_irq_waiter_def split: option.split)

lemma clear_threads [simp]: "sched (clear_occurred irq k) = sched k"
  by (simp add: clear_occurred_def)

lemma wait_end_ok:
  "last_error (threads (sched k) ! t) \<noteq> ERR_TIMEOUT \<Longrightarrow> fst (irq_wait_end pid irq flags t k) = 0"
  by (simp add: irq_wait_end_def Let_def)

lemma unat_ucast_u64: "unat (ucast (x :: u32) :: u64) = unat x"
  using unsigned_less [where 'a = nat, of x]
  by (simp add: unsigned_ucast_eq take_bit_nat_eq_self)

lemma expired_now: "start_time w = now \<Longrightarrow> \<not> expired now w"
  by (auto simp: expired_def word_less_nat_alt unat_ucast_u64 unat_gt_0)

lemma unblocked_after_yield:
  assumes ok: "kernel_ok k" and t: "t = unat (current_thread (sched k))"
    and blocked: "state (threads (sched k) ! t) = THREAD_BLOCKED"
    and pid: "tid (threads (sched k) ! t) \<noteq> 0"
    and err: "last_error (threads (sched k) ! t) \<noteq> ERR_TIMEOUT"
    and other: "\<exists>i < MAX_THREADS. runnable (threads (sched k) ! i)"
  shows "unblocked t (yield_cpu k)"
proof -
  have "t < MAX_THREADS" using kernel_okD(2) [OF ok] t by (simp add: sched_wf_def)
  then show ?thesis
    using schedule_unblocks [OF kernel_okD(1) [OF ok]] blocked pid other err t kernel_ok_yield [OF ok]
    by (simp add: unblocked_def yield_cpu_def sched_yield_def last_error_schedule kernel_okD(1) [OF ok])
qed

text \<open>
  a wait that does not end at once cannot report its time-out. When another thread is ready,
  the first turn of the wait loop schedules and so makes the waiting thread ready again; the
  time-out check then passes it over, as it is not blocked, and the wait that its expired entry
  ends returns 0, as if the interrupt had come.
\<close>

theorem irq_wait_timeout_lost:
  assumes ok: "kernel_ok k" and valid: "unat irq < MAX_IRQS"
    and pid: "sched_get_current_pid (sched k) \<noteq> 0" and idle: "irq_occurred k ! unat irq = 0"
    and nowait: "flags AND IRQ_WAIT_NOWAIT = 0"
    and other: "\<exists>i < MAX_THREADS. i \<noteq> unat (current_thread (sched k)) \<and> runnable (threads (sched k) ! i)"
    and err: "last_error (threads (sched k) ! unat (current_thread (sched k))) \<noteq> ERR_TIMEOUT"
    and no_wait: "\<forall>i < MAX_IRQ_WAITERS. is_active (irq_waiters k ! i) \<longrightarrow>
      w_pid (irq_waiters k ! i) \<noteq> sched_get_current_pid (sched k)"
    and room: "\<exists>i < MAX_IRQ_WAITERS. \<not> is_active (irq_waiters k ! i)"
    and run: "syscall_irq_wait ([] # trace) irq flags tmo k = Some (rc, k')"
  shows "rc = 0"
proof -
  let ?pid = "sched_get_current_pid (sched k)" and ?t = "unat (current_thread (sched k))"
  have t: "?t < MAX_THREADS" using kernel_okD(2) [OF ok] by (simp add: sched_wf_def)
  have tid: "tid (threads (sched k) ! ?t) = ?pid" by (simp add: sched_get_current_pid_def)
  have fresh: "find_irq_waiter ?pid irq k = None"
    using no_wait kernel_okD(8) [OF ok]
    by (auto simp: find_irq_waiter_def scan_None_iff waits_for_def)
  obtain i where i: "i < MAX_IRQ_WAITERS" "add_irq_waiter ?pid irq flags tmo k = (0, k\<lparr>
      irq_waiters := (irq_waiters k)[i := \<lparr>w_pid = ?pid, irq_number = irq, w_flags = flags,
        timeout_ms = tmo, start_time = system_ticks k, is_active = True\<rparr>],
      num_waiters := max (i + 1) (num_waiters k)\<rparr>)" (is "_ = (0, ?k1)")
    using ok fresh room
    by (cases rule: add_cases [where pid = ?pid and irq = irq and flags = flags and tmo = tmo]) auto
  let ?k2 = "block_current ?t irq ?k1" and ?k3 = "syscall_irq_check_timeouts (block_current ?t irq ?k1)"
  have ok1: "kernel_ok ?k1" using kernel_ok_add [OF ok, of ?pid irq flags tmo] i(2) by simp
  then have ok2: "kernel_ok ?k2" using t by (intro kernel_ok_block) simp_all
  have len: "?t < length (threads (sched k))" using kernel_okD(7) [OF ok] t by simp
  have cur: "sched_get_current_process (sched ?k1) = ?t" by (simp add: sched_get_current_process_def)
  have unexpired: "\<not> (expired (system_ticks ?k2) (irq_waiters ?k2 ! j) \<and>
      wakes ?k2 (w_pid (irq_waiters ?k2 ! j)) ?t)" if j: "j < num_waiters ?k2" for j
  proof (cases "j = i")
    case True
    then show ?thesis using i(1) kernel_okD(6) [OF ok] by (simp add: block_current_def expired_now)
  next
    case False
    have "j < MAX_IRQ_WAITERS" using j kernel_okD(8) [OF ok2] by simp
    moreover have "tid (threads (sched ?k2) ! ?t) = ?pid" using len tid by (simp add: block_current_def)
    then have "wakes ?k2 p ?t \<Longrightarrow> p = ?pid" for p using wakes_tid [of ?k2 p ?t] by simp
    ultimately show ?thesis using False no_wait by (auto simp: block_current_def expired_def)
  qed
  then have th: "threads (sched ?k3) ! ?t = threads (sched ?k2) ! ?t"
    using timeouts_thread(1) [OF ok2, of ?t] by auto
  have thr: "runnable (threads (sched ?k3) ! j)" if "runnable (threads (sched k) ! j)" "j \<noteq> ?t" for j
    using that len timeouts_thread(1) [OF ok2, of j] by (auto simp: block_current_def runnable_def)
  have unb: "unblocked ?t (yield_cpu ?k3)"
  proof (rule unblocked_after_yield [OF kernel_ok_timeouts [OF ok2]])
    show "?t = unat (current_thread (sched ?k3))"
      by (simp only: timeouts_thread(2) [OF ok2]) (simp add: block_current_def)
  qed (use th thr len tid pid err other in \<open>auto simp: block_current_def\<close>)
  from run valid pid idle nowait i(2) cur obtain k4 where
    loop: "irq_wait_loop ?pid irq ([] # trace) ?k2 = Some k4" and
    res: "(rc, k') = irq_wait_end ?pid irq flags ?t k4"
    by (auto simp: syscall_irq_wait_def Let_def not_le simp del: irq_wait_loop.simps)
  have "last_error (threads (sched k4) ! ?t) \<noteq> ERR_TIMEOUT"
  proof (cases "k4 = ?k3 \<or> k4 = ?k2")
    case True
    then show ?thesis using th len err by (auto simp: block_current_def)
  next
    case False
    with loop have "irq_wait_loop ?pid irq trace (yield_cpu ?k3) = Some k4"
      by (auto simp: Let_def split: if_splits)
    from unblocked_wait_loop [OF t unb this] show ?thesis by (simp add: unblocked_def)
  qed
  with res show ?thesis by (metis fst_conv wait_end_ok)
qed

text \<open>A kernel with two ready threads, the first of them current.\<close>

definition demo_kernel :: kernel where
  "demo_kernel = (kernel_boot (mm_boot (\<lambda>_. 0) 0 0))
     \<lparr>sched := demo_sched\<lparr>current_thread := 3, last_scheduled := 3\<rparr>\<rparr>"

lemma demo_threads: "i < 64 \<Longrightarrow> threads demo_sched ! i =
    zero_thread\<lparr>tid := (if i = 5 then 7 else if i = 3 then 9 else 0)\<rparr>"
  by (simp add: demo_sched_def sched_boot_def MAX_THREADS_def zero_thread_def)

lemma demo_kernel_ok: "kernel_ok demo_kernel"
proof -
  have "sched_ok (demo_sched\<lparr>current_thread := 3, last_scheduled := 3\<rparr>)"
    using demo_sched_ok(2) demo_threads
    by (simp add: sched_ok_def sched_wf_def MAX_THREADS_def zero_thread_def)
  then show ?thesis
    by (simp add: kernel_ok_def demo_kernel_def kernel_boot_def waiters_ok_def zero_waiter_def
        MAX_IRQ_WAITERS_def MAX_IRQS_def)
qed

lemma demo_kernel_simps [simp]:
  "sched_get_current_pid (sched demo_kernel) = 9" "unat (current_thread (sched demo_kernel)) = 3"
  "irq_occurred demo_kernel = replicate 16 0" "irq_waiters demo_kernel = replicate 16 zero_waiter"
  "num_waiters demo_kernel = 0" "system_ticks demo_kernel = 0"
  "threads (sched demo_kernel) = threads demo_sched"
  using demo_threads
  by (simp_all add: demo_kernel_def kernel_boot_def sched_get_current_pid_def MAX_IRQS_def
      MAX_IRQ_WAITERS_def)

text \<open>The wait with a time-out of 5 ms whose clock ticks five times after its first turn.\<close>

definition demo_trace :: "event list list" where
  "demo_trace = [[Tick, Tick, Tick, Tick, Tick]]"

lemma demo_wait:
  obtains rc k' where "syscall_irq_wait ([] # demo_trace) 4 0 5 demo_kernel = Some (rc, k')"
    "irq_occurred k' ! 4 = 0"
proof -
  let ?w = "\<lparr>w_pid = 9, irq_number = 4, w_flags = 0, timeout_ms = 5, start_time = 0, is_active = True\<rparr>"
  define k1 where "k1 = demo_kernel\<lparr>irq_waiters := (replicate 16 zero_waiter)[0 := ?w], num_waiters := 1\<rparr>"
  define k2 where "k2 = block_current 3 4 k1"
  define k3 where "k3 = syscall_irq_check_timeouts k2"
  define k5 where "k5 = fold run_event [Tick, Tick, Tick, Tick, Tick] (yield_cpu k3)"
  define k6 where "k6 = syscall_irq_check_timeouts k5"
  have "scan (\<lambda>i. \<not> is_active (replicate 16 zero_waiter ! i)) 0 16 = Some 0"
    by (rule scan_first) (simp_all add: zero_waiter_def)
  then have add: "add_irq_waiter 9 4 0 5 demo_kernel = (0, k1)"
    by (simp add: add_irq_waiter_def find_irq_waiter_def MAX_IRQ_WAITERS_def time_get_current_ms_def
        scan.simps k1_def)
  have "kernel_ok k1" using kernel_ok_add [OF demo_kernel_ok, of 9 4 0 5] add by simp
  then have ok2: "kernel_ok k2" unfolding k2_def by (rule kernel_ok_block) (simp add: MAX_THREADS_def)
  have k2: "irq_waiters k2 ! 0 = ?w" "num_waiters k2 = 1" "system_ticks k2 = 0"
    "irq_occurred k2 = replicate 16 0" by (simp_all add: block_current_def k2_def k1_def)
  have k3: "irq_waiters k3 ! 0 = ?w" "num_waiters k3 = 1" "irq_occurred k3 = replicate 16 0"
    "system_ticks k3 = 0"
    unfolding k3_def timeouts_thread [OF ok2] using k2 expired_now [of ?w 0] by simp_all
  have ok5: "kernel_ok k5" unfolding k5_def k3_def
    using ok2 by (intro kernel_ok_events kernel_ok_yield kernel_ok_timeouts)
  have k5: "irq_waiters k5 ! 0 = ?w" "num_waiters k5 = 1" "irq_occurred k5 = replicate 16 0"
    "system_ticks k5 = 5"
    using k3 by (simp_all add: time_tick_def yield_cpu_def k5_def)
  have k6: "\<not> is_active (irq_waiters k6 ! 0)" "num_waiters k6 = 1" "irq_occurred k6 = replicate 16 0"
    unfolding k6_def timeouts_thread [OF ok5] using k5 by (simp_all add: expired_def)
  have "find_irq_waiter 9 4 k3 \<noteq> None"
    using k3 by (auto simp: find_irq_waiter_def scan_None_iff waits_for_def)
  moreover have "find_irq_waiter 9 4 k6 = None"
    using k6 by (simp add: find_irq_waiter_def scan_None_iff waits_for_def)
  ultimately have loop: "irq_wait_loop 9 4 ([] # demo_trace) k2 = Some k6"
    using k2 k5 unfolding demo_trace_def irq_wait_loop.simps Let_def fold_simps(1) k3_def [symmetric]
      k5_def [symmetric] k6_def [symmetric] by auto
  have "irq_occurred (snd (irq_wait_end 9 4 0 3 k6)) ! 4 = 0"
    using k6 by (simp add: irq_wait_end_def Let_def remove_irq_waiter_def split: option.split)
  moreover have "syscall_irq_wait ([] # demo_trace) 4 0 5 demo_kernel = Some (irq_wait_end 9 4 0 3 k6)"
    using loop add by (simp add: syscall_irq_wait_def Let_def MAX_IRQS_def k2_def
        sched_get_current_process_def k1_def del: irq_wait_loop.simps)
  ultimately show thesis using that by (cases "irq_wait_end 9 4 0 3 k6") simp
qed

theorem irq_wait_timeout_lost_witness:
  "\<exists>rc k'. syscall_irq_wait ([] # demo_trace) 4 0 5 demo_kernel = Some (rc, k') \<and>
     rc = 0 \<and> irq_occurred k' ! 4 = 0"
proof -
  obtain rc k' where run: "syscall_irq_wait ([] # demo_trace) 4 0 5 demo_kernel = Some (rc, k')"
    "irq_occurred k' ! 4 = 0" by (rule demo_wait)
  have other: "\<exists>i < MAX_THREADS. i \<noteq> unat (current_thread (sched demo_kernel)) \<and>
      runnable (threads (sched demo_kernel) ! i)"
    using demo_threads [of 5] by (intro exI [of _ 5]) (simp add: MAX_THREADS_def runnable_def zero_thread_def)
  have room: "\<exists>i < MAX_IRQ_WAITERS. \<not> is_active (irq_waiters demo_kernel ! i)"
    by (intro exI [of _ 0]) (simp add: MAX_IRQ_WAITERS_def zero_waiter_def)
  from irq_wait_timeout_lost [OF demo_kernel_ok _ _ _ _ other _ _ room run(1)] run show ?thesis
    using demo_threads [of 3]
    by (auto simp: MAX_IRQS_def MAX_IRQ_WAITERS_def zero_thread_def zero_waiter_def ERR_TIMEOUT_def)
qed

text \<open>
  without an interrupt and without time passing the wait never ends: however many turns the
  loop makes, it gives no result. The system call runs with interrupts disabled (the gate of
  \<open>int 0x80\<close> and the first instruction of its stub see to that) and the loop never enables them,
  so this is every wait that does not end at once.
\<close>

theorem irq_wait_spins:
  assumes ok: "kernel_ok k" and valid: "unat irq < MAX_IRQS"
    and pid: "sched_get_current_pid (sched k) \<noteq> 0" and idle: "irq_occurred k ! unat irq = 0"
    and nowait: "flags AND IRQ_WAIT_NOWAIT = 0"
    and added: "fst (add_irq_waiter (sched_get_current_pid (sched k)) irq flags tmo k) = 0"
  shows "syscall_irq_wait (replicate n []) irq flags tmo k = None"
proof -
  let ?pid = "sched_get_current_pid (sched k)"
  obtain i where i: "i < MAX_IRQ_WAITERS" "add_irq_waiter ?pid irq flags tmo k = (0, k\<lparr>
      irq_waiters := (irq_waiters k)[i := \<lparr>w_pid = ?pid, irq_number = irq, w_flags = flags,
        timeout_ms = tmo, start_time = system_ticks k, is_active = True\<rparr>],
      num_waiters := max (i + 1) (num_waiters k)\<rparr>)" (is "_ = (0, ?k1)")
    using ok added
    by (cases rule: add_cases [where pid = ?pid and irq = irq and flags = flags and tmo = tmo]) auto
  let ?spin = "\<lambda>q. kernel_ok q \<and> irq_occurred q ! unat irq = 0 \<and> i < num_waiters q \<and>
    waits_for ?pid irq (irq_waiters q ! i) \<and> start_time (irq_waiters q ! i) = system_ticks q"
  have loop: "irq_wait_loop ?pid irq (replicate m []) q = None" if "?spin q" for m q
    using that
  proof (induction m arbitrary: q)
    case (Suc m)
    let ?q = "syscall_irq_check_timeouts q"
    have ok: "kernel_ok q" and spin: "?spin q" using Suc.prems by simp_all
    have kept: "irq_waiters ?q ! i = irq_waiters q ! i"
      using timeouts_thread(6) [OF ok, of i] expired_now spin by auto
    then have "?spin ?q" using spin kernel_ok_timeouts [OF ok] by (simp add: timeouts_thread [OF ok])
    then have "?spin (yield_cpu ?q)" using kernel_ok_yield [of ?q] by (simp add: yield_cpu_def)
    moreover have "find_irq_waiter ?pid irq ?q \<noteq> None"
      using \<open>?spin ?q\<close> by (auto simp: find_irq_waiter_def scan_None_iff)
    ultimately show ?case using spin Suc.IH by (simp add: Let_def)
  qed simp
  let ?t = "sched_get_current_process (sched k)"
  have "?t < MAX_THREADS"
    using kernel_okD(2) [OF ok] by (simp add: sched_wf_def sched_get_current_process_def)
  moreover have "kernel_ok ?k1" using kernel_ok_add [OF ok, of ?pid irq flags tmo] i(2) by simp
  ultimately have "?spin (block_current ?t irq ?k1)"
    using i(1) kernel_okD(6) [OF ok] idle kernel_ok_block [of ?k1 ?t irq]
    by (simp add: waits_for_def) (simp add: block_current_def)
  from loop [OF this] show ?thesis using valid pid idle nowait i(2)
    by (simp add: syscall_irq_wait_def Let_def sched_get_current_process_def)
qed

theorem irq_wait_spins_witness:
  "syscall_irq_wait (replicate 1000 []) 4 0 5 demo_kernel = None"
proof -
  have "scan (\<lambda>i. \<not> is_active (replicate 16 zero_waiter ! i)) 0 16 = Some 0"
    by (rule scan_first) (simp_all add: zero_waiter_def)
  then have "fst (add_irq_waiter (sched_get_current_pid (sched demo_kernel)) 4 0 5 demo_kernel) = 0"
    by (simp add: add_irq_waiter_def find_irq_waiter_def MAX_IRQ_WAITERS_def scan.simps)
  then show ?thesis using irq_wait_spins [OF demo_kernel_ok, of 4 0 5 1000] by (simp add: MAX_IRQS_def)
qed

theorem syscall_irq_notify_effect_witness:
  "\<exists>k. kernel_ok k \<and> is_active (irq_waiters k ! 0) \<and>
     \<not> is_active (irq_waiters (syscall_irq_notify 4 k) ! 0) \<and>
     irq_occurred (syscall_irq_notify 4 k) ! 4 = 1"
proof -
  define k where "k = snd (add_irq_waiter 9 4 0 5 demo_kernel)"
  have "scan (\<lambda>i. \<not> is_active (replicate 16 zero_waiter ! i)) 0 16 = Some 0"
    by (rule scan_first) (simp_all add: zero_waiter_def)
  then have k: "is_active (irq_waiters k ! 0)" "irq_number (irq_waiters k ! 0) = 4"
    "irq_occurred k = replicate 16 0"
    by (simp_all add: k_def add_irq_waiter_def find_irq_waiter_def MAX_IRQ_WAITERS_def scan.simps)
  have ok: "kernel_ok k" unfolding k_def using kernel_ok_add demo_kernel_ok .
  from syscall_irq_notify_effect [OF ok, of 4] ok k show ?thesis
    by (intro exI [of _ k]) (simp add: MAX_IRQS_def MAX_IRQ_WAITERS_def Let_def)
qed

section \<open>Messages through memory\<close>

lemma load_store_list:
  assumes "n \<le> 2 ^ 30" "i < 2 ^ 30"
  shows "load p i (fold (\<lambda>j. store p j (ws ! j)) [0..<n] mem) = (if i < n then ws ! i else load p i mem)"
  using assms(1)
proof (induction n)
  case (Suc n)
  have "p + 4 * of_nat i = p + 4 * of_nat n \<longleftrightarrow> i = n"
  proof
    assume "p + 4 * of_nat i = p + 4 * of_nat n"
    then have "unat (4 * of_nat i :: u32) = unat (4 * of_nat n :: u32)" by simp
    then show "i = n" using assms(2) Suc.prems
      by (simp add: unat_word_ariths unat_of_nat take_bit_eq_mod)
  qed simp
  with Suc show ?case by (auto simp: load_def store_def less_Suc_eq)
qed simp

lemma load_store_message:
  assumes "length (m_data m) = IPC_MAX_DATA_SIZE"
  shows "load_message p (store_message p m mem) = m"
proof -
  have len: "length (message_words m) = 1030" by (simp add: message_words_def IPC_MAX_DATA_SIZE_def)
  have ld: "load p i (store_message p m mem) = message_words m ! i" if "i < 1030" for i
    using that load_store_list [of 1030 i p "message_words m" mem] by (simp add: store_message_def len)
  have data: "ucast (drop_bit (8 * (i mod 4)) (load p (6 + i div 4) (store_message p m mem))) = m_data m ! i"
    if i: "i < IPC_MAX_DATA_SIZE" for i
  proof -
    have "i div 4 < 1024" using i by (simp add: IPC_MAX_DATA_SIZE_def)
    then have w: "load p (6 + i div 4) (store_message p m mem) = le_word (m_data m ! (4 * (i div 4)))
      (m_data m ! (4 * (i div 4) + 1)) (m_data m ! (4 * (i div 4) + 2)) (m_data m ! (4 * (i div 4) + 3))"
      using ld [of "6 + i div 4"] by (simp add: message_words_def IPC_MAX_DATA_SIZE_def nth_append)
    have eq: "4 * (i div 4) + i mod 4 = i" by simp
    show ?thesis
      using le_word_byte [of "i mod 4" "\<lambda>j. m_data m ! (4 * (i div 4) + j)"]
      unfolding w eq by simp
  qed
  show ?thesis
    using assms data ld [of 0] ld [of 1] ld [of 2] ld [of 3] ld [of 4] ld [of 5]
    by (auto simp: load_message_def message_words_def intro!: ipc_message.equality nth_equalityI)
qed

lemma length_load_message: "length (m_data (load_message p mem)) = IPC_MAX_DATA_SIZE"
  by (simp add: load_message_def)

text \<open>
  \<open>SYS_IPC_SEND\<close> and then \<open>SYS_IPC_RECEIVE\<close> with an empty queue move a whole message from the
  sender's memory to the receiver's: all fields and all 4096 bytes of data arrive, with the target
  the sender named, and the queue is empty again.
\<close>

theorem syscall_send_receive:
  assumes "kernel_ok k" and "pending (ipc k) = []"
  shows "case syscall_handler tr SYS_IPC_SEND target p x k of
      Some (rc, k1) \<Rightarrow> rc = 0 \<and>
        (case syscall_handler tr' SYS_IPC_RECEIVE q y z k1 of
           Some (rc', k2) \<Rightarrow> rc' = 0 \<and> pending (ipc k2) = [] \<and>
             load_message q (memory (mm k2)) = (load_message p (memory (mm k)))\<lparr>m_target := target\<rparr>
         | None \<Rightarrow> False)
    | None \<Rightarrow> False"
proof -
  let ?m = "load_message p (memory (mm k))"
  have "ipc_count (ipc k) < ipc_capacity"
    using assms(2) length_pending [of "ipc k"] by (simp add: ipc_capacity_def MAX_IPC_QUEUE_def)
  from ipc_send_room [OF kernel_okD(4) [OF assms(1)] this, of target ?m] obtain s1 where
    s1: "ipc_send target ?m (ipc k) = (ECLIB_OK, s1)" "ipc_wf s1" "pending s1 = [?m\<lparr>m_target := target\<rparr>]"
    using assms(2) by auto
  from ipc_receive_head [OF s1(2,3)] obtain s2 where
    s2: "ipc_receive s1 = (ECLIB_OK, Some (?m\<lparr>m_target := target\<rparr>), s2)" "pending s2 = []" by blast
  have "length (m_data (?m\<lparr>m_target := target\<rparr>)) = IPC_MAX_DATA_SIZE" by (simp add: length_load_message)
  from load_store_message [OF this] s1(1) s2 show ?thesis
    by (simp add: syscall_handler_def receive_into_def SYS_IPC_SEND_def SYS_IPC_RECEIVE_def ECLIB_OK_def)
qed

theorem syscall_send_receive_witness:
  "\<exists>k1 k2. syscall_handler [] SYS_IPC_SEND 5 0x200000 0 demo_kernel = Some (0, k1) \<and>
     syscall_handler [] SYS_IPC_RECEIVE 0x300000 0 0 k1 = Some (0, k2) \<and>
     m_target (load_message 0x300000 (memory (mm k2))) = 5"
proof -
  have "pending (ipc demo_kernel) = []" by (simp add: demo_kernel_def kernel_boot_def)
  from syscall_send_receive [OF demo_kernel_ok this, where tr = "[]" and target = 5 and
      p = "0x200000" and x = 0 and tr' = "[]" and q = "0x300000" and y = 0 and z = 0]
  show ?thesis by (auto split: option.splits prod.splits)
qed

text \<open>An unknown system call is refused.\<close>

lemma unknown_call: "n \<notin> {1..7} \<Longrightarrow> syscall_handler tr n a b c k = Some (-1, k)"
  by (auto simp: syscall_handler_def SYS_IPC_SEND_def SYS_IPC_RECEIVE_def SYS_THREAD_YIELD_def
      SYS_ADDRESS_MAP_def SYS_IRQ_WAIT_def SYS_IRQ_GET_COUNT_def SYS_IRQ_RESET_COUNT_def)

text \<open>
  Every system call that returns, known or not, keeps the kernel's invariant: the thread table, the page allocator, the
  message ring and the waiter table stay well formed, whatever the arguments; and only the wait for an interrupt may not return.
\<close>

theorem syscall_handler_invariant:
  assumes "kernel_ok k"
  shows "(\<forall>rc k'. syscall_handler tr n a b c k = Some (rc, k') \<longrightarrow> kernel_ok k') \<and>
    (n = 0 \<or> 7 < n \<longrightarrow> syscall_handler tr n a b c k = Some (-1, k)) \<and>
    (n \<noteq> SYS_IRQ_WAIT \<longrightarrow> syscall_handler tr n a b c k \<noteq> None)"
proof (intro conjI allI impI)
  show "kernel_ok k'" if "syscall_handler tr n a b c k = Some (rc, k')" for rc k' using kernel_ok_syscall [OF assms that] .
  show "syscall_handler tr n a b c k = Some (-1, k)" if "n = 0 \<or> 7 < n" by (rule unknown_call) (use that in auto)
  show "syscall_handler tr n a b c k \<noteq> None" if "n \<noteq> SYS_IRQ_WAIT" using that by (simp add: syscall_handler_def split: prod.split)
qed

theorem syscall_handler_invariant_witness:
  "syscall_handler [] 99 1 2 3 demo_kernel = Some (-1, demo_kernel)"
  using syscall_handler_invariant [OF demo_kernel_ok, where tr = "[]" and n = 99 and a = 1 and b = 2 and
    c = 3] by simp

end
