(* ===== verification/Kernel_Init.thy ===== *)
theory Kernel_Init
  imports Kernel_Syscall
begin

text \<open>
  The init server that is built into the kernel, kernel/src/kernel/init.c: a table of 32 services
  and the loop that serves registrations and lookups received over the message ring. The loop is
  modelled one turn at a time on the table and the ring; its system calls copy messages between
  memory and the ring unchanged (\<open>Kernel_Syscall\<close>), so the message is passed as a value.
\<close>

section \<open>The service table\<close>

definition MSG_SERVICE_REGISTER :: u32 where "MSG_SERVICE_REGISTER = 1"
definition MSG_SERVICE_LOOKUP :: u32 where "MSG_SERVICE_LOOKUP = 2"
definition MSG_SERVICE_REPLY :: u32 where "MSG_SERVICE_REPLY = 3"
definition MAX_SERVICES :: nat where "MAX_SERVICES = 32"

record service_entry =
  service_id :: u32
  provider_pid :: u32
  active :: bool

definition zero_entry :: service_entry where
  "zero_entry = \<lparr>service_id = 0, provider_pid = 0, active = False\<rparr>"

type_synonym service_table = "service_entry list"

definition registry_init :: "service_table \<Rightarrow> service_table" where
  "registry_init tab = map (\<lambda>e. e\<lparr>active := False\<rparr>) tab"

definition registry_register :: "u32 \<Rightarrow> u32 \<Rightarrow> service_table \<Rightarrow> int \<times> service_table" where
  "registry_register sid pid tab =
     (case scan (\<lambda>i. \<not> active (tab ! i)) 0 MAX_SERVICES of
        Some i \<Rightarrow> (0, tab[i := \<lparr>service_id = sid, provider_pid = pid, active = True\<rparr>])
      | None \<Rightarrow> (-1, tab))"

definition registry_lookup :: "u32 \<Rightarrow> service_table \<Rightarrow> u32" where
  "registry_lookup sid tab =
     (case scan (\<lambda>i. active (tab ! i) \<and> service_id (tab ! i) = sid) 0 MAX_SERVICES of
        Some i \<Rightarrow> provider_pid (tab ! i)
      | None \<Rightarrow> 0)"

section \<open>The dispatch loop\<close>

definition message_id :: "ipc_message \<Rightarrow> u32" where
  "message_id m = le_word (m_data m ! 0) (m_data m ! 1) (m_data m ! 2) (m_data m ! 3)"

definition service_reply :: "u32 \<Rightarrow> ipc_message \<Rightarrow> ipc_message" where
  "service_reply provider msg = zero_message\<lparr>m_type := MSG_SERVICE_REPLY, m_target := m_source msg,
     m_data := (m_data zero_message)[0 := ucast (provider AND 0xFF),
       1 := ucast (drop_bit 8 provider AND 0xFF), 2 := ucast (drop_bit 16 provider AND 0xFF),
       3 := ucast (drop_bit 24 provider AND 0xFF)],
     m_size := 4\<rparr>"

definition init_step :: "service_table \<times> kernel \<Rightarrow> service_table \<times> kernel" where
  "init_step = (\<lambda>(tab, k).
     case ipc_receive (ipc k) of
       (rc, None, q) \<Rightarrow> (tab, yield_cpu (k\<lparr>ipc := q\<rparr>))
     | (rc, Some msg, q) \<Rightarrow>
         if m_type msg = MSG_SERVICE_REGISTER
         then (snd (registry_register (message_id msg) (m_source msg) tab), k\<lparr>ipc := q\<rparr>)
         else if m_type msg = MSG_SERVICE_LOOKUP
         then (let provider = registry_lookup (message_id msg) tab in
           (tab, k\<lparr>ipc := snd (ipc_send (m_source msg) (service_reply provider msg) q)\<rparr>))
         else (tab, k\<lparr>ipc := q\<rparr>))"

section \<open>The registry contract\<close>

text \<open>Nothing is ever deregistered, so the active entries are the first ones of the table.\<close>

definition table_wf :: "nat \<Rightarrow> service_table \<Rightarrow> bool" where
  "table_wf n tab \<longleftrightarrow> length tab = MAX_SERVICES \<and> n \<le> MAX_SERVICES \<and>
     (\<forall>i < MAX_SERVICES. active (tab ! i) \<longleftrightarrow> i < n)"

definition table_ok :: "service_table \<Rightarrow> bool" where
  "table_ok tab \<longleftrightarrow> (\<exists>n \<le> MAX_SERVICES. table_wf n tab)"

definition table_size :: "service_table \<Rightarrow> nat" where
  "table_size tab = card {i. i < MAX_SERVICES \<and> active (tab ! i)}"

definition table_reg :: "u32 \<Rightarrow> u32 \<Rightarrow> service_table \<Rightarrow> service_table option" where
  "table_reg sid pid tab = (case registry_register sid pid tab of (rc, tab') \<Rightarrow> if rc = 0 then Some tab' else None)"

definition table_look :: "u32 \<Rightarrow> service_table \<Rightarrow> u32 option" where
  "table_look sid tab =
     map_option (\<lambda>i. provider_pid (tab ! i))
       (scan (\<lambda>i. active (tab ! i) \<and> service_id (tab ! i) = sid) 0 MAX_SERVICES)"

lemma registry_lookup_look:
  "registry_lookup sid tab = (case table_look sid tab of Some p \<Rightarrow> p | None \<Rightarrow> 0)"
  by (simp add: registry_lookup_def table_look_def split: option.split)

lemma table_ok_wf: "table_wf n tab \<Longrightarrow> table_ok tab"
  by (auto simp: table_ok_def table_wf_def)

lemma table_size_wf: "table_wf n tab \<Longrightarrow> table_size tab = n"
proof -
  assume "table_wf n tab"
  then have "{i. i < MAX_SERVICES \<and> active (tab ! i)} = {..<n}" by (auto simp: table_wf_def)
  then show ?thesis by (simp add: table_size_def)
qed

lemma register_room:
  assumes wf: "table_wf n tab" and n: "n < MAX_SERVICES"
  shows "registry_register sid pid tab =
      (0, tab[n := \<lparr>service_id = sid, provider_pid = pid, active = True\<rparr>])"
    and "table_wf (Suc n) (tab[n := \<lparr>service_id = sid, provider_pid = pid, active = True\<rparr>])"
    and "table_look j (tab[n := \<lparr>service_id = sid, provider_pid = pid, active = True\<rparr>]) =
      (if table_look j tab = None \<and> j = sid then Some pid else table_look j tab)"
proof -
  let ?tab = "tab[n := \<lparr>service_id = sid, provider_pid = pid, active = True\<rparr>]"
  have "scan (\<lambda>i. \<not> active (tab ! i)) 0 MAX_SERVICES = Some n"
    using wf n by (auto simp: scan_Some_iff table_wf_def)
  then show "registry_register sid pid tab = (0, ?tab)" by (simp add: registry_register_def)
  show "table_wf (Suc n) ?tab"
    using wf n by (auto simp: table_wf_def nth_list_update less_Suc_eq)
  have at: "?tab ! i = (if i = n then \<lparr>service_id = sid, provider_pid = pid, active = True\<rparr> else tab ! i)" for i
    using wf n by (simp add: table_wf_def nth_list_update)
  have act: "active (tab ! i) \<Longrightarrow> i < n" if "i < MAX_SERVICES" for i
    using wf that by (simp add: table_wf_def)
  let ?P = "\<lambda>tab i. active (tab ! i) \<and> service_id (tab ! i) = j"
  show "table_look j ?tab = (if table_look j tab = None \<and> j = sid then Some pid else table_look j tab)"
  proof (cases "scan (?P tab) 0 MAX_SERVICES")
    case (Some i)
    then have "scan (?P ?tab) 0 MAX_SERVICES = Some i" "i \<noteq> n"
      using act by (fastforce simp: scan_Some_iff at)+
    with Some show ?thesis by (simp add: table_look_def at)
  next
    case None
    have none: "\<not> ?P tab i" if "i < MAX_SERVICES" for i using scan_NoneD [OF None _ that] by simp
    have "scan (?P ?tab) 0 MAX_SERVICES = (if j = sid then Some n else None)"
      using none n by (auto simp: scan_Some_iff scan_None_iff at dest: order.strict_trans)
    with None show ?thesis by (simp add: table_look_def at)
  qed
qed

lemma register_full: "table_wf MAX_SERVICES tab \<Longrightarrow> registry_register sid pid tab = (-1, tab)"
  by (auto simp: registry_register_def table_wf_def scan_None_iff scan_Some_iff split: option.split)

interpretation services: registry table_reg table_look table_ok table_size MAX_SERVICES
proof unfold_locales
  fix s :: service_table and k v
  assume "table_ok s" "table_size s < MAX_SERVICES"
  then obtain n where n: "table_wf n s" "n < MAX_SERVICES" "table_size s = n"
    by (auto simp: table_ok_def table_size_wf)
  note rr = register_room [OF n(1,2), where sid = k and pid = v]
  show "\<exists>s'. table_reg k v s = Some s' \<and> table_ok s' \<and>
      table_size s' = Suc (table_size s) \<and>
      (\<forall>j. table_look j s' = (if table_look j s = None \<and> j = k then Some v else table_look j s))"
    by (intro exI [of _ "s[n := \<lparr>service_id = k, provider_pid = v, active = True\<rparr>]"])
      (simp add: table_reg_def rr(1,3) table_size_wf [OF rr(2)] table_ok_wf [OF rr(2)] n(3))
next
  fix s :: service_table and k v
  assume "table_ok s" "MAX_SERVICES \<le> table_size s"
  then have "table_wf MAX_SERVICES s" by (auto simp: table_ok_def table_size_wf)
  then show "table_reg k v s = None" by (simp add: table_reg_def register_full)
qed

lemma table_ok_init: "length tab = MAX_SERVICES \<Longrightarrow> table_ok (registry_init tab) \<and> table_size (registry_init tab) = 0"
proof -
  assume "length tab = MAX_SERVICES"
  then have "table_wf 0 (registry_init tab)" by (simp add: table_wf_def registry_init_def)
  then show ?thesis by (simp add: table_ok_wf table_size_wf)
qed

lemma table_look_init: "length tab = MAX_SERVICES \<Longrightarrow> table_look j (registry_init tab) = None"
  by (simp add: table_look_def registry_init_def scan_None_iff)

section \<open>Properties\<close>

text \<open>
  after the table is initialised and any services have registered, a lookup finds the provider
  that registered the service first, among the 32 registrations that fit, and 0 when there is none:
  a later registration never takes a service over.
\<close>

theorem registry_first_wins:
  assumes "length tab = MAX_SERVICES"
  shows "registry_lookup sid (reg_all table_reg kvs (registry_init tab)) =
    (case map_of (take 32 kvs) sid of Some p \<Rightarrow> p | None \<Rightarrow> 0)"
  using services.reg_all_look [where s = "registry_init tab" and j = sid and kvs = kvs] table_ok_init [OF assms]
  by (simp add: registry_lookup_look table_look_init [OF assms] MAX_SERVICES_def)

theorem registry_first_wins_witness:
  "registry_lookup 7 (reg_all table_reg [(7, 100), (8, 101), (7, 102)]
     (registry_init (replicate 32 zero_entry))) = 100"
  using registry_first_wins [where tab = "replicate 32 zero_entry" and sid = 7 and
      kvs = "[(7, 100), (8, 101), (7, 102)]"]
  by (simp add: MAX_SERVICES_def)

lemma service_reply_id: "message_id (service_reply p msg) = p"
proof -
  have "length (m_data zero_message) = 4096" by (simp add: zero_message_def IPC_MAX_DATA_SIZE_def)
  then show ?thesis by (simp add: message_id_def service_reply_def ucast_byte le_simps)
qed

text \<open>
  init answers a lookup with one reply that is addressed to the sender and carries the
  provider's process id in four little-endian bytes; but when init runs again before the sender
  does, it receives that reply itself, as the kernel's receive ignores the target of a message,
  and drops it: the sender never gets an answer.
\<close>

theorem init_lookup_reply_lost:
  assumes "kernel_ok k" and "pending (ipc k) = [msg]" and "m_type msg = MSG_SERVICE_LOOKUP"
  shows "\<exists>k1 r. init_step (tab, k) = (tab, k1) \<and> pending (ipc k1) = [r] \<and>
    m_type r = MSG_SERVICE_REPLY \<and> m_target r = m_source msg \<and> m_size r = 4 \<and>
    message_id r = registry_lookup (message_id msg) tab \<and>
    (\<exists>k2. init_step (tab, k1) = (tab, k2) \<and> pending (ipc k2) = [])"
proof -
  let ?r = "service_reply (registry_lookup (message_id msg) tab) msg"
  from ipc_receive_head [OF kernel_okD(4) [OF assms(1)] assms(2)] obtain q where
    q: "ipc_receive (ipc k) = (ECLIB_OK, Some msg, q)" "ipc_wf q" "pending q = []" by blast
  then have "ipc_count q < ipc_capacity"
    using length_pending [of q] by (simp add: ipc_capacity_def MAX_IPC_QUEUE_def)
  from ipc_send_room [OF q(2) this, of "m_source msg" ?r] q(3) obtain q1 where
    q1: "ipc_send (m_source msg) ?r q = (ECLIB_OK, q1)" "ipc_wf q1"
      "pending q1 = [?r\<lparr>m_target := m_source msg\<rparr>]" by auto
  have r: "?r\<lparr>m_target := m_source msg\<rparr> = ?r" by (simp add: service_reply_def)
  from ipc_receive_head [OF q1(2,3)] obtain q2 where
    q2: "ipc_receive q1 = (ECLIB_OK, Some ?r, q2)" "pending q2 = []" unfolding r by blast
  have "init_step (tab, k) = (tab, k\<lparr>ipc := q1\<rparr>)"
    using q q1 assms(3) by (simp add: init_step_def MSG_SERVICE_LOOKUP_def MSG_SERVICE_REGISTER_def)
  moreover have "m_type ?r = MSG_SERVICE_REPLY" "m_target ?r = m_source msg" "m_size ?r = 4"
    by (simp_all add: service_reply_def)
  moreover have "init_step (tab, k\<lparr>ipc := q1\<rparr>) = (tab, k\<lparr>ipc := q2\<rparr>)"
    using q2 by (simp add: init_step_def service_reply_def MSG_SERVICE_LOOKUP_def
        MSG_SERVICE_REGISTER_def MSG_SERVICE_REPLY_def)
  ultimately show ?thesis using q1(3) q2(2) service_reply_id unfolding r
    by (intro exI [of _ "k\<lparr>ipc := q1\<rparr>"] exI [of _ ?r]) auto
qed

theorem init_lookup_reply_lost_witness:
  "\<exists>k msg. pending (ipc k) = [msg] \<and> (\<exists>k1 r. pending (ipc k1) = [r] \<and> m_size r = 4 \<and>
     init_step (replicate 32 zero_entry, k) = (replicate 32 zero_entry, k1))"
proof -
  let ?m = "zero_message\<lparr>m_type := MSG_SERVICE_LOOKUP\<rparr>"
  have "ipc_count ipc_boot < ipc_capacity"
    by (simp add: ipc_capacity_def ipc_count_def ipc_boot_def MAX_IPC_QUEUE_def)
  from ipc_send_room [OF ipc_wf_boot this, of 0 ?m] obtain q where
    q: "ipc_wf q" "pending q = [?m\<lparr>m_target := 0\<rparr>]" by auto
  have "kernel_ok (demo_kernel\<lparr>ipc := q\<rparr>)"
    using demo_kernel_ok q(1) unfolding kernel_ok_def waiters_ok_def by (simp del: demo_kernel_simps)
  from init_lookup_reply_lost [OF this, of "?m\<lparr>m_target := 0\<rparr>" "replicate 32 zero_entry"] q(2)
  show ?thesis by (intro exI [of _ "demo_kernel\<lparr>ipc := q\<rparr>"] exI [of _ "?m\<lparr>m_target := 0\<rparr>"]) auto
qed

end
