(* ===== verification/Kernel_Print.thy ===== *)
theory Kernel_Print
  imports Prelude
begin

text \<open>
  The kernel's text output, kernel/src/printkit/print.c: the 80 by 25 cells of the VGA text buffer
  and the cursor. A character is a byte; the compiler's \<open>char\<close> is signed, so its promotion to
  \<open>int\<close> extends the sign.
\<close>

section \<open>The screen\<close>

record vga =
  cells :: "u16 list"
  cursor_x :: nat
  cursor_y :: nat

definition vga_ok :: "vga \<Rightarrow> bool" where
  "vga_ok v \<longleftrightarrow> length (cells v) = 80 * 25 \<and> cursor_x v < 80 \<and> cursor_y v < 25"

definition clear_screen :: "u8 \<Rightarrow> vga \<Rightarrow> vga" where
  "clear_screen color v =
     v\<lparr>cells := fill_loop (\<lambda>i. 0x0720) (80 * 25) (cells v), cursor_x := 0, cursor_y := 0\<rparr>"

definition write_cell :: "u8 \<Rightarrow> u8 \<Rightarrow> vga \<Rightarrow> vga" where
  "write_cell c color v =
     v\<lparr>cells := (cells v)[cursor_y v * 80 + cursor_x v := push_bit 8 (ucast color) OR scast c],
       cursor_x := cursor_x v + 1\<rparr>"

text \<open>The first loop copies upwards, so each cell it reads is still the old one.\<close>

definition scroll :: "vga \<Rightarrow> vga" where
  "scroll v =
     (let up = fold (\<lambda>i cs. cs[i := cs ! (i + 80)]) [0..<80 * 24] (cells v);
          last = fold (\<lambda>i cs. cs[i := 0x0F20]) [80 * 24..<80 * 25] up
      in v\<lparr>cells := last, cursor_y := 24\<rparr>)"

definition putchar :: "u8 \<Rightarrow> u8 \<Rightarrow> vga \<Rightarrow> vga" where
  "putchar c color v =
     (let v = (if c = 10 then v\<lparr>cursor_x := 0, cursor_y := cursor_y v + 1\<rparr>
               else if c = 13 then v\<lparr>cursor_x := 0\<rparr>
               else write_cell c color v);
          v = (if cursor_x v \<ge> 80 then v\<lparr>cursor_x := 0, cursor_y := cursor_y v + 1\<rparr> else v)
      in if cursor_y v \<ge> 25 then scroll v else v)"

text \<open>A string is its bytes up to the first NUL.\<close>

definition print :: "u8 list \<Rightarrow> u8 \<Rightarrow> vga \<Rightarrow> vga" where
  "print str color v = fold (\<lambda>c. putchar c color) (takeWhile (\<lambda>c. c \<noteq> 0) str) v"

section \<open>Numbers\<close>

text \<open>\<open>while (num > 0) { *--ptr = '0' + (num % 10); num /= 10; }\<close>: the bytes from \<open>ptr\<close> on.\<close>

function decimal_digits :: "u32 \<Rightarrow> u8 list \<Rightarrow> u8 list" where
  "decimal_digits num buf =
     (if num > 0 then decimal_digits (num div 10) (ucast (48 + num mod 10) # buf) else buf)"
  by pat_completeness auto
termination
proof (relation "measure (\<lambda>(num, buf). unat num)")
  fix num :: u32 and buf :: "u8 list"
  assume "num > 0"
  then have "0 < unat num" by (simp add: unat_gt_0)
  then show "((num div 10, ucast (48 + num mod 10) # buf), num, buf) \<in> measure (\<lambda>(num, buf). unat num)"
    by (simp add: unat_div_distrib)
qed simp

declare decimal_digits.simps [simp del]

definition print_number :: "u32 \<Rightarrow> u8 \<Rightarrow> vga \<Rightarrow> vga" where
  "print_number num color v =
     (if num = 0 then putchar 48 color v else print (decimal_digits num [0]) color v)"

definition hex_digits :: "u8 list" where
  "hex_digits = [48, 49, 50, 51, 52, 53, 54, 55, 56, 57, 65, 66, 67, 68, 69, 70]"

definition hex_digit :: "u32 \<Rightarrow> nat \<Rightarrow> u8" where
  "hex_digit num i = hex_digits ! unat (drop_bit (i * 4) num AND 0xF)"

definition print_hex :: "u32 \<Rightarrow> u8 \<Rightarrow> vga \<Rightarrow> vga" where
  "print_hex num color v =
     fold (\<lambda>i. putchar (hex_digit num i) color) (rev [0..<8]) (print [48, 120, 0] color v)"

section \<open>The cursor stays on the screen\<close>

lemma length_fold_update: "length (fold (\<lambda>i cs. cs[f i := g i cs]) is cs) = length cs"
  by (induction "is" arbitrary: cs) simp_all

lemma vga_ok_scroll: "length (cells v) = 80 * 25 \<Longrightarrow> cursor_x v < 80 \<Longrightarrow> vga_ok (scroll v)"
  by (simp add: vga_ok_def scroll_def Let_def length_fold_update)

lemma putchar_ok: "vga_ok v \<Longrightarrow> vga_ok (putchar c color v)"
proof -
  assume ok: "vga_ok v"
  define v1 where "v1 = (if c = 10 then v\<lparr>cursor_x := 0, cursor_y := cursor_y v + 1\<rparr>
    else if c = 13 then v\<lparr>cursor_x := 0\<rparr> else write_cell c color v)"
  define v2 where "v2 = (if cursor_x v1 \<ge> 80 then v1\<lparr>cursor_x := 0, cursor_y := cursor_y v1 + 1\<rparr> else v1)"
  have "length (cells v1) = 80 * 25" using ok by (simp add: v1_def vga_ok_def write_cell_def)
  then have "length (cells v2) = 80 * 25" "cursor_x v2 < 80" by (auto simp: v2_def)
  moreover have "putchar c color v = (if cursor_y v2 \<ge> 25 then scroll v2 else v2)"
    by (simp add: putchar_def v1_def v2_def Let_def)
  ultimately show ?thesis using vga_ok_scroll [of v2] by (auto simp: vga_ok_def)
qed

lemma fold_putchar_ok: "vga_ok v \<Longrightarrow> vga_ok (fold (\<lambda>x. putchar (f x) color) xs v)"
  by (induction xs arbitrary: v) (simp_all add: putchar_ok)

lemma print_ok: "vga_ok v \<Longrightarrow> vga_ok (print str color v)"
  using fold_putchar_ok [of v "\<lambda>c. c"] by (simp add: print_def)

section \<open>Digits\<close>

text \<open>The number a list of ASCII digits stands for in base \<open>b\<close>.\<close>

definition number_of :: "nat \<Rightarrow> (u8 \<Rightarrow> nat) \<Rightarrow> u8 list \<Rightarrow> nat" where
  "number_of b digit cs = foldl (\<lambda>a c. a * b + digit c) 0 cs"

definition decimal_value :: "u8 \<Rightarrow> nat" where
  "decimal_value c = unat c - 48"

lemma foldl_shift: "foldl (\<lambda>a c. a * b + d c) x cs = x * b ^ length cs + foldl (\<lambda>a c. a * b + d c) 0 cs"
  for x :: nat
proof (induction cs arbitrary: x)
  case (Cons c cs)
  from Cons.IH [of "x * b + d c"] Cons.IH [of "d c"] show ?case
    by (simp add: algebra_simps)
qed simp

lemma number_of_Cons: "number_of b d (c # cs) = d c * b ^ length cs + number_of b d cs"
  using foldl_shift [of b d "d c" cs] by (simp add: number_of_def)

lemma digit_byte:
  assumes "n < 10" shows "unat (ucast (48 + of_nat n :: u32) :: u8) = 48 + n"
proof -
  have "unat (48 + of_nat n :: u32) = 48 + n" using assms
    by (simp add: unat_word_ariths unat_of_nat take_bit_eq_mod)
  then show ?thesis using assms by (simp add: unsigned_ucast_eq take_bit_eq_mod)
qed

lemma decimal_digits_value:
  "\<exists>ds. decimal_digits num buf = ds @ buf \<and> number_of 10 decimal_value ds = unat num \<and>
    (\<forall>d \<in> set ds. 48 \<le> unat d \<and> unat d \<le> 57) \<and> (num \<noteq> 0 \<longrightarrow> ds \<noteq> [] \<and> unat (hd ds) \<noteq> 48) \<and>
    (\<forall>k. unat num < 10 ^ k \<longrightarrow> length ds \<le> k)"
proof (induction num buf rule: decimal_digits.induct)
  case (1 num buf)
  show ?case
  proof (cases "num > 0")
    case False
    then have "num = 0" by (simp add: word_gt_0)
    then show ?thesis by (auto simp: decimal_digits.simps [of 0] number_of_def)
  next
    case True
    let ?d = "ucast (48 + num mod 10) :: u8"
    have r: "num mod 10 = of_nat (unat num mod 10)" by (simp add: word_unat_eq_iff unat_mod_distrib unat_of_nat)
    have d: "unat ?d = 48 + unat num mod 10" unfolding r by (rule digit_byte) simp
    have q: "unat (num div 10) = unat num div 10" by (simp add: unat_div_distrib)
    from 1 [OF True] obtain ds where ds: "decimal_digits (num div 10) (?d # buf) = ds @ ?d # buf"
      "number_of 10 decimal_value ds = unat (num div 10)" "\<forall>d \<in> set ds. 48 \<le> unat d \<and> unat d \<le> 57"
      "num div 10 \<noteq> 0 \<longrightarrow> ds \<noteq> [] \<and> unat (hd ds) \<noteq> 48"
      "\<forall>k. unat (num div 10) < 10 ^ k \<longrightarrow> length ds \<le> k" by blast
    have "number_of 10 decimal_value (ds @ [?d]) = unat num"
      using ds(2) d by (simp add: number_of_def decimal_value_def q)
    moreover have "\<forall>d \<in> set (ds @ [?d]). 48 \<le> unat d \<and> unat d \<le> 57" using ds(3) d by auto
    moreover have "unat (hd (ds @ [?d])) \<noteq> 48"
    proof (cases "num div 10 = 0")
      case True
      then have "unat num div 10 = 0" using q by simp
      moreover have "0 < unat num" using \<open>num > 0\<close> by (simp add: unat_gt_0)
      ultimately have "unat num mod 10 \<noteq> 0" by (metis div_mult_mod_eq add_0 mult_0 less_irrefl)
      moreover have "ds = []" using ds(5) True by (metis le_zero_eq length_0_conv power_0 unat_0 zero_less_one)
      ultimately show ?thesis using d by simp
    qed (use ds(4) in auto)
    moreover have "length (ds @ [?d]) \<le> k" if "unat num < 10 ^ k" for k
    proof (cases k)
      case 0
      with that \<open>num > 0\<close> show ?thesis by (simp add: unat_gt_0 [symmetric] word_gt_0 word_unat_eq_iff)
    next
      case (Suc m)
      with that have "unat (num div 10) < 10 ^ m" unfolding q by (simp add: less_mult_imp_div_less)
      with ds(5) Suc show ?thesis by simp
    qed
    moreover have "decimal_digits num buf = (ds @ [?d]) @ buf"
      using True ds(1) by (simp add: decimal_digits.simps [of num])
    ultimately show ?thesis by (intro exI [of _ "ds @ [?d]"]) simp
  qed
qed

section \<open>Properties\<close>

text \<open>
  no output leaves the text buffer: from a cursor on the screen every character is written to
  one of the 2000 cells and the cursor is on the screen again afterwards, for single characters,
  strings, decimal and hexadecimal numbers alike.
\<close>

theorem print_stays_on_screen:
  assumes "vga_ok v"
  shows "cursor_y v * 80 + cursor_x v < length (cells v) \<and> vga_ok (putchar c color v) \<and>
    vga_ok (print str color v) \<and> vga_ok (print_number n color v) \<and> vga_ok (print_hex n color v)"
proof -
  have "cursor_y v * 80 + cursor_x v < length (cells v)" using assms by (auto simp: vga_ok_def)
  moreover have "vga_ok (print_hex n color v)"
    unfolding print_hex_def using assms by (intro fold_putchar_ok print_ok)
  ultimately show ?thesis using assms by (simp add: putchar_ok print_ok print_number_def)
qed

theorem print_stays_on_screen_witness:
  "vga_ok (print_hex 0xDEADBEEF 7 \<lparr>cells = replicate 2000 0, cursor_x = 79, cursor_y = 24\<rparr>)"
  using print_stays_on_screen [of "\<lparr>cells = replicate 2000 0, cursor_x = 79, cursor_y = 24\<rparr>"]
  by (simp add: vga_ok_def)

text \<open>
  \<open>print_number\<close> prints the decimal numeral of its argument: digits only, no leading zero, at
  most ten of them (the buffer has room for eleven), and they denote the number.
\<close>

theorem print_number_decimal:
  "\<exists>ds. print_number num color v = fold (\<lambda>c. putchar c color) ds v \<and>
    number_of 10 decimal_value ds = unat num \<and> (\<forall>d \<in> set ds. 48 \<le> unat d \<and> unat d \<le> 57) \<and>
    1 \<le> length ds \<and> length ds \<le> 10 \<and> (unat (hd ds) = 48 \<longrightarrow> num = 0)"
proof (cases "num = 0")
  case True
  then show ?thesis
    by (intro exI [of _ "[48]"]) (simp add: print_number_def number_of_def decimal_value_def)
next
  case False
  obtain ds where ds: "decimal_digits num [0] = ds @ [0]" "number_of 10 decimal_value ds = unat num"
    "\<forall>d \<in> set ds. 48 \<le> unat d \<and> unat d \<le> 57" "ds \<noteq> []" "unat (hd ds) \<noteq> 48"
    "\<forall>k. unat num < 10 ^ k \<longrightarrow> length ds \<le> k"
    using decimal_digits_value [of num "[0]"] False by blast
  have "c \<noteq> 0" if "c \<in> set ds" for c using ds(3) that by fastforce
  then have "takeWhile (\<lambda>c. c \<noteq> 0) (ds @ [0]) = ds" by (simp add: takeWhile_append)
  then have "print_number num color v = fold (\<lambda>c. putchar c color) ds v"
    using False ds(1) by (simp add: print_number_def print_def)
  moreover have "length ds \<le> 10"
    using ds(6) unsigned_less [where 'a = nat, of num] by simp
  moreover have "1 \<le> length ds" using ds(4) by (cases ds) simp_all
  ultimately show ?thesis using ds(2,3,5) by (intro exI [of _ ds]) simp
qed

theorem print_number_decimal_witness:
  "\<exists>ds. print_number 2025 7 \<lparr>cells = replicate 2000 0, cursor_x = 0, cursor_y = 0\<rparr> = fold (\<lambda>c. putchar c 7) ds \<lparr>cells = replicate 2000 0, cursor_x = 0, cursor_y = 0\<rparr> \<and>
    number_of 10 decimal_value ds = 2025 \<and> (\<forall>d \<in> set ds. 48 \<le> unat d \<and> unat d \<le> 57) \<and>
    1 \<le> length ds \<and> length ds \<le> 10 \<and> unat (hd ds) \<noteq> 48"
  using print_number_decimal [of 2025 7 "\<lparr>cells = replicate 2000 0, cursor_x = 0, cursor_y = 0\<rparr>"] by fastforce

text \<open>
  A character outside ASCII is shown in the wrong colour: its sign bits overwrite the colour
  byte of the cell, which becomes 0xFF whatever colour the caller asked for.
\<close>

theorem putchar_sign_extension:
  assumes "vga_ok v" and "128 \<le> unat c"
  shows "drop_bit 8 (cells (write_cell c color v) ! (cursor_y v * 80 + cursor_x v)) = 0xFF"
proof -
  have "cursor_y v * 80 + cursor_x v < length (cells v)" using assms by (auto simp: vga_ok_def)
  then have cell: "cells (write_cell c color v) ! (cursor_y v * 80 + cursor_x v) =
      push_bit 8 (ucast color) OR scast c" by (simp add: write_cell_def)
  have "bit c 7"
  proof -
    have "unat c div 128 = 1" using assms(2) unsigned_less [where 'a = nat, of c] by (simp add: div_nat_eqI)
    then have "unat (drop_bit 7 c) = 1" by (simp only: unat_drop_bit_div) simp
    then have "drop_bit 7 c = 1" by (simp add: word_unat_eq_iff)
    then have "bit (drop_bit 7 c) 0" by (simp only: bit_1_iff)
    then show ?thesis by (simp add: bit_drop_bit_eq)
  qed
  then have "drop_bit 8 (push_bit 8 (ucast color) OR scast c) = (mask 8 :: u16)"
    by (intro bit_word_eqI) (auto simp: bit_simps)
  then show ?thesis unfolding cell by (simp add: mask_eq_exp_minus_1)
qed

theorem putchar_sign_extension_witness:
  "drop_bit 8 (cells (write_cell 0xE9 0x0F \<lparr>cells = replicate 2000 0, cursor_x = 0, cursor_y = 0\<rparr>) ! 0) = 0xFF"
  using putchar_sign_extension [of "\<lparr>cells = replicate 2000 0, cursor_x = 0, cursor_y = 0\<rparr>" "0xE9" "0x0F"]
  by (simp add: vga_ok_def)

end
