(* ===== verification/Kernel_Arch.thy ===== *)
theory Kernel_Arch
  imports Kernel_Syscall Kernel_Print
begin

text \<open>
  The x86-64 layer in C: the segment descriptors and the task-state segment of
  arch/x86_64/cpu/gdt.c, the interrupt gates of interrupts/idt.c, the handler table and the
  interrupt controller of interrupts/irq.c and the exception handler of interrupts/isr.c. The
  entry points of the assembly stubs are parameters; port output is a log of port and value.
\<close>

section \<open>Segment descriptors\<close>

record gdt_entry =
  limit_low :: u16
  base_low :: u16
  base_middle :: u8
  access :: u8
  granularity :: u8
  base_high :: u8

record tss_entry =
  ss0 :: u32
  esp0 :: u32
  iomap_base :: u16

record gdt_state =
  gdt :: "gdt_entry list"
  tss :: tss_entry
  task_register :: u16

definition gdt_set :: "nat \<Rightarrow> u32 \<Rightarrow> u32 \<Rightarrow> u8 \<Rightarrow> u8 \<Rightarrow> gdt_state \<Rightarrow> gdt_state" where
  "gdt_set i base limit acc gran s = s\<lparr>gdt := (gdt s)[i :=
     \<lparr>limit_low = ucast (limit AND 0xFFFF), base_low = ucast (base AND 0xFFFF),
      base_middle = ucast (drop_bit 16 base AND 0xFF), access = acc,
      granularity = (ucast (drop_bit 16 limit) AND 0x0F) OR (gran AND 0xF0),
      base_high = ucast (drop_bit 24 base AND 0xFF)\<rparr>]\<rparr>"

text \<open>The task-state segment has 104 bytes; \<open>tss_addr\<close> and \<open>stack\<close> are where the linker put things.\<close>

definition tss_init :: "u32 \<Rightarrow> u32 \<Rightarrow> gdt_state \<Rightarrow> gdt_state" where
  "tss_init tss_addr kernel_stack s =
     (let s = gdt_set 5 tss_addr (104 - 1) 0x89 0x00 s
      in s\<lparr>tss := (tss s)\<lparr>ss0 := 0x10, esp0 := kernel_stack + 4096, iomap_base := 104\<rparr>,
           task_register := 0x28\<rparr>)"

definition gdt_init :: "u32 \<Rightarrow> u32 \<Rightarrow> gdt_state \<Rightarrow> gdt_state" where
  "gdt_init tss_addr kernel_stack s =
     (let s = gdt_set 0 0 0 0x00 0x00 s;
          s = gdt_set 1 0 0xFFFFFFFF 0x9A 0xCF s;
          s = gdt_set 2 0 0xFFFFFFFF 0x92 0xCF s;
          s = gdt_set 3 0 0xFFFFFFFF 0xFA 0xCF s;
          s = gdt_set 4 0 0xFFFFFFFF 0xF2 0xCF s;
          s = gdt_set 5 0 0 0x00 0x00 s
      in tss_init tss_addr kernel_stack s)"

definition tss_set_kernel_stack :: "u32 \<Rightarrow> gdt_state \<Rightarrow> gdt_state" where
  "tss_set_kernel_stack e s = s\<lparr>tss := (tss s)\<lparr>esp0 := e\<rparr>\<rparr>"

text \<open>What the processor reads from a descriptor: base, limit in units, privilege level, present.\<close>

definition desc_base :: "gdt_entry \<Rightarrow> u32" where
  "desc_base e = ucast (base_low e) OR push_bit 16 (ucast (base_middle e)) OR
     push_bit 24 (ucast (base_high e))"

definition desc_limit :: "gdt_entry \<Rightarrow> u32" where
  "desc_limit e = ucast (limit_low e) OR push_bit 16 (ucast (granularity e AND 0x0F))"

definition desc_dpl :: "gdt_entry \<Rightarrow> u8" where
  "desc_dpl e = drop_bit 5 (access e) AND 3"

definition desc_present :: "gdt_entry \<Rightarrow> bool" where
  "desc_present e \<longleftrightarrow> bit (access e) 7"

section \<open>Interrupt gates\<close>

record idt_entry64 =
  offset_low :: u16
  selector :: u16
  ist :: u8
  flags :: u8
  offset_mid :: u16
  offset_high :: u32
  reserved :: u32

definition IDT_ENTRIES :: nat where "IDT_ENTRIES = 256"

definition idt_set_gate64 :: "nat \<Rightarrow> u64 \<Rightarrow> u16 \<Rightarrow> u8 \<Rightarrow> idt_entry64 list \<Rightarrow> idt_entry64 list" where
  "idt_set_gate64 num base sel fl idt = idt[num :=
     \<lparr>offset_low = ucast (base AND 0xFFFF), selector = sel, ist = 0, flags = fl,
      offset_mid = ucast (drop_bit 16 base AND 0xFFFF),
      offset_high = ucast (drop_bit 32 base AND 0xFFFFFFFF), reserved = 0\<rparr>]"

definition zero_gate :: idt_entry64 where
  "zero_gate = \<lparr>offset_low = 0, selector = 0, ist = 0, flags = 0, offset_mid = 0, offset_high = 0,
     reserved = 0\<rparr>"

definition GATE :: "nat \<Rightarrow> u64 \<Rightarrow> idt_entry64 list \<Rightarrow> idt_entry64 list" where
  "GATE n fn = idt_set_gate64 n fn 0x08 0x8E"

definition UGATE :: "nat \<Rightarrow> u64 \<Rightarrow> idt_entry64 list \<Rightarrow> idt_entry64 list" where
  "UGATE n fn = idt_set_gate64 n fn 0x08 0xEE"

text \<open>\<open>isr\<close> and \<open>irq\<close> give the addresses of the stubs \<open>isr0..isr31\<close> and \<open>irq0..irq15\<close>.\<close>

definition idt_init :: "(nat \<Rightarrow> u64) \<Rightarrow> (nat \<Rightarrow> u64) \<Rightarrow> u64 \<Rightarrow> idt_entry64 list \<Rightarrow> idt_entry64 list" where
  "idt_init isr irq isr128 idt =
     (let idt = fill_loop (\<lambda>i. zero_gate) IDT_ENTRIES idt;
          idt = fold (\<lambda>n. GATE n (isr n)) [0..<32] idt;
          idt = fold (\<lambda>n. GATE (32 + n) (irq n)) [0..<16] idt
      in UGATE 128 isr128 idt)"

definition gate_base :: "idt_entry64 \<Rightarrow> u64" where
  "gate_base g = ucast (offset_low g) OR push_bit 16 (ucast (offset_mid g)) OR
     push_bit 32 (ucast (offset_high g))"

definition gate_present :: "idt_entry64 \<Rightarrow> bool" where
  "gate_present g \<longleftrightarrow> bit (flags g) 7"

definition gate_dpl :: "idt_entry64 \<Rightarrow> u8" where
  "gate_dpl g = drop_bit 5 (flags g) AND 3"

section \<open>Hardware interrupts\<close>

definition PIC1_COMMAND :: u16 where "PIC1_COMMAND = 0x20"
definition PIC1_DATA :: u16 where "PIC1_DATA = 0x21"
definition PIC2_COMMAND :: u16 where "PIC2_COMMAND = 0xA0"
definition PIC2_DATA :: u16 where "PIC2_DATA = 0xA1"

text \<open>A handler is what it does to the kernel; the ports are a log of output and a function for input.\<close>

record irq_state =
  irq_handlers :: "(kernel \<Rightarrow> kernel) option list"
  outb_log :: "(u16 \<times> u8) list"

definition outb :: "u16 \<Rightarrow> u8 \<Rightarrow> irq_state \<Rightarrow> irq_state" where
  "outb port val s = s\<lparr>outb_log := outb_log s @ [(port, val)]\<rparr>"

definition irq_remap :: "(u16 \<Rightarrow> u8) \<Rightarrow> irq_state \<Rightarrow> irq_state" where
  "irq_remap inb s =
     (let a1 = inb PIC1_DATA; a2 = inb PIC2_DATA;
          s = outb PIC1_COMMAND 0x11 s; s = outb PIC2_COMMAND 0x11 s;
          s = outb PIC1_DATA 0x20 s; s = outb PIC2_DATA 0x28 s;
          s = outb PIC1_DATA 0x04 s; s = outb PIC2_DATA 0x02 s;
          s = outb PIC1_DATA 0x01 s; s = outb PIC2_DATA 0x01 s;
          s = outb PIC1_DATA a1 s
      in outb PIC2_DATA a2 s)"

definition irq_ack :: "u8 \<Rightarrow> irq_state \<Rightarrow> irq_state" where
  "irq_ack irq s =
     (let s = (if irq \<ge> 8 then outb PIC2_COMMAND 0x20 s else s) in outb PIC1_COMMAND 0x20 s)"

definition irq_install_handler :: "u8 \<Rightarrow> (kernel \<Rightarrow> kernel) \<Rightarrow> irq_state \<Rightarrow> irq_state" where
  "irq_install_handler irq handler s =
     (if irq < 16 then s\<lparr>irq_handlers := (irq_handlers s)[unat irq := Some handler]\<rparr> else s)"

definition irq_uninstall_handler :: "u8 \<Rightarrow> irq_state \<Rightarrow> irq_state" where
  "irq_uninstall_handler irq s =
     (if irq < 16 then s\<lparr>irq_handlers := (irq_handlers s)[unat irq := None]\<rparr> else s)"

definition timer_handler :: "kernel \<Rightarrow> kernel" where
  "timer_handler k = time_tick k"

definition irq_handler_asm_shim :: "u64 \<Rightarrow> irq_state \<times> kernel \<Rightarrow> irq_state \<times> kernel" where
  "irq_handler_asm_shim vec = (\<lambda>(s, k).
     let irq = ucast (vec - 32) :: u8;
         k = (if irq < 16 then (case irq_handlers s ! unat irq of None \<Rightarrow> k | Some h \<Rightarrow> h k) else k)
     in (irq_ack irq s, k))"

definition irq_init_timer :: "irq_state \<Rightarrow> irq_state" where
  "irq_init_timer s = irq_install_handler 0 timer_handler s"

definition irq_boot :: irq_state where
  "irq_boot = \<lparr>irq_handlers = replicate 16 None, outb_log = []\<rparr>"

section \<open>Exceptions\<close>

definition exception_messages :: "string list" where
  "exception_messages = [''Division By Zero'', ''Debug'', ''Non Maskable Interrupt'', ''Breakpoint'',
     ''Into Detected Overflow'', ''Out of Bounds'', ''Invalid Opcode'', ''No Coprocessor'',
     ''Double Fault'', ''Coprocessor Segment Overrun'', ''Bad TSS'', ''Segment Not Present'',
     ''Stack Fault'', ''General Protection Fault'', ''Page Fault'', ''Unknown Interrupt'',
     ''Coprocessor Fault'', ''Alignment Check'', ''Machine Check'', ''SIMD Floating Point Exception'',
     ''Virtualization Exception'', ''Reserved'', ''Reserved'', ''Reserved'', ''Reserved'',
     ''Reserved'', ''Reserved'', ''Reserved'', ''Reserved'', ''Reserved'', ''Reserved'', ''Reserved'']"

definition print_text :: "string \<Rightarrow> u8 \<Rightarrow> vga \<Rightarrow> vga" where
  "print_text str = print (map of_char str @ [0])"

text \<open>The handler returns or halts the machine for good.\<close>

datatype isr_result = Returns vga | Halts vga

definition isr_handler :: "u64 \<Rightarrow> u64 \<Rightarrow> vga \<Rightarrow> isr_result" where
  "isr_handler int_no err_code v =
     (if int_no < 32 then
        (let v = print_text ''Exception: '' 0x4F v;
             v = print_text (exception_messages ! unat int_no) 0x4F v;
             v = print_text ''\<newline>'' 0x4F v
         in if int_no = 8 \<or> int_no = 13 \<or> int_no = 14
            then Halts (print_text ''System halted\<newline>'' 0x4F v) else Returns v)
      else Returns v)"

section \<open>Lemmas\<close>

definition gate :: "u64 \<Rightarrow> u8 \<Rightarrow> idt_entry64" where
  "gate base fl = \<lparr>offset_low = ucast (base AND 0xFFFF), selector = 0x08, ist = 0, flags = fl,
      offset_mid = ucast (drop_bit 16 base AND 0xFFFF),
      offset_high = ucast (drop_bit 32 base AND 0xFFFFFFFF), reserved = 0\<rparr>"

lemma low_bits: "(x :: u64) AND 0xFFFF = take_bit 16 x" "x AND 0xFFFFFFFF = take_bit 32 x"
  by (simp_all add: take_bit_eq_mask mask_eq_exp_minus_1)

lemma gate_base_gate: "gate_base (gate base fl) = base"
proof -
  have "ucast (ucast (take_bit 16 base) :: u16) OR
      push_bit 16 (ucast (ucast (take_bit 16 (drop_bit 16 base)) :: u16)) OR
      push_bit 32 (ucast (ucast (take_bit 32 (drop_bit 32 base)) :: u32)) = base"
  proof (rule bit_word_eqI)
    fix n assume n: "n < LENGTH(64)"
    consider "n < 16" | "16 \<le> n" "n < 32" | "32 \<le> n" by linarith
    then show "bit (ucast (ucast (take_bit 16 base) :: u16) OR
        push_bit 16 (ucast (ucast (take_bit 16 (drop_bit 16 base)) :: u16)) OR
        push_bit 32 (ucast (ucast (take_bit 32 (drop_bit 32 base)) :: u32) :: u64)) n = bit base n"
      using n by cases (auto simp: bit_simps dest: bit_imp_le_length)
  qed
  then show ?thesis by (simp add: gate_base_def gate_def low_bits)
qed

lemma length_GATE [simp]: "length (GATE n f l) = length l"
  by (simp add: GATE_def idt_set_gate64_def)

lemma GATE_nth: "n < length l \<Longrightarrow> GATE n f l ! j = (if j = n then gate f 0x8E else l ! j)"
  by (simp add: GATE_def idt_set_gate64_def gate_def nth_list_update)

lemma GATE_fold:
  "k + m \<le> length l \<Longrightarrow> length (fold (\<lambda>n. GATE (k + n) (f n)) [0..<m] l) = length l \<and>
   (\<forall>j. fold (\<lambda>n. GATE (k + n) (f n)) [0..<m] l ! j =
     (if k \<le> j \<and> j < k + m then gate (f (j - k)) 0x8E else l ! j))"
  by (induction m) (auto simp: GATE_nth)

lemma idt_init_gates:
  assumes "length idt = IDT_ENTRIES" and "n < IDT_ENTRIES"
  shows "idt_init isr irq isr128 idt ! n =
    (if n < 32 then gate (isr n) 0x8E else if n < 48 then gate (irq (n - 32)) 0x8E
     else if n = 128 then gate isr128 0xEE else zero_gate)"
proof -
  let ?z = "fill_loop (\<lambda>i. zero_gate) IDT_ENTRIES idt"
  have z: "length ?z = 256" "\<forall>n < 256. ?z ! n = zero_gate"
    using assms(1) by (simp_all add: IDT_ENTRIES_def fill_loop_eq)
  let ?i = "fold (\<lambda>n. GATE n (isr n)) [0..<32] ?z"
  have i: "length ?i = 256" "\<forall>j. ?i ! j = (if j < 32 then gate (isr j) 0x8E else ?z ! j)"
    using GATE_fold [of 0 32 ?z isr] z(1) by simp_all
  let ?q = "fold (\<lambda>n. GATE (32 + n) (irq n)) [0..<16] ?i"
  have q: "length ?q = 256" "\<forall>j. ?q ! j = (if 32 \<le> j \<and> j < 48 then gate (irq (j - 32)) 0x8E else ?i ! j)"
    using GATE_fold [of 32 16 ?i irq] i(1) by simp_all
  have "idt_init isr irq isr128 idt = ?q[128 := gate isr128 0xEE]"
    by (simp add: idt_init_def Let_def UGATE_def idt_set_gate64_def gate_def)
  with q i z assms(2) show ?thesis by (auto simp: nth_list_update IDT_ENTRIES_def)
qed

section \<open>Properties\<close>

text \<open>
  after \<open>idt_init\<close> the present gates are those of the 32 exceptions, the 16 hardware
  interrupts and the system call; each leads to its own stub, through the kernel's code segment;
  and only vector 0x80 can be called from user code.
\<close>

theorem idt_init_correct:
  assumes "length idt = IDT_ENTRIES" and "n < IDT_ENTRIES"
  shows "let g = idt_init isr irq isr128 idt ! n in
    (gate_present g \<longleftrightarrow> n < 48 \<or> n = 128) \<and> (gate_dpl g = 3 \<longleftrightarrow> n = 128) \<and>
    (gate_present g \<longrightarrow> selector g = 0x08 \<and>
      gate_base g = (if n < 32 then isr n else if n < 48 then irq (n - 32) else isr128))"
proof -
  have "gate_present (gate b 0x8E)" "gate_present (gate b 0xEE)" "\<not> gate_present zero_gate"
    "gate_dpl (gate b 0x8E) \<noteq> 3" "gate_dpl (gate b 0xEE) = 3" "gate_dpl zero_gate \<noteq> 3"
    "selector (gate b fl) = 0x08" for b fl
    by (simp_all add: gate_present_def gate_dpl_def gate_def zero_gate_def bit_numeral_rec)
  then show ?thesis using assms by (simp add: idt_init_gates Let_def gate_base_gate)
qed

theorem idt_init_correct_witness:
  "gate_base (idt_init (\<lambda>n. 0x100000 + of_nat n * 16) (\<lambda>n. 0x200000) 0x300000 (replicate 256 zero_gate) ! 128)
     = 0x300000 \<and>
   gate_dpl (idt_init (\<lambda>n. 0x100000 + of_nat n * 16) (\<lambda>n. 0x200000) 0x300000 (replicate 256 zero_gate) ! 13) \<noteq> 3"
proof -
  let ?z = "replicate 256 zero_gate"
  have len: "length ?z = IDT_ENTRIES" and n: "128 < IDT_ENTRIES" "13 < IDT_ENTRIES"
    by (simp_all add: IDT_ENTRIES_def)
  show ?thesis
    using idt_init_correct [OF len n(1), of "\<lambda>n. 0x100000 + of_nat n * 16" "\<lambda>n. 0x200000" "0x300000"]
      idt_init_correct [OF len n(2), of "\<lambda>n. 0x100000 + of_nat n * 16" "\<lambda>n. 0x200000" "0x300000"]
    by (simp add: Let_def)
qed

text \<open>
  with the handlers the kernel installs, the interrupt shim acknowledges every hardware
  interrupt, at the second controller first when it is one of its lines; line 0 advances the clock,
  and that is all: no interrupt is ever counted or noted, and no thread waiting for one is
  released, as nothing calls \<open>syscall_irq_notify\<close>.
\<close>

theorem irq_shim_effect:
  assumes "32 \<le> vec" and "vec < 48"
  shows "irq_handler_asm_shim vec (irq_init_timer irq_boot, k) =
    (irq_init_timer irq_boot\<lparr>outb_log :=
       (if 40 \<le> vec then [(PIC2_COMMAND, 0x20)] else []) @ [(PIC1_COMMAND, 0x20)]\<rparr>,
     if vec = 32 then k\<lparr>system_ticks := system_ticks k + 1\<rparr> else k)"
proof -
  let ?irq = "ucast (vec - 32) :: u8"
  have v: "unat (vec - 32) = unat vec - 32" using assms(1) by (simp add: unat_sub)
  have lt: "32 \<le> unat vec" "unat vec < 48" using assms by (simp_all add: word_le_nat_alt word_less_nat_alt)
  have irq: "unat ?irq = unat vec - 32" using lt v by (simp add: unsigned_ucast_eq take_bit_eq_mod)
  have c: "?irq < 16" using irq lt by (simp add: word_less_nat_alt)
  have "8 \<le> ?irq \<longleftrightarrow> 8 \<le> unat vec - 32" using irq by (simp add: word_le_nat_alt)
  then have c8: "8 \<le> ?irq \<longleftrightarrow> 40 \<le> vec" using lt by (auto simp: word_le_nat_alt)
  have z: "unat ?irq = 0 \<longleftrightarrow> vec = 32" using irq lt by (auto simp: word_unat_eq_iff)
  have h: "irq_handlers (irq_init_timer irq_boot) ! unat ?irq = (if vec = 32 then Some timer_handler else None)"
    using z irq lt by (simp add: irq_init_timer_def irq_install_handler_def irq_boot_def nth_list_update)
  have log: "outb_log (irq_init_timer irq_boot) = []"
    by (simp add: irq_init_timer_def irq_install_handler_def irq_boot_def)
  show ?thesis using c c8 h log
    by (simp add: irq_handler_asm_shim_def Let_def irq_ack_def outb_def timer_handler_def time_tick_def)
qed

theorem irq_shim_effect_witness:
  "irq_occurred (snd (irq_handler_asm_shim 33 (irq_init_timer irq_boot, demo_kernel))) ! 1 = 0"
  using irq_shim_effect [of 33 demo_kernel] by simp

section \<open>Descriptors\<close>

lemma descriptor_fields:
  fixes base limit :: u32 and acc gran :: u8 and s :: gdt_state and i :: nat
  assumes "i < length (gdt s)"
  defines "e \<equiv> gdt (gdt_set i base limit acc gran s) ! i"
  shows "desc_base e = base" and "access e = acc"
proof -
  have m: "(x :: u32) AND 0xFFFF = take_bit 16 x" "x AND 0xFF = take_bit 8 x" for x
    by (simp_all add: take_bit_eq_mask mask_eq_exp_minus_1)
  have e: "e = \<lparr>limit_low = ucast (limit AND 0xFFFF), base_low = ucast (base AND 0xFFFF),
      base_middle = ucast (drop_bit 16 base AND 0xFF), access = acc,
      granularity = (ucast (drop_bit 16 limit) AND 0x0F) OR (gran AND 0xF0),
      base_high = ucast (drop_bit 24 base AND 0xFF)\<rparr>"
    using assms(1) by (simp add: e_def gdt_set_def)
  show "access e = acc" by (simp add: e)
  have "ucast (ucast (take_bit 16 base) :: u16) OR push_bit 16 (ucast (ucast (take_bit 8 (drop_bit 16 base)) :: u8))
      OR push_bit 24 (ucast (ucast (take_bit 8 (drop_bit 24 base)) :: u8)) = base"
  proof (rule bit_word_eqI)
    fix n assume n: "n < LENGTH(32)"
    consider "n < 16" | "16 \<le> n" "n < 24" | "24 \<le> n" by linarith
    then show "bit (ucast (ucast (take_bit 16 base) :: u16) OR
        push_bit 16 (ucast (ucast (take_bit 8 (drop_bit 16 base)) :: u8)) OR
        push_bit 24 (ucast (ucast (take_bit 8 (drop_bit 24 base)) :: u8) :: u32)) n = bit base n"
      using n by cases (auto simp: bit_simps dest: bit_imp_le_length)
  qed
  then show "desc_base e = base" by (simp add: desc_base_def e m)
qed

end
