(* ===== verification/Kernel_Main.thy ===== *)
theory Kernel_Main
  imports Kernel_Init Kernel_Arch
begin

text \<open>
  The kernel's entry point and main loop, kernel/src/kernel/main.c, and what the kernel as a whole
  keeps: every state reached from boot by main-loop turns, system calls, interrupts, page releases
  and thread creations is well formed. The firmware's console output is left out.
\<close>

section \<open>Start\<close>

record machine =
  kern :: kernel
  check_counter :: u32

definition kernel_start :: "u32 \<Rightarrow> kernel \<Rightarrow> int \<times> kernel" where
  "kernel_start init_service_entry k =
     (let k = k\<lparr>mm := mm_enable_paging (mm k)\<rparr>;
          k = syscall_irq_init k
      in case sched_create_thread init_service_entry (sched k, mm k) of
           (init_tid, s, m) \<Rightarrow> (init_tid, k\<lparr>sched := s, mm := m\<rparr>))"

section \<open>The main loop\<close>

text \<open>The loop receives a message and sends it again, to the target it already has.\<close>

definition forward_message :: "kernel \<Rightarrow> kernel" where
  "forward_message k =
     (case ipc_receive_msg 0 (ipc k) of
        (rc, msg, q) \<Rightarrow>
          (case msg of
             Some m \<Rightarrow> if rc = ECLIB_OK then k\<lparr>ipc := snd (ipc_send (m_target m) m q)\<rparr> else k\<lparr>ipc := q\<rparr>
           | None \<Rightarrow> k\<lparr>ipc := q\<rparr>))"

definition count_used :: "u8 list \<Rightarrow> nat" where
  "count_used bm = fold (\<lambda>i n. if bm_test bm i then n + 1 else n) [0..<MAX_PAGES] 0"

definition check_memory :: "machine \<Rightarrow> machine" where
  "check_memory m =
     (let m = m\<lparr>check_counter := check_counter m + 1\<rparr> in
      if check_counter m mod 100 = 0
      then (if count_used (page_bitmap (mm (kern m))) > MAX_PAGES * 80 div 100
            then m\<lparr>kern := (kern m)\<lparr>mm := (mm (kern m))\<lparr>next_free_page := 0\<rparr>\<rparr>\<rparr> else m)
      else m)"

definition main_loop_turn :: "machine \<Rightarrow> machine" where
  "main_loop_turn m =
     (let k = (kern m)\<lparr>sched := sched_schedule (sched (kern m))\<rparr>;
          k = forward_message k;
          k = syscall_irq_check_timeouts k
      in check_memory (m\<lparr>kern := k\<rparr>))"

section \<open>Everything the kernel does\<close>

inductive kstep :: "machine \<Rightarrow> machine \<Rightarrow> bool" where
  turn_step: "kstep m (main_loop_turn m)"
| event_step: "kstep m (m\<lparr>kern := run_event e (kern m)\<rparr>)"
| interrupt_step: "kstep m (m\<lparr>kern := snd (irq_handler_asm_shim vec (irq_init_timer irq_boot, kern m))\<rparr>)"
| syscall_step: "syscall_handler tr n a b c (kern m) = Some (rc, k') \<Longrightarrow> kstep m (m\<lparr>kern := k'\<rparr>)"
| init_step: "kstep m (m\<lparr>kern := snd (init_step (tab, kern m))\<rparr>)"
| create_step: "sched_create_thread f (sched (kern m), mm (kern m)) = (rc, s, p) \<Longrightarrow>
    kstep m (m\<lparr>kern := (kern m)\<lparr>sched := s, mm := p\<rparr>\<rparr>)"
| free_step: "kstep m (m\<lparr>kern := (kern m)\<lparr>mm := mm_free_page a (mm (kern m))\<rparr>\<rparr>)"

inductive reachable :: "machine \<Rightarrow> bool" where
  start: "kernel_start f (kernel_boot (mm_boot mem c0 c3)) = (rc, k) \<Longrightarrow>
    reachable \<lparr>kern = k, check_counter = 0\<rparr>"
| further: "reachable m \<Longrightarrow> kstep m m' \<Longrightarrow> reachable m'"

inductive_cases kstepE: "kstep m m'"

section \<open>Invariants\<close>

lemma mm_wf_free: "mm_wf s \<Longrightarrow> mm_wf (mm_free_page a s)"
proof -
  assume wf: "mm_wf s"
  let ?h = "(ucast a - MEMORY_START) div PAGE_SIZE"
  show ?thesis
  proof (cases "ucast a < MEMORY_START \<or> unat ?h \<ge> MAX_PAGES")
    case True
    with wf show ?thesis by (auto simp: mm_free_page_def Let_def)
  next
    case False
    then have "unat ?h div 8 < length (page_bitmap s)"
      using wf page_div_8 [of "unat ?h"] by (simp add: mm_wf_def not_le)
    with False wf show ?thesis
      by (auto simp: mm_free_page_def Let_def mm_wf_def bm_test_clear word_less_nat_alt not_less)
  qed
qed

lemma mm_wf_enable: "mm_wf s \<Longrightarrow> mm_wf (mm_enable_paging s)"
proof -
  assume "mm_wf s"
  obtain p s' where g: "mm_get_page_directory s = (p, s')" by fastforce
  with mm_wf_get_page_directory [OF \<open>mm_wf s\<close>] have "mm_wf s'" by simp
  with g show ?thesis by (simp add: mm_enable_paging_def mm_wf_def)
qed

lemma mm_wf_create:
  "mm_wf p \<Longrightarrow> sched_create_thread f (s, p) = (rc, s', p') \<Longrightarrow> mm_wf p'"
  using mm_wf_alloc [of p]
  by (auto simp: sched_create_thread_def Let_def split: option.splits prod.splits if_splits)

lemma kernel_ok_mm: "kernel_ok k \<Longrightarrow> mm_wf p \<Longrightarrow> kernel_ok (k\<lparr>mm := p\<rparr>)"
  by (simp add: kernel_ok_def waiters_ok_def)

lemma kernel_ok_ipc: "kernel_ok k \<Longrightarrow> ipc_wf q \<Longrightarrow> kernel_ok (k\<lparr>ipc := q\<rparr>)"
  by (simp add: kernel_ok_def waiters_ok_def)

lemma kernel_ok_create:
  assumes "kernel_ok k" "sched_create_thread f (sched k, mm k) = (rc, s, p)"
  shows "kernel_ok (k\<lparr>sched := s, mm := p\<rparr>)"
  using kernel_ok_mm [OF kernel_ok_sched [OF assms(1)], of s p]
    mm_wf_create [OF kernel_okD(3) [OF assms(1)] assms(2)]
    sched_ok_create [OF kernel_okD(1) [OF assms(1)], of f "mm k"] assms(2) by simp

lemma kernel_ok_forward: "kernel_ok k \<Longrightarrow> kernel_ok (forward_message k)"
proof -
  assume ok: "kernel_ok k"
  obtain rc msg q where r: "ipc_receive (ipc k) = (rc, msg, q)" by (cases "ipc_receive (ipc k)")
  with ipc_wf_receive [OF kernel_okD(4) [OF ok]] have "ipc_wf q" by simp
  with r ok show ?thesis
    by (simp add: forward_message_def ipc_receive_msg_def kernel_ok_ipc ipc_wf_send split: option.split)
qed

lemma kernel_ok_turn: "kernel_ok (kern m) \<Longrightarrow> kernel_ok (kern (main_loop_turn m))"
proof -
  assume ok: "kernel_ok (kern m)"
  let ?k = "syscall_irq_check_timeouts (forward_message
    ((kern m)\<lparr>sched := sched_schedule (sched (kern m))\<rparr>))"
  have k: "kernel_ok ?k" using ok
    by (intro kernel_ok_timeouts kernel_ok_forward kernel_ok_sched sched_ok_schedule) (simp_all add: kernel_okD)
  moreover have "kernel_ok (?k\<lparr>mm := (mm ?k)\<lparr>next_free_page := 0\<rparr>\<rparr>)"
    using k kernel_okD(3) [OF k] by (intro kernel_ok_mm) (simp_all add: mm_wf_def)
  ultimately show ?thesis by (simp add: main_loop_turn_def check_memory_def Let_def)
qed

lemma kernel_ok_start: "kernel_start f (kernel_boot (mm_boot mem c0 c3)) = (rc, k) \<Longrightarrow> kernel_ok k"
proof -
  assume run: "kernel_start f (kernel_boot (mm_boot mem c0 c3)) = (rc, k)"
  let ?k = "syscall_irq_init ((kernel_boot (mm_boot mem c0 c3))\<lparr>mm := mm_enable_paging (mm_boot mem c0 c3)\<rparr>)"
  have "kernel_ok ?k"
    by (simp add: kernel_ok_def syscall_irq_init_def kernel_boot_def mm_wf_enable waiters_ok_def
        zero_waiter_def MAX_IRQ_WAITERS_def MAX_IRQS_def)
  from kernel_ok_create [OF this] run show ?thesis
    by (auto simp: kernel_start_def Let_def kernel_boot_def split: prod.splits)
qed

lemma kernel_ok_init_step: "kernel_ok k \<Longrightarrow> kernel_ok (snd (init_step (tab, k)))"
proof -
  assume ok: "kernel_ok k"
  obtain rc msg q where r: "ipc_receive (ipc k) = (rc, msg, q)" by (cases "ipc_receive (ipc k)")
  with ipc_wf_receive [OF kernel_okD(4) [OF ok]] have "ipc_wf q" by simp
  with r ok show ?thesis
    by (auto simp: init_step_def kernel_ok_ipc kernel_ok_yield ipc_wf_send Let_def split: option.split)
qed

lemma kernel_ok_shim:
  "kernel_ok k \<Longrightarrow> kernel_ok (snd (irq_handler_asm_shim vec (irq_init_timer irq_boot, k)))"
  using kernel_ok_event [of k Tick]
  by (auto simp: irq_handler_asm_shim_def Let_def irq_init_timer_def irq_install_handler_def
      irq_boot_def timer_handler_def nth_list_update word_less_nat_alt split: option.split if_splits)

lemma kernel_ok_kstep: "kstep m m' \<Longrightarrow> kernel_ok (kern m) \<Longrightarrow> kernel_ok (kern m')"
  by (induction rule: kstep.induct)
    (auto simp: kernel_ok_turn kernel_ok_event kernel_ok_shim kernel_ok_init_step kernel_ok_create
      kernel_ok_mm mm_wf_free kernel_okD intro: kernel_ok_syscall)

section \<open>Properties\<close>



text \<open>
  every turn of the main loop moves the oldest pending message behind all others: the turn
  loses no message, but with two or more pending the messages are no longer delivered in the order
  in which they were sent.
\<close>

theorem main_loop_rotates_queue:
  assumes "kernel_ok (kern m)"
  shows "pending (ipc (kern (main_loop_turn m))) = rotate1 (pending (ipc (kern m)))"
proof -
  let ?k = "(kern m)\<lparr>sched := sched_schedule (sched (kern m))\<rparr>"
  have wf: "ipc_wf (ipc ?k)" using assms by (simp add: kernel_okD)
  have ok: "kernel_ok (forward_message ?k)"
    using assms by (intro kernel_ok_forward kernel_ok_sched sched_ok_schedule) (simp_all add: kernel_okD)
  have "pending (ipc (kern (main_loop_turn m))) = pending (ipc (forward_message ?k))"
    using fire_fold(6) [OF kernel_okD(6,7,8) [OF ok] timed_out_simps(1,2)]
    by (simp add: main_loop_turn_def check_memory_def Let_def syscall_irq_check_timeouts_def
        expire_waiter_fire)
  also have "\<dots> = rotate1 (pending (ipc ?k))"
  proof (cases "pending (ipc ?k)")
    case Nil
    then show ?thesis using ipc_receive_empty [OF wf]
      by (simp add: forward_message_def ipc_receive_msg_def)
  next
    case (Cons msg ms)
    from ipc_receive_head [OF wf Cons] obtain q where
      q: "ipc_receive (ipc ?k) = (ECLIB_OK, Some msg, q)" "ipc_wf q" "pending q = ms" by blast
    have "ipc_count (ipc ?k) = Suc (ipc_count q)" using Cons q(3) by (metis length_Cons length_pending)
    then have "ipc_count q < ipc_capacity" using ipc_count_bound [of "ipc ?k"] by simp
    from ipc_send_room [OF q(2) this, of "m_target msg" msg] q Cons show ?thesis
      by (auto simp: forward_message_def ipc_receive_msg_def)
  qed
  finally show ?thesis by simp
qed

theorem main_loop_rotates_queue_witness:
  "pending (ipc (kern (main_loop_turn \<lparr>kern = demo_kernel, check_counter = 99\<rparr>))) = []"
  using main_loop_rotates_queue [of "\<lparr>kern = demo_kernel, check_counter = 99\<rparr>"] demo_kernel_ok
  by (simp add: demo_kernel_def kernel_boot_def)

end
