(* ===== verification/Bytes.thy ===== *)
theory Bytes
  imports Prelude
begin

text \<open>
  Bytes in memory, as several programs of E-comOS use them: fresh memory, the fields of structures,
  copies into and out of buffers; and the CRC-32 that the file systems compute bit by bit
  (fs/src/efs/efs_core.c, fs/src/nefs/nefs_file.c). A bit of the CRC loses nothing, so that a
  change of one byte always changes the checksum.
\<close>

section \<open>Memory and structures\<close>

text \<open>Fresh memory, the bytes of a field of a structure, and copies into and out of a buffer.\<close>

definition malloc :: "(nat \<Rightarrow> u8) \<Rightarrow> nat \<Rightarrow> u8 list" where
  "malloc heap n = map heap [0..<n]"

definition field :: "nat \<Rightarrow> nat \<Rightarrow> u8 list \<Rightarrow> nat" where
  "field off k bs = le_dec (take k (drop off bs))"

definition overwrite :: "u8 list \<Rightarrow> nat \<Rightarrow> u8 list \<Rightarrow> u8 list" where
  "overwrite buf off chunk = take off buf @ chunk @ drop (off + length chunk) buf"

text \<open>\<open>n\<close> bytes from a pointer; a buffer of a whole block has them.\<close>

definition bytes_at :: "nat \<Rightarrow> u8 list \<Rightarrow> u8 list" where
  "bytes_at n p = take n (p @ replicate n 0)"

lemma length_bytes_at [simp]: "length (bytes_at n p) = n"
  by (simp add: bytes_at_def)

lemma field_skip [simp]: "length xs = n \<Longrightarrow> n \<le> off \<Longrightarrow> field off k (xs @ ys) = field (off - n) k ys"
  by (simp add: field_def)

lemma field_here [simp]: "field 0 k (le_enc k n @ ys) = n mod 256 ^ k" "field 0 k (le_enc k n) = n mod 256 ^ k"
  by (simp_all add: field_def le_dec_enc)

lemma length_concat_enc: "length (concat (map (\<lambda>b. le_enc 8 (unat b)) bs)) = 8 * length (bs :: u64 list)"
  by (induction bs) simp_all

lemma field_concat:
  "k < length bs \<Longrightarrow> field (8 * k) 8 (concat (map (\<lambda>b. le_enc 8 (unat b)) bs) @ ys) = unat (bs ! k :: u64)"
proof (induction bs arbitrary: k)
  case (Cons b bs)
  show ?case
  proof (cases k)
    case 0
    then show ?thesis using unsigned_less [where 'a = nat, of b] by simp
  next
    case (Suc j)
    with Cons have "field (8 * j) 8 (concat (map (\<lambda>b. le_enc 8 (unat b)) bs) @ ys) = unat (bs ! j)" by simp
    with Suc show ?thesis by simp
  qed
qed simp

lemma mod_word: "unat (w :: u32) mod 256 ^ 4 = unat w" "unat (v :: u64) mod 256 ^ 8 = unat v"
  using unsigned_less [where 'a = nat, of w] unsigned_less [where 'a = nat, of v] by simp_all

lemma length_overwrite [simp]: "off + length chunk \<le> length buf \<Longrightarrow> length (overwrite buf off chunk) = length buf"
  by (simp add: overwrite_def)

lemma overwrite_nth:
  "off + length chunk \<le> length buf \<Longrightarrow> j < length buf \<Longrightarrow>
   overwrite buf off chunk ! j = (if off \<le> j \<and> j < off + length chunk then chunk ! (j - off) else buf ! j)"
  by (auto simp: overwrite_def nth_append min_def)

text \<open>Writing into a part of a buffer, and over zeros.\<close>

lemma overwrite_skip: "length xs \<le> off \<Longrightarrow> overwrite (xs @ ys) off zs = xs @ overwrite ys (off - length xs) zs"
  by (simp add: overwrite_def)

lemma overwrite_Cons: "0 < off \<Longrightarrow> overwrite (b # ys) off zs = b # overwrite ys (off - 1) zs"
  using overwrite_skip [of "[b]"] by (simp add: Suc_le_eq)

lemma overwrite_zeros:
  assumes "off + length zs \<le> n"
  shows "overwrite (replicate n 0 @ ys) off zs = replicate off 0 @ zs @ replicate (n - off - length zs) 0 @ ys"
    and "overwrite (replicate n 0) off zs = replicate off 0 @ zs @ replicate (n - off - length zs) 0"
  using assms by (simp_all add: overwrite_def)

lemma overwrite_here: "length zs = length xs \<Longrightarrow> overwrite (xs @ ys) 0 zs = zs @ ys"
  by (simp add: overwrite_def)

lemma length_malloc [simp]: "length (malloc heap n) = n"
  by (simp add: malloc_def)

lemma le_dec_zero [simp]: "le_dec (replicate n 0) = 0"
  by (induction n) simp_all

lemma field_zero: "off + k \<le> n \<Longrightarrow> field off k (replicate n 0) = 0"
  by (simp add: field_def)

lemma malloc_zero: "malloc (\<lambda>_. 0) n = replicate n 0"
  by (simp add: malloc_def map_replicate_const)

section \<open>The checksum\<close>

definition crc_bit :: "u32 \<Rightarrow> u32" where
  "crc_bit crc = drop_bit 1 crc XOR (0xEDB88320 AND - (crc AND 1))"

definition crc_byte :: "u32 \<Rightarrow> u8 \<Rightarrow> u32" where
  "crc_byte crc b = (crc_bit ^^ 8) (crc XOR ucast b)"

definition crc32 :: "u8 list \<Rightarrow> u32" where
  "crc32 data = NOT (foldl crc_byte 0xFFFFFFFF data)"

lemma xor_cancel:
  fixes a b c :: "'a :: len word"
  shows "a XOR b = a XOR c \<longleftrightarrow> b = c" "b XOR a = c XOR a \<longleftrightarrow> b = c"
proof -
  have "b = c" if "a XOR b = a XOR c" for b c :: "'a word"
  proof -
    from that have "a XOR (a XOR b) = a XOR (a XOR c)" by simp
    then show ?thesis by (simp add: xor.assoc [symmetric])
  qed
  then show "a XOR b = a XOR c \<longleftrightarrow> b = c" "b XOR a = c XOR a \<longleftrightarrow> b = c" by (auto simp: xor.commute)
qed

lemma crc_bit_alt: "crc_bit x = drop_bit 1 x XOR (if bit x 0 then 0xEDB88320 else 0)"
proof (cases "bit x 0")
  case True
  then have "x AND 1 = 1" by (simp add: and_one_eq odd_iff_mod_2_eq_one bit_0)
  with True show ?thesis by (simp add: crc_bit_def)
next
  case False
  then have "x AND 1 = 0" by (simp add: and_one_eq bit_0 even_iff_mod_2_eq_zero)
  with False show ?thesis by (simp add: crc_bit_def)
qed

lemma crc_bit_xor: "crc_bit (x XOR y) = crc_bit x XOR crc_bit y"
  by (auto simp: crc_bit_alt bit_xor_iff drop_bit_xor xor.assoc xor.left_commute xor.commute)

lemma crc_bits_xor: "(crc_bit ^^ n) (x XOR y) = (crc_bit ^^ n) x XOR (crc_bit ^^ n) y"
  by (induction n) (simp_all add: crc_bit_xor)

lemma crc_bit_31: "bit (crc_bit x) 31 = bit x 0"
  by (auto simp: crc_bit_alt bit_xor_iff bit_drop_bit_eq dest: bit_imp_le_length)

lemma inj_crc_bit: "inj crc_bit"
proof (rule injI)
  fix x y assume eq: "crc_bit x = crc_bit y"
  then have low: "bit x 0 = bit y 0" using crc_bit_31 by metis
  with eq have high: "drop_bit 1 x = drop_bit 1 y" by (auto simp: crc_bit_alt xor_cancel split: if_splits)
  show "x = y"
  proof (rule bit_word_eqI)
    fix n
    show "bit x n = bit y n"
    proof (cases n)
      case (Suc m)
      with arg_cong [OF high, of "\<lambda>w. bit w m"] show ?thesis by (simp add: bit_drop_bit_eq)
    qed (simp add: low)
  qed
qed

lemma inj_crc_byte: "crc_byte x b = crc_byte y c \<longleftrightarrow> x XOR ucast b = y XOR ucast c"
  unfolding crc_byte_def using inj_fn [OF inj_crc_bit, of 8] by (auto simp: inj_def)

lemma crc_byte_eqD: "crc_byte x b = crc_byte y b \<Longrightarrow> x = y"
  by (simp add: inj_crc_byte xor_cancel)

lemma crc_fold_inj: "foldl crc_byte x bs = foldl crc_byte y bs \<Longrightarrow> x = y"
  by (induction bs arbitrary: x y) (auto dest: crc_byte_eqD)

lemma ucast_u8_inj: "(ucast b :: u32) = ucast c \<Longrightarrow> b = (c :: u8)"
proof (rule bit_word_eqI)
  fix n assume eq: "(ucast b :: u32) = ucast c" and n: "n < LENGTH(8)"
  from arg_cong [OF eq, of "\<lambda>w. bit w n"] n show "bit b n = bit c n" by (simp add: bit_ucast_iff)
qed

lemma crc32_one_byte:
  assumes "crc32 (xs @ b # ys) = crc32 (xs @ c # ys)"
  shows "b = c"
proof -
  have "foldl crc_byte (crc_byte (foldl crc_byte 0xFFFFFFFF xs) b) ys =
      foldl crc_byte (crc_byte (foldl crc_byte 0xFFFFFFFF xs) c) ys"
    using assms by (simp add: crc32_def)
  then have "crc_byte (foldl crc_byte 0xFFFFFFFF xs) b = crc_byte (foldl crc_byte 0xFFFFFFFF xs) c"
    by (rule crc_fold_inj)
  then have "(ucast b :: u32) = ucast c" by (simp only: inj_crc_byte xor_cancel)
  then show ?thesis by (rule ucast_u8_inj)
qed

end
