(* ===== verification/Fs_Common.thy ===== *)
theory Fs_Common
  imports Interfaces Bytes
begin

text \<open>
  What the file systems share: fs/src/common/block_device.c, a block device kept in a host file, and
  fs/src/common/path.c, the splitting of paths. The host file is its bytes; a write beyond its end extends it with zero bytes, and
  the host reports no errors of its own.

  A transfer moves whole blocks, whatever the size of the object at the caller's pointer. The
  callers with buffers of a block's size use \<open>file_read_block\<close>; for a read into a smaller object
  \<open>read_struct\<close> has no result when more bytes arrive than the object holds, as C then leaves
  everything undefined. For a write from a smaller object the bytes beyond it are a parameter.
\<close>

section \<open>Block devices\<close>

definition FS_MAX_PATH_LEN :: nat where "FS_MAX_PATH_LEN = 1000"

record bdev =
  bd_file :: "u8 list"
  block_size :: nat
  total_blocks :: u64

definition block_device_open :: "u8 list \<Rightarrow> nat \<Rightarrow> bdev" where
  "block_device_open content bs =
     \<lparr>bd_file = content, block_size = bs, total_blocks = of_nat (length content div bs)\<rparr>"

text \<open>The offset is computed in 64 bits and handed on as a signed \<open>off_t\<close>; \<open>lseek\<close> refuses a negative one.\<close>

definition bd_offset :: "u64 \<Rightarrow> bdev \<Rightarrow> u64" where
  "bd_offset b d = b * of_nat (block_size d)"

definition file_read_block :: "u64 \<Rightarrow> u8 list \<Rightarrow> bdev \<Rightarrow> int \<times> u8 list" where
  "file_read_block b buf d =
     (let off = bd_offset b d in
      if sint off < 0 then (-1, buf)
      else (let got = take (block_size d) (drop (unat off) (bd_file d))
            in (if length got = block_size d then 0 else -1, got @ drop (length got) buf)))"

definition pwrite :: "nat \<Rightarrow> u8 list \<Rightarrow> u8 list \<Rightarrow> u8 list" where
  "pwrite off data f = take off f @ replicate (off - length f) 0 @ data @ drop (off + length data) f"

definition file_write_block :: "u64 \<Rightarrow> u8 list \<Rightarrow> bdev \<Rightarrow> int \<times> bdev" where
  "file_write_block b buf d =
     (let off = bd_offset b d in
      if sint off < 0 then (-1, d)
      else (0, d\<lparr>bd_file := pwrite (unat off) (take (block_size d) buf) (bd_file d)\<rparr>))"

definition read_struct :: "nat \<Rightarrow> u64 \<Rightarrow> u8 list \<Rightarrow> bdev \<Rightarrow> (int \<times> u8 list) option" where
  "read_struct n b obj d =
     (case file_read_block b obj d of (rc, obj') \<Rightarrow>
        if length obj' > n then None else Some (rc, obj'))"

section \<open>Paths\<close>

text \<open>\<open>strtok(temp, ">")\<close> called until it gives no more: the maximal pieces without the separator.\<close>

fun path_tokens :: "char \<Rightarrow> string \<Rightarrow> string \<Rightarrow> string list" where
  "path_tokens sep cur [] = (if cur = [] then [] else [cur])"
| "path_tokens sep cur (c # cs) =
     (if c = sep then (if cur = [] then path_tokens sep [] cs else cur # path_tokens sep [] cs)
      else path_tokens sep (cur @ [c]) cs)"

definition split_path :: "string \<Rightarrow> string list option" where
  "split_path path =
     (let len = length path in
      if len > FS_MAX_PATH_LEN then None
      else (let count = length (filter (\<lambda>c. c = CHR ''>'') path) + 1
            in Some (take count (path_tokens (CHR ''>'') [] path))))"

lemma path_tokens_sound:
  "CHR ''>'' \<notin> set cur \<Longrightarrow> t \<in> set (path_tokens (CHR ''>'') cur cs) \<Longrightarrow> t \<noteq> [] \<and> CHR ''>'' \<notin> set t"
  by (induction cs arbitrary: cur) (fastforce split: if_splits)+

lemma length_path_tokens:
  "length (path_tokens s cur cs) \<le> length (filter (\<lambda>c. c = s) cs) + (if cur = [] \<and> cs = [] then 0 else 1)"
proof (induction cs arbitrary: cur)
  case (Cons c cs)
  from Cons.IH [of "[]"] Cons.IH [of "cur @ [c]"] show ?case by (auto split: if_splits)
qed simp

lemma split_path_all: "length path \<le> FS_MAX_PATH_LEN \<Longrightarrow> split_path path = Some (path_tokens (CHR ''>'') [] path)"
  using length_path_tokens [of "CHR ''>''" "[]" path] by (auto simp: split_path_def Let_def split: if_splits)

section \<open>Contents of a device\<close>

definition file_byte :: "u8 list \<Rightarrow> nat \<Rightarrow> u8" where
  "file_byte f i = (if i < length f then f ! i else 0)"

lemma length_pwrite [simp]: "length (pwrite off data f) = max (length f) (off + length data)"
  by (simp add: pwrite_def)

lemma file_byte_pwrite:
  "file_byte (pwrite off data f) i =
    (if off \<le> i \<and> i < off + length data then data ! (i - off) else file_byte f i)"
  by (auto simp: file_byte_def pwrite_def nth_append min_def)

text \<open>The content of a block, and the blocks whose offset is a proper \<open>off_t\<close>.\<close>

definition blk :: "u64 \<Rightarrow> bdev \<Rightarrow> u8 list" where
  "blk b d = map (\<lambda>i. file_byte (bd_file d) (unat b * block_size d + i)) [0..<block_size d]"

definition bd_valid :: "bdev \<Rightarrow> u64 \<Rightarrow> bool" where
  "bd_valid d b \<longleftrightarrow> unat b * block_size d + block_size d < 2 ^ 63"

definition bd_present :: "bdev \<Rightarrow> u64 \<Rightarrow> bool" where
  "bd_present d b \<longleftrightarrow> unat b * block_size d + block_size d \<le> length (bd_file d)"

definition bd_write :: "u64 \<Rightarrow> u8 list \<Rightarrow> bdev \<Rightarrow> bdev" where
  "bd_write b buf d = snd (file_write_block b buf d)"

lemma length_blk [simp]: "length (blk b d) = block_size d"
  by (simp add: blk_def)

lemma bd_offset_valid:
  assumes "bd_valid d b"
  shows "unat (bd_offset b d) = unat b * block_size d" "\<not> sint (bd_offset b d) < 0"
proof -
  have lt: "unat b * block_size d < 2 ^ 63" using assms by (simp add: bd_valid_def)
  have bs: "block_size d < 2 ^ 64" using assms by (simp add: bd_valid_def)
  then have "unat (of_nat (block_size d) :: u64) = block_size d" by (intro unat_of_nat_small) simp
  then show u: "unat (bd_offset b d) = unat b * block_size d"
    using lt by (simp add: bd_offset_def unat_word_ariths)
  have "uint (bd_offset b d) = int (unat (bd_offset b d))" by simp
  also have "\<dots> < 2 ^ 63" unfolding u using lt by (simp del: of_nat_mult)
  finally have "uint (bd_offset b d) < 2 ^ 63" .
  moreover have "- (2 ^ 63) \<le> uint (bd_offset b d)"
    by (rule order_trans [of _ 0]) simp_all
  ultimately have "sint (bd_offset b d) = uint (bd_offset b d)"
    using signed_take_bit_int_eq_self [of 63 "uint (bd_offset b d)"] by (simp add: sint_uint)
  then show "\<not> sint (bd_offset b d) < 0" by simp
qed

lemma bd_write_file:
  assumes "bd_valid d b" "length buf = block_size d"
  shows "bd_write b buf d = d\<lparr>bd_file := pwrite (unat b * block_size d) buf (bd_file d)\<rparr>"
    and "fst (file_write_block b buf d) = 0"
  using assms bd_offset_valid [OF assms(1)] by (simp_all add: bd_write_def file_write_block_def Let_def)

lemma blk_separate:
  fixes b c :: u64
  assumes "b \<noteq> c" "i < n"
  shows "\<not> (unat b * n \<le> unat c * n + i \<and> unat c * n + i < unat b * n + n)"
proof (cases "unat b < unat c")
  case True
  then have "unat b * n + n \<le> unat c * n"
    by (metis Suc_leI mult_Suc mult_le_mono1 add.commute)
  then show ?thesis by simp
next
  case False
  with assms(1) have "unat c < unat b" by (metis linorder_neqE_nat unsigned_word_eqI)
  then have "unat c * n + n \<le> unat b * n"
    by (metis Suc_leI mult_Suc mult_le_mono1 add.commute)
  with assms(2) show ?thesis by simp
qed

interpretation dev: block_store bd_write blk bd_valid block_size
proof unfold_locales
  fix d b and buf :: "u8 list"
  assume v: "bd_valid d b" "length buf = block_size d"
  note w = bd_write_file(1) [OF v]
  show "blk b (bd_write b buf d) = buf"
    using v by (auto simp: w blk_def file_byte_pwrite intro!: nth_equalityI)
  show "blk c (bd_write b buf d) = blk c d" if "c \<noteq> b" for c
    using v blk_separate [OF that [symmetric]] by (auto simp: w blk_def file_byte_pwrite)
  show "block_size (bd_write b buf d) = block_size d" by (simp add: w)
  show "bd_valid (bd_write b buf d) = bd_valid d" by (simp add: w bd_valid_def fun_eq_iff)
qed

text \<open>A block that lies in the file is read whole; a written block does from then on.\<close>

lemma read_present:
  assumes "bd_valid d b" "bd_present d b" "length buf = block_size d"
  shows "file_read_block b buf d = (0, blk b d)"
proof -
  have "take (block_size d) (drop (unat b * block_size d) (bd_file d)) = blk b d"
    using assms(2) by (auto simp: blk_def file_byte_def bd_present_def intro!: nth_equalityI)
  with bd_offset_valid [OF assms(1)] assms(3) show ?thesis
    by (simp add: file_read_block_def Let_def)
qed

lemma length_read: "length buf = block_size d \<Longrightarrow> length (snd (file_read_block b buf d)) = block_size d"
  by (simp add: file_read_block_def Let_def)

lemma present_write:
  assumes "bd_valid d b" "length buf = block_size d"
  shows "bd_present (bd_write b buf d) b" "bd_present d c \<Longrightarrow> bd_present (bd_write b buf d) c"
  using assms by (auto simp: bd_write_file bd_present_def)

lemma read_empty: "bd_file d = [] \<Longrightarrow> snd (file_read_block b buf d) = buf"
  by (simp add: file_read_block_def Let_def)

section \<open>Files cut into blocks\<close>

lemma of_nat_neq_minus1: "Suc i < 2 ^ 64 \<Longrightarrow> (of_nat i :: u64) \<noteq> -1"
proof
  assume i: "Suc i < 2 ^ 64" and eq: "(of_nat i :: u64) = -1"
  from i have "unat (of_nat (Suc i) :: u64) = Suc i" by (intro unat_of_nat_small) simp
  with eq show False by simp
qed

text \<open>A turn of a copying loop moves at least a byte, and stays in one block.\<close>

lemma chunk_progress: "0 < bs \<Longrightarrow> w < n \<Longrightarrow> n - (w + min (bs - p mod bs) (n - w)) < n - (w :: nat)"
proof -
  assume "0 < bs" "w < n"
  moreover from \<open>0 < bs\<close> have "p mod bs < bs" by (rule mod_less_divisor)
  ultimately show ?thesis unfolding min_def by (split if_split) linarith
qed

lemma block_pos: "r < bs \<Longrightarrow> (d * bs + r) div bs = d \<and> (d * bs + r) mod bs = (r :: nat)"
  by simp

lemma same_block:
  assumes "p mod bs + n \<le> bs" "p \<le> q" "q < p + (n :: nat)"
  shows "q div bs = p div bs" "q mod bs = p mod bs + (q - p)"
proof -
  have q: "p div bs * bs + (p mod bs + (q - p)) = q" using assms(2) by simp
  have lt: "p mod bs + (q - p) < bs" using assms by simp
  from block_pos [OF lt, of "p div bs"] show "q div bs = p div bs" "q mod bs = p mod bs + (q - p)"
    unfolding q by simp_all
qed

lemma in_chunk:
  assumes "q div bs = p div (bs :: nat)"
  shows "p mod bs \<le> q mod bs \<and> q mod bs < p mod bs + n \<longleftrightarrow> p \<le> q \<and> q < p + n"
proof -
  have "p = p div bs * bs + p mod bs" "q = p div bs * bs + q mod bs"
    using assms by (metis div_mult_mod_eq)+
  then show ?thesis by linarith
qed

text \<open>Block number \<open>-1\<close> lies so far out that the host refuses its offset.\<close>

lemma minus1_offset:
  assumes "0 < block_size d" "block_size d \<le> 2 ^ 63"
  shows "sint (bd_offset (-1) d) < 0"
proof -
  have "bd_offset (-1) d = of_int (- int (block_size d))" by (simp add: bd_offset_def)
  then have "sint (bd_offset (-1) d) = signed_take_bit 63 (- int (block_size d))"
    by (simp only: signed_of_int) simp
  also have "\<dots> = - int (block_size d)" using assms by (intro signed_take_bit_int_eq_self) simp_all
  finally show ?thesis using assms(1) by simp
qed

end
