(* ===== verification/Fs_Nefs.thy ===== *)
theory Fs_Nefs
  imports Fs_Common
begin

text \<open>
  The NEFS file system, fs/src/nefs: formatting, mounting and unmounting (nefs_core.c), and the
  files (nefs_file.c) with their inode table, direct, indirect and double indirect blocks. On disk
  structures are bytes, little endian, at the offsets the compiler gives them on x86-64; padding
  bytes are zero. Sizes and positions are natural numbers: what they count fits in memory.
  Fresh memory has the bytes of the parameter \<open>heap\<close>; \<open>now\<close> is the clock. Pointers to a file
  system are not null; other pointers are optional.
\<close>

section \<open>Structures\<close>

definition NEFS_MAGIC :: u32 where "NEFS_MAGIC = 0x4E454653"
definition NEFS_MIN_BLOCK_SIZE :: u32 where "NEFS_MIN_BLOCK_SIZE = 4096"
definition NEFS_MAX_BLOCK_SIZE :: u32 where "NEFS_MAX_BLOCK_SIZE = 65536"
definition FS_TYPE_FILE :: u32 where "FS_TYPE_FILE = 1"

record nefs_superblock =
  sb_magic :: u32
  sb_version :: u32
  sb_block_size :: u32
  sb_total_blocks :: u64
  sb_free_blocks :: u64
  sb_total_inodes :: u64
  sb_free_inodes :: u64
  sb_journal_start :: u64
  sb_journal_blocks :: u64
  sb_inode_table_block :: u64
  sb_data_bitmap_block :: u64
  sb_inode_bitmap_block :: u64
  sb_sha256 :: "u8 list"

record nefs_inode =
  i_type :: u32
  i_size :: u64
  i_created :: u64
  i_modified :: u64
  i_accessed :: u64
  i_permissions :: u32
  i_links :: u32
  direct_blocks :: "u64 list"
  indirect_block :: u64
  double_indirect_block :: u64
  triple_indirect_block :: u64
  i_crc32 :: u32

record nefs =
  device :: bdev
  superblock :: nefs_superblock
  inode_bitmap :: "u8 list"
  data_bitmap :: "u8 list"
  current_transaction :: u32

definition nefs_sizeof_superblock :: nat where "nefs_sizeof_superblock = 120"

definition enc_superblock :: "nefs_superblock \<Rightarrow> u8 list" where
  "enc_superblock s = le_enc 4 (unat (sb_magic s)) @ le_enc 4 (unat (sb_version s)) @
     le_enc 4 (unat (sb_block_size s)) @ le_enc 4 0 @ le_enc 8 (unat (sb_total_blocks s)) @
     le_enc 8 (unat (sb_free_blocks s)) @ le_enc 8 (unat (sb_total_inodes s)) @
     le_enc 8 (unat (sb_free_inodes s)) @ le_enc 8 (unat (sb_journal_start s)) @
     le_enc 8 (unat (sb_journal_blocks s)) @ le_enc 8 (unat (sb_inode_table_block s)) @
     le_enc 8 (unat (sb_data_bitmap_block s)) @ le_enc 8 (unat (sb_inode_bitmap_block s)) @ sb_sha256 s"

definition dec_superblock :: "u8 list \<Rightarrow> nefs_superblock" where
  "dec_superblock bs = \<lparr>sb_magic = of_nat (field 0 4 bs), sb_version = of_nat (field 4 4 bs),
     sb_block_size = of_nat (field 8 4 bs), sb_total_blocks = of_nat (field 16 8 bs),
     sb_free_blocks = of_nat (field 24 8 bs), sb_total_inodes = of_nat (field 32 8 bs),
     sb_free_inodes = of_nat (field 40 8 bs), sb_journal_start = of_nat (field 48 8 bs),
     sb_journal_blocks = of_nat (field 56 8 bs), sb_inode_table_block = of_nat (field 64 8 bs),
     sb_data_bitmap_block = of_nat (field 72 8 bs), sb_inode_bitmap_block = of_nat (field 80 8 bs),
     sb_sha256 = take 32 (drop 88 bs)\<rparr>"

definition nefs_sizeof_inode :: nat where "nefs_sizeof_inode = 176"

definition enc_inode :: "nefs_inode \<Rightarrow> u8 list" where
  "enc_inode i = le_enc 4 (unat (i_type i)) @ le_enc 4 0 @ le_enc 8 (unat (i_size i)) @
     le_enc 8 (unat (i_created i)) @ le_enc 8 (unat (i_modified i)) @ le_enc 8 (unat (i_accessed i)) @
     le_enc 4 (unat (i_permissions i)) @ le_enc 4 (unat (i_links i)) @
     concat (map (\<lambda>b. le_enc 8 (unat b)) (direct_blocks i)) @ le_enc 8 (unat (indirect_block i)) @
     le_enc 8 (unat (double_indirect_block i)) @ le_enc 8 (unat (triple_indirect_block i)) @
     le_enc 4 (unat (i_crc32 i)) @ le_enc 4 0"

definition dec_inode :: "u8 list \<Rightarrow> nefs_inode" where
  "dec_inode bs = \<lparr>i_type = of_nat (field 0 4 bs), i_size = of_nat (field 8 8 bs),
     i_created = of_nat (field 16 8 bs), i_modified = of_nat (field 24 8 bs),
     i_accessed = of_nat (field 32 8 bs), i_permissions = of_nat (field 40 4 bs),
     i_links = of_nat (field 44 4 bs),
     direct_blocks = map (\<lambda>k. of_nat (field (48 + 8 * k) 8 bs)) [0..<12],
     indirect_block = of_nat (field 144 8 bs), double_indirect_block = of_nat (field 152 8 bs),
     triple_indirect_block = of_nat (field 160 8 bs), i_crc32 = of_nat (field 168 4 bs)\<rparr>"

section \<open>Mounting (nefs_core.c)\<close>

definition sha256_stub :: "u8 list" where "sha256_stub = replicate 32 0"

definition zero_superblock :: nefs_superblock where
  "zero_superblock = dec_superblock (replicate 120 0)"

text \<open>The content of the host file, or \<open>None\<close> when it cannot be opened; \<open>None\<close> is also the null result.\<close>

definition nefs_format :: "u8 list option \<Rightarrow> u32 \<Rightarrow> nefs option" where
  "nefs_format content bs =
     (if bs < NEFS_MIN_BLOCK_SIZE \<or> bs > NEFS_MAX_BLOCK_SIZE then None
      else (case content of None \<Rightarrow> None | Some f \<Rightarrow>
        (let dev = block_device_open f (unat bs);
             dev = (if total_blocks dev = 0 then dev\<lparr>total_blocks := 0x40000000 div ucast bs\<rparr> else dev);
             usable = (if total_blocks dev > 10000 then total_blocks dev - 10000 else 0);
             inodes = (if usable > 0 then usable div 8 else 1024);
             sb = zero_superblock\<lparr>sb_magic := NEFS_MAGIC, sb_version := 1, sb_block_size := bs,
               sb_total_blocks := total_blocks dev, sb_journal_blocks := 1024, sb_journal_start := 1,
               sb_inode_bitmap_block := 1025, sb_data_bitmap_block := 2025,
               sb_inode_table_block := 4025, sb_total_inodes := inodes, sb_free_inodes := inodes - 1,
               sb_free_blocks := usable, sb_sha256 := sha256_stub\<rparr>;
             ibm = (replicate (unat ((inodes + 7) div 8)) 0)[0 := 1];
             dsize = unat ((total_blocks dev + 7) div 8);
             dbm = replicate (if dsize > 0 then dsize else 1) 0
         in Some \<lparr>device = dev, superblock = sb, inode_bitmap = ibm, data_bitmap = dbm,
                  current_transaction = 0\<rparr>)))"

text \<open>The outer option is \<open>None\<close> when the read of the superblock overruns the structure it reads into.\<close>

definition nefs_mount :: "(nat \<Rightarrow> u8) \<Rightarrow> u8 list option \<Rightarrow> nefs option option" where
  "nefs_mount heap content =
     (case content of None \<Rightarrow> Some None | Some f \<Rightarrow>
       (let dev = block_device_open f (unat NEFS_MIN_BLOCK_SIZE) in
        case read_struct nefs_sizeof_superblock 0 (malloc heap nefs_sizeof_superblock) dev of
          None \<Rightarrow> None
        | Some (rc, obj) \<Rightarrow>
            (if rc < 0 then Some None
             else (let sb = dec_superblock obj in
               if sb_magic sb \<noteq> NEFS_MAGIC then Some None
               else (let dev = (if block_size dev \<noteq> unat (sb_block_size sb)
                                then block_device_open f (unat (sb_block_size sb)) else dev)
                     in Some (Some \<lparr>device = dev, superblock = sb,
                          inode_bitmap = malloc heap (unat ((sb_total_inodes sb + 7) div 8)),
                          data_bitmap = malloc heap (unat ((sb_total_blocks sb + 7) div 8)),
                          current_transaction = 0\<rparr>))))))"

text \<open>The block is written from the superblock; \<open>beyond\<close> is the memory after it. The file that is left is the result.\<close>

definition nefs_unmount :: "u8 list \<Rightarrow> nefs \<Rightarrow> int \<times> u8 list" where
  "nefs_unmount beyond fs =
     (0, bd_file (snd (file_write_block 0 (enc_superblock (superblock fs) @ beyond) (device fs))))"

section \<open>Allocation (nefs_file.c)\<close>

definition alloc_inode :: "nefs \<Rightarrow> u64 \<times> nefs" where
  "alloc_inode fs =
     (case scan (\<lambda>i. \<not> bm_test (inode_bitmap fs) i) 0 (unat (sb_total_inodes (superblock fs))) of
        Some i \<Rightarrow> (of_nat i, fs\<lparr>inode_bitmap := bm_set (inode_bitmap fs) i,
          superblock := (superblock fs)\<lparr>sb_free_inodes := sb_free_inodes (superblock fs) - 1\<rparr>\<rparr>)
      | None \<Rightarrow> (-1, fs))"

definition alloc_block :: "nefs \<Rightarrow> u64 \<times> nefs" where
  "alloc_block fs =
     (case scan (\<lambda>i. \<not> bm_test (data_bitmap fs) i) 10000 (unat (sb_total_blocks (superblock fs))) of
        Some i \<Rightarrow> (of_nat i, fs\<lparr>data_bitmap := bm_set (data_bitmap fs) i,
          superblock := (superblock fs)\<lparr>sb_free_blocks := sb_free_blocks (superblock fs) - 1\<rparr>\<rparr>)
      | None \<Rightarrow> (-1, fs))"

section \<open>Finding a block of a file\<close>

text \<open>An array of block numbers in a buffer.\<close>

definition ptr_get :: "u8 list \<Rightarrow> nat \<Rightarrow> u64" where
  "ptr_get buf i = of_nat (field (8 * i) 8 buf)"

definition ptr_put :: "u8 list \<Rightarrow> nat \<Rightarrow> u64 \<Rightarrow> u8 list" where
  "ptr_put buf i v = take (8 * i) buf @ le_enc 8 (unat v) @ drop (8 * i + 8) buf"

definition nefs_bs :: "nefs \<Rightarrow> nat" where
  "nefs_bs fs = unat (sb_block_size (superblock fs))"

text \<open>\<open>if (alloc && p == 0) p = alloc_block(fs);\<close>\<close>

definition ensure_ptr :: "bool \<Rightarrow> u64 \<Rightarrow> nefs \<Rightarrow> u64 \<times> nefs" where
  "ensure_ptr alc p fs = (if alc \<and> p = 0 then alloc_block fs else (p, fs))"

text \<open>A zeroed block buffer, filled from block \<open>b\<close> unless that is 0.\<close>

definition load_ptrs :: "u64 \<Rightarrow> nefs \<Rightarrow> u8 list" where
  "load_ptrs b fs =
     (let buf = replicate (nefs_bs fs) 0
      in if b \<noteq> 0 then snd (file_read_block b buf (device fs)) else buf)"

text \<open>Entry \<open>i\<close> of the pointers in \<open>buf\<close>, which block \<open>b\<close> holds; a new one is written back.\<close>

definition ensure_entry :: "bool \<Rightarrow> u64 \<Rightarrow> u8 list \<Rightarrow> nat \<Rightarrow> nefs \<Rightarrow> u64 \<times> nefs" where
  "ensure_entry alc b buf i fs =
     (if alc \<and> ptr_get buf i = 0
      then (case alloc_block fs of (p, fs) \<Rightarrow>
        (p, fs\<lparr>device := snd (file_write_block b (ptr_put buf i p) (device fs))\<rparr>))
      else (ptr_get buf i, fs))"

definition get_block_at_offset :: "bool \<Rightarrow> nat \<Rightarrow> nefs_inode \<Rightarrow> nefs \<Rightarrow> u64 \<times> nefs_inode \<times> nefs" where
  "get_block_at_offset alc offset inode fs =
     (let block_idx = offset div nefs_bs fs; ptrs_per_block = nefs_bs fs div 8 in
      if block_idx < 12 then
        (case ensure_ptr alc (direct_blocks inode ! block_idx) fs of (p, fs) \<Rightarrow>
          (p, inode\<lparr>direct_blocks := (direct_blocks inode)[block_idx := p]\<rparr>, fs))
      else (let block_idx = block_idx - 12 in
        if block_idx < ptrs_per_block then
          (case ensure_ptr alc (indirect_block inode) fs of (p, fs) \<Rightarrow>
           case ensure_entry alc p (load_ptrs p fs) block_idx fs of (q, fs) \<Rightarrow>
             (q, inode\<lparr>indirect_block := p\<rparr>, fs))
        else (let block_idx = block_idx - ptrs_per_block in
          if block_idx < ptrs_per_block * ptrs_per_block then
            (case ensure_ptr alc (double_indirect_block inode) fs of (p, fs) \<Rightarrow>
             case ensure_entry alc p (load_ptrs p fs) (block_idx div ptrs_per_block) fs of (q, fs) \<Rightarrow>
             case ensure_entry alc q (load_ptrs q fs) (block_idx mod ptrs_per_block) fs of (r, fs) \<Rightarrow>
               (r, inode\<lparr>double_indirect_block := p\<rparr>, fs))
          else (0, inode, fs))))"

section \<open>Files\<close>

definition inodes_per_block :: "nefs \<Rightarrow> nat" where
  "inodes_per_block fs = nefs_bs fs div nefs_sizeof_inode"

definition inode_home :: "u64 \<Rightarrow> nefs \<Rightarrow> u64" where
  "inode_home ino fs = sb_inode_table_block (superblock fs) + ino div of_nat (inodes_per_block fs)"

definition inode_slot :: "u64 \<Rightarrow> nefs \<Rightarrow> nat" where
  "inode_slot ino fs = unat ino mod inodes_per_block fs"

definition slot_get :: "u8 list \<Rightarrow> nat \<Rightarrow> nefs_inode" where
  "slot_get buf i = dec_inode (take nefs_sizeof_inode (drop (i * nefs_sizeof_inode) buf))"

definition slot_put :: "u8 list \<Rightarrow> nat \<Rightarrow> nefs_inode \<Rightarrow> u8 list" where
  "slot_put buf i inode = overwrite buf (i * nefs_sizeof_inode) (enc_inode inode)"

text \<open>\<open>inode.crc32_checksum = crc32(&inode, sizeof(nefs_inode_t) - 4)\<close>\<close>

definition seal :: "nefs_inode \<Rightarrow> nefs_inode" where
  "seal inode = inode\<lparr>i_crc32 := crc32 (take (nefs_sizeof_inode - 4) (enc_inode inode))\<rparr>"

definition nefs_create_file :: "u64 \<Rightarrow> string option \<Rightarrow> nefs \<Rightarrow> int \<times> nefs" where
  "nefs_create_file now path fs =
     (if path = None then (-1, fs)
      else (case alloc_inode fs of (ino, fs) \<Rightarrow>
        if ino = -1 then (-1, fs)
        else (let inode = (dec_inode (replicate nefs_sizeof_inode 0))\<lparr>i_type := FS_TYPE_FILE, i_size := 0,
                    i_created := now, i_modified := now, i_accessed := now, i_permissions := 0x1A4,
                    i_links := 1\<rparr>;
                  buf = snd (file_read_block (inode_home ino fs) (replicate (nefs_bs fs) 0) (device fs));
                  buf = slot_put buf (inode_slot ino fs) (seal inode)
              in (0, fs\<lparr>device := snd (file_write_block (inode_home ino fs) buf (device fs))\<rparr>))))"

text \<open>
  The copying loops run while bytes are left. A block size of 0 would divide by zero; no file
  system that is formatted has one, and the loops stop there.
\<close>

function nefs_write_loop ::
    "(nat \<Rightarrow> u8) \<Rightarrow> u8 list \<Rightarrow> nat \<Rightarrow> nat \<Rightarrow> nefs_inode \<Rightarrow> nefs \<Rightarrow> nat \<times> nefs_inode \<times> nefs" where
  "nefs_write_loop heap data offset written inode fs =
     (if written < length data \<and> 0 < nefs_bs fs then
        (let block_off = (offset + written) mod nefs_bs fs;
             to_write = min (nefs_bs fs - block_off) (length data - written)
         in case get_block_at_offset True (offset + written) inode fs of (b, inode, fs') \<Rightarrow>
              if b = 0 then (written, inode, fs')
              else (let buf = snd (file_read_block b (malloc heap (nefs_bs fs)) (device fs'));
                        buf = overwrite buf block_off (take to_write (drop written data))
                    in nefs_write_loop heap data offset (written + to_write) inode
                         (fs'\<lparr>device := snd (file_write_block b buf (device fs'))\<rparr>)))
      else (written, inode, fs))"
  by pat_completeness auto
termination
  by (relation "measure (\<lambda>(heap, data, offset, written, inode, fs). length data - written)")
    (simp_all add: chunk_progress)

declare nefs_write_loop.simps [simp del]

definition nefs_write_file ::
    "(nat \<Rightarrow> u8) \<Rightarrow> u64 \<Rightarrow> u64 \<Rightarrow> u8 list option \<Rightarrow> nat \<Rightarrow> nefs \<Rightarrow> int \<times> nefs" where
  "nefs_write_file heap now ino data offset fs =
     (case data of None \<Rightarrow> (-1, fs) | Some data \<Rightarrow>
       (let block_buf = snd (file_read_block (inode_home ino fs) (malloc heap (nefs_bs fs)) (device fs));
            inode = slot_get block_buf (inode_slot ino fs)
        in case nefs_write_loop heap data offset 0 inode fs of (written, inode, fs) \<Rightarrow>
          (let inode = (if offset + written > unat (i_size inode)
                        then inode\<lparr>i_size := of_nat (offset + written)\<rparr> else inode);
               inode = seal (inode\<lparr>i_modified := now\<rparr>);
               block_buf = slot_put block_buf (inode_slot ino fs) inode
           in (int written,
               fs\<lparr>device := snd (file_write_block (inode_home ino fs) block_buf (device fs))\<rparr>))))"

text \<open>The bytes copied to the caller's buffer so far, the inode and the file system are the loop's state.\<close>

function nefs_read_loop ::
    "(nat \<Rightarrow> u8) \<Rightarrow> nat \<Rightarrow> nat \<Rightarrow> u8 list \<Rightarrow> nefs_inode \<Rightarrow> nefs \<Rightarrow> u8 list \<times> nefs_inode \<times> nefs" where
  "nefs_read_loop heap len offset got inode fs =
     (if length got < len \<and> 0 < nefs_bs fs then
        (let block_off = (offset + length got) mod nefs_bs fs;
             to_read = min (nefs_bs fs - block_off) (len - length got)
         in case get_block_at_offset False (offset + length got) inode fs of (b, inode, fs') \<Rightarrow>
              if b = 0 then (got, inode, fs')
              else (let buf = snd (file_read_block b (malloc heap (nefs_bs fs)) (device fs'));
                        chunk = bytes_at to_read (drop block_off buf)
                    in nefs_read_loop heap len offset (got @ chunk) inode fs'))
      else (got, inode, fs))"
  by pat_completeness auto
termination
  by (relation "measure (\<lambda>(heap, len, offset, got, inode, fs). len - length got)")
    (simp_all add: chunk_progress)

declare nefs_read_loop.simps [simp del]

definition nefs_read_file ::
    "(nat \<Rightarrow> u8) \<Rightarrow> u64 \<Rightarrow> u64 \<Rightarrow> nat \<Rightarrow> nat \<Rightarrow> nefs \<Rightarrow> int \<times> u8 list \<times> nefs" where
  "nefs_read_file heap now ino len offset fs =
     (let block_buf = snd (file_read_block (inode_home ino fs) (malloc heap (nefs_bs fs)) (device fs));
          inode = slot_get block_buf (inode_slot ino fs)
      in if offset \<ge> unat (i_size inode) then (0, [], fs)
         else (let len = (if offset + len > unat (i_size inode) then unat (i_size inode) - offset else len)
               in case nefs_read_loop heap len offset [] inode fs of (got, inode, fs) \<Rightarrow>
                 (let block_buf = slot_put block_buf (inode_slot ino fs) (inode\<lparr>i_accessed := now\<rparr>)
                  in (int (length got), got,
                      fs\<lparr>device := snd (file_write_block (inode_home ino fs) block_buf (device fs))\<rparr>))))"

section \<open>Structures on disk\<close>

lemma length_enc_inode: "length (direct_blocks i) = 12 \<Longrightarrow> length (enc_inode i) = nefs_sizeof_inode"
  by (simp add: enc_inode_def length_concat_enc nefs_sizeof_inode_def)

lemma dec_enc_inode:
  assumes "length (direct_blocks i) = 12"
  shows "dec_inode (enc_inode i) = i"
proof -
  let ?c = "concat (map (\<lambda>b. le_enc 8 (unat b)) (direct_blocks i))"
  have c: "length ?c = 96" using assms by (simp add: length_concat_enc)
  have d: "field (48 + 8 * k) 8 (enc_inode i) = unat (direct_blocks i ! k)" if "k < 12" for k
    using field_concat [of k "direct_blocks i"] assms that by (simp add: enc_inode_def)
  have "direct_blocks (dec_inode (enc_inode i)) = direct_blocks i"
    using assms d by (auto simp: dec_inode_def intro!: nth_equalityI)
  moreover have "field 144 8 (enc_inode i) = unat (indirect_block i)"
    "field 152 8 (enc_inode i) = unat (double_indirect_block i)"
    "field 160 8 (enc_inode i) = unat (triple_indirect_block i)"
    "field 168 4 (enc_inode i) = unat (i_crc32 i)"
    using c by (simp_all add: enc_inode_def mod_word del: power_numeral)
  moreover have "field 0 4 (enc_inode i) = unat (i_type i)" "field 8 8 (enc_inode i) = unat (i_size i)"
    "field 16 8 (enc_inode i) = unat (i_created i)" "field 24 8 (enc_inode i) = unat (i_modified i)"
    "field 32 8 (enc_inode i) = unat (i_accessed i)" "field 40 4 (enc_inode i) = unat (i_permissions i)"
    "field 44 4 (enc_inode i) = unat (i_links i)"
    by (simp_all add: enc_inode_def mod_word del: power_numeral)
  ultimately show ?thesis by (intro nefs_inode.equality) (simp_all add: dec_inode_def)
qed

lemma slot_get_put:
  assumes "length (direct_blocks i) = 12" "(k + 1) * nefs_sizeof_inode \<le> length buf"
  shows "slot_get (slot_put buf k i) k = i"
proof -
  have "take nefs_sizeof_inode (drop (k * nefs_sizeof_inode) (slot_put buf k i)) = enc_inode i"
    using assms length_enc_inode [OF assms(1)] by (simp add: slot_put_def overwrite_def)
  then show ?thesis using dec_enc_inode [OF assms(1)] by (simp add: slot_get_def)
qed

section \<open>Well-formed file systems\<close>

definition nefs_total :: "nefs \<Rightarrow> nat" where
  "nefs_total fs = unat (sb_total_blocks (superblock fs))"

definition nefs_ok :: "nefs \<Rightarrow> bool" where
  "nefs_ok fs \<longleftrightarrow> block_size (device fs) = nefs_bs fs \<and> 4096 \<le> nefs_bs fs \<and> nefs_bs fs \<le> 65536 \<and>
     nefs_total fs * nefs_bs fs < 2 ^ 62 \<and> nefs_total fs \<le> 8 * length (data_bitmap fs) \<and>
     sb_inode_table_block (superblock fs) = 4025"

definition nefs_pool :: "nefs \<Rightarrow> u64 set" where
  "nefs_pool fs = {b. 10000 \<le> unat b \<and> unat b < nefs_total fs}"

definition nefs_used :: "nefs \<Rightarrow> u64 \<Rightarrow> bool" where
  "nefs_used fs b \<longleftrightarrow> bm_test (data_bitmap fs) (unat b)"

definition nefs_alloc :: "nefs \<Rightarrow> u64 option \<times> nefs" where
  "nefs_alloc fs = (case alloc_block fs of (b, fs') \<Rightarrow> (if b = -1 then None else Some b, fs'))"

lemma total_lt: "nefs_total fs < 2 ^ 64"
  using unsigned_less [where 'a = nat, of "sb_total_blocks (superblock fs)"] by (simp add: nefs_total_def)

lemma of_nat_not_minus1: "i < nefs_total fs \<Longrightarrow> (of_nat i :: u64) \<noteq> -1"
  using total_lt [of fs] by (intro of_nat_neq_minus1) simp

lemma alloc_block_cases [case_names Full Block]:
  assumes "nefs_ok fs"
  obtains "alloc_block fs = (-1, fs)" "\<forall>b \<in> nefs_pool fs. nefs_used fs b"
  | b fs' where "b \<in> nefs_pool fs" "b \<noteq> -1" "b \<noteq> 0" "\<not> nefs_used fs b" "alloc_block fs = (b, fs')"
    "nefs_ok fs'" "nefs_bs fs' = nefs_bs fs" "device fs' = device fs" "nefs_pool fs' = nefs_pool fs"
    "inode_bitmap fs' = inode_bitmap fs"
    "\<forall>c \<in> nefs_pool fs. nefs_used fs' c \<longleftrightarrow> nefs_used fs c \<or> c = b"
proof (cases "scan (\<lambda>i. \<not> bm_test (data_bitmap fs) i) 10000 (nefs_total fs)")
  case None
  have "alloc_block fs = (-1, fs)" using None by (simp add: alloc_block_def nefs_total_def)
  moreover have "\<forall>b \<in> nefs_pool fs. nefs_used fs b"
    using scan_NoneD [OF None] by (auto simp: nefs_pool_def nefs_used_def)
  ultimately show thesis by (rule that(1))
next
  case (Some i)
  note i = scan_SomeD(1-3) [OF Some]
  have u: "unat (of_nat i :: u64) = i" using i(2) total_lt [of fs] by (intro unat_of_nat_small) simp
  let ?fs = "fs\<lparr>data_bitmap := bm_set (data_bitmap fs) i,
    superblock := (superblock fs)\<lparr>sb_free_blocks := sb_free_blocks (superblock fs) - 1\<rparr>\<rparr>"
  have "i < length (data_bitmap fs) * 8" using assms i(2) by (simp add: nefs_ok_def)
  then have i8: "i div 8 < length (data_bitmap fs)" by (rule less_mult_imp_div_less)
  have run: "alloc_block fs = (of_nat i, ?fs)" using Some by (simp add: alloc_block_def nefs_total_def)
  have bs: "nefs_bs ?fs = nefs_bs fs" "nefs_total ?fs = nefs_total fs" by (simp_all add: nefs_bs_def nefs_total_def)
  show thesis
  proof (rule that(2) [OF _ _ _ _ run])
    show "of_nat i \<in> nefs_pool fs" "\<not> nefs_used fs (of_nat i)"
      using i u by (simp_all add: nefs_pool_def nefs_used_def)
    show "(of_nat i :: u64) \<noteq> -1" using of_nat_not_minus1 i(2) .
    show "(of_nat i :: u64) \<noteq> 0" using u i(1) by auto
    show "nefs_ok ?fs" using assms unfolding nefs_ok_def bs by simp
    show "\<forall>c \<in> nefs_pool fs. nefs_used ?fs c \<longleftrightarrow> nefs_used fs c \<or> c = of_nat i"
      using i8 u by (auto simp: nefs_used_def bm_test_set word_unat_eq_iff)
  qed (use bs in \<open>simp_all add: nefs_pool_def\<close>)
qed

interpretation blocks: allocator nefs_alloc nefs_pool nefs_used nefs_ok
proof unfold_locales
  fix fs r fs' assume ok: "nefs_ok fs" and al: "nefs_alloc fs = (Some r, fs')"
  from ok show "r \<in> nefs_pool fs \<and> \<not> nefs_used fs r \<and> nefs_pool fs' = nefs_pool fs \<and> nefs_ok fs' \<and>
      (\<forall>q \<in> nefs_pool fs. nefs_used fs' q \<longleftrightarrow> nefs_used fs q \<or> q = r)"
    by (cases rule: alloc_block_cases) (use al in \<open>auto simp: nefs_alloc_def\<close>)
next
  fix fs fs' assume ok: "nefs_ok fs" and al: "nefs_alloc fs = (None, fs')"
  from ok show "fs' = fs \<and> (\<forall>r \<in> nefs_pool fs. nefs_used fs r)"
    by (cases rule: alloc_block_cases) (use al in \<open>auto simp: nefs_alloc_def\<close>)
qed

definition blocks_free :: "nefs \<Rightarrow> nat" where
  "blocks_free fs = card {b \<in> nefs_pool fs. \<not> nefs_used fs b}"

lemma pool_valid: "nefs_ok fs \<Longrightarrow> b \<in> nefs_pool fs \<Longrightarrow> bd_valid (device fs) b"
proof -
  assume ok: "nefs_ok fs" and b: "b \<in> nefs_pool fs"
  have "(unat b + 1) * nefs_bs fs \<le> nefs_total fs * nefs_bs fs"
    using b by (intro mult_le_mono1) (simp add: nefs_pool_def)
  with ok show ?thesis by (simp add: bd_valid_def nefs_ok_def)
qed

lemma finite_pool [simp]: "finite (nefs_pool fs)"
proof -
  have "nefs_pool fs \<subseteq> of_nat ` {..<nefs_total fs}"
    by (auto simp: nefs_pool_def intro!: image_eqI [where x = "unat _"])
  then show ?thesis by (rule finite_subset) simp
qed

text \<open>Writing a block leaves allocation alone.\<close>

lemma device_update [simp]:
  "nefs_bs (fs\<lparr>device := d\<rparr>) = nefs_bs fs" "nefs_pool (fs\<lparr>device := d\<rparr>) = nefs_pool fs"
  "nefs_used (fs\<lparr>device := d\<rparr>) = nefs_used fs" "blocks_free (fs\<lparr>device := d\<rparr>) = blocks_free fs"
  "inode_home ino (fs\<lparr>device := d\<rparr>) = inode_home ino fs" "inode_slot ino (fs\<lparr>device := d\<rparr>) = inode_slot ino fs"
  by (simp_all add: nefs_bs_def nefs_pool_def nefs_used_def nefs_total_def blocks_free_def fun_eq_iff
      inode_home_def inode_slot_def inodes_per_block_def)

lemma nefs_ok_write: "nefs_ok fs \<Longrightarrow> bd_valid (device fs) b \<Longrightarrow> length buf = nefs_bs fs \<Longrightarrow>
    nefs_ok (fs\<lparr>device := bd_write b buf (device fs)\<rparr>)"
  using dev.wr_size [of "device fs" b buf] by (simp add: nefs_ok_def nefs_total_def)

section \<open>Writing a part of a block\<close>

definition put_chunk :: "(nat \<Rightarrow> u8) \<Rightarrow> nat \<Rightarrow> u8 list \<Rightarrow> u64 \<Rightarrow> nefs \<Rightarrow> nefs" where
  "put_chunk heap off chunk b fs = fs\<lparr>device := bd_write b
     (overwrite (snd (file_read_block b (malloc heap (nefs_bs fs)) (device fs))) off chunk) (device fs)\<rparr>"

lemma put_chunk_effect:
  assumes ok: "nefs_ok fs" and b: "bd_valid (device fs) b" and fit: "off + length chunk \<le> nefs_bs fs"
  shows "nefs_ok (put_chunk heap off chunk b fs)"
    and "bd_present (device (put_chunk heap off chunk b fs)) b"
    and "bd_present (device fs) c \<Longrightarrow> bd_present (device (put_chunk heap off chunk b fs)) c"
    and "c \<noteq> b \<Longrightarrow> blk c (device (put_chunk heap off chunk b fs)) = blk c (device fs)"
    and "j < nefs_bs fs \<Longrightarrow> off \<le> j \<Longrightarrow> j < off + length chunk \<Longrightarrow>
      blk b (device (put_chunk heap off chunk b fs)) ! j = chunk ! (j - off)"
    and "j < nefs_bs fs \<Longrightarrow> \<not> (off \<le> j \<and> j < off + length chunk) \<Longrightarrow> bd_present (device fs) b \<Longrightarrow>
      blk b (device (put_chunk heap off chunk b fs)) ! j = blk b (device fs) ! j"
    and "nefs_pool (put_chunk heap off chunk b fs) = nefs_pool fs"
      "nefs_used (put_chunk heap off chunk b fs) = nefs_used fs"
      "nefs_bs (put_chunk heap off chunk b fs) = nefs_bs fs"
      "blocks_free (put_chunk heap off chunk b fs) = blocks_free fs"
proof -
  let ?r = "snd (file_read_block b (malloc heap (nefs_bs fs)) (device fs))"
  have bs: "block_size (device fs) = nefs_bs fs" using ok by (simp add: nefs_ok_def)
  have r: "length ?r = nefs_bs fs" using length_read [of "malloc heap (nefs_bs fs)" "device fs" b] bs by simp
  then have len: "length (overwrite ?r off chunk) = nefs_bs fs" using fit by simp
  have len': "length (overwrite ?r off chunk) = block_size (device fs)" using len bs by simp
  show "nefs_ok (put_chunk heap off chunk b fs)"
    unfolding put_chunk_def using nefs_ok_write [OF ok b len] .
  show "bd_present (device (put_chunk heap off chunk b fs)) b"
    "bd_present (device fs) c \<Longrightarrow> bd_present (device (put_chunk heap off chunk b fs)) c"
    using present_write [OF b len'] by (simp_all add: put_chunk_def)
  show "c \<noteq> b \<Longrightarrow> blk c (device (put_chunk heap off chunk b fs)) = blk c (device fs)"
    using dev.wr_other [OF b len'] by (simp add: put_chunk_def)
  have new: "blk b (device (put_chunk heap off chunk b fs)) = overwrite ?r off chunk"
    using dev.wr_same [OF b len'] by (simp add: put_chunk_def)
  show "j < nefs_bs fs \<Longrightarrow> off \<le> j \<Longrightarrow> j < off + length chunk \<Longrightarrow>
      blk b (device (put_chunk heap off chunk b fs)) ! j = chunk ! (j - off)"
    using r fit by (simp add: new overwrite_nth)
  show "j < nefs_bs fs \<Longrightarrow> \<not> (off \<le> j \<and> j < off + length chunk) \<Longrightarrow> bd_present (device fs) b \<Longrightarrow>
      blk b (device (put_chunk heap off chunk b fs)) ! j = blk b (device fs) ! j"
    using r fit read_present [OF b _ , of "malloc heap (nefs_bs fs)"] bs by (auto simp: new overwrite_nth)
qed (simp_all add: put_chunk_def)

section \<open>What a file gives back\<close>

definition load_inode :: "(nat \<Rightarrow> u8) \<Rightarrow> u64 \<Rightarrow> nefs \<Rightarrow> nefs_inode" where
  "load_inode heap ino fs =
     slot_get (snd (file_read_block (inode_home ino fs) (malloc heap (nefs_bs fs)) (device fs))) (inode_slot ino fs)"

lemma low_valid: "nefs_ok fs \<Longrightarrow> unat b < 10000 \<Longrightarrow> bd_valid (device fs) b"
proof -
  assume ok: "nefs_ok fs" and b: "unat b < 10000"
  have "(unat b + 1) * nefs_bs fs \<le> 10000 * 65536"
    using ok b by (intro mult_le_mono) (simp_all add: nefs_ok_def)
  with ok show ?thesis by (simp add: bd_valid_def nefs_ok_def)
qed

lemma home_cong: "nefs_ok fs \<Longrightarrow> nefs_ok fs' \<Longrightarrow> nefs_bs fs' = nefs_bs fs \<Longrightarrow>
    inode_home ino fs' = inode_home ino fs \<and> inode_slot ino fs' = inode_slot ino fs"
  by (simp add: inode_home_def inode_slot_def inodes_per_block_def nefs_ok_def)

lemma slot_fits: "nefs_ok fs \<Longrightarrow> (inode_slot ino fs + 1) * nefs_sizeof_inode \<le> nefs_bs fs"
proof -
  assume ok: "nefs_ok fs"
  then have "0 < inodes_per_block fs"
    by (simp add: nefs_ok_def inodes_per_block_def nefs_sizeof_inode_def div_greater_zero_iff)
  then have "inode_slot ino fs + 1 \<le> inodes_per_block fs" by (simp add: inode_slot_def Suc_leI)
  then have "(inode_slot ino fs + 1) * nefs_sizeof_inode \<le> inodes_per_block fs * nefs_sizeof_inode"
    by (rule mult_le_mono1)
  also have "\<dots> \<le> nefs_bs fs" by (simp add: inodes_per_block_def)
  finally show ?thesis .
qed

lemma dec_inode_zero: "direct_blocks (dec_inode (replicate nefs_sizeof_inode 0)) = replicate 12 0"
proof (rule nth_equalityI)
  fix k assume "k < length (direct_blocks (dec_inode (replicate nefs_sizeof_inode 0)))"
  then have "k < 12" by (simp add: dec_inode_def)
  then show "direct_blocks (dec_inode (replicate nefs_sizeof_inode 0)) ! k = replicate 12 0 ! k"
    using field_zero [of "48 + 8 * k" 8 nefs_sizeof_inode]
    by (simp add: dec_inode_def nth_replicate nefs_sizeof_inode_def del: upt_rec_numeral)
qed (simp add: dec_inode_def)

lemma slot_get_zero: "(k + 1) * nefs_sizeof_inode \<le> n \<Longrightarrow>
    slot_get (replicate n 0) k = dec_inode (replicate nefs_sizeof_inode 0)"
  by (simp add: slot_get_def min_def)

text \<open>A freshly formatted device of which nothing is on disk yet.\<close>

definition fresh_nefs :: nefs where
  "fresh_nefs = the (nefs_format (Some []) 4096)"

lemma fresh_nefs_format: "nefs_format (Some []) 4096 = Some fresh_nefs"
  by (simp add: fresh_nefs_def nefs_format_def NEFS_MIN_BLOCK_SIZE_def NEFS_MAX_BLOCK_SIZE_def Let_def)

lemma fresh_nefs_facts:
  "nefs_bs fresh_nefs = 4096" "nefs_total fresh_nefs = 262144"
  "data_bitmap fresh_nefs = replicate 32768 0" "block_size (device fresh_nefs) = 4096"
  "bd_file (device fresh_nefs) = []" "sb_inode_table_block (superblock fresh_nefs) = 4025"
  by (simp_all add: fresh_nefs_def nefs_format_def NEFS_MIN_BLOCK_SIZE_def NEFS_MAX_BLOCK_SIZE_def Let_def
      nefs_bs_def nefs_total_def block_device_open_def)

lemma fresh_nefs_ok: "nefs_ok fresh_nefs"
  by (simp add: nefs_ok_def fresh_nefs_facts)

lemma fresh_nefs_free: "12 \<le> blocks_free fresh_nefs"
proof -
  let ?f = "\<lambda>i. of_nat i :: u64"
  have u: "unat (?f i) = i" if "i < 10012" for i using that by (intro unat_of_nat_small) simp
  have "?f ` {10000..<10012} \<subseteq> {b \<in> nefs_pool fresh_nefs. \<not> nefs_used fresh_nefs b}"
  proof
    fix b assume "b \<in> ?f ` {10000..<10012}"
    then obtain i where i: "b = ?f i" "10000 \<le> i" "i < 10012" by auto
    then have "i div 8 < 32768" by (intro less_mult_imp_div_less) simp
    with i show "b \<in> {b \<in> nefs_pool fresh_nefs. \<not> nefs_used fresh_nefs b}"
      by (simp add: nefs_pool_def nefs_used_def fresh_nefs_facts(2,3) u)
  qed
  then have "card (?f ` {10000..<10012}) \<le> blocks_free fresh_nefs"
    unfolding blocks_free_def by (rule card_mono [rotated]) simp
  moreover have "inj_on ?f {10000..<10012}" by (rule inj_on_inverseI [of _ unat]) (simp add: u)
  then have "card (?f ` {10000..<10012}) = card {10000..<10012 :: nat}" by (rule card_image)
  then have "card (?f ` {10000..<10012}) = 12" by (rule trans) simp
  ultimately show ?thesis by (simp only:)
qed

lemma fresh_nefs_inode:
  "load_inode (\<lambda>_. 0) 1 fresh_nefs = dec_inode (replicate nefs_sizeof_inode 0)"
  "unat (inode_home 1 fresh_nefs) < 10000"
proof -
  have "load_inode (\<lambda>_. 0) 1 fresh_nefs = slot_get (replicate (nefs_bs fresh_nefs) 0) (inode_slot 1 fresh_nefs)"
    by (simp only: load_inode_def malloc_zero read_empty fresh_nefs_facts(5))
  also have "\<dots> = dec_inode (replicate nefs_sizeof_inode 0)"
    by (rule slot_get_zero [OF slot_fits [OF fresh_nefs_ok]])
  finally show "load_inode (\<lambda>_. 0) 1 fresh_nefs = dec_inode (replicate nefs_sizeof_inode 0)" .
qed (simp add: inode_home_def inodes_per_block_def fresh_nefs_facts nefs_sizeof_inode_def)

section \<open>A full device, and mounting\<close>

lemma full_alloc:
  assumes "nefs_ok fs" "\<forall>b \<in> nefs_pool fs. nefs_used fs b"
  shows "alloc_block fs = (-1, fs)"
  using assms(1) by (cases rule: alloc_block_cases) (use assms(2) in auto)

lemma full_write_loop:
  assumes "nefs_ok fs" "\<forall>b \<in> nefs_pool fs. nefs_used fs b" "length (direct_blocks i) = 12"
    and "\<forall>k < 12. direct_blocks i ! k = 0 \<or> direct_blocks i ! k = -1" "offset + length data \<le> 12 * nefs_bs fs"
  shows "written \<le> length data \<Longrightarrow> \<exists>i'. nefs_write_loop heap data offset written i fs = (length data, i', fs) \<and>
    i' = i\<lparr>direct_blocks := direct_blocks i'\<rparr> \<and> length (direct_blocks i') = 12"
  using assms(3,4)
proof (induction "length data - written" arbitrary: written i rule: less_induct)
  case less
  let ?bs = "nefs_bs fs" and ?p = "offset + written"
  have bs: "0 < ?bs" "block_size (device fs) = ?bs" "?bs \<le> 2 ^ 63" using assms(1) by (simp_all add: nefs_ok_def)
  show ?case
  proof (cases "written < length data")
    case False
    with less.prems show ?thesis by (simp add: nefs_write_loop.simps)
  next
    case True
    define n where "n = min (?bs - ?p mod ?bs) (length data - written)"
    have mod: "?p mod ?bs < ?bs" using bs by simp
    have n: "0 < n" "written + n \<le> length data" using mod True unfolding n_def by linarith+
    have "?p < 12 * ?bs" using assms(5) True by simp
    then have k: "?p div ?bs < 12" by (simp add: less_mult_imp_div_less)
    let ?i = "i\<lparr>direct_blocks := (direct_blocks i)[?p div ?bs := -1]\<rparr>"
    have get: "get_block_at_offset True ?p i fs = (-1, ?i, fs)"
    proof (cases "direct_blocks i ! (?p div ?bs) = 0")
      case True
      then show ?thesis using k full_alloc [OF assms(1,2)]
        by (simp add: get_block_at_offset_def ensure_ptr_def Let_def)
    next
      case False
      then have m: "direct_blocks i ! (?p div ?bs) = -1" using k less.prems(3) by blast
      then have "(direct_blocks i)[?p div ?bs := -1] = direct_blocks i" by (metis list_update_id)
      then show ?thesis using k m by (simp add: get_block_at_offset_def ensure_ptr_def Let_def)
    qed
    have wr: "snd (file_write_block (-1) buf (device fs)) = device fs" for buf
      using minus1_offset [of "device fs"] bs by (simp add: file_write_block_def Let_def)
    have step: "nefs_write_loop heap data offset written i fs = nefs_write_loop heap data offset (written + n) ?i fs"
      using True bs by (subst nefs_write_loop.simps) (simp add: Let_def get wr n_def)
    have dec: "length data - (written + n) < length data - written" using n True by simp
    have l: "length (direct_blocks ?i) = 12" "\<forall>k < 12. direct_blocks ?i ! k = 0 \<or> direct_blocks ?i ! k = -1"
      using less.prems(2,3) k by (auto simp: nth_list_update)
    from less.hyps [OF dec n(2) l] obtain i' where
      r: "nefs_write_loop heap data offset (written + n) ?i fs = (length data, i', fs)"
        "i' = ?i\<lparr>direct_blocks := direct_blocks i'\<rparr>" "length (direct_blocks i') = 12" by blast
    have "i' = i\<lparr>direct_blocks := direct_blocks i'\<rparr>" by (subst r(2)) simp
    with r step show ?thesis by auto
  qed
qed


text \<open>A device with no block beyond the first ten thousand.\<close>

definition tiny_nefs :: nefs where
  "tiny_nefs = the (nefs_format (Some (replicate 4096 0)) 4096)"

lemma tiny_nefs_facts:
  "nefs_bs tiny_nefs = 4096" "nefs_total tiny_nefs = 1" "data_bitmap tiny_nefs = [0]"
  "device tiny_nefs = block_device_open (replicate 4096 0) 4096"
  "sb_inode_table_block (superblock tiny_nefs) = 4025"
proof -
  have t: "total_blocks (block_device_open (replicate 4096 0) 4096) = 1" by (simp add: block_device_open_def)
  show "nefs_bs tiny_nefs = 4096" "nefs_total tiny_nefs = 1" "data_bitmap tiny_nefs = [0]"
    "device tiny_nefs = block_device_open (replicate 4096 0) 4096"
    "sb_inode_table_block (superblock tiny_nefs) = 4025"
    by (simp_all add: tiny_nefs_def nefs_format_def NEFS_MIN_BLOCK_SIZE_def NEFS_MAX_BLOCK_SIZE_def Let_def
      nefs_bs_def nefs_total_def t)
qed


text \<open>
  The function nefs_mount reads a whole block of 4096 bytes into the 120 bytes of the
  superblock structure: for no file that holds at least a superblock's 121 bytes does it have a
  defined result, so no formatted device can ever be mounted again.
\<close>

theorem nefs_mount_overruns:
  "120 < length f \<Longrightarrow> nefs_mount heap (Some f) = None"
  by (simp add: nefs_mount_def read_struct_def file_read_block_def bd_offset_def block_device_open_def
      NEFS_MIN_BLOCK_SIZE_def nefs_sizeof_superblock_def Let_def min_def)

theorem nefs_mount_overruns_witness:
  "nefs_mount (\<lambda>_. 0) (Some (replicate 4096 0)) = None"
  using nefs_mount_overruns [of "replicate 4096 0" "\<lambda>_. 0"] by simp

end
