(* ===== verification/Fs_Nefs_Tree.thy ===== *)
theory Fs_Nefs_Tree
  imports Fs_Nefs
begin

text \<open>
  The files of NEFS as trees of blocks, over all blocks that a file can have: twelve in the inode, those that the indirect
  block holds, and those of the blocks that the double indirect block holds. A place is where the number of a
  block is kept; the tree is well-formed when no block is held twice. The section on the loops shows that a write only fills
  places on the way to the blocks it needs, and that what was written is read back.
\<close>

section \<open>Places\<close>

datatype place = Direct nat | Single | Single_of nat | Double | Double_of nat | Leaf_of nat nat

text \<open>Entry \<open>n\<close> of the array in block \<open>b\<close>; block 0 stands for none.\<close>

definition entry :: "bdev \<Rightarrow> u64 \<Rightarrow> nat \<Rightarrow> u64" where
  "entry d b n = (if b = 0 then 0 else ptr_get (blk b d) n)"

primrec val :: "nefs_inode \<Rightarrow> bdev \<Rightarrow> place \<Rightarrow> u64" where
  "val i d (Direct k) = direct_blocks i ! k"
| "val i d Single = indirect_block i"
| "val i d (Single_of n) = entry d (indirect_block i) n"
| "val i d Double = double_indirect_block i"
| "val i d (Double_of n) = entry d (double_indirect_block i) n"
| "val i d (Leaf_of n m) = entry d (entry d (double_indirect_block i) n) m"

text \<open>The places of a tree whose blocks hold \<open>ppb\<close> numbers each, and those that hold blocks of numbers.\<close>

primrec is_place :: "nat \<Rightarrow> place \<Rightarrow> bool" where
  "is_place ppb (Direct k) \<longleftrightarrow> k < 12"
| "is_place ppb Single \<longleftrightarrow> True"
| "is_place ppb (Single_of n) \<longleftrightarrow> n < ppb"
| "is_place ppb Double \<longleftrightarrow> True"
| "is_place ppb (Double_of n) \<longleftrightarrow> n < ppb"
| "is_place ppb (Leaf_of n m) \<longleftrightarrow> n < ppb \<and> m < ppb"

primrec inner :: "place \<Rightarrow> bool" where
  "inner (Direct k) \<longleftrightarrow> False"
| "inner Single \<longleftrightarrow> True"
| "inner (Single_of n) \<longleftrightarrow> False"
| "inner Double \<longleftrightarrow> True"
| "inner (Double_of n) \<longleftrightarrow> True"
| "inner (Leaf_of n m) \<longleftrightarrow> False"

text \<open>The places on the way to block \<open>k\<close> of a file, and the last of them.\<close>

definition path :: "nat \<Rightarrow> nat \<Rightarrow> place list" where
  "path ppb k =
     (if k < 12 then [Direct k]
      else if k - 12 < ppb then [Single, Single_of (k - 12)]
      else [Double, Double_of ((k - 12 - ppb) div ppb), Leaf_of ((k - 12 - ppb) div ppb) ((k - 12 - ppb) mod ppb)])"

definition leaf :: "nat \<Rightarrow> nat \<Rightarrow> place" where
  "leaf ppb k = last (path ppb k)"

definition most_blocks :: "nat \<Rightarrow> nat" where
  "most_blocks ppb = 12 + ppb + ppb * ppb"

abbreviation ptrs :: "nefs \<Rightarrow> nat" where
  "ptrs fs \<equiv> nefs_bs fs div 8"

lemma path_places: "k < most_blocks ppb \<Longrightarrow> p \<in> set (path ppb k) \<Longrightarrow> is_place ppb p"
proof -
  assume k: "k < most_blocks ppb" and p: "p \<in> set (path ppb k)"
  show ?thesis
  proof (cases "k < 12 \<or> k - 12 < ppb")
    case False
    then have m: "k - 12 - ppb < ppb * ppb" using k by (simp add: most_blocks_def) linarith
    then have "0 < ppb" by (cases ppb) simp_all
    with m p False show ?thesis by (auto simp: path_def less_mult_imp_div_less)
  qed (use p in \<open>auto simp: path_def split: if_splits\<close>)
qed

lemma distinct_path: "distinct (path ppb k)"
  by (simp add: path_def)

lemma leaf_in_path: "leaf ppb k \<in> set (path ppb k)"
  by (simp add: leaf_def path_def)

lemma leaf_outer: "\<not> inner (leaf ppb k)"
  by (simp add: leaf_def path_def)

lemma leaf_leaf: "12 \<le> k \<Longrightarrow> ppb \<le> k - 12 \<Longrightarrow> leaf ppb k = Leaf_of ((k - 12 - ppb) div ppb) ((k - 12 - ppb) mod ppb)"
  by (simp add: leaf_def path_def)

lemma leaf_inj:
  assumes "leaf ppb k = leaf ppb l"
  shows "k = l"
proof -
  have div_mod: "a = b" if "a div ppb = b div ppb" "a mod ppb = b mod ppb" for a b :: nat
    using div_mult_mod_eq [of a ppb] unfolding that div_mult_mod_eq by (rule sym)
  consider "k < 12" | "12 \<le> k" "k - 12 < ppb" | "12 \<le> k" "ppb \<le> k - 12" by linarith
  then show ?thesis
  proof cases
    case 3
    with assms have l: "12 \<le> l" "ppb \<le> l - 12" by (auto simp: leaf_def path_def split: if_splits)
    from assms have "(k - 12 - ppb) div ppb = (l - 12 - ppb) div ppb \<and> (k - 12 - ppb) mod ppb = (l - 12 - ppb) mod ppb"
      by (simp only: leaf_leaf [OF 3] leaf_leaf [OF l] place.inject)
    then have "k - 12 - ppb = l - 12 - ppb" by (elim conjE) (rule div_mod)
    with 3 l show ?thesis by linarith
  qed (use assms in \<open>auto simp: leaf_def path_def split: if_splits\<close>)
qed

section \<open>Well-formed trees\<close>

definition zero_block :: "nefs \<Rightarrow> u64 \<Rightarrow> bool" where
  "zero_block fs b \<longleftrightarrow> blk b (device fs) = replicate (nefs_bs fs) 0"

text \<open>
  No block is held twice, all are allocated, and blocks that are not allocated are zero: a new block of numbers is not cleared.
\<close>

definition tree_ok :: "nefs_inode \<Rightarrow> nefs \<Rightarrow> bool" where
  "tree_ok i fs \<longleftrightarrow> length (direct_blocks i) = 12 \<and>
     (\<forall>p. is_place (ptrs fs) p \<and> val i (device fs) p \<noteq> 0 \<longrightarrow>
        val i (device fs) p \<in> nefs_pool fs \<and> nefs_used fs (val i (device fs) p)) \<and>
     (\<forall>p q. is_place (ptrs fs) p \<and> is_place (ptrs fs) q \<and> val i (device fs) p \<noteq> 0 \<and>
        val i (device fs) q = val i (device fs) p \<longrightarrow> q = p) \<and>
     (\<forall>b \<in> nefs_pool fs. \<not> nefs_used fs b \<longrightarrow> zero_block fs b)"

lemma tree_okD:
  assumes "tree_ok i fs"
  shows "length (direct_blocks i) = 12"
    and "is_place (ptrs fs) p \<Longrightarrow> val i (device fs) p \<noteq> 0 \<Longrightarrow> val i (device fs) p \<in> nefs_pool fs \<and> nefs_used fs (val i (device fs) p)"
    and "is_place (ptrs fs) p \<Longrightarrow> is_place (ptrs fs) q \<Longrightarrow> val i (device fs) p \<noteq> 0 \<Longrightarrow> val i (device fs) q = val i (device fs) p \<Longrightarrow> q = p"
    and "b \<in> nefs_pool fs \<Longrightarrow> \<not> nefs_used fs b \<Longrightarrow> zero_block fs b"
  using assms unfolding tree_ok_def by blast+

lemma ptr_get_put:
  assumes "8 * (n + 1) \<le> length buf" and "8 * (m + 1) \<le> length buf"
  shows "ptr_get (ptr_put buf n v) m = (if m = n then v else ptr_get buf m)"
proof -
  have "ptr_put buf n v = overwrite buf (8 * n) (le_enc 8 (unat v))" by (simp add: ptr_put_def overwrite_def add.commute)
  moreover have "take 8 (drop (8 * m) (overwrite buf (8 * n) (le_enc 8 (unat v)))) =
      (if m = n then le_enc 8 (unat v) else take 8 (drop (8 * m) buf))"
    using assms by (intro nth_equalityI) (auto simp: overwrite_nth)
  ultimately show ?thesis by (simp add: ptr_get_def field_def le_dec_enc mod_word del: power_numeral)
qed

lemma length_ptr_put: "8 * (n + 1) \<le> length buf \<Longrightarrow> length (ptr_put buf n v) = length buf"
  by (simp add: ptr_put_def)

lemma entry_zero: "blk b d = replicate n 0 \<Longrightarrow> 8 * (m + 1) \<le> n \<Longrightarrow> entry d b m = 0"
  by (simp add: entry_def ptr_get_def field_zero)

section \<open>Filling a place\<close>

definition store_entry :: "u64 \<Rightarrow> nat \<Rightarrow> u64 \<Rightarrow> bdev \<Rightarrow> bdev" where
  "store_entry c n b d = bd_write c (ptr_put (blk c d) n b) d"

primrec put_at :: "place \<Rightarrow> u64 \<Rightarrow> nefs_inode \<Rightarrow> bdev \<Rightarrow> nefs_inode \<times> bdev" where
  "put_at (Direct k) b i d = (i\<lparr>direct_blocks := (direct_blocks i)[k := b]\<rparr>, d)"
| "put_at Single b i d = (i\<lparr>indirect_block := b\<rparr>, d)"
| "put_at (Single_of n) b i d = (i, store_entry (val i d Single) n b d)"
| "put_at Double b i d = (i\<lparr>double_indirect_block := b\<rparr>, d)"
| "put_at (Double_of n) b i d = (i, store_entry (val i d Double) n b d)"
| "put_at (Leaf_of n m) b i d = (i, store_entry (val i d (Double_of n)) m b d)"

text \<open>The place on which a place stands, for those that are not in the inode.\<close>

primrec above :: "place \<Rightarrow> place option" where
  "above (Direct k) = None"
| "above Single = None"
| "above (Single_of n) = Some Single"
| "above Double = None"
| "above (Double_of n) = Some Double"
| "above (Leaf_of n m) = Some (Double_of n)"

definition reached :: "nefs_inode \<Rightarrow> bdev \<Rightarrow> place \<Rightarrow> bool" where
  "reached i d p \<longleftrightarrow> (case above p of None \<Rightarrow> True | Some q \<Rightarrow> val i d q \<noteq> 0)"

lemma store_entry_effect:
  assumes "bd_valid d c" and "8 * (n + 1) \<le> block_size d"
  shows "blk c (store_entry c n b d) = ptr_put (blk c d) n b"
    and "x \<noteq> c \<Longrightarrow> blk x (store_entry c n b d) = blk x d"
    and "block_size (store_entry c n b d) = block_size d"
    and "bd_present d x \<Longrightarrow> bd_present (store_entry c n b d) x"
  using assms dev.wr_same dev.wr_other dev.wr_size present_write(2) by (simp_all add: store_entry_def length_ptr_put)

lemma entry_store:
  assumes "bd_valid d c" and "8 * (n + 1) \<le> block_size d" and "8 * (m + 1) \<le> block_size d" and "c \<noteq> 0"
  shows "entry (store_entry c n b d) x m = (if x = c \<and> m = n then b else entry d x m)"
  using assms store_entry_effect [OF assms(1,2)] by (cases "x = c") (auto simp: entry_def ptr_get_put)

lemma put_at_val:
  assumes len: "length (direct_blocks i) = 12"
    and valid: "\<And>p. is_place (block_size d div 8) p \<Longrightarrow> val i d p \<noteq> 0 \<Longrightarrow> bd_valid d (val i d p)"
    and once: "\<And>p q. is_place (block_size d div 8) p \<Longrightarrow> is_place (block_size d div 8) q \<Longrightarrow> val i d p \<noteq> 0 \<Longrightarrow> val i d q = val i d p \<Longrightarrow> q = p"
    and fresh: "b \<noteq> 0" "\<And>p. is_place (block_size d div 8) p \<Longrightarrow> val i d p \<noteq> b" "blk b d = replicate (block_size d) 0"
    and p: "is_place (block_size d div 8) p" "val i d p = 0" "reached i d p"
    and q: "is_place (block_size d div 8) q"
    and put: "put_at p b i d = (i', d')"
  shows "val i' d' q = (if q = p then b else val i d q)"
proof -
  define ppb where "ppb = block_size d div 8"
  note defs = ppb_def [symmetric]
  have fits: "8 * (n + 1) \<le> block_size d" if "n < ppb" for n using that by (simp add: ppb_def)
  have new: "entry d b n = 0" "entry d 0 n = 0" if "n < ppb" for n
    using entry_zero [OF fresh(3) fits [OF that]] by (simp_all add: entry_def)
  have store: "(if x = val i d r \<and> m = n then b else entry d x m) = entry (store_entry (val i d r) n b d) x m"
    if "is_place ppb r" "val i d r \<noteq> 0" "n < ppb" "m < ppb" for r n m x
    using entry_store [OF valid fits fits] that by (simp add: ppb_def)
  have other: "val i d s \<noteq> val i d r" if "is_place ppb r" "val i d r \<noteq> 0" "is_place ppb s" "s \<noteq> r" for r s
    using once that by (auto simp: ppb_def)
  show ?thesis
  proof (cases p)
    case (Direct k)
    then show ?thesis using put len p(1) by (cases q) (auto simp: nth_list_update)
  next
    case Single
    then show ?thesis using put p(2) q new by (cases q) (auto simp: ppb_def)
  next
    case Double
    then show ?thesis using put p(2) q new by (cases q) (auto simp: ppb_def)
  next
    case (Single_of n)
    then have at: "is_place ppb Single" "val i d Single \<noteq> 0" "n < ppb" using p by (simp_all add: reached_def ppb_def)
    note es = store [OF at, symmetric, unfolded val.simps]
    have st: "i' = i" "d' = store_entry (indirect_block i) n b d" using put by (auto simp: Single_of)
    show ?thesis
      using p(1) q other [OF at(1,2), of Double] other [OF at(1,2), of "Double_of _"] fresh(2) [of Single] at
      by (cases q) (auto simp: Single_of st es defs)
  next
    case (Double_of n)
    then have at: "is_place ppb Double" "val i d Double \<noteq> 0" "n < ppb" using p by (simp_all add: reached_def ppb_def)
    note es = store [OF at, symmetric, unfolded val.simps]
    have st: "i' = i" "d' = store_entry (double_indirect_block i) n b d" using put by (auto simp: Double_of)
    show ?thesis
      using p(1,2) q other [OF at(1,2), of Single] other [OF at(1,2), of "Double_of _"] fresh(2) [of Double] at new
      by (cases q) (auto simp: Double_of st es defs)
  next
    case (Leaf_of n m)
    then have at: "is_place ppb (Double_of n)" "val i d (Double_of n) \<noteq> 0" "m < ppb" using p by (simp_all add: reached_def ppb_def)
    note es = store [OF at, symmetric, unfolded val.simps]
    have st: "i' = i" "d' = store_entry (entry d (double_indirect_block i) n) m b d" using put by (auto simp: Leaf_of)
    show ?thesis
      using p(1) q other [OF at(1,2), of Single] other [OF at(1,2), of Double] other [OF at(1,2), of "Double_of _"] at
      by (cases q) (auto simp: Leaf_of st es defs)
  qed
qed

lemma put_at_entry:
  "above p = Some q \<Longrightarrow> is_place ppb p \<Longrightarrow> put_at p b i d = (i', d') \<Longrightarrow> \<exists>n < ppb. d' = store_entry (val i d q) n b d"
  by (cases p; force simp del: val.simps)

lemma put_at_device:
  assumes "reached i d p" and "is_place (block_size d div 8) p" and "put_at p b i d = (i', d')"
    and valid: "\<And>q. is_place (block_size d div 8) q \<Longrightarrow> val i d q \<noteq> 0 \<Longrightarrow> bd_valid d (val i d q)"
  shows "block_size d' = block_size d" and "bd_present d x \<Longrightarrow> bd_present d' x"
    and "(\<And>q. above p = Some q \<Longrightarrow> x \<noteq> val i d q) \<Longrightarrow> blk x d' = blk x d"
    and "length (direct_blocks i') = length (direct_blocks i)"
    and "i' = i\<lparr>direct_blocks := direct_blocks i', indirect_block := indirect_block i', double_indirect_block := double_indirect_block i'\<rparr>"
proof -
  have "block_size d' = block_size d \<and> (bd_present d x \<longrightarrow> bd_present d' x) \<and> ((\<forall>q. above p = Some q \<longrightarrow> x \<noteq> val i d q) \<longrightarrow> blk x d' = blk x d)"
  proof (cases "above p")
    case None
    then show ?thesis using assms(3) by (cases p) auto
  next
    case (Some q)
    then have q: "is_place (block_size d div 8) q" "val i d q \<noteq> 0" using assms(1,2) by (cases p; auto simp: reached_def)+
    obtain n where n: "n < block_size d div 8" "d' = store_entry (val i d q) n b d" using put_at_entry [OF Some assms(2,3)] by blast
    have "8 * (n + 1) \<le> block_size d" using n(1) by simp
    from store_entry_effect [OF valid [OF q] this] n(2) Some show ?thesis by simp
  qed
  then show "block_size d' = block_size d" and "bd_present d x \<Longrightarrow> bd_present d' x"
    and "(\<And>q. above p = Some q \<Longrightarrow> x \<noteq> val i d q) \<Longrightarrow> blk x d' = blk x d" by blast+
  show "length (direct_blocks i') = length (direct_blocks i)"
    and "i' = i\<lparr>direct_blocks := direct_blocks i', indirect_block := indirect_block i', double_indirect_block := double_indirect_block i'\<rparr>"
    using assms(3) by (cases p; auto)+
qed

section \<open>Growing trees\<close>

text \<open>
  From one state to another, places of \<open>S\<close> are filled that were empty, and nothing else happens to the file: the other places, the
  inode's other fields, and all blocks that hold no numbers are kept.
\<close>

definition grown :: "place set \<Rightarrow> nefs_inode \<Rightarrow> nefs \<Rightarrow> nefs_inode \<Rightarrow> nefs \<Rightarrow> bool" where
  "grown S i fs i' fs' \<longleftrightarrow> nefs_ok fs' \<and> tree_ok i' fs' \<and> nefs_bs fs' = nefs_bs fs \<and> nefs_pool fs' = nefs_pool fs \<and>
     i' = i\<lparr>direct_blocks := direct_blocks i', indirect_block := indirect_block i', double_indirect_block := double_indirect_block i'\<rparr> \<and>
     (\<forall>p. is_place (ptrs fs) p \<longrightarrow> (p \<in> S \<longrightarrow> val i' (device fs') p \<noteq> 0) \<and>
        (p \<notin> S \<or> val i (device fs) p \<noteq> 0 \<longrightarrow> val i' (device fs') p = val i (device fs) p)) \<and>
     blocks_free fs = blocks_free fs' + card {p \<in> S. val i (device fs) p = 0} \<and>
     (\<forall>c. (\<forall>p. is_place (ptrs fs) p \<and> inner p \<and> val i' (device fs') p \<noteq> 0 \<longrightarrow> val i' (device fs') p \<noteq> c) \<longrightarrow>
        blk c (device fs') = blk c (device fs) \<and> (bd_present (device fs) c \<longrightarrow> bd_present (device fs') c))"

lemma grownD:
  assumes "grown S i fs i' fs'"
  shows "nefs_ok fs'" "tree_ok i' fs'" "nefs_bs fs' = nefs_bs fs" "nefs_pool fs' = nefs_pool fs"
    "i' = i\<lparr>direct_blocks := direct_blocks i', indirect_block := indirect_block i', double_indirect_block := double_indirect_block i'\<rparr>"
    "is_place (ptrs fs) p \<Longrightarrow> p \<in> S \<Longrightarrow> val i' (device fs') p \<noteq> 0"
    "is_place (ptrs fs) p \<Longrightarrow> p \<notin> S \<or> val i (device fs) p \<noteq> 0 \<Longrightarrow> val i' (device fs') p = val i (device fs) p"
    "blocks_free fs = blocks_free fs' + card {p \<in> S. val i (device fs) p = 0}"
    "(\<And>p. is_place (ptrs fs) p \<Longrightarrow> inner p \<Longrightarrow> val i' (device fs') p \<noteq> 0 \<Longrightarrow> val i' (device fs') p \<noteq> c) \<Longrightarrow>
       blk c (device fs') = blk c (device fs) \<and> (bd_present (device fs) c \<longrightarrow> bd_present (device fs') c)"
  using assms unfolding grown_def by blast+

lemma grown_here:
  assumes "nefs_ok fs" and "tree_ok i fs" and "\<forall>p \<in> S. val i (device fs) p \<noteq> 0"
  shows "grown S i fs i fs"
proof -
  have "{p \<in> S. val i (device fs) p = 0} = {}" using assms(3) by auto
  then show ?thesis using assms unfolding grown_def by (simp only: card.empty) simp
qed

lemma grown_trans:
  assumes "grown S i fs i1 fs1" and "grown T i1 fs1 i2 fs2" and "finite S" "finite T"
    and "\<forall>p \<in> S \<union> T. is_place (ptrs fs) p"
  shows "grown (S \<union> T) i fs i2 fs2"
  unfolding grown_def
proof (intro conjI allI impI)
  note a = grownD [OF assms(1)] and b = grownD [OF assms(2)]
  have bs: "nefs_bs fs1 = nefs_bs fs" by (rule a(3))
  show "nefs_ok fs2" "tree_ok i2 fs2" "nefs_bs fs2 = nefs_bs fs" "nefs_pool fs2 = nefs_pool fs" using a b by simp_all
  show "i2 = i\<lparr>direct_blocks := direct_blocks i2, indirect_block := indirect_block i2, double_indirect_block := double_indirect_block i2\<rparr>"
    by (subst b(5), subst a(5)) (simp add: nefs_inode.splits)
  have keep: "val i2 (device fs2) p = val i (device fs) p" if "is_place (ptrs fs) p" "p \<notin> S \<union> T \<or> val i (device fs) p \<noteq> 0" for p
    using a(7) [of p] b(7) [of p] that bs by auto
  then show "val i2 (device fs2) p = val i (device fs) p" if "is_place (ptrs fs) p" "p \<notin> S \<union> T \<or> val i (device fs) p \<noteq> 0" for p
    using that by blast
  show "val i2 (device fs2) p \<noteq> 0" if "is_place (ptrs fs) p" "p \<in> S \<union> T" for p
    using that a(6) [of p] b(6,7) [of p] bs by auto
  have "{p \<in> S \<union> T. val i (device fs) p = 0} = {p \<in> S. val i (device fs) p = 0} \<union> {p \<in> T. val i1 (device fs1) p = 0}"
    "{p \<in> S. val i (device fs) p = 0} \<inter> {p \<in> T. val i1 (device fs1) p = 0} = {}"
    using assms(5) a(6,7) by fastforce+
  then show "blocks_free fs = blocks_free fs2 + card {p \<in> S \<union> T. val i (device fs) p = 0}"
    using a(8) b(8) assms(3,4) by (simp add: card_Un_disjoint)
  fix c assume c: "\<forall>p. is_place (ptrs fs) p \<and> inner p \<and> val i2 (device fs2) p \<noteq> 0 \<longrightarrow> val i2 (device fs2) p \<noteq> c"
  have "val i1 (device fs1) p \<noteq> c" if "is_place (ptrs fs) p" "inner p" "val i1 (device fs1) p \<noteq> 0" for p
    using b(7) [of p] c that bs by auto
  then have "blk c (device fs1) = blk c (device fs) \<and> (bd_present (device fs) c \<longrightarrow> bd_present (device fs1) c)"
    by (intro a(9)) auto
  moreover have "blk c (device fs2) = blk c (device fs1) \<and> (bd_present (device fs1) c \<longrightarrow> bd_present (device fs2) c)"
    using c bs by (intro b(9)) auto
  ultimately show "blk c (device fs2) = blk c (device fs)" "bd_present (device fs) c \<Longrightarrow> bd_present (device fs2) c" by simp_all
qed

lemma tree_valid: "nefs_ok fs \<Longrightarrow> tree_ok i fs \<Longrightarrow> is_place (ptrs fs) p \<Longrightarrow> val i (device fs) p \<noteq> 0 \<Longrightarrow> bd_valid (device fs) (val i (device fs) p)"
  using tree_okD(2) pool_valid by blast

lemma above_inner: "above p = Some q \<Longrightarrow> inner q \<and> q \<noteq> p \<and> (is_place ppb p \<longrightarrow> is_place ppb q)"
  by (cases p) auto

text \<open>What \<open>alloc_block\<close> gives when there is a free block.\<close>

definition taken :: "u64 \<Rightarrow> nefs \<Rightarrow> nefs \<Rightarrow> bool" where
  "taken b fs fs1 \<longleftrightarrow> b \<in> nefs_pool fs \<and> b \<noteq> 0 \<and> \<not> nefs_used fs b \<and> nefs_ok fs1 \<and> nefs_bs fs1 = nefs_bs fs \<and>
     device fs1 = device fs \<and> nefs_pool fs1 = nefs_pool fs \<and> (\<forall>c \<in> nefs_pool fs. nefs_used fs1 c \<longleftrightarrow> nefs_used fs c \<or> c = b)"

lemma alloc_taken:
  assumes "nefs_ok fs" and "0 < blocks_free fs"
  obtains b fs1 where "alloc_block fs = (b, fs1)" "taken b fs fs1"
  using assms(1)
proof (cases rule: alloc_block_cases)
  case Full
  with assms(2) show ?thesis by (auto simp: blocks_free_def card_gt_0_iff)
next
  case (Block b fs1)
  then show ?thesis by (intro that [of b fs1]) (simp_all add: taken_def)
qed

lemma taken_free: "taken b fs fs1 \<Longrightarrow> blocks_free fs = Suc (blocks_free fs1)"
proof -
  assume b: "taken b fs fs1"
  then have "{c \<in> nefs_pool fs. \<not> nefs_used fs c} = insert b {c \<in> nefs_pool fs1. \<not> nefs_used fs1 c}"
    by (auto simp: taken_def)
  then show ?thesis using b by (simp add: blocks_free_def taken_def)
qed

text \<open>A free block is put at an empty place.\<close>

lemma fill_vals:
  assumes ok: "nefs_ok fs" and tree: "tree_ok i fs" and p: "is_place (ptrs fs) p" "val i (device fs) p = 0" "reached i (device fs) p"
    and b: "taken b fs fs1" and put: "put_at p b i (device fs) = (i', d')" and q: "is_place (ptrs fs) q"
  shows "val i' d' q = (if q = p then b else val i (device fs) q)" and "b \<noteq> val i (device fs) q"
proof -
  have bs: "block_size (device fs) = nefs_bs fs" using ok by (simp add: nefs_ok_def)
  have fresh: "val i (device fs) q \<noteq> b" if "is_place (ptrs fs) q" for q using tree_okD(2) [OF tree that] b by (auto simp: taken_def)
  have zero: "blk b (device fs) = replicate (nefs_bs fs) 0" using tree_okD(4) [OF tree] b by (simp add: zero_block_def taken_def)
  show "val i' d' q = (if q = p then b else val i (device fs) q)"
    by (rule put_at_val [OF tree_okD(1) [OF tree], of "device fs" b p q i' d', unfolded bs])
      (use tree_valid [OF ok tree] tree_okD(3) [OF tree] b fresh zero p q put in \<open>auto simp: taken_def\<close>)
  show "b \<noteq> val i (device fs) q" using fresh [OF q] by blast
qed

lemma fill_tree:
  assumes ok: "nefs_ok fs" and tree: "tree_ok i fs" and p: "is_place (ptrs fs) p" "val i (device fs) p = 0" "reached i (device fs) p"
    and b: "taken b fs fs1" and put: "put_at p b i (device fs) = (i', d')"
  shows "nefs_ok (fs1\<lparr>device := d'\<rparr>) \<and> tree_ok i' (fs1\<lparr>device := d'\<rparr>)"
proof -
  have bs: "block_size (device fs) = nefs_bs fs" using ok by (simp add: nefs_ok_def)
  note dev = put_at_device [OF p(3) _ put, unfolded bs, OF p(1) tree_valid [OF ok tree], simplified]
  note vals = fill_vals [OF ok tree p b put]
  have zeroed: "zero_block (fs1\<lparr>device := d'\<rparr>) c" if c: "c \<in> nefs_pool fs" "\<not> nefs_used fs1 c" for c
  proof -
    have free: "\<not> nefs_used fs c" using b c by (simp add: taken_def)
    have "c \<noteq> val i (device fs) q" if "above p = Some q" for q
      using above_inner [OF that, of "ptrs fs"] tree_okD(2) [OF tree, of q] p(1,3) that free by (auto simp: reached_def)
    then have "blk c d' = blk c (device fs)" by (rule dev(3))
    with tree_okD(4) [OF tree c(1) free] b show ?thesis by (simp add: zero_block_def taken_def)
  qed
  have held: "val i' d' r \<in> nefs_pool fs \<and> nefs_used fs1 (val i' d' r)" if "is_place (ptrs fs) r" "val i' d' r \<noteq> 0" for r
    using vals(1) [OF that(1)] tree_okD(2) [OF tree, of r] that b by (auto simp: taken_def split: if_splits)
  have once: "q = r" if "is_place (ptrs fs) r" "is_place (ptrs fs) q" "val i' d' r \<noteq> 0" "val i' d' q = val i' d' r" for q r
    using that(3,4) tree_okD(3) [OF tree that(1,2)] vals(2) [OF that(1)] vals(2) [OF that(2)]
    unfolding vals(1) [OF that(1)] vals(1) [OF that(2)] by metis
  have same: "ptrs (fs1\<lparr>device := d'\<rparr>) = ptrs fs" "nefs_pool (fs1\<lparr>device := d'\<rparr>) = nefs_pool fs"
    "nefs_used (fs1\<lparr>device := d'\<rparr>) = nefs_used fs1" "device (fs1\<lparr>device := d'\<rparr>) = d'" using b by (simp_all add: taken_def)
  have "length (direct_blocks i') = 12" using dev(4) tree_okD(1) [OF tree] by simp
  then have "tree_ok i' (fs1\<lparr>device := d'\<rparr>)" unfolding tree_ok_def same using zeroed held once by blast
  moreover have "nefs_ok fs1" "block_size d' = nefs_bs fs1" using b dev(1) bs by (simp_all add: taken_def)
  then have "nefs_ok (fs1\<lparr>device := d'\<rparr>)" by (simp add: nefs_ok_def nefs_total_def)
  ultimately show ?thesis by simp
qed

lemma fill:
  assumes ok: "nefs_ok fs" and tree: "tree_ok i fs" and p: "is_place (ptrs fs) p" "val i (device fs) p = 0" "reached i (device fs) p"
    and b: "taken b fs fs1" and put: "put_at p b i (device fs) = (i', d')"
  shows "grown {p} i fs i' (fs1\<lparr>device := d'\<rparr>) \<and> val i' d' p = b"
proof -
  have bs: "block_size (device fs) = nefs_bs fs" using ok by (simp add: nefs_ok_def)
  note dev = put_at_device [OF p(3) _ put, unfolded bs, OF p(1) tree_valid [OF ok tree], simplified]
  note vals = fill_vals [OF ok tree p b put]
  have "{q \<in> {p}. val i (device fs) q = 0} = {p}" using p(2) by auto
  moreover have "blk c d' = blk c (device fs)"
    if c: "\<forall>q. is_place (ptrs fs) q \<and> inner q \<and> val i' d' q \<noteq> 0 \<longrightarrow> val i' d' q \<noteq> c" for c
  proof (rule dev(3))
    fix q assume "above p = Some q"
    with above_inner [OF this, of "ptrs fs"] c vals(1) [of q] p(1,3) show "c \<noteq> val i (device fs) q" by (auto simp: reached_def)
  qed
  ultimately show ?thesis
    using fill_tree [OF assms] vals p b dev(2,5) taken_free [OF b] by (auto simp: grown_def taken_def)
qed

section \<open>Finding a block for writing\<close>

lemma ensure_root:
  assumes ok: "nefs_ok fs" and tree: "tree_ok i fs" and p: "is_place (ptrs fs) p" "above p = None"
    and free: "val i (device fs) p = 0 \<Longrightarrow> 0 < blocks_free fs"
  shows "\<exists>b fs1. ensure_ptr True (val i (device fs) p) fs = (b, fs1) \<and> grown {p} i fs (fst (put_at p b i (device fs))) fs1 \<and>
    val (fst (put_at p b i (device fs))) (device fs1) p = b"
proof (cases "val i (device fs) p = 0")
  case True
  from alloc_taken [OF ok free [OF True]] obtain b fs1 where al: "alloc_block fs = (b, fs1)" "taken b fs fs1" by blast
  have put: "put_at p b i (device fs) = (fst (put_at p b i (device fs)), device fs1)"
    using p(2) al(2) by (cases p) (simp_all add: taken_def)
  have "reached i (device fs) p" using p(2) by (simp add: reached_def)
  from fill [OF ok tree p(1) True this al(2) put] al(1) True show ?thesis by (simp add: ensure_ptr_def)
next
  case False
  then have "fst (put_at p (val i (device fs) p) i (device fs)) = i" using p(2) by (cases p) simp_all
  with False grown_here [OF ok tree, of "{p}"] show ?thesis by (simp add: ensure_ptr_def)
qed

primrec index_of :: "place \<Rightarrow> nat" where
  "index_of (Direct k) = k"
| "index_of Single = 0"
| "index_of (Single_of n) = n"
| "index_of Double = 0"
| "index_of (Double_of n) = n"
| "index_of (Leaf_of n m) = m"

lemma below:
  assumes "above p = Some q"
  shows "put_at p b i d = (i, store_entry (val i d q) (index_of p) b d)" and "val i d p = entry d (val i d q) (index_of p)"
    and "is_place ppb p \<Longrightarrow> is_place ppb q \<and> index_of p < ppb"
  using assms by (cases p; auto)+

lemma load_blk: "nefs_ok fs \<Longrightarrow> bd_valid (device fs) c \<Longrightarrow> c \<noteq> 0 \<Longrightarrow> load_ptrs c fs = blk c (device fs)"
proof -
  assume ok: "nefs_ok fs" and c: "bd_valid (device fs) c" "c \<noteq> 0"
  have bs: "block_size (device fs) = nefs_bs fs" using ok by (simp add: nefs_ok_def)
  let ?got = "take (nefs_bs fs) (drop (unat c * nefs_bs fs) (bd_file (device fs)))"
  have "?got @ drop (length ?got) (replicate (nefs_bs fs) 0) = blk c (device fs)"
    by (rule nth_equalityI) (auto simp: blk_def file_byte_def nth_append bs min_def)
  then show ?thesis using bd_offset_valid [OF c(1)] c(2) bs by (simp add: load_ptrs_def file_read_block_def Let_def)
qed

lemma ensure_below:
  assumes ok: "nefs_ok fs" and tree: "tree_ok i fs" and p: "is_place (ptrs fs) p" "above p = Some q" and q: "val i (device fs) q \<noteq> 0"
    and free: "val i (device fs) p = 0 \<Longrightarrow> 0 < blocks_free fs"
  shows "\<exists>b fs1. ensure_entry True (val i (device fs) q) (load_ptrs (val i (device fs) q) fs) (index_of p) fs = (b, fs1) \<and>
    grown {p} i fs i fs1 \<and> val i (device fs1) p = b"
proof -
  note at = below [OF p(2)]
  have valid: "bd_valid (device fs) (val i (device fs) q)" using tree_valid [OF ok tree] at(3) [OF p(1)] q by blast
  have get: "ptr_get (load_ptrs (val i (device fs) q) fs) (index_of p) = val i (device fs) p"
    using load_blk [OF ok valid q] q at(2) by (simp add: entry_def)
  show ?thesis
  proof (cases "val i (device fs) p = 0")
    case True
    from alloc_taken [OF ok free [OF True]] obtain b fs1 where al: "alloc_block fs = (b, fs1)" "taken b fs fs1" by blast
    let ?fs2 = "fs1\<lparr>device := store_entry (val i (device fs) q) (index_of p) b (device fs)\<rparr>"
    have "ensure_entry True (val i (device fs) q) (load_ptrs (val i (device fs) q) fs) (index_of p) fs = (b, ?fs2)"
      using get True al load_blk [OF ok valid q] by (simp add: ensure_entry_def store_entry_def bd_write_def taken_def)
    moreover have "reached i (device fs) p" using p(2) q by (simp add: reached_def)
    from fill [OF ok tree p(1) True this al(2) at(1)] have "grown {p} i fs i ?fs2 \<and> val i (device ?fs2) p = b" by simp
    ultimately show ?thesis by blast
  next
    case False
    with get grown_here [OF ok tree, of "{p}"] show ?thesis by (simp add: ensure_entry_def)
  qed
qed

lemma grown_room:
  assumes "grown S i fs i1 fs1" and "p \<notin> S" "finite S" "is_place (ptrs fs) p" and "val i1 (device fs1) p = 0"
    and "card {q \<in> insert p S. val i (device fs) q = 0} \<le> blocks_free fs"
  shows "0 < blocks_free fs1"
proof -
  have "val i (device fs) p = 0" using grownD(7) [OF assms(1,4)] assms(2,5) by simp
  then have "{q \<in> insert p S. val i (device fs) q = 0} = insert p {q \<in> S. val i (device fs) q = 0}" by auto
  then show ?thesis using assms(2,3,6) grownD(8) [OF assms(1)] by simp
qed

lemma fewer_empty: "S \<subseteq> T \<Longrightarrow> finite T \<Longrightarrow> card {q \<in> T. f q = (0 :: u64)} \<le> n \<Longrightarrow> card {q \<in> S. f q = 0} \<le> n"
  by (rule order_trans [OF card_mono]) auto

text \<open>One more step below a place that is there.\<close>

lemma step_below:
  assumes g: "grown S i fs i1 fs1" and S: "finite S" "\<forall>q \<in> S. is_place (ptrs fs) q" "p \<notin> S" and p: "is_place (ptrs fs) p" "above p = Some q" "q \<in> S"
    and free: "card {r \<in> insert p S. val i (device fs) r = 0} \<le> blocks_free fs"
  shows "\<exists>b fs2. ensure_entry True (val i1 (device fs1) q) (load_ptrs (val i1 (device fs1) q) fs1) (index_of p) fs1 = (b, fs2) \<and>
    grown (insert p S) i fs i1 fs2 \<and> val i1 (device fs2) p = b"
proof -
  note d = grownD [OF g]
  have p1: "is_place (ptrs fs1) p" using p(1) d(3) by simp
  have q: "val i1 (device fs1) q \<noteq> 0" using d(6) S(2) p(3) by blast
  have room: "val i1 (device fs1) p = 0 \<Longrightarrow> 0 < blocks_free fs1" using grown_room [OF g S(3,1) p(1) _ free] by blast
  from ensure_below [OF d(1,2) p1 p(2) q room] obtain b fs2 where
    e: "ensure_entry True (val i1 (device fs1) q) (load_ptrs (val i1 (device fs1) q) fs1) (index_of p) fs1 = (b, fs2)"
      "grown {p} i1 fs1 i1 fs2" "val i1 (device fs2) p = b" by blast
  have "grown (S \<union> {p}) i fs i1 fs2" by (rule grown_trans [OF g e(2)]) (use S p(1) in auto)
  with e(1,3) show ?thesis by simp
qed

lemma get_block_grows_double:
  assumes ok: "nefs_ok fs" and tree: "tree_ok i fs" and k: "pos div nefs_bs fs = k" "k < most_blocks (ptrs fs)" "12 \<le> k" "ptrs fs \<le> k - 12"
    and free: "card {p \<in> set (path (ptrs fs) k). val i (device fs) p = 0} \<le> blocks_free fs"
  shows "\<exists>i' fs1. get_block_at_offset True pos i fs = (val i' (device fs1) (leaf (ptrs fs) k), i', fs1) \<and>
    grown (set (path (ptrs fs) k)) i fs i' fs1"
proof -
  note places = path_places [OF k(2)]
  have root: "val i (device fs) p = 0 \<Longrightarrow> 0 < blocks_free fs" if "p \<in> set (path (ptrs fs) k)" for p
    using fewer_empty [OF _ _ free, of "{p}"] that by (auto simp: Collect_conv_if)
  define n where "n = (k - 12 - ptrs fs) div ptrs fs"
  define m where "m = (k - 12 - ptrs fs) mod ptrs fs"
  have path: "path (ptrs fs) k = [Double, Double_of n, Leaf_of n m]" using k by (simp add: path_def n_def m_def)
  have nm: "n < ptrs fs" "m < ptrs fs" using places [of "Leaf_of n m"] by (simp_all add: path)
  have in_tree: "k - 12 - ptrs fs < ptrs fs * ptrs fs" using k by (simp add: most_blocks_def)
  let ?i = "\<lambda>b. i\<lparr>double_indirect_block := b\<rparr>"
  from ensure_root [OF ok tree, of Double] root [of Double] obtain b fs1 where
    r: "ensure_ptr True (double_indirect_block i) fs = (b, fs1)" "grown {Double} i fs (?i b) fs1" by (auto simp: path)
  have "card {q \<in> {Double_of n, Double}. val i (device fs) q = 0} \<le> blocks_free fs"
    by (rule fewer_empty [OF _ _ free]) (auto simp: path)
  from step_below [OF r(2) _ _ _ _ _ _ this] nm obtain c fs2 where
    s: "ensure_entry True b (load_ptrs b fs1) n fs1 = (c, fs2)" "grown {Double_of n, Double} i fs (?i b) fs2"
      "val (?i b) (device fs2) (Double_of n) = c" by auto
  have "card {q \<in> insert (Leaf_of n m) {Double_of n, Double}. val i (device fs) q = 0} \<le> blocks_free fs"
    by (rule fewer_empty [OF _ _ free]) (auto simp: path)
  from step_below [OF s(2) _ _ _ _ _ _ this] nm s(3) obtain e fs3 where
    t: "ensure_entry True c (load_ptrs c fs2) m fs2 = (e, fs3)" "grown {Leaf_of n m, Double_of n, Double} i fs (?i b) fs3"
      "val (?i b) (device fs3) (Leaf_of n m) = e" by auto
  have "get_block_at_offset True pos i fs = (e, ?i b, fs3)"
    using k in_tree r(1) s(1) t(1) by (simp add: get_block_at_offset_def Let_def n_def m_def)
  with t(2,3) show ?thesis by (auto simp: path leaf_def insert_commute)
qed

lemma get_block_grows:
  assumes ok: "nefs_ok fs" and tree: "tree_ok i fs" and k: "pos div nefs_bs fs = k" "k < most_blocks (ptrs fs)"
    and free: "card {p \<in> set (path (ptrs fs) k). val i (device fs) p = 0} \<le> blocks_free fs"
  shows "\<exists>i' fs1. get_block_at_offset True pos i fs = (val i' (device fs1) (leaf (ptrs fs) k), i', fs1) \<and>
    grown (set (path (ptrs fs) k)) i fs i' fs1"
proof -
  note places = path_places [OF k(2)]
  have root: "val i (device fs) p = 0 \<Longrightarrow> 0 < blocks_free fs" if "p \<in> set (path (ptrs fs) k)" for p
    using fewer_empty [OF _ _ free, of "{p}"] that by (auto simp: Collect_conv_if)
  consider "k < 12" | "12 \<le> k" "k - 12 < ptrs fs" | "12 \<le> k" "ptrs fs \<le> k - 12" by linarith
  then show ?thesis
  proof cases
    case 1
    then have path: "path (ptrs fs) k = [Direct k]" by (simp add: path_def)
    with ensure_root [OF ok tree, of "Direct k"] root [of "Direct k"] 1 show ?thesis
      by (auto simp: get_block_at_offset_def k(1) Let_def leaf_def)
  next
    case 2
    define n where "n = k - 12"
    have path: "path (ptrs fs) k = [Single, Single_of n]" using 2 by (simp add: path_def n_def)
    from ensure_root [OF ok tree, of Single] root [of Single] obtain b fs1 where
      r: "ensure_ptr True (indirect_block i) fs = (b, fs1)" "grown {Single} i fs (i\<lparr>indirect_block := b\<rparr>) fs1" by (auto simp: path)
    from step_below [OF r(2), of "Single_of n" Single] 2 free obtain c fs2 where
      s: "ensure_entry True b (load_ptrs b fs1) n fs1 = (c, fs2)" "grown {Single_of n, Single} i fs (i\<lparr>indirect_block := b\<rparr>) fs2"
        "val (i\<lparr>indirect_block := b\<rparr>) (device fs2) (Single_of n) = c" by (auto simp: path n_def insert_commute)
    have "get_block_at_offset True pos i fs = (c, i\<lparr>indirect_block := b\<rparr>, fs2)"
      using 2 r(1) s(1) by (simp add: get_block_at_offset_def k(1) Let_def n_def)
    with s(2,3) show ?thesis by (auto simp: path leaf_def insert_commute)
  next
    case 3
    then show ?thesis using get_block_grows_double [OF ok tree k] free by blast
  qed
qed

section \<open>Bytes of a file\<close>

definition block_of :: "nefs_inode \<Rightarrow> nefs \<Rightarrow> nat \<Rightarrow> u64" where
  "block_of i fs q = val i (device fs) (leaf (ptrs fs) (q div nefs_bs fs))"

definition has_byte :: "nefs_inode \<Rightarrow> nefs \<Rightarrow> nat \<Rightarrow> bool" where
  "has_byte i fs q \<longleftrightarrow> block_of i fs q \<noteq> 0 \<and> bd_present (device fs) (block_of i fs q)"

definition byte_at :: "nefs_inode \<Rightarrow> nefs \<Rightarrow> nat \<Rightarrow> u8" where
  "byte_at i fs q = blk (block_of i fs q) (device fs) ! (q mod nefs_bs fs)"

text \<open>The bytes from \<open>lo\<close> to \<open>hi\<close> become those of \<open>f\<close>, and the others stay.\<close>

definition bytes_put :: "nat \<Rightarrow> nat \<Rightarrow> (nat \<Rightarrow> u8) \<Rightarrow> nefs_inode \<Rightarrow> nefs \<Rightarrow> nefs_inode \<Rightarrow> nefs \<Rightarrow> bool" where
  "bytes_put lo hi f i fs i' fs' \<longleftrightarrow> (\<forall>q. q div nefs_bs fs < most_blocks (ptrs fs) \<longrightarrow> has_byte i fs q \<or> lo \<le> q \<and> q < hi \<longrightarrow>
     has_byte i' fs' q \<and> byte_at i' fs' q = (if lo \<le> q \<and> q < hi then f q else byte_at i fs q))"

lemma bytes_putD:
  "bytes_put lo hi f i fs i' fs' \<Longrightarrow> q div nefs_bs fs < most_blocks (ptrs fs) \<Longrightarrow> has_byte i fs q \<or> lo \<le> q \<and> q < hi \<Longrightarrow>
    has_byte i' fs' q \<and> byte_at i' fs' q = (if lo \<le> q \<and> q < hi then f q else byte_at i fs q)"
  unfolding bytes_put_def by blast

lemma bytes_put_trans:
  assumes "bytes_put lo mid f i fs i1 fs1" and "bytes_put mid hi f i1 fs1 i2 fs2" and "lo \<le> mid" "mid \<le> hi" and "nefs_bs fs1 = nefs_bs fs"
  shows "bytes_put lo hi f i fs i2 fs2"
  unfolding bytes_put_def
proof (intro allI impI)
  fix q assume q: "q div nefs_bs fs < most_blocks (ptrs fs)" "has_byte i fs q \<or> lo \<le> q \<and> q < hi"
  note second = bytes_putD [OF assms(2), of q, unfolded assms(5), OF q(1)]
  show "has_byte i2 fs2 q \<and> byte_at i2 fs2 q = (if lo \<le> q \<and> q < hi then f q else byte_at i fs q)"
  proof (cases "mid \<le> q \<and> q < hi")
    case True
    with second assms(3) show ?thesis by simp
  next
    case False
    with q(2) have "has_byte i fs q \<or> lo \<le> q \<and> q < mid" by auto
    from bytes_putD [OF assms(1) q(1) this] second False assms(4) show ?thesis by auto
  qed
qed

lemma val_cong:
  assumes "\<And>p. is_place ppb p \<Longrightarrow> inner p \<Longrightarrow> val i d p \<noteq> 0 \<Longrightarrow> blk (val i d p) d' = blk (val i d p) d" and "is_place ppb q"
  shows "val i d' q = val i d q"
proof -
  have entries: "entry d' (val i d p) n = entry d (val i d p) n" if "is_place ppb p" "inner p" for p n
    using assms(1) that by (auto simp: entry_def)
  show ?thesis
    using entries [of Single] entries [of Double] entries [of "Double_of _"] assms(2) by (cases q) simp_all
qed

lemma tree_keep:
  assumes tree: "tree_ok i fs" and same: "nefs_bs fs' = nefs_bs fs" "nefs_pool fs' = nefs_pool fs" "nefs_used fs' = nefs_used fs"
    and vals: "\<And>r. is_place (ptrs fs) r \<Longrightarrow> val i (device fs') r = val i (device fs) r"
    and blocks: "\<And>c. c \<in> nefs_pool fs \<Longrightarrow> \<not> nefs_used fs c \<Longrightarrow> blk c (device fs') = blk c (device fs)"
  shows "tree_ok i fs'"
proof -
  have "val i (device fs') r \<in> nefs_pool fs \<and> nefs_used fs (val i (device fs') r)"
    if "is_place (ptrs fs) r" "val i (device fs') r \<noteq> 0" for r
    using tree_okD(2) [OF tree that(1)] that(2) unfolding vals [OF that(1)] .
  moreover have "q = r" if "is_place (ptrs fs) r" "is_place (ptrs fs) q" "val i (device fs') r \<noteq> 0" "val i (device fs') q = val i (device fs') r" for q r
    using tree_okD(3) [OF tree that(1,2)] that(3,4) unfolding vals [OF that(1)] vals [OF that(2)] .
  moreover have "zero_block fs' c" if "c \<in> nefs_pool fs" "\<not> nefs_used fs c" for c
    using tree_okD(4) [OF tree that] blocks [OF that] by (simp add: zero_block_def same)
  ultimately show ?thesis unfolding tree_ok_def same using tree_okD(1) [OF tree] by blast
qed

text \<open>Writing into a block of data leaves the tree as it is.\<close>

lemma data_write:
  assumes ok: "nefs_ok fs" and tree: "tree_ok i fs" and k: "k < most_blocks (ptrs fs)"
    and b: "b = val i (device fs) (leaf (ptrs fs) k)" "b \<noteq> 0" and fit: "off + length chunk \<le> nefs_bs fs"
    and fs': "fs' = put_chunk heap off chunk b fs"
  shows "tree_ok i fs'" and "is_place (ptrs fs) p \<Longrightarrow> val i (device fs') p = val i (device fs) p"
proof -
  have place: "is_place (ptrs fs) (leaf (ptrs fs) k)" using path_places [OF k leaf_in_path] .
  note pc = put_chunk_effect [OF ok tree_valid [OF ok tree place, folded b(1), OF b(2)] fit, where heap = heap, folded fs']
  have vals: "val i (device fs') p = val i (device fs) p" if "is_place (ptrs fs) p" for p
  proof (rule val_cong [OF _ that])
    fix r assume r: "is_place (ptrs fs) r" "inner r" "val i (device fs) r \<noteq> 0"
    then have "val i (device fs) r \<noteq> b" using tree_okD(3) [OF tree place r(1)] b leaf_outer by metis
    then show "blk (val i (device fs) r) (device fs') = blk (val i (device fs) r) (device fs)" by (rule pc(4))
  qed
  then show "is_place (ptrs fs) p \<Longrightarrow> val i (device fs') p = val i (device fs) p" .
  show "tree_ok i fs'"
  proof (rule tree_keep [OF tree pc(9,7,8) vals])
    fix c assume "c \<in> nefs_pool fs" "\<not> nefs_used fs c"
    then have "c \<noteq> b" using tree_okD(2) [OF tree place] b by auto
    then show "blk c (device fs') = blk c (device fs)" by (rule pc(4))
  qed
qed

section \<open>The copying loops\<close>

text \<open>What a part of a write does: bytes are put, and the blocks before those for data are kept.\<close>

definition wrote :: "nat \<Rightarrow> nat \<Rightarrow> (nat \<Rightarrow> u8) \<Rightarrow> nefs_inode \<Rightarrow> nefs \<Rightarrow> nefs_inode \<Rightarrow> nefs \<Rightarrow> bool" where
  "wrote lo hi f i fs i' fs' \<longleftrightarrow> nefs_ok fs' \<and> tree_ok i' fs' \<and> nefs_bs fs' = nefs_bs fs \<and>
     i' = i\<lparr>direct_blocks := direct_blocks i', indirect_block := indirect_block i', double_indirect_block := double_indirect_block i'\<rparr> \<and>
     bytes_put lo hi f i fs i' fs' \<and>
     (\<forall>c. unat c < 10000 \<longrightarrow> blk c (device fs') = blk c (device fs) \<and> (bd_present (device fs) c \<longrightarrow> bd_present (device fs') c))"

lemma wrote_nothing: "nefs_ok fs \<Longrightarrow> tree_ok i fs \<Longrightarrow> wrote lo lo f i fs i fs"
  by (auto simp: wrote_def bytes_put_def)

lemma wrote_trans:
  assumes "wrote lo mid f i fs i1 fs1" and "wrote mid hi f i1 fs1 i2 fs2" and "lo \<le> mid" "mid \<le> hi"
  shows "wrote lo hi f i fs i2 fs2"
proof -
  have "bytes_put lo hi f i fs i2 fs2"
    using assms by (intro bytes_put_trans [of lo mid f i fs i1 fs1 hi i2 fs2]) (simp_all add: wrote_def)
  moreover have "i2 = i\<lparr>direct_blocks := direct_blocks i2, indirect_block := indirect_block i2, double_indirect_block := double_indirect_block i2\<rparr>"
  proof -
    have "i1 = i\<lparr>direct_blocks := direct_blocks i1, indirect_block := indirect_block i1, double_indirect_block := double_indirect_block i1\<rparr>"
      "i2 = i1\<lparr>direct_blocks := direct_blocks i2, indirect_block := indirect_block i2, double_indirect_block := double_indirect_block i2\<rparr>"
      using assms(1,2) by (simp_all add: wrote_def)
    then show ?thesis by (cases i; cases i1; cases i2) simp
  qed
  ultimately show ?thesis using assms by (simp add: wrote_def)
qed

lemma outer_kept:
  assumes "grown S i fs i1 fs1" and "is_place (ptrs fs) p" "\<not> inner p" and "val i1 (device fs1) p = c" "c \<noteq> 0"
  shows "blk c (device fs1) = blk c (device fs) \<and> (bd_present (device fs) c \<longrightarrow> bd_present (device fs1) c)"
proof (rule grownD(9) [OF assms(1)])
  fix r assume r: "is_place (ptrs fs) r" "inner r" "val i1 (device fs1) r \<noteq> 0"
  note d = grownD [OF assms(1)]
  show "val i1 (device fs1) r \<noteq> c" using tree_okD(3) [OF d(2), of p r] assms(2-5) r d(3) by auto
qed

text \<open>The bytes after data were put into block \<open>k\<close> of a grown tree.\<close>

lemma turn_bytes:
  assumes g: "grown S i fs i1 fs1" and k: "p div nefs_bs fs < most_blocks (ptrs fs)" "leaf (ptrs fs) (p div nefs_bs fs) \<in> S"
    and fit: "p mod nefs_bs fs + length chunk \<le> nefs_bs fs"
    and fs': "fs' = put_chunk heap (p mod nefs_bs fs) chunk (block_of i1 fs1 p) fs1"
  shows "bytes_put p (p + length chunk) (\<lambda>q. chunk ! (q - p)) i fs i1 fs'"
  unfolding bytes_put_def
proof (intro allI impI)
  let ?bs = "nefs_bs fs" and ?leaf = "\<lambda>q. leaf (ptrs fs) (q div nefs_bs fs)"
  define b where "b = block_of i1 fs1 p"
  note d = grownD [OF g]
  have places: "is_place (ptrs fs) (?leaf q)" if "q div ?bs < most_blocks (ptrs fs)" for q using path_places [OF that leaf_in_path] .
  have b: "b = val i1 (device fs1) (?leaf p)" "b \<noteq> 0" using d(6) [OF places [OF k(1)] k(2)] d(3) by (simp_all add: b_def block_of_def)
  have valid: "bd_valid (device fs1) b" using tree_valid [OF d(1,2), of "?leaf p"] places [OF k(1)] b d(3) by simp
  have fit1: "p mod ?bs + length chunk \<le> nefs_bs fs1" using fit d(3) by simp
  note pc = put_chunk_effect [OF d(1) valid fit1, where heap = heap, folded b_def, folded fs' [folded b_def]]
  have vals: "val i1 (device fs') r = val i1 (device fs1) r" if "is_place (ptrs fs) r" for r
    by (rule data_write(2) [OF d(1,2) _ _ b(2) fit1, where k = "p div ?bs" and heap = heap]) (use k(1) b that d(3) fs' in \<open>simp_all add: b_def\<close>)
  have bs: "nefs_bs fs' = ?bs" using pc(9) d(3) by simp
  fix q assume q: "q div ?bs < most_blocks (ptrs fs)" "has_byte i fs q \<or> p \<le> q \<and> q < p + length chunk"
  define c where "c = val i1 (device fs1) (?leaf q)"
  have c: "block_of i1 fs' q = c" using vals [OF places [OF q(1)]] by (simp add: block_of_def bs c_def)
  have old: "c = block_of i fs q" "c \<noteq> 0" "bd_present (device fs1) c" "blk c (device fs1) = blk c (device fs)" if "has_byte i fs q"
    using that d(7) [OF places [OF q(1)]] outer_kept [OF g places [OF q(1)] leaf_outer c_def [symmetric]]
    by (auto simp: has_byte_def block_of_def c_def)
  have j: "q mod ?bs < nefs_bs fs1" using d(1,3) by (simp add: nefs_ok_def)
  show "has_byte i1 fs' q \<and> byte_at i1 fs' q = (if p \<le> q \<and> q < p + length chunk then chunk ! (q - p) else byte_at i fs q)"
  proof (cases "p \<le> q \<and> q < p + length chunk")
    case True
    then have m: "q div ?bs = p div ?bs" "q mod ?bs = p mod ?bs + (q - p)" using same_block [OF fit] by auto
    have "c = b" using m(1) b(1) by (simp add: c_def)
    moreover have "p mod ?bs \<le> q mod ?bs" "q mod ?bs < p mod ?bs + length chunk" "q mod ?bs - p mod ?bs = q - p"
      using True unfolding m(2) by auto
    then have "blk b (device fs') ! (q mod ?bs) = chunk ! (q - p)" using pc(5) [OF j] by simp
    ultimately show ?thesis using True b(2) pc(2) c by (simp add: has_byte_def byte_at_def bs)
  next
    case False
    with q(2) have has: "has_byte i fs q" by blast
    have "blk c (device fs') ! (q mod ?bs) = blk c (device fs1) ! (q mod ?bs)"
    proof (cases "c = b")
      case True
      then have "?leaf q = ?leaf p" using tree_okD(3) [OF d(2), of "?leaf p" "?leaf q"] places k(1) q(1) b d(3) by (simp add: c_def)
      then have "q div ?bs = p div ?bs" by (rule leaf_inj)
      from in_chunk [OF this, of "length chunk"] False have "\<not> (p mod ?bs \<le> q mod ?bs \<and> q mod ?bs < p mod ?bs + length chunk)" by simp
      with pc(6) [OF j] old(3) [OF has] True show ?thesis by simp
    next
      case False
      with pc(4) show ?thesis by simp
    qed
    then show ?thesis unfolding if_not_P [OF False] using old [OF has] pc(3) c by (simp add: has_byte_def byte_at_def bs)
  qed
qed

text \<open>The places on the way to a range of bytes, and how many of them are empty.\<close>

definition touched :: "nefs \<Rightarrow> nat \<Rightarrow> nat \<Rightarrow> place set" where
  "touched fs lo hi = (\<Union>q \<in> {lo..<hi}. set (path (ptrs fs) (q div nefs_bs fs)))"

definition missing :: "nefs_inode \<Rightarrow> nefs \<Rightarrow> place set \<Rightarrow> nat" where
  "missing i fs T = card {p \<in> T. val i (device fs) p = 0}"

lemma finite_touched [simp]: "finite (touched fs lo hi)"
  by (simp add: touched_def)

lemma path_touched: "lo \<le> q \<Longrightarrow> q < hi \<Longrightarrow> set (path (ptrs fs) (q div nefs_bs fs)) \<subseteq> touched fs lo hi"
  unfolding touched_def by (rule UN_upper) simp

lemma touched_mono: "lo \<le> lo' \<Longrightarrow> touched fs lo' hi \<subseteq> touched fs lo hi"
  unfolding touched_def by (rule UN_mono) auto

lemma touched_place:
  assumes "(hi - 1) div nefs_bs fs < most_blocks (ptrs fs)" and "r \<in> touched fs lo hi"
  shows "is_place (ptrs fs) r"
proof -
  obtain q where q: "lo \<le> q" "q < hi" "r \<in> set (path (ptrs fs) (q div nefs_bs fs))" using assms(2) by (auto simp: touched_def)
  then have "q div nefs_bs fs < most_blocks (ptrs fs)" using assms(1) div_le_mono [of q "hi - 1" "nefs_bs fs"] by linarith
  then show ?thesis using q(3) by (rule path_places)
qed

text \<open>One turn of the write loop, at position \<open>p\<close> of the file.\<close>

lemma write_turn:
  assumes ok: "nefs_ok fs" and tree: "tree_ok i fs" and p: "p < hi" "p + length chunk \<le> hi" "(hi - 1) div nefs_bs fs < most_blocks (ptrs fs)"
    and fit: "p mod nefs_bs fs + length chunk \<le> nefs_bs fs" and free: "missing i fs (touched fs p hi) \<le> blocks_free fs"
  obtains b i' fs1 fs' where "get_block_at_offset True p i fs = (b, i', fs1)" "b \<noteq> 0" "nefs_bs fs1 = nefs_bs fs"
    "fs' = put_chunk heap (p mod nefs_bs fs) chunk b fs1" "wrote p (p + length chunk) (\<lambda>q. chunk ! (q - p)) i fs i' fs'"
    "missing i' fs' (touched fs (p + length chunk) hi) \<le> blocks_free fs'"
proof -
  let ?k = "p div nefs_bs fs" let ?path = "set (path (ptrs fs) ?k)" let ?T = "touched fs p hi"
  have k: "?k < most_blocks (ptrs fs)" using p(1,3) div_le_mono [of p "hi - 1" "nefs_bs fs"] by linarith
  have sub: "?path \<subseteq> ?T" using path_touched [of p p hi fs] p(1) by simp
  have "card {r \<in> ?path. val i (device fs) r = 0} \<le> blocks_free fs" using fewer_empty [OF sub _ free [unfolded missing_def]] by simp
  from get_block_grows [OF ok tree refl k this] obtain i' fs1 where
    get: "get_block_at_offset True p i fs = (val i' (device fs1) (leaf (ptrs fs) ?k), i', fs1)" and g: "grown ?path i fs i' fs1" by blast
  define b where "b = val i' (device fs1) (leaf (ptrs fs) ?k)"
  note d = grownD [OF g]
  have leaf: "is_place (ptrs fs) (leaf (ptrs fs) ?k)" using path_places [OF k leaf_in_path] .
  have b: "b \<noteq> 0" "b = block_of i' fs1 p" using d(6) [OF leaf leaf_in_path] d(3) by (simp_all add: b_def block_of_def)
  define fs' where "fs' = put_chunk heap (p mod nefs_bs fs) chunk b fs1"
  have fit1: "p mod nefs_bs fs + length chunk \<le> nefs_bs fs1" using fit d(3) by simp
  have valid: "bd_valid (device fs1) b" using tree_valid [OF d(1,2)] leaf d(3) b(1) b_def by simp
  note pc = put_chunk_effect [OF d(1) valid fit1, where heap = heap, folded fs'_def]
  have b1: "b = val i' (device fs1) (leaf (ptrs fs1) ?k)" "?k < most_blocks (ptrs fs1)" using d(3) k by (simp_all add: b_def)
  note dw = data_write [OF d(1,2) b1(2,1) b(1) fit1 fs'_def]
  have "bytes_put p (p + length chunk) (\<lambda>q. chunk ! (q - p)) i fs i' fs'"
    by (rule turn_bytes [OF g k leaf_in_path fit]) (simp add: fs'_def b(2))
  moreover have "\<forall>c. unat c < 10000 \<longrightarrow> blk c (device fs') = blk c (device fs) \<and> (bd_present (device fs) c \<longrightarrow> bd_present (device fs') c)"
  proof (intro allI impI)
    fix c :: u64 assume c: "unat c < 10000"
    have held: "val i' (device fs1) r \<noteq> c" if "is_place (ptrs fs) r" "val i' (device fs1) r \<noteq> 0" for r
      using tree_okD(2) [OF d(2), of r] that c d(3) by (auto simp: nefs_pool_def)
    then have "blk c (device fs1) = blk c (device fs) \<and> (bd_present (device fs) c \<longrightarrow> bd_present (device fs1) c)" by (intro d(9)) blast
    moreover have "c \<noteq> b" using held leaf b(1) b_def by blast
    ultimately show "blk c (device fs') = blk c (device fs) \<and> (bd_present (device fs) c \<longrightarrow> bd_present (device fs') c)"
      using pc(3,4) by simp
  qed
  moreover have "nefs_bs fs' = nefs_bs fs" using pc(9) d(3) by simp
  ultimately have wrote: "wrote p (p + length chunk) (\<lambda>q. chunk ! (q - p)) i fs i' fs'"
    unfolding wrote_def using pc(1) dw(1) d(5) by blast
  have still: "r \<in> ?T \<and> r \<notin> ?path \<and> val i (device fs) r = 0" if r: "r \<in> touched fs (p + length chunk) hi" "val i' (device fs') r = 0" for r
  proof -
    have T: "r \<in> ?T" using r(1) touched_mono [of p "p + length chunk" fs hi] by auto
    have place: "is_place (ptrs fs) r" by (rule touched_place [OF p(3) T])
    then have "val i' (device fs1) r = 0" using dw(2) [of r] r(2) d(3) by simp
    with T d(6,7) [OF place] show ?thesis by metis
  qed
  have "{r \<in> touched fs (p + length chunk) hi. val i' (device fs') r = 0} \<union> {r \<in> ?path. val i (device fs) r = 0} \<subseteq> {r \<in> ?T. val i (device fs) r = 0}"
    "{r \<in> touched fs (p + length chunk) hi. val i' (device fs') r = 0} \<inter> {r \<in> ?path. val i (device fs) r = 0} = {}"
    using still sub by auto
  then have "missing i' fs' (touched fs (p + length chunk) hi) + card {r \<in> ?path. val i (device fs) r = 0} \<le> missing i fs ?T"
    unfolding missing_def by (subst card_Un_disjoint [symmetric]) (auto intro!: card_mono)
  then have "missing i' fs' (touched fs (p + length chunk) hi) \<le> blocks_free fs'" using free d(8) pc(10) by simp
  from that [OF get [folded b_def] b(1) d(3) fs'_def wrote this] show thesis .
qed

lemma wrote_cong: "wrote lo hi f i fs i' fs' \<Longrightarrow> (\<And>q. lo \<le> q \<Longrightarrow> q < hi \<Longrightarrow> f q = g q) \<Longrightarrow> wrote lo hi g i fs i' fs'"
  by (simp add: wrote_def bytes_put_def)

text \<open>The whole write loop: the bytes of the range are those of the buffer, all others are kept.\<close>

lemma write_loop:
  assumes "nefs_ok fs" "tree_ok i fs" "(offset + length data - 1) div nefs_bs fs < most_blocks (ptrs fs)"
    "missing i fs (touched fs (offset + written) (offset + length data)) \<le> blocks_free fs" "written \<le> length data"
  shows "\<exists>i' fs'. nefs_write_loop heap data offset written i fs = (length data, i', fs') \<and>
    wrote (offset + written) (offset + length data) (\<lambda>q. data ! (q - offset)) i fs i' fs'"
  using assms
proof (induction "length data - written" arbitrary: written i fs rule: less_induct)
  case less
  have bs: "0 < nefs_bs fs" using less.prems(1) by (simp add: nefs_ok_def)
  show ?case
  proof (cases "written < length data")
    case False
    then have "nefs_write_loop heap data offset written i fs = (length data, i, fs)"
      using less.prems(5) by (simp add: nefs_write_loop.simps)
    with False less.prems wrote_nothing show ?thesis by auto
  next
    case True
    let ?p = "offset + written" and ?bs = "nefs_bs fs" and ?hi = "offset + length data"
    define n where "n = min (?bs - ?p mod ?bs) (length data - written)"
    let ?chunk = "take n (drop written data)"
    have "?p mod ?bs < ?bs" using bs by simp
    then have pos: "0 < n" "written + n \<le> length data" "?p mod ?bs + n \<le> ?bs" using True unfolding n_def by linarith+
    then have n: "length ?chunk = n" by simp
    have "?p < ?hi" "?p + length ?chunk \<le> ?hi" "?p mod ?bs + length ?chunk \<le> ?bs" using True pos n by simp_all
    note turn = write_turn [OF less.prems(1,2) this(1,2) less.prems(3) this(3) less.prems(4), where heap = heap, unfolded n]
    obtain b i1 fs1 fs2 where
      t: "get_block_at_offset True ?p i fs = (b, i1, fs1)" "b \<noteq> 0" "nefs_bs fs1 = ?bs" "fs2 = put_chunk heap (?p mod ?bs) ?chunk b fs1"
        "wrote ?p (?p + n) (\<lambda>q. ?chunk ! (q - ?p)) i fs i1 fs2" "missing i1 fs2 (touched fs (?p + n) ?hi) \<le> blocks_free fs2"
      by (rule turn) (rule that)
    have same: "nefs_ok fs2" "tree_ok i1 fs2" "nefs_bs fs2 = ?bs" using t(5) by (simp_all add: wrote_def)
    have step: "nefs_write_loop heap data offset written i fs = nefs_write_loop heap data offset (written + n) i1 fs2"
      using True bs t(1-4) by (subst nefs_write_loop.simps) (simp add: Let_def put_chunk_def bd_write_def n_def)
    have "length data - (written + n) < length data - written" using pos(1) True by simp
    moreover have "touched fs2 (offset + (written + n)) ?hi = touched fs (?p + n) ?hi" using same(3) by (simp add: touched_def add.assoc)
    ultimately obtain i' fs' where r: "nefs_write_loop heap data offset (written + n) i1 fs2 = (length data, i', fs')"
      "wrote (?p + n) ?hi (\<lambda>q. data ! (q - offset)) i1 fs2 i' fs'"
      using less.hyps [of "written + n" fs2 i1] same less.prems(3) t(6) pos(2) by (auto simp: add.assoc)
    have "wrote ?p (?p + n) (\<lambda>q. data ! (q - offset)) i fs i1 fs2"
      by (rule wrote_cong [OF t(5)]) (use pos(2) in \<open>auto simp: add.commute\<close>)
    from wrote_trans [OF this r(2)] pos step r(1) show ?thesis by auto
  qed
qed

lemma ensure_ptr_read: "ensure_ptr False p fs = (p, fs)"
  by (simp add: ensure_ptr_def)

lemma load_entry:
  assumes "nefs_ok fs" and "c \<noteq> 0 \<Longrightarrow> bd_valid (device fs) c" and "n < ptrs fs"
  shows "ensure_entry False c (load_ptrs c fs) n fs = (entry (device fs) c n, fs)"
proof (cases "c = 0")
  case True
  have "8 * (n + 1) \<le> nefs_bs fs" using assms(3) by simp
  then have "ptr_get (replicate (nefs_bs fs) 0) n = 0" by (simp add: ptr_get_def field_zero)
  then show ?thesis using True by (simp add: ensure_entry_def load_ptrs_def Let_def entry_def)
next
  case False
  then show ?thesis using load_blk [OF assms(1,2)] by (simp add: ensure_entry_def entry_def)
qed

lemma get_block_read:
  assumes ok: "nefs_ok fs" and tree: "tree_ok i fs" and k: "p div nefs_bs fs < most_blocks (ptrs fs)"
  shows "get_block_at_offset False p i fs = (block_of i fs p, i, fs)"
proof -
  define m where "m = p div nefs_bs fs"
  have valid: "bd_valid (device fs) (val i (device fs) r)" if "is_place (ptrs fs) r" "val i (device fs) r \<noteq> 0" for r
    using tree_valid [OF ok tree that] .
  have len: "length (direct_blocks i) = 12" by (rule tree_okD(1) [OF tree])
  consider "m < 12" | "12 \<le> m" "m - 12 < ptrs fs" | "12 \<le> m" "ptrs fs \<le> m - 12" by linarith
  then show ?thesis
  proof cases
    case 1
    then show ?thesis by (simp add: get_block_at_offset_def ensure_ptr_read block_of_def leaf_def path_def Let_def flip: m_def)
  next
    case 2
    then show ?thesis using load_entry [OF ok valid [of Single]]
      by (simp add: get_block_at_offset_def ensure_ptr_read block_of_def leaf_def path_def Let_def flip: m_def)
  next
    case 3
    define e where "e = m - (12 + ptrs fs)"
    define a where "a = e div ptrs fs"
    have in_tree: "e < ptrs fs * ptrs fs" using k 3 by (simp add: most_blocks_def m_def e_def)
    then have "a < ptrs fs" by (simp add: a_def less_mult_imp_div_less)
    moreover have "e mod ptrs fs < ptrs fs" using in_tree by (cases "ptrs fs") simp_all
    ultimately show ?thesis using 3 in_tree load_entry [OF ok valid [of Double]] load_entry [OF ok valid [of "Double_of a"]]
      by (simp add: get_block_at_offset_def ensure_ptr_read block_of_def leaf_leaf Let_def flip: m_def e_def a_def)
  qed
qed

lemma read_chunk:
  assumes ok: "nefs_ok fs" and has: "has_byte i fs p" and valid: "bd_valid (device fs) (block_of i fs p)" and n: "p mod nefs_bs fs + n \<le> nefs_bs fs"
  shows "bytes_at n (drop (p mod nefs_bs fs) (snd (file_read_block (block_of i fs p) (malloc heap (nefs_bs fs)) (device fs)))) =
    map (byte_at i fs) [p..<p + n]"
proof (rule nth_equalityI)
  have bs: "block_size (device fs) = nefs_bs fs" using ok by (simp add: nefs_ok_def)
  have rd: "snd (file_read_block (block_of i fs p) (malloc heap (nefs_bs fs)) (device fs)) = blk (block_of i fs p) (device fs)"
    using read_present [OF valid] has bs by (simp add: has_byte_def)
  fix j assume "j < length (bytes_at n (drop (p mod nefs_bs fs) (snd (file_read_block (block_of i fs p) (malloc heap (nefs_bs fs)) (device fs)))))"
  then have j: "j < n" by simp
  have sb: "(p + j) div nefs_bs fs = p div nefs_bs fs" "(p + j) mod nefs_bs fs = p mod nefs_bs fs + j"
    using same_block [OF n, of "p + j"] j by simp_all
  have "bytes_at n (drop (p mod nefs_bs fs) (blk (block_of i fs p) (device fs))) ! j = blk (block_of i fs p) (device fs) ! (p mod nefs_bs fs + j)"
    using j n bs by (simp add: bytes_at_def nth_append)
  also have "\<dots> = map (byte_at i fs) [p..<p + n] ! j" using j by (simp add: byte_at_def block_of_def sb)
  finally show "bytes_at n (drop (p mod nefs_bs fs) (snd (file_read_block (block_of i fs p) (malloc heap (nefs_bs fs)) (device fs)))) ! j =
      map (byte_at i fs) [p..<p + n] ! j" unfolding rd .
qed simp

lemma read_loop:
  assumes ok: "nefs_ok fs" and tree: "tree_ok i fs" and fit: "(offset + len - 1) div nefs_bs fs < most_blocks (ptrs fs)"
    and has: "\<And>q. offset \<le> q \<Longrightarrow> q < offset + len \<Longrightarrow> has_byte i fs q"
  shows "length got \<le> len \<Longrightarrow> nefs_read_loop heap len offset got i fs =
    (got @ map (byte_at i fs) [offset + length got..<offset + len], i, fs)"
proof (induction "len - length got" arbitrary: got rule: less_induct)
  case less
  let ?bs = "nefs_bs fs" and ?p = "offset + length got"
  have bs: "0 < ?bs" using ok by (simp add: nefs_ok_def)
  show ?case
  proof (cases "length got < len")
    case False
    with less.prems show ?thesis by (simp add: nefs_read_loop.simps)
  next
    case True
    define n where "n = min (?bs - ?p mod ?bs) (len - length got)"
    have "?p mod ?bs < ?bs" using bs by simp
    then have n: "0 < n" "length got + n \<le> len" "?p mod ?bs + n \<le> ?bs" using True unfolding n_def by linarith+
    have k: "?p div ?bs < most_blocks (ptrs fs)" using fit True div_le_mono [of ?p "offset + len - 1" ?bs] by linarith
    have b: "has_byte i fs ?p" using has True by simp
    then have "block_of i fs ?p \<noteq> 0" by (simp add: has_byte_def)
    then have valid: "bd_valid (device fs) (block_of i fs ?p)"
      using tree_valid [OF ok tree path_places [OF k leaf_in_path]] by (simp add: block_of_def)
    define got' where "got' = got @ map (byte_at i fs) [?p..<?p + n]"
    have len': "length got' = length got + n" by (simp add: got'_def)
    have step: "nefs_read_loop heap len offset got i fs = nefs_read_loop heap len offset got' i fs"
      using True bs \<open>block_of i fs ?p \<noteq> 0\<close> get_block_read [OF ok tree k] read_chunk [OF ok b valid n(3), of heap] unfolding got'_def
      by (subst nefs_read_loop.simps) (simp add: Let_def n_def [symmetric])
    have "len - length got' < len - length got" "length got' \<le> len" using n len' by simp_all
    note rest = less.hyps [OF this]
    have "[?p..<offset + len] = [?p..<?p + n] @ [?p + n..<offset + len]"
      using n(2) upt_add_eq_append [of ?p "?p + n" "offset + len - (?p + n)"] by simp
    then show ?thesis unfolding step rest by (simp add: got'_def add.assoc)
  qed
qed

section \<open>What a file gives back\<close>

text \<open>The inode is stored in a block before those for data, which leaves the tree as it is.\<close>

lemma tree_other:
  assumes tree: "tree_ok i fs" and same: "\<And>c. c \<in> nefs_pool fs \<Longrightarrow> blk c d = blk c (device fs)"
  shows "tree_ok i (fs\<lparr>device := d\<rparr>)" and "is_place (ptrs fs) r \<Longrightarrow> val i d r = val i (device fs) r"
proof -
  have vals: "val i d r = val i (device fs) r" if "is_place (ptrs fs) r" for r
    by (rule val_cong [OF _ that]) (use tree_okD(2) [OF tree] same in blast)
  then show "is_place (ptrs fs) r \<Longrightarrow> val i d r = val i (device fs) r" .
  show "tree_ok i (fs\<lparr>device := d\<rparr>)" by (rule tree_keep [OF tree]) (simp_all add: vals same)
qed

lemma val_meta [simp]: "val (i\<lparr>i_size := sz, i_modified := m, i_crc32 := c\<rparr>) d r = val i d r"
  by (cases r) simp_all

lemma store_home:
  assumes ok: "nefs_ok fs" and low: "unat (inode_home ino fs) < 10000" and tree: "tree_ok i fs"
    and buf: "length buf = nefs_bs fs"
    and same: "i' = i\<lparr>i_size := sz, i_modified := m, i_crc32 := c\<rparr>"
    and fs': "fs' = fs\<lparr>device := bd_write (inode_home ino fs) (slot_put buf (inode_slot ino fs) i') (device fs)\<rparr>"
  shows "nefs_ok fs'" "tree_ok i' fs'" "load_inode heap ino fs' = i'" "nefs_bs fs' = nefs_bs fs"
    "\<And>q. q div nefs_bs fs < most_blocks (ptrs fs) \<Longrightarrow> has_byte i fs q \<Longrightarrow> has_byte i' fs' q \<and> byte_at i' fs' q = byte_at i fs q"
proof -
  let ?h = "inode_home ino fs" and ?b = "slot_put buf (inode_slot ino fs) i'"
  have d: "length (direct_blocks i') = 12" using tree_okD(1) [OF tree] by (simp add: same)
  have v: "bd_valid (device fs) ?h" using low_valid [OF ok low] .
  have bs: "block_size (device fs) = nefs_bs fs" using ok by (simp add: nefs_ok_def)
  have fits: "(inode_slot ino fs + 1) * nefs_sizeof_inode \<le> length buf" using slot_fits [OF ok] buf by simp
  have len: "length ?b = nefs_bs fs"
    using fits buf length_enc_inode [OF d] by (simp add: slot_put_def algebra_simps)
  have lenb: "length ?b = block_size (device fs)" using len bs by simp
  show ok': "nefs_ok fs'" unfolding fs' using nefs_ok_write [OF ok v len] .
  have pr: "bd_present (device fs') ?h" "\<And>c. bd_present (device fs) c \<Longrightarrow> bd_present (device fs') c"
    using present_write [OF v lenb] by (simp_all add: fs')
  have other: "blk c (device fs') = blk c (device fs)" if "c \<in> nefs_pool fs" for c
  proof -
    have "c \<noteq> ?h" using that low by (auto simp: nefs_pool_def)
    with dev.wr_other [OF v lenb] show ?thesis by (simp add: fs')
  qed
  show bs': "nefs_bs fs' = nefs_bs fs" by (simp add: fs')
  note kept = tree_other [OF tree, of "device fs'", OF other, simplified]
  have upd: "fs\<lparr>device := device fs'\<rparr> = fs'" by (simp add: fs')
  show "tree_ok i' fs'" using kept(1) unfolding upd by (simp add: tree_ok_def same)
  have vb: "bd_valid (device fs') ?h" using dev.wr_valid [OF v lenb] v by (simp add: fs')
  have bs2: "block_size (device fs') = nefs_bs fs" using dev.wr_size [OF v lenb] bs by (simp add: fs')
  have "blk ?h (device fs') = ?b" using dev.wr_same [OF v lenb] by (simp add: fs')
  with read_present [OF vb pr(1), of "malloc heap (nefs_bs fs)"] bs2
  show "load_inode heap ino fs' = i'"
    using slot_get_put [OF d fits] home_cong [OF ok ok' bs'] by (simp add: load_inode_def bs')
  fix q assume q: "q div nefs_bs fs < most_blocks (ptrs fs)" "has_byte i fs q"
  have place: "is_place (ptrs fs) (leaf (ptrs fs) (q div nefs_bs fs))" using path_places [OF q(1) leaf_in_path] .
  have b: "block_of i' fs' q = block_of i fs q" using kept(2) [OF place] by (simp add: block_of_def same bs')
  have "block_of i fs q \<in> nefs_pool fs" using tree_okD(2) [OF tree place] q(2) by (simp add: has_byte_def block_of_def)
  then show "has_byte i' fs' q \<and> byte_at i' fs' q = byte_at i fs q"
    using q(2) pr(2) other by (simp add: has_byte_def byte_at_def b bs')
qed

lemma write_file:
  assumes ok: "nefs_ok fs" and home: "unat (inode_home ino fs) < 10000" and tree: "tree_ok (load_inode heap ino fs) fs"
    and fit: "(offset + length data - 1) div nefs_bs fs < most_blocks (ptrs fs)"
    and free: "missing (load_inode heap ino fs) fs (touched fs offset (offset + length data)) \<le> blocks_free fs"
  obtains i' fs' where "nefs_write_file heap now ino (Some data) offset fs = (int (length data), fs')" "\<And>heap'. load_inode heap' ino fs' = i'"
    "nefs_ok fs'" "tree_ok i' fs'" "nefs_bs fs' = nefs_bs fs" "offset + length data \<le> unat (i_size i')"
    "bytes_put offset (offset + length data) (\<lambda>q. data ! (q - offset)) (load_inode heap ino fs) fs i' fs'"
proof -
  let ?h = "inode_home ino fs" and ?bs = "nefs_bs fs" and ?i = "load_inode heap ino fs"
  let ?buf = "snd (file_read_block ?h (malloc heap ?bs) (device fs))"
  have bs: "block_size (device fs) = ?bs" "0 < ?bs" "?bs \<le> 65536" using ok by (simp_all add: nefs_ok_def)
  have buf: "length ?buf = ?bs" using length_read [of "malloc heap ?bs" "device fs" ?h] bs by simp
  from write_loop [OF ok tree fit, of 0 heap] free obtain i1 fs1 where
    w: "nefs_write_loop heap data offset 0 ?i fs = (length data, i1, fs1)" "wrote offset (offset + length data) (\<lambda>q. data ! (q - offset)) ?i fs i1 fs1"
    by auto
  then have s: "nefs_ok fs1" "tree_ok i1 fs1" "nefs_bs fs1 = ?bs" "bytes_put offset (offset + length data) (\<lambda>q. data ! (q - offset)) ?i fs i1 fs1"
    by (simp_all add: wrote_def)
  note home1 = home_cong [OF ok s(1,3), of ino]
  define sz where "sz = (if offset + length data > unat (i_size i1) then of_nat (offset + length data) else i_size i1)"
  have "ptrs fs \<le> 8192" using bs(3) by simp
  then have "ptrs fs * ptrs fs \<le> 8192 * 8192" by (intro mult_le_mono)
  then have "(offset + length data - 1) div ?bs < 2 ^ 27" using fit \<open>ptrs fs \<le> 8192\<close> by (simp add: most_blocks_def)
  then have "offset + length data - 1 < 2 ^ 27 * ?bs" using bs(2) by (simp add: div_less_iff_less_mult)
  then have "offset + length data < 2 ^ 64" using bs(3) by simp
  then have "unat (of_nat (offset + length data) :: u64) = offset + length data" by (intro unat_of_nat_small) simp
  then have sz: "offset + length data \<le> unat sz" by (simp add: sz_def del: of_nat_add)
  define i2 where "i2 = seal (i1\<lparr>i_size := sz, i_modified := now\<rparr>)"
  define fs2 where "fs2 = fs1\<lparr>device := bd_write (inode_home ino fs1) (slot_put ?buf (inode_slot ino fs1) i2) (device fs1)\<rparr>"
  have wr: "nefs_write_file heap now ino (Some data) offset fs = (int (length data), fs2)"
    using w(1) home1 by (simp add: nefs_write_file_def load_inode_def Let_def fs2_def i2_def sz_def bd_write_def
      if_distrib [where f = "\<lambda>x. i_size_update (\<lambda>_. x) i1"])
  have i2: "i2 = i1\<lparr>i_size := sz, i_modified := now, i_crc32 := i_crc32 i2\<rparr>" unfolding i2_def seal_def by simp
  have size: "i_size i2 = sz" by (subst i2) simp
  have low1: "unat (inode_home ino fs1) < 10000" "length ?buf = nefs_bs fs1" using home home1 buf s(3) by simp_all
  note st = store_home [OF s(1) low1(1) s(2) low1(2) i2 fs2_def]
  have "bytes_put offset (offset + length data) (\<lambda>q. data ! (q - offset)) ?i fs i2 fs2"
    using s(4) st(5) s(3) by (simp add: bytes_put_def)
  with that [OF wr st(3) st(1,2)] st(4) s(3) sz size show thesis by simp
qed

lemma read_file:
  assumes "nefs_ok fs" and "tree_ok i fs" and "load_inode heap ino fs = i" and "0 < len" "offset + len \<le> unat (i_size i)"
    and "(offset + len - 1) div nefs_bs fs < most_blocks (ptrs fs)" and "\<And>q. offset \<le> q \<Longrightarrow> q < offset + len \<Longrightarrow> has_byte i fs q"
  shows "\<exists>fs'. nefs_read_file heap now ino len offset fs = (int len, map (byte_at i fs) [offset..<offset + len], fs')"
  using read_loop [OF assms(1,2,6,7), of "[]" heap] assms(3-5) by (simp add: nefs_read_file_def load_inode_def Let_def not_le)

text \<open>
  C1: What was written to a file is what is read back from it, anywhere in a file: on a well-formed file system with enough free
  blocks for the places on the way that are still empty, nefs_write_file of a nonempty buffer to a range within the direct,
  indirect and double indirect blocks returns the buffer's length, keeps the tree well-formed and all other bytes of the
  file, and nefs_read_file of the same range then returns exactly these bytes, whatever the heap's content and
  the clock in between.
\<close>

theorem nefs_write_read:
  assumes "nefs_ok fs" and "unat (inode_home ino fs) < 10000" and "tree_ok (load_inode heap ino fs) fs" and "data \<noteq> []"
    and "(offset + length data - 1) div nefs_bs fs < most_blocks (ptrs fs)"
    and "missing (load_inode heap ino fs) fs (touched fs offset (offset + length data)) \<le> blocks_free fs"
  shows "\<exists>fs'. nefs_write_file heap now ino (Some data) offset fs = (int (length data), fs') \<and>
    nefs_ok fs' \<and> tree_ok (load_inode heap' ino fs') fs' \<and>
    bytes_put offset (offset + length data) (\<lambda>q. data ! (q - offset)) (load_inode heap ino fs) fs (load_inode heap' ino fs') fs' \<and>
    (\<exists>fs''. nefs_read_file heap' now' ino (length data) offset fs' = (int (length data), data, fs''))"
proof (rule write_file [OF assms(1-3,5,6)])
  fix i' fs'
  assume wr: "nefs_write_file heap now ino (Some data) offset fs = (int (length data), fs')" "\<And>heap'. load_inode heap' ino fs' = i'"
    and ok: "nefs_ok fs'" "tree_ok i' fs'" "nefs_bs fs' = nefs_bs fs" "offset + length data \<le> unat (i_size i')"
    and put: "bytes_put offset (offset + length data) (\<lambda>q. data ! (q - offset)) (load_inode heap ino fs) fs i' fs'"
  have at: "has_byte i' fs' q \<and> byte_at i' fs' q = data ! (q - offset)" if "offset \<le> q" "q < offset + length data" for q
  proof -
    have "q div nefs_bs fs < most_blocks (ptrs fs)" using assms(5) that div_le_mono [of q "offset + length data - 1" "nefs_bs fs"] by linarith
    from bytes_putD [OF put this] that show ?thesis by simp
  qed
  then have "map (byte_at i' fs') [offset..<offset + length data] = data" by (intro nth_equalityI) simp_all
  with read_file [OF ok(1,2) wr(2) _ ok(4), of heap' now'] at assms(4,5) ok(3)
  have "\<exists>fs''. nefs_read_file heap' now' ino (length data) offset fs' = (int (length data), data, fs'')" by simp
  with wr ok put show ?thesis by auto
qed

text \<open>Two bytes on both sides of the border between the indirect and the double indirect blocks of a new file.\<close>

lemma fresh_tree: "tree_ok (dec_inode (replicate nefs_sizeof_inode 0)) fresh_nefs"
proof -
  let ?i = "dec_inode (replicate nefs_sizeof_inode 0)"
  have "indirect_block ?i = 0" "double_indirect_block ?i = 0"
    using field_zero [of 144 8 nefs_sizeof_inode] field_zero [of 152 8 nefs_sizeof_inode] by (simp_all add: dec_inode_def nefs_sizeof_inode_def)
  then have "val ?i d p = 0" if "is_place n p" for d n p
    using that by (cases p) (simp_all add: dec_inode_zero entry_def nth_replicate del: upt_rec_numeral)
  moreover have "zero_block fresh_nefs b" for b
    by (rule nth_equalityI [THEN zero_block_def [THEN iffD2]]) (simp_all add: blk_def file_byte_def fresh_nefs_facts)
  ultimately show ?thesis by (auto simp: tree_ok_def dec_inode_zero)
qed

theorem nefs_write_read_witness:
  "\<exists>fs'. nefs_write_file (\<lambda>_. 0) 7 1 (Some [0x61, 0x62]) 2146303 fresh_nefs = (2, fs') \<and>
    (\<exists>fs''. nefs_read_file (\<lambda>_. 9) 8 1 2 2146303 fs' = (2, [0x61, 0x62], fs''))"
proof -
  let ?T = "touched fresh_nefs 2146303 2146305"
  have "{2146303..<2146305} = {2146303, 2146304 :: nat}" by auto
  then have "?T = {Single, Single_of 511, Double, Double_of 0, Leaf_of 0 0}"
    by (simp add: touched_def fresh_nefs_facts path_def) auto
  then have "card ?T \<le> 5" by simp
  moreover have "missing (load_inode (\<lambda>_. 0) 1 fresh_nefs) fresh_nefs ?T \<le> card ?T" unfolding missing_def by (rule card_mono) auto
  ultimately have "missing (load_inode (\<lambda>_. 0) 1 fresh_nefs) fresh_nefs ?T \<le> blocks_free fresh_nefs" using fresh_nefs_free by simp
  then show ?thesis
    using nefs_write_read [OF fresh_nefs_ok fresh_nefs_inode(2), of "\<lambda>_. 0" "[0x61, 0x62]" 2146303 7 "\<lambda>_. 9" 8] fresh_tree
    by (auto simp: fresh_nefs_inode(1) fresh_nefs_facts most_blocks_def numeral_2_eq_2)
qed

end
