(* ===== verification/Fs_Efs.thy ===== *)
theory Fs_Efs
  imports Fs_Common
begin

text \<open>
  The EFS file system, fs/src/efs: formatting and mounting (efs_core.c), files (efs_file.c) and
  folders (efs_dir.c); the file service that mounts one (fs/src/service/file_service.c) and the
  tool that formats one (fs/tools/mkfs.efs.c). Structures are bytes at their x86-64 offsets, as in
  the other file systems. Many calls here hand a device a structure that is smaller than a block:
  a read that brings more bytes than it holds has no result, and for a write \<open>beyond\<close> is what
  lies behind the structure in memory.
\<close>

section \<open>Structures\<close>

definition EFS_MAGIC :: u32 where "EFS_MAGIC = 0x45465331"
definition EFS_BLOCK_SIZE :: nat where "EFS_BLOCK_SIZE = 4096"
definition EFS_MAX_STORAGE :: u64 where "EFS_MAX_STORAGE = 256 * 1024 * 1024 * 1024"
definition EFS_MAX_FOLDER_SIZE :: u64 where "EFS_MAX_FOLDER_SIZE = 20 * 1024 * 1024 * 1024"
definition EFS_TYPE_FILE :: u32 where "EFS_TYPE_FILE = 1"

record efs_superblock =
  es_magic :: u32
  es_version :: u32
  es_total_blocks :: u64
  es_free_blocks :: u64
  es_total_inodes :: u64
  es_free_inodes :: u64
  es_inode_table_block :: u64
  es_data_bitmap_block :: u64
  es_inode_bitmap_block :: u64
  es_checksum :: u32

record efs_inode =
  ei_type :: u32
  ei_size :: u64
  ei_created :: u64
  ei_modified :: u64
  ei_permissions :: u32
  ei_direct :: "u64 list"
  ei_indirect :: u64
  ei_checksum :: u32

record efs =
  efs_device :: bdev
  efs_super :: efs_superblock
  efs_inode_bitmap :: "u8 list"
  efs_data_bitmap :: "u8 list"

definition efs_sizeof_superblock :: nat where "efs_sizeof_superblock = 72"

definition enc_efs_superblock :: "efs_superblock \<Rightarrow> u8 list" where
  "enc_efs_superblock s = le_enc 4 (unat (es_magic s)) @ le_enc 4 (unat (es_version s)) @
     le_enc 8 (unat (es_total_blocks s)) @ le_enc 8 (unat (es_free_blocks s)) @
     le_enc 8 (unat (es_total_inodes s)) @ le_enc 8 (unat (es_free_inodes s)) @
     le_enc 8 (unat (es_inode_table_block s)) @ le_enc 8 (unat (es_data_bitmap_block s)) @
     le_enc 8 (unat (es_inode_bitmap_block s)) @ le_enc 4 (unat (es_checksum s)) @ le_enc 4 0"

definition dec_efs_superblock :: "u8 list \<Rightarrow> efs_superblock" where
  "dec_efs_superblock bs = \<lparr>es_magic = of_nat (field 0 4 bs), es_version = of_nat (field 4 4 bs),
     es_total_blocks = of_nat (field 8 8 bs), es_free_blocks = of_nat (field 16 8 bs),
     es_total_inodes = of_nat (field 24 8 bs), es_free_inodes = of_nat (field 32 8 bs),
     es_inode_table_block = of_nat (field 40 8 bs), es_data_bitmap_block = of_nat (field 48 8 bs),
     es_inode_bitmap_block = of_nat (field 56 8 bs), es_checksum = of_nat (field 64 4 bs)\<rparr>"

definition efs_sizeof_inode :: nat where "efs_sizeof_inode = 152"

definition enc_efs_inode :: "efs_inode \<Rightarrow> u8 list" where
  "enc_efs_inode i = le_enc 4 (unat (ei_type i)) @ le_enc 4 0 @ le_enc 8 (unat (ei_size i)) @
     le_enc 8 (unat (ei_created i)) @ le_enc 8 (unat (ei_modified i)) @
     le_enc 4 (unat (ei_permissions i)) @ le_enc 4 0 @
     concat (map (\<lambda>b. le_enc 8 (unat b)) (ei_direct i)) @ le_enc 8 (unat (ei_indirect i)) @
     le_enc 4 (unat (ei_checksum i)) @ le_enc 4 0"

definition dec_efs_inode :: "u8 list \<Rightarrow> efs_inode" where
  "dec_efs_inode bs = \<lparr>ei_type = of_nat (field 0 4 bs), ei_size = of_nat (field 8 8 bs),
     ei_created = of_nat (field 16 8 bs), ei_modified = of_nat (field 24 8 bs),
     ei_permissions = of_nat (field 32 4 bs),
     ei_direct = map (\<lambda>k. of_nat (field (40 + 8 * k) 8 bs)) [0..<12],
     ei_indirect = of_nat (field 136 8 bs), ei_checksum = of_nat (field 144 4 bs)\<rparr>"

section \<open>Mounting (efs_core.c)\<close>

definition efs_format :: "u8 list \<Rightarrow> u8 list option \<Rightarrow> efs option" where
  "efs_format beyond content = (case content of None \<Rightarrow> None | Some f \<Rightarrow>
     (let dev = block_device_open f EFS_BLOCK_SIZE;
          blocks = EFS_MAX_STORAGE div of_nat EFS_BLOCK_SIZE;
          inodes = blocks div 4;
          sb = \<lparr>es_magic = EFS_MAGIC, es_version = 1, es_total_blocks = blocks,
            es_free_blocks = blocks - 100, es_total_inodes = inodes, es_free_inodes = inodes - 1,
            es_inode_table_block = 20, es_data_bitmap_block = 10, es_inode_bitmap_block = 1,
            es_checksum = 0\<rparr>;
          sb = sb\<lparr>es_checksum := crc32 (take (efs_sizeof_superblock - 4) (enc_efs_superblock sb))\<rparr>;
          dev = snd (file_write_block 0 (enc_efs_superblock sb @ beyond) dev)
      in Some \<lparr>efs_device = dev, efs_super = sb,
          efs_inode_bitmap = (replicate (unat ((inodes + 7) div 8)) 0)[0 := 1],
          efs_data_bitmap = replicate (unat ((blocks + 7) div 8)) 0\<rparr>))"

definition efs_mount :: "(nat \<Rightarrow> u8) \<Rightarrow> u8 list option \<Rightarrow> efs option option" where
  "efs_mount heap content = (case content of None \<Rightarrow> Some None | Some f \<Rightarrow>
     (let dev = block_device_open f EFS_BLOCK_SIZE in
      case read_struct efs_sizeof_superblock 0 (malloc heap efs_sizeof_superblock) dev of
        None \<Rightarrow> None
      | Some (rc, obj) \<Rightarrow>
          (if rc < 0 then Some None
           else (let sb = dec_efs_superblock obj in
             if es_magic sb \<noteq> EFS_MAGIC then Some None
             else Some (Some \<lparr>efs_device = dev, efs_super = sb,
               efs_inode_bitmap = malloc heap (unat ((es_total_inodes sb + 7) div 8)),
               efs_data_bitmap = malloc heap (unat ((es_total_blocks sb + 7) div 8))\<rparr>)))))"

text \<open>The result and the host file that is left.\<close>

definition efs_unmount :: "u8 list \<Rightarrow> efs option \<Rightarrow> int \<times> u8 list option" where
  "efs_unmount beyond fs = (case fs of None \<Rightarrow> (-1, None) | Some fs \<Rightarrow>
     (0, Some (bd_file (snd (file_write_block 0 (enc_efs_superblock (efs_super fs) @ beyond) (efs_device fs))))))"

section \<open>Allocation (efs_file.c)\<close>

definition efs_alloc_inode :: "efs \<Rightarrow> u64 \<times> efs" where
  "efs_alloc_inode fs =
     (case scan (\<lambda>i. \<not> bm_test (efs_inode_bitmap fs) i) 0 (unat (es_total_inodes (efs_super fs))) of
        Some i \<Rightarrow> (of_nat i, fs\<lparr>efs_inode_bitmap := bm_set (efs_inode_bitmap fs) i,
          efs_super := (efs_super fs)\<lparr>es_free_inodes := es_free_inodes (efs_super fs) - 1\<rparr>\<rparr>)
      | None \<Rightarrow> (-1, fs))"

definition efs_alloc_block :: "efs \<Rightarrow> u64 \<times> efs" where
  "efs_alloc_block fs =
     (case scan (\<lambda>i. \<not> bm_test (efs_data_bitmap fs) i) 0 (unat (es_total_blocks (efs_super fs))) of
        Some i \<Rightarrow> (of_nat i, fs\<lparr>efs_data_bitmap := bm_set (efs_data_bitmap fs) i,
          efs_super := (efs_super fs)\<lparr>es_free_blocks := es_free_blocks (efs_super fs) - 1\<rparr>\<rparr>)
      | None \<Rightarrow> (-1, fs))"

section \<open>Files (efs_file.c)\<close>

definition efs_inode_block :: "u64 \<Rightarrow> efs \<Rightarrow> u64" where
  "efs_inode_block ino fs =
     es_inode_table_block (efs_super fs) + ino div of_nat (EFS_BLOCK_SIZE div efs_sizeof_inode)"

definition efs_new_inode :: "u64 \<Rightarrow> efs_inode" where
  "efs_new_inode now = \<lparr>ei_type = EFS_TYPE_FILE, ei_size = 0, ei_created = now, ei_modified = now,
     ei_permissions = 0x1A4, ei_direct = replicate 12 0, ei_indirect = 0, ei_checksum = 0\<rparr>"

definition efs_create_file :: "u8 list \<Rightarrow> u64 \<Rightarrow> string option \<Rightarrow> efs option \<Rightarrow> int \<times> efs option" where
  "efs_create_file beyond now path fs =
     (case (fs, path) of
        (Some fs, Some path) \<Rightarrow>
          (if length path > FS_MAX_PATH_LEN then (-1, Some fs)
           else (case efs_alloc_inode fs of (ino, fs) \<Rightarrow>
             if ino = -1 then (-1, Some fs)
             else (0, Some (fs\<lparr>efs_device := snd (file_write_block (efs_inode_block ino fs)
                    (enc_efs_inode (efs_new_inode now) @ beyond) (efs_device fs))\<rparr>))))
      | (fs, _) \<Rightarrow> (-1, fs))"

text \<open>
  The write loop; its flag tells whether it ran to its end. A file ends with its direct blocks: at
  the thirteenth the function returns from inside the loop, and the inode is not written back.
  \<open>stack\<close> is what the buffer holds when it is declared.
\<close>

function efs_write_loop ::
    "(nat \<Rightarrow> u8) \<Rightarrow> u8 list \<Rightarrow> nat \<Rightarrow> nat \<Rightarrow> efs_inode \<Rightarrow> efs \<Rightarrow> bool \<times> nat \<times> efs_inode \<times> efs" where
  "efs_write_loop stack data offset written inode fs =
     (if written < length data then
        (let block_idx = (offset + written) div EFS_BLOCK_SIZE;
             block_off = (offset + written) mod EFS_BLOCK_SIZE;
             to_write = min (EFS_BLOCK_SIZE - block_off) (length data - written)
         in if block_idx < 12 then
              (case (if ei_direct inode ! block_idx = 0 then efs_alloc_block fs
                     else (ei_direct inode ! block_idx, fs)) of (b, fs) \<Rightarrow>
                 (let inode = inode\<lparr>ei_direct := (ei_direct inode)[block_idx := b]\<rparr>;
                      buf = snd (file_read_block b (malloc stack EFS_BLOCK_SIZE) (efs_device fs));
                      buf = overwrite buf block_off (take to_write (drop written data))
                  in efs_write_loop stack data offset (written + to_write) inode
                       (fs\<lparr>efs_device := snd (file_write_block b buf (efs_device fs))\<rparr>)))
            else (False, written, inode, fs))
      else (True, written, inode, fs))"
  by pat_completeness auto
termination
  by (relation "measure (\<lambda>(stack, data, offset, written, inode, fs). length data - written)")
    (simp_all add: chunk_progress EFS_BLOCK_SIZE_def)

declare efs_write_loop.simps [simp del]

text \<open>The inode is read into the structure; \<open>None\<close>, when the block has more bytes than that.\<close>

definition efs_load_inode :: "(nat \<Rightarrow> u8) \<Rightarrow> u64 \<Rightarrow> efs \<Rightarrow> efs_inode option" where
  "efs_load_inode stack ino fs =
     (case read_struct efs_sizeof_inode (efs_inode_block ino fs) (malloc stack efs_sizeof_inode) (efs_device fs) of
        None \<Rightarrow> None
      | Some (rc, obj) \<Rightarrow> Some (dec_efs_inode obj))"

definition efs_write_file ::
    "u8 list \<Rightarrow> (nat \<Rightarrow> u8) \<Rightarrow> u64 \<Rightarrow> u8 list option \<Rightarrow> nat \<Rightarrow> efs option \<Rightarrow> (int \<times> efs option) option" where
  "efs_write_file beyond stack ino data offset fs =
     (case (fs, data) of
        (Some fs, Some data) \<Rightarrow>
          (case efs_load_inode stack ino fs of None \<Rightarrow> None | Some inode \<Rightarrow>
             (case efs_write_loop stack data offset 0 inode fs of (ended, written, inode, fs') \<Rightarrow>
                if \<not> ended then Some (int written, Some fs')
                else (let inode = inode\<lparr>ei_size := of_nat (offset + written)\<rparr>
                      in Some (int written, Some (fs'\<lparr>efs_device := snd (file_write_block
                           (efs_inode_block ino fs) (enc_efs_inode inode @ beyond) (efs_device fs'))\<rparr>)))))
      | (fs, _) \<Rightarrow> Some (-1, fs))"

function efs_read_loop :: "(nat \<Rightarrow> u8) \<Rightarrow> nat \<Rightarrow> nat \<Rightarrow> u8 list \<Rightarrow> efs_inode \<Rightarrow> efs \<Rightarrow> u8 list" where
  "efs_read_loop stack len offset got inode fs =
     (if length got < len then
        (let block_idx = (offset + length got) div EFS_BLOCK_SIZE;
             block_off = (offset + length got) mod EFS_BLOCK_SIZE;
             to_read = min (EFS_BLOCK_SIZE - block_off) (len - length got)
         in if block_idx < 12 then
              (let b = ei_direct inode ! block_idx;
                   buf = snd (file_read_block b (malloc stack EFS_BLOCK_SIZE) (efs_device fs))
               in efs_read_loop stack len offset (got @ bytes_at to_read (drop block_off buf)) inode fs)
            else got)
      else got)"
  by pat_completeness auto
termination
  by (relation "measure (\<lambda>(stack, len, offset, got, inode, fs). len - length got)")
    (simp_all add: chunk_progress EFS_BLOCK_SIZE_def)

declare efs_read_loop.simps [simp del]

definition efs_read_file ::
    "(nat \<Rightarrow> u8) \<Rightarrow> u64 \<Rightarrow> nat \<Rightarrow> nat \<Rightarrow> efs \<Rightarrow> (int \<times> u8 list) option" where
  "efs_read_file stack ino len offset fs =
     (case efs_load_inode stack ino fs of None \<Rightarrow> None | Some inode \<Rightarrow>
        (if offset \<ge> unat (ei_size inode) then Some (0, [])
         else (let len = (if offset + len > unat (ei_size inode) then unat (ei_size inode) - offset else len);
                   got = efs_read_loop stack len offset [] inode fs
               in Some (int (length got), got))))"

section \<open>Folders (efs_dir.c)\<close>

definition get_folder_size :: "(nat \<Rightarrow> u8) \<Rightarrow> u64 \<Rightarrow> efs \<Rightarrow> u64 option" where
  "get_folder_size stack ino fs = map_option ei_size (efs_load_inode stack ino fs)"

definition efs_create_folder :: "string option \<Rightarrow> efs option \<Rightarrow> int" where
  "efs_create_folder path fs =
     (case (fs, path) of
        (Some fs, Some path) \<Rightarrow> if length path > FS_MAX_PATH_LEN then -1 else 0
      | _ \<Rightarrow> -1)"

definition efs_add_to_folder :: "(nat \<Rightarrow> u8) \<Rightarrow> u64 \<Rightarrow> string \<Rightarrow> u64 \<Rightarrow> efs \<Rightarrow> int option" where
  "efs_add_to_folder stack parent_ino name child_ino fs =
     (case get_folder_size stack parent_ino fs of None \<Rightarrow> None
      | Some folder_size \<Rightarrow> Some (if folder_size \<ge> EFS_MAX_FOLDER_SIZE then -1 else 0))"

definition efs_lookup :: "string option \<Rightarrow> efs option \<Rightarrow> u64" where
  "efs_lookup path fs =
     (case (fs, path) of
        (Some fs, Some path) \<Rightarrow> if length path > FS_MAX_PATH_LEN then -1 else 0
      | _ \<Rightarrow> -1)"

section \<open>The file service and mkfs\<close>

text \<open>The state of the service is \<open>mounted_fs\<close>.\<close>

definition file_service_init :: "(nat \<Rightarrow> u8) \<Rightarrow> u8 list \<Rightarrow> u8 list option \<Rightarrow> efs option option" where
  "file_service_init heap beyond content =
     (case efs_mount heap content of None \<Rightarrow> None
      | Some (Some fs) \<Rightarrow> Some (Some fs)
      | Some None \<Rightarrow> Some (efs_format beyond content))"

definition handle_stat_request :: "efs option \<Rightarrow> string \<Rightarrow> int" where
  "handle_stat_request mounted_fs path = (if mounted_fs = None then -1 else 0)"

definition handle_access_request :: "efs option \<Rightarrow> string \<Rightarrow> int \<Rightarrow> int" where
  "handle_access_request mounted_fs path mode = (if mounted_fs = None then -1 else 0)"

definition handle_unlink_request :: "efs option \<Rightarrow> string \<Rightarrow> int" where
  "handle_unlink_request mounted_fs path = (if mounted_fs = None then -1 else 0)"

text \<open>The tool: its exit status and what it leaves in the file. The arguments after the name count.\<close>

definition mkfs_efs_main :: "u8 list \<Rightarrow> nat \<Rightarrow> u8 list option \<Rightarrow> int \<times> u8 list option" where
  "mkfs_efs_main beyond argc content =
     (if argc \<noteq> 2 then (1, content)
      else (case efs_format beyond content of None \<Rightarrow> (1, content)
        | Some fs \<Rightarrow> (0, snd (efs_unmount beyond (Some fs)))))"

section \<open>What is on the device\<close>

lemma length_enc_efs_superblock: "length (enc_efs_superblock s) = efs_sizeof_superblock"
  by (simp add: enc_efs_superblock_def efs_sizeof_superblock_def)

lemma length_enc_efs_inode: "length (ei_direct i) = 12 \<Longrightarrow> length (enc_efs_inode i) = efs_sizeof_inode"
  by (simp add: enc_efs_inode_def length_concat_enc efs_sizeof_inode_def)

lemma dec_enc_efs_inode:
  assumes "length (ei_direct i) = 12"
  shows "dec_efs_inode (enc_efs_inode i) = i"
proof -
  let ?c = "concat (map (\<lambda>b. le_enc 8 (unat b)) (ei_direct i))"
  have c: "length ?c = 96" using assms by (simp add: length_concat_enc)
  have d: "field (40 + 8 * k) 8 (enc_efs_inode i) = unat (ei_direct i ! k)" if "k < 12" for k
    using field_concat [of k "ei_direct i"] assms that by (simp add: enc_efs_inode_def)
  have "ei_direct (dec_efs_inode (enc_efs_inode i)) = ei_direct i"
    using assms d by (auto simp: dec_efs_inode_def intro!: nth_equalityI)
  moreover have "field 136 8 (enc_efs_inode i) = unat (ei_indirect i)"
    "field 144 4 (enc_efs_inode i) = unat (ei_checksum i)"
    using c by (simp_all add: enc_efs_inode_def mod_word del: power_numeral)
  moreover have "field 0 4 (enc_efs_inode i) = unat (ei_type i)" "field 8 8 (enc_efs_inode i) = unat (ei_size i)"
    "field 16 8 (enc_efs_inode i) = unat (ei_created i)" "field 24 8 (enc_efs_inode i) = unat (ei_modified i)"
    "field 32 4 (enc_efs_inode i) = unat (ei_permissions i)"
    by (simp_all add: enc_efs_inode_def mod_word del: power_numeral)
  ultimately show ?thesis by (intro efs_inode.equality) (simp_all add: dec_efs_inode_def)
qed

text \<open>Writing a structure with enough memory behind it fills the block.\<close>

lemma write_struct:
  assumes "bd_valid d b" "block_size d \<le> length s + length beyond"
  shows "blk b (snd (file_write_block b (s @ beyond) d)) = take (block_size d) (s @ beyond)"
    and "bd_present (snd (file_write_block b (s @ beyond) d)) b"
    and "block_size (snd (file_write_block b (s @ beyond) d)) = block_size d"
    and "bd_valid (snd (file_write_block b (s @ beyond) d)) c = bd_valid d c"
proof -
  let ?t = "take (block_size d) (s @ beyond)"
  have l: "length ?t = block_size d" using assms(2) by simp
  have w: "snd (file_write_block b (s @ beyond) d) = bd_write b ?t d"
    by (simp add: bd_write_def file_write_block_def Let_def del: take_append)
  show "blk b (snd (file_write_block b (s @ beyond) d)) = ?t"
    "bd_present (snd (file_write_block b (s @ beyond) d)) b"
    "block_size (snd (file_write_block b (s @ beyond) d)) = block_size d"
    "bd_valid (snd (file_write_block b (s @ beyond) d)) c = bd_valid d c"
    unfolding w using dev.wr_same [OF assms(1) l] present_write(1) [OF assms(1) l] dev.wr_size [OF assms(1) l]
      dev.wr_valid [OF assms(1) l] by simp_all
qed

lemma read_struct_overrun:
  assumes "bd_valid d b" "bd_present d b" "n < block_size d" "length obj \<le> block_size d"
  shows "read_struct n b obj d = None"
proof -
  have "file_read_block b obj d = (0, take (block_size d) (drop (unat b * block_size d) (bd_file d)))"
    using bd_offset_valid [OF assms(1)] assms(2,4) by (simp add: file_read_block_def bd_present_def Let_def)
  then show ?thesis using assms(2,3) by (simp add: read_struct_def bd_present_def)
qed

definition efs_ok :: "efs \<Rightarrow> bool" where
  "efs_ok fs \<longleftrightarrow> block_size (efs_device fs) = EFS_BLOCK_SIZE \<and> es_inode_table_block (efs_super fs) = 20 \<and>
     es_total_inodes (efs_super fs) \<le> 2 ^ 24"

lemma efs_block_valid:
  assumes "efs_ok fs" "unat ino < 2 ^ 24"
  shows "bd_valid (efs_device fs) (efs_inode_block ino fs)"
proof -
  have "unat (ino div 26) = unat ino div 26" by (simp add: unat_div_distrib)
  moreover from this assms(2) have "unat (20 + ino div 26) = 20 + unat ino div 26"
    by (subst unat_word_ariths) simp
  moreover have "unat ino div 26 \<le> unat ino" by simp
  ultimately have "unat (20 + ino div 26) < 20 + 2 ^ 24" using assms(2) by linarith
  moreover have "efs_inode_block ino fs = 20 + ino div 26"
    using assms(1) by (simp add: efs_inode_block_def efs_ok_def EFS_BLOCK_SIZE_def efs_sizeof_inode_def)
  ultimately show ?thesis using assms(1) by (simp add: bd_valid_def efs_ok_def EFS_BLOCK_SIZE_def)
qed

lemma efs_alloc_inode_cases [case_names Full Inode]:
  assumes "efs_ok fs"
  obtains "efs_alloc_inode fs = (-1, fs)"
  | i fs' where "efs_alloc_inode fs = (of_nat i, fs')" "\<not> bm_test (efs_inode_bitmap fs) i" "i < 2 ^ 24"
    "efs_inode_bitmap fs' = bm_set (efs_inode_bitmap fs) i" "efs_device fs' = efs_device fs" "efs_ok fs'"
    "unat (of_nat i :: u64) = i" "(of_nat i :: u64) \<noteq> -1"
proof (cases "scan (\<lambda>i. \<not> bm_test (efs_inode_bitmap fs) i) 0 (unat (es_total_inodes (efs_super fs)))")
  case None
  then show thesis by (intro that(1)) (simp add: efs_alloc_inode_def)
next
  case (Some i)
  have "unat (es_total_inodes (efs_super fs)) \<le> 2 ^ 24"
    using assms by (simp add: efs_ok_def word_le_nat_alt)
  with scan_SomeD(2) [OF Some] have i: "i < 2 ^ 24" by simp
  then have u: "unat (of_nat i :: u64) = i" by (intro unat_of_nat_small) simp
  have "(of_nat i :: u64) \<noteq> -1" using i by (intro of_nat_neq_minus1) simp
  moreover have "efs_alloc_inode fs = (of_nat i, fs\<lparr>efs_inode_bitmap := bm_set (efs_inode_bitmap fs) i,
      efs_super := (efs_super fs)\<lparr>es_free_inodes := es_free_inodes (efs_super fs) - 1\<rparr>\<rparr>)" (is "_ = (_, ?fs)")
    using Some by (simp add: efs_alloc_inode_def)
  moreover have "efs_ok ?fs" using assms by (simp add: efs_ok_def)
  ultimately show thesis using i u scan_SomeD(3) [OF Some] by (intro that(2) [of i ?fs]) simp_all
qed

text \<open>
  efs_create_file writes the new inode to the start of its table block, not to
  its slot, together with whatever lies behind it in memory, so that what the block held before,
  such as the inodes of earlier files, is gone. From then on no file with an inode in that block
  can be read or written: both calls read the whole block into an inode, past its end.
\<close>

theorem efs_create_clobbers:
  assumes ok: "efs_ok fs" and mem: "3944 \<le> length beyond" and run: "efs_create_file beyond now (Some path) (Some fs) = (0, Some fs')"
  shows "\<exists>i. \<not> bm_test (efs_inode_bitmap fs) i \<and> efs_inode_bitmap fs' = bm_set (efs_inode_bitmap fs) i \<and>
    blk (20 + of_nat (i div 26)) (efs_device fs') = take 4096 (enc_efs_inode (efs_new_inode now) @ beyond) \<and>
    (\<forall>ino data len offset. unat ino div 26 = i div 26 \<longrightarrow>
       efs_write_file beyond' stack ino (Some data) offset (Some fs') = None \<and>
       efs_read_file stack ino len offset fs' = None)"
proof -
  have path: "\<not> length path > FS_MAX_PATH_LEN" using run by (auto simp: efs_create_file_def)
  from ok show ?thesis
  proof (cases rule: efs_alloc_inode_cases)
    case Full
    with run path show ?thesis by (simp add: efs_create_file_def)
  next
    case (Inode i fs1)
    define h where "h = efs_inode_block (of_nat i) fs1"
    have h: "h = 20 + of_nat (i div 26)"
      using Inode(6) by (simp add: h_def efs_inode_block_def efs_ok_def EFS_BLOCK_SIZE_def efs_sizeof_inode_def
        word_arith_nat_div Inode(7))
    let ?s = "enc_efs_inode (efs_new_inode now)" and ?d = "efs_device fs1"
    have fs': "fs' = fs1\<lparr>efs_device := snd (file_write_block h (?s @ beyond) ?d)\<rparr>"
      using run path Inode(1,8) by (simp add: efs_create_file_def h_def)
    have bs: "block_size ?d = 4096" using Inode(6) by (simp add: efs_ok_def EFS_BLOCK_SIZE_def)
    have v: "bd_valid ?d h" unfolding h_def using efs_block_valid [OF Inode(6)] Inode(3,7) by simp
    have len: "block_size ?d \<le> length ?s + length beyond"
      using mem bs length_enc_efs_inode [of "efs_new_inode now"] by (simp add: efs_new_inode_def efs_sizeof_inode_def)
    note w = write_struct [OF v len]
    have gone: "efs_load_inode stack ino fs' = None" if "unat ino div 26 = i div 26" for ino
    proof -
      have "ino div 26 = of_nat (i div 26)" using that by (simp add: word_arith_nat_div)
      then have "efs_inode_block ino fs' = h"
        using Inode(6) h by (simp add: fs' efs_inode_block_def efs_ok_def EFS_BLOCK_SIZE_def efs_sizeof_inode_def)
      then show ?thesis using read_struct_overrun [of "efs_device fs'" h efs_sizeof_inode] w v bs
        by (simp add: efs_load_inode_def fs' efs_sizeof_inode_def)
    qed
    have "blk h (efs_device fs') = take 4096 (?s @ beyond)" using w(1) bs by (simp add: fs')
    with Inode(2,4) gone show ?thesis unfolding h
      by (intro exI [of _ i]) (simp add: efs_write_file_def efs_read_file_def fs')
  qed
qed

text \<open>A file system with eight inodes, the first one taken.\<close>

definition small_efs :: efs where
  "small_efs = \<lparr>efs_device = block_device_open [] 4096, efs_super = \<lparr>es_magic = EFS_MAGIC, es_version = 1,
     es_total_blocks = 8, es_free_blocks = 8, es_total_inodes = 8, es_free_inodes = 7,
     es_inode_table_block = 20, es_data_bitmap_block = 10, es_inode_bitmap_block = 1, es_checksum = 0\<rparr>,
     efs_inode_bitmap = [1], efs_data_bitmap = [0]\<rparr>"

theorem efs_create_clobbers_witness:
  "\<exists>fs' i. efs_create_file (replicate 4000 7) 5 (Some ''a>b'') (Some small_efs) = (0, Some fs') \<and>
     efs_inode_bitmap fs' = bm_set [1] i \<and> (\<forall>ino. unat ino div 26 = i div 26 \<longrightarrow>
       efs_write_file [] (\<lambda>_. 0) ino (Some [9]) 0 (Some fs') = None)"
proof -
  have sc: "scan (\<lambda>i. \<not> bm_test [1] i) 0 8 = Some 1"
    by (simp add: scan_Some_iff bm_test_def less_Suc_eq)
  have "\<exists>fs'. efs_create_file (replicate 4000 7) 5 (Some ''a>b'') (Some small_efs) = (0, Some fs')"
    using sc by (simp add: efs_create_file_def efs_alloc_inode_def small_efs_def FS_MAX_PATH_LEN_def)
  then obtain fs' where r: "efs_create_file (replicate 4000 7) 5 (Some ''a>b'') (Some small_efs) = (0, Some fs')" ..
  have ok: "efs_ok small_efs" by (simp add: efs_ok_def small_efs_def block_device_open_def EFS_BLOCK_SIZE_def)
  have mem: "3944 \<le> length (replicate 4000 (7 :: u8))" by (simp only: length_replicate)
  from efs_create_clobbers [OF ok mem r, of "[]" "\<lambda>_. 0"] show ?thesis
    using r by (auto simp: small_efs_def)
qed

text \<open>
  Whatever mkfs.efs formats, the file service cannot use: on the file that
  the tool leaves, file_service_init reads a block of 4096 bytes into the 72 bytes of the
  superblock and has no defined result.
\<close>

theorem mkfs_then_service_undefined:
  assumes "4024 \<le> length beyond"
  shows "\<exists>f'. mkfs_efs_main beyond 2 (Some f) = (0, Some f') \<and> file_service_init heap beyond' (Some f') = None"
proof -
  obtain fs where fs: "efs_format beyond (Some f) = Some fs" "block_size (efs_device fs) = 4096"
    by (simp add: efs_format_def EFS_BLOCK_SIZE_def block_device_open_def file_write_block_def Let_def)
  let ?s = "enc_efs_superblock (efs_super fs)" and ?d = "efs_device fs"
  define f' where "f' = bd_file (snd (file_write_block 0 (?s @ beyond) ?d))"
  have v: "bd_valid ?d 0" by (simp add: bd_valid_def fs(2))
  have len: "block_size ?d \<le> length ?s + length beyond"
    using assms by (simp add: fs(2) length_enc_efs_superblock efs_sizeof_superblock_def)
  have "4096 \<le> length f'"
    using write_struct(2,3) [OF v len] by (simp add: f'_def bd_present_def fs(2))
  then have "read_struct efs_sizeof_superblock 0 (malloc heap efs_sizeof_superblock) (block_device_open f' EFS_BLOCK_SIZE) = None"
    by (intro read_struct_overrun)
      (simp_all add: bd_valid_def bd_present_def block_device_open_def EFS_BLOCK_SIZE_def efs_sizeof_superblock_def)
  moreover have "mkfs_efs_main beyond 2 (Some f) = (0, Some f')"
    by (simp add: mkfs_efs_main_def fs(1) efs_unmount_def f'_def)
  ultimately show ?thesis by (simp add: file_service_init_def efs_mount_def Let_def)
qed

theorem mkfs_then_service_undefined_witness:
  "\<exists>f'. mkfs_efs_main (replicate 4024 0) 2 (Some []) = (0, Some f') \<and>
     file_service_init (\<lambda>_. 0) [] (Some f') = None"
  by (rule mkfs_then_service_undefined) simp

end
