(* ===== verification/Fs_Wm2ud.thy ===== *)
theory Fs_Wm2ud
  imports Fs_Common
begin

text \<open>
  The swap file system WM2UD, fs/src/wm2ud: setting up a swap device (wm2ud_core.c) and writing,
  reading and freeing its pages (wm2ud_page.c). The page table is a hash table with linear probing.
  A probe that meets neither the address nor an empty slot runs for ever; the value of an operation
  that does not return is \<open>None\<close>. \<open>now\<close> is the clock.
\<close>

section \<open>Structures\<close>

definition WM2UD_MAGIC :: u32 where "WM2UD_MAGIC = 0x574D3255"
definition WM2UD_PAGE_SIZE :: nat where "WM2UD_PAGE_SIZE = 4096"

record wm2ud_superblock =
  ws_magic :: u32
  ws_version :: u32
  ws_page_size :: u32
  ws_total_pages :: u64
  ws_free_pages :: u64
  ws_compression_enabled :: u8
  ws_encryption_enabled :: u8

record wm2ud_page_entry =
  virtual_addr :: u64
  physical_block :: u64
  compressed_size :: u32
  pe_flags :: u32
  last_access :: u64

record wm2ud =
  sw_device :: bdev
  sw_super :: wm2ud_superblock
  page_table :: "wm2ud_page_entry list"
  page_table_size :: nat
  cache_size :: nat

definition wm2ud_sizeof_superblock :: nat where "wm2ud_sizeof_superblock = 56"

definition dec_wm2ud_superblock :: "u8 list \<Rightarrow> wm2ud_superblock" where
  "dec_wm2ud_superblock bs = \<lparr>ws_magic = of_nat (field 0 4 bs), ws_version = of_nat (field 4 4 bs),
     ws_page_size = of_nat (field 8 4 bs), ws_total_pages = of_nat (field 16 8 bs),
     ws_free_pages = of_nat (field 24 8 bs), ws_compression_enabled = of_nat (field 32 1 bs),
     ws_encryption_enabled = of_nat (field 33 1 bs)\<rparr>"

definition empty_entry :: wm2ud_page_entry where
  "empty_entry = \<lparr>virtual_addr = 0, physical_block = 0, compressed_size = 0, pe_flags = 0, last_access = 0\<rparr>"

section \<open>Mounting (wm2ud_core.c)\<close>

definition wm2ud_format :: "u8 list option \<Rightarrow> wm2ud option" where
  "wm2ud_format content = (case content of None \<Rightarrow> None | Some f \<Rightarrow>
     (let dev = block_device_open f WM2UD_PAGE_SIZE;
          dev = (if total_blocks dev = 0 then dev\<lparr>total_blocks := 0x40000000 div of_nat WM2UD_PAGE_SIZE\<rparr> else dev)
      in Some \<lparr>sw_device = dev,
          sw_super = \<lparr>ws_magic = WM2UD_MAGIC, ws_version = 1, ws_page_size = of_nat WM2UD_PAGE_SIZE,
            ws_total_pages = total_blocks dev - 1, ws_free_pages = total_blocks dev - 1,
            ws_compression_enabled = 0, ws_encryption_enabled = 0\<rparr>,
          page_table = replicate 1024 empty_entry, page_table_size = 1024, cache_size = 0\<rparr>))"

definition wm2ud_mount :: "(nat \<Rightarrow> u8) \<Rightarrow> u8 list option \<Rightarrow> wm2ud option option" where
  "wm2ud_mount heap content = (case content of None \<Rightarrow> Some None | Some f \<Rightarrow>
     (let dev = block_device_open f WM2UD_PAGE_SIZE in
      case read_struct wm2ud_sizeof_superblock 0 (malloc heap wm2ud_sizeof_superblock) dev of
        None \<Rightarrow> None
      | Some (rc, obj) \<Rightarrow>
          (if rc < 0 then Some None
           else if ws_magic (dec_wm2ud_superblock obj) \<noteq> WM2UD_MAGIC then Some None
           else Some (Some \<lparr>sw_device = dev, sw_super = dec_wm2ud_superblock obj,
             page_table = replicate 1024 empty_entry, page_table_size = 1024, cache_size = 0\<rparr>))))"

text \<open>The result and the host file that is left; nothing is written.\<close>

definition wm2ud_unmount :: "wm2ud option \<Rightarrow> int \<times> u8 list option" where
  "wm2ud_unmount swap = (case swap of None \<Rightarrow> (-1, None) | Some s \<Rightarrow> (0, Some (bd_file (sw_device s))))"

section \<open>Pages (wm2ud_page.c)\<close>

definition hash_addr :: "u64 \<Rightarrow> nat \<Rightarrow> nat" where
  "hash_addr addr table_size = (unat addr div WM2UD_PAGE_SIZE) mod table_size"

definition wm2ud_alloc_block :: "wm2ud \<Rightarrow> u64 \<times> wm2ud" where
  "wm2ud_alloc_block s =
     (case scan (\<lambda>i. \<not> list_ex (\<lambda>e. physical_block e = of_nat i) (take (page_table_size s) (page_table s)))
             1 (unat (total_blocks (sw_device s))) of
        Some i \<Rightarrow> (of_nat i, s\<lparr>sw_super := (sw_super s)\<lparr>ws_free_pages := ws_free_pages (sw_super s) - 1\<rparr>\<rparr>)
      | None \<Rightarrow> (0, s))"

definition lru_touch :: "u64 \<Rightarrow> nat \<Rightarrow> wm2ud \<Rightarrow> wm2ud" where
  "lru_touch now idx s = s\<lparr>page_table := (page_table s)[idx := (page_table s ! idx)\<lparr>last_access := now\<rparr>]\<rparr>"

definition lru_evict :: "wm2ud \<Rightarrow> nat" where
  "lru_evict s = snd (foldl (\<lambda>(oldest, victim) i.
       if physical_block (page_table s ! i) \<noteq> 0 \<and> last_access (page_table s ! i) < oldest
       then (last_access (page_table s ! i), i) else (oldest, victim))
     (-1 :: u64, 0) [0..<page_table_size s])"

text \<open>The loop of wm2ud_write_page, and that of the other two operations.\<close>

partial_function (option) probe_slot :: "wm2ud_page_entry list \<Rightarrow> nat \<Rightarrow> u64 \<Rightarrow> nat \<Rightarrow> nat option" where
  "probe_slot t n v idx =
     (if physical_block (t ! idx) \<noteq> 0 \<and> virtual_addr (t ! idx) \<noteq> v
      then probe_slot t n v ((idx + 1) mod n) else Some idx)"

partial_function (option) find_page :: "wm2ud_page_entry list \<Rightarrow> nat \<Rightarrow> u64 \<Rightarrow> nat \<Rightarrow> nat option option" where
  "find_page t n v idx =
     (if physical_block (t ! idx) \<noteq> 0
      then (if virtual_addr (t ! idx) = v then Some (Some idx) else find_page t n v ((idx + 1) mod n))
      else Some None)"

definition set_physical :: "nat \<Rightarrow> u64 \<Rightarrow> wm2ud \<Rightarrow> wm2ud" where
  "set_physical i b s = s\<lparr>page_table := (page_table s)[i := (page_table s ! i)\<lparr>physical_block := b\<rparr>]\<rparr>"

definition set_virtual :: "nat \<Rightarrow> u64 \<Rightarrow> wm2ud \<Rightarrow> wm2ud" where
  "set_virtual i v s = s\<lparr>page_table := (page_table s)[i := (page_table s ! i)\<lparr>virtual_addr := v\<rparr>]\<rparr>"

definition wm2ud_write_page ::
    "u64 \<Rightarrow> u64 \<Rightarrow> u8 list option \<Rightarrow> wm2ud option \<Rightarrow> (int \<times> wm2ud option) option" where
  "wm2ud_write_page now v data swap =
     (case (swap, data) of
        (Some s, Some data) \<Rightarrow>
          (case probe_slot (page_table s) (page_table_size s) v (hash_addr v (page_table_size s)) of
             None \<Rightarrow> None
           | Some idx \<Rightarrow>
               (let s = (if physical_block (page_table s ! idx) = 0 then
                      (case wm2ud_alloc_block s of (b, s) \<Rightarrow>
                         (let (b, s) = (if b = 0 then
                               (let victim = lru_evict s
                                in (physical_block (page_table s ! victim), set_physical victim 0 s))
                             else (b, s))
                          in set_virtual idx v (set_physical idx b s)))
                    else s);
                    s = s\<lparr>sw_device := snd (file_write_block (physical_block (page_table s ! idx)) data (sw_device s))\<rparr>
                in Some (0, Some (lru_touch now idx s))))
      | (swap, _) \<Rightarrow> Some (-1, swap))"

definition wm2ud_read_page ::
    "u64 \<Rightarrow> u64 \<Rightarrow> u8 list option \<Rightarrow> wm2ud option \<Rightarrow> (int \<times> u8 list option \<times> wm2ud option) option" where
  "wm2ud_read_page now v data swap =
     (case (swap, data) of
        (Some s, Some data) \<Rightarrow>
          (case find_page (page_table s) (page_table_size s) v (hash_addr v (page_table_size s)) of
             None \<Rightarrow> None
           | Some None \<Rightarrow> Some (-1, Some data, Some s)
           | Some (Some idx) \<Rightarrow>
               (let data = snd (file_read_block (physical_block (page_table s ! idx)) data (sw_device s))
                in Some (0, Some data, Some (lru_touch now idx s))))
      | (swap, data) \<Rightarrow> Some (-1, data, swap))"

definition wm2ud_free_page :: "u64 \<Rightarrow> wm2ud option \<Rightarrow> (int \<times> wm2ud option) option" where
  "wm2ud_free_page v swap = (case swap of None \<Rightarrow> Some (-1, None) | Some s \<Rightarrow>
     (case find_page (page_table s) (page_table_size s) v (hash_addr v (page_table_size s)) of
        None \<Rightarrow> None
      | Some None \<Rightarrow> Some (-1, Some s)
      | Some (Some idx) \<Rightarrow>
          (let s = set_virtual idx 0 (set_physical idx 0 s)
           in Some (0, Some (s\<lparr>sw_super := (sw_super s)\<lparr>ws_free_pages := ws_free_pages (sw_super s) + 1\<rparr>\<rparr>)))))"

section \<open>Probing\<close>

text \<open>The slot at a distance from the address's own, and whether the probe stops there.\<close>

definition probe_at :: "wm2ud_page_entry list \<Rightarrow> u64 \<Rightarrow> nat \<Rightarrow> nat" where
  "probe_at t v d = (hash_addr v (length t) + d) mod length t"

definition stops :: "wm2ud_page_entry list \<Rightarrow> u64 \<Rightarrow> nat \<Rightarrow> bool" where
  "stops t v d \<longleftrightarrow> physical_block (t ! probe_at t v d) = 0 \<or> virtual_addr (t ! probe_at t v d) = v"

lemma slot_lt [simp]: "t \<noteq> [] \<Longrightarrow> probe_at t v d < length t"
  by (simp add: probe_at_def)

lemma probe_at_update [simp]: "probe_at (t[i := e]) = probe_at t"
  by (simp add: probe_at_def fun_eq_iff)

lemma slot_zero: "probe_at t v 0 = hash_addr v (length t)"
  by (simp add: probe_at_def hash_addr_def)

lemma slot_Suc: "(probe_at t v d + 1) mod length t = probe_at t v (Suc d)"
  by (simp add: probe_at_def mod_Suc_eq)

lemma probe_from: "\<forall>e. k \<le> e \<and> e < d \<longrightarrow> \<not> stops t v e \<Longrightarrow> stops t v d \<Longrightarrow> k \<le> d \<Longrightarrow>
    probe_slot t (length t) v (probe_at t v k) = Some (probe_at t v d) \<and>
    find_page t (length t) v (probe_at t v k) =
      Some (if physical_block (t ! probe_at t v d) = 0 then None else Some (probe_at t v d))"
proof (induction "d - k" arbitrary: k)
  case 0
  then have "k = d" by simp
  with 0 show ?case by (subst probe_slot.simps, subst find_page.simps) (auto simp: stops_def)
next
  case (Suc m)
  then have k: "k < d" by simp
  then have "\<not> stops t v k" using Suc.prems(1) by simp
  then have nk: "physical_block (t ! probe_at t v k) \<noteq> 0" "virtual_addr (t ! probe_at t v k) \<noteq> v"
    by (simp_all add: stops_def)
  from Suc.hyps(1) [of "Suc k"] Suc.hyps(2) Suc.prems k
  have "probe_slot t (length t) v (probe_at t v (Suc k)) = Some (probe_at t v d) \<and>
    find_page t (length t) v (probe_at t v (Suc k)) =
      Some (if physical_block (t ! probe_at t v d) = 0 then None else Some (probe_at t v d))" by simp
  with nk show ?case by (subst probe_slot.simps, subst find_page.simps) (simp only: slot_Suc, simp)
qed

lemma probe_stops:
  assumes "stops t v d" "\<forall>e < d. \<not> stops t v e"
  shows "probe_slot t (length t) v (hash_addr v (length t)) = Some (probe_at t v d)"
    and "find_page t (length t) v (hash_addr v (length t)) =
      Some (if physical_block (t ! probe_at t v d) = 0 then None else Some (probe_at t v d))"
  using probe_from [of 0 d t v] assms by (simp_all add: slot_zero)

text \<open>Every slot is at some distance.\<close>

lemma slot_reaches: "i < length t \<Longrightarrow> \<exists>d < length t. probe_at t v d = i"
proof -
  assume i: "i < length t"
  let ?n = "length t" and ?h = "hash_addr v (length t)"
  have h: "?h < ?n" unfolding hash_addr_def by (rule mod_less_divisor) (use i in auto)
  show ?thesis
  proof (cases "?h \<le> i")
    case True
    with i show ?thesis by (intro exI [of _ "i - ?h"]) (simp add: probe_at_def)
  next
    case False
    with i h have "(?h + (?n + i - ?h)) mod ?n = i" by simp
    with False i h show ?thesis by (intro exI [of _ "?n + i - ?h"]) (auto simp: probe_at_def)
  qed
qed

text \<open>Without a stop the loops run for ever.\<close>

lemma probe_Some_stop: "probe_slot t n v idx = Some r \<Longrightarrow> physical_block (t ! r) = 0 \<or> virtual_addr (t ! r) = v"
  by (induction rule: probe_slot.raw_induct [rotated, consumes 1]) (auto split: if_splits)

lemma probe_Some_lt: "probe_slot t n v idx = Some r \<Longrightarrow> idx < n \<Longrightarrow> r < n"
  by (induction rule: probe_slot.raw_induct [rotated, consumes 1]) (auto split: if_splits)

lemma find_Some_stop:
  "find_page t n v idx = Some r \<Longrightarrow> idx < n \<Longrightarrow> \<exists>j < n. physical_block (t ! j) = 0 \<or> virtual_addr (t ! j) = v"
  by (induction rule: find_page.raw_induct [rotated, consumes 1]) (auto split: if_splits)

section \<open>Well-formed swap devices, and the pages they hold\<close>

definition holds_page :: "wm2ud_page_entry list \<Rightarrow> u64 \<Rightarrow> nat \<Rightarrow> bool" where
  "holds_page t v i \<longleftrightarrow> i < length t \<and> physical_block (t ! i) \<noteq> 0 \<and> virtual_addr (t ! i) = v"

text \<open>Each page is found by probing, and no two pages share a block.\<close>

definition pages_ok :: "wm2ud_page_entry list \<Rightarrow> bool" where
  "pages_ok t \<longleftrightarrow> t \<noteq> [] \<and>
     (\<forall>v i. holds_page t v i \<longrightarrow> (\<exists>d. probe_at t v d = i \<and> (\<forall>e < d. \<not> stops t v e))) \<and>
     (\<forall>v w i j. holds_page t v i \<longrightarrow> holds_page t w j \<longrightarrow> physical_block (t ! j) = physical_block (t ! i) \<longrightarrow> i = j)"

definition swap_ok :: "wm2ud \<Rightarrow> bool" where
  "swap_ok s \<longleftrightarrow> page_table_size s = length (page_table s) \<and> pages_ok (page_table s) \<and>
     block_size (sw_device s) = WM2UD_PAGE_SIZE \<and> unat (total_blocks (sw_device s)) < 2 ^ 50 \<and>
     (\<forall>v i. holds_page (page_table s) v i \<longrightarrow> bd_valid (sw_device s) (physical_block (page_table s ! i)) \<and>
        bd_present (sw_device s) (physical_block (page_table s ! i)))"

text \<open>The abstract state: what page each address has.\<close>

definition swap_map :: "wm2ud \<Rightarrow> u64 \<rightharpoonup> u8 list" where
  "swap_map s v = map_option (\<lambda>e. blk (physical_block e) (sw_device s))
     (List.find (\<lambda>e. physical_block e \<noteq> 0 \<and> virtual_addr e = v) (page_table s))"

definition room :: "wm2ud \<Rightarrow> bool" where
  "room s \<longleftrightarrow> (\<exists>i < length (page_table s). physical_block (page_table s ! i) = 0) \<and>
     (\<exists>b. 1 \<le> b \<and> b < unat (total_blocks (sw_device s)) \<and>
        (\<forall>e \<in> set (page_table s). physical_block e \<noteq> of_nat b))"

lemma table_path: "pages_ok t \<Longrightarrow> holds_page t v i \<Longrightarrow> \<exists>d. probe_at t v d = i \<and> (\<forall>e < d. \<not> stops t v e)"
  by (simp add: pages_ok_def)

lemma holds_unique:
  assumes "pages_ok t" "holds_page t v i" "holds_page t v j"
  shows "i = j"
proof -
  from table_path [OF assms(1,2)] obtain d where d: "probe_at t v d = i" "\<forall>k < d. \<not> stops t v k" by blast
  from table_path [OF assms(1,3)] obtain e where e: "probe_at t v e = j" "\<forall>k < e. \<not> stops t v k" by blast
  have "stops t v d" "stops t v e" using assms(2,3) d(1) e(1) by (simp_all add: stops_def holds_page_def)
  with d(2) e(2) have "d = e" by (metis linorder_neqE_nat)
  with d e show ?thesis by simp
qed

lemma swap_map_None: "swap_map s v = None \<longleftrightarrow> (\<forall>i. \<not> holds_page (page_table s) v i)"
  by (auto simp: swap_map_def find_None_iff holds_page_def in_set_conv_nth)

lemma swap_map_Some:
  assumes "pages_ok (page_table s)" "holds_page (page_table s) v i"
  shows "swap_map s v = Some (blk (physical_block (page_table s ! i)) (sw_device s))"
proof -
  have "swap_map s v \<noteq> None" using assms(2) by (auto simp: swap_map_None)
  then obtain e where e: "List.find (\<lambda>e. physical_block e \<noteq> 0 \<and> virtual_addr e = v) (page_table s) = Some e"
    by (auto simp: swap_map_def)
  then obtain j where "holds_page (page_table s) v j" "e = page_table s ! j"
    by (auto simp: find_Some_iff holds_page_def)
  with holds_unique [OF assms(1) _ assms(2)] e show ?thesis by (simp add: swap_map_def)
qed

lemma probe_finds:
  assumes ok: "pages_ok t" and "(\<exists>i < length t. physical_block (t ! i) = 0) \<or> (\<exists>i. holds_page t v i)"
  obtains d where "stops t v d" "\<forall>e < d. \<not> stops t v e" "probe_at t v d < length t"
    "physical_block (t ! probe_at t v d) = 0 \<Longrightarrow> \<forall>j. \<not> holds_page t v j"
    "physical_block (t ! probe_at t v d) \<noteq> 0 \<Longrightarrow> holds_page t v (probe_at t v d)"
proof -
  have "\<exists>d. stops t v d"
    using assms(2) slot_reaches [of _ t v] by (fastforce simp: stops_def holds_page_def)
  then obtain d where d: "stops t v d" "\<forall>e < d. \<not> stops t v e"
    by (metis exists_least_iff)
  have lt: "probe_at t v d < length t" using ok by (simp add: pages_ok_def)
  moreover have "\<not> holds_page t v j" if z: "physical_block (t ! probe_at t v d) = 0" for j
  proof
    assume h: "holds_page t v j"
    from table_path [OF ok h] obtain e where e: "probe_at t v e = j" "\<forall>k < e. \<not> stops t v k" by blast
    have "stops t v e" using h e(1) by (simp add: stops_def holds_page_def)
    with d e(2) have "d = e" by (metis linorder_neqE_nat)
    with z e(1) h show False by (simp add: holds_page_def)
  qed
  moreover have "physical_block (t ! probe_at t v d) \<noteq> 0 \<Longrightarrow> holds_page t v (probe_at t v d)"
    using d(1) lt by (simp add: stops_def holds_page_def)
  ultimately show thesis using that d by blast
qed

text \<open>Tables with the same keys; time stamps do not matter.\<close>

definition same_keys :: "wm2ud_page_entry list \<Rightarrow> wm2ud_page_entry list \<Rightarrow> bool" where
  "same_keys t t' \<longleftrightarrow> length t' = length t \<and> (\<forall>i. physical_block (t' ! i) = physical_block (t ! i) \<and>
     virtual_addr (t' ! i) = virtual_addr (t ! i))"

lemma same_keys_touch: "same_keys (page_table s) (page_table (lru_touch now i s))"
  by (cases "i < length (page_table s)")
    (auto simp: same_keys_def lru_touch_def nth_list_update list_update_beyond not_less)

lemma same_keys_cong:
  assumes "same_keys t t'"
  shows "holds_page t' = holds_page t" "probe_at t' = probe_at t" "stops t' = stops t" "pages_ok t' = pages_ok t"
proof -
  show h: "holds_page t' = holds_page t" and s: "probe_at t' = probe_at t"
    using assms by (simp_all add: same_keys_def fun_eq_iff holds_page_def probe_at_def)
  from s show st: "stops t' = stops t" using assms by (simp add: same_keys_def fun_eq_iff stops_def)
  have "t' \<noteq> [] \<longleftrightarrow> t \<noteq> []" using assms by (metis length_0_conv same_keys_def)
  with h s st show "pages_ok t' = pages_ok t" using assms by (simp add: pages_ok_def same_keys_def)
qed

lemma touch_simps [simp]:
  "sw_device (lru_touch now i s) = sw_device s" "page_table_size (lru_touch now i s) = page_table_size s"
  by (simp_all add: lru_touch_def)

lemma touch_ok: "swap_ok (lru_touch now i s) = swap_ok s"
  using same_keys_touch [of s now i] same_keys_cong [OF same_keys_touch [of s now i]]
  by (simp add: swap_ok_def same_keys_def)

lemma touch_map:
  assumes "pages_ok (page_table s)"
  shows "swap_map (lru_touch now i s) = swap_map s"
proof
  fix v
  note k = same_keys_touch [of s now i] same_keys_cong [OF same_keys_touch [of s now i]]
  show "swap_map (lru_touch now i s) v = swap_map s v"
  proof (cases "\<exists>j. holds_page (page_table s) v j")
    case True
    then obtain j where j: "holds_page (page_table s) v j" ..
    with swap_map_Some [of s v j] swap_map_Some [of "lru_touch now i s" v j] k assms show ?thesis
      by (simp add: same_keys_def)
  next
    case False
    then have "swap_map s v = None" "swap_map (lru_touch now i s) v = None"
      using k by (simp_all add: swap_map_None)
    then show ?thesis by simp
  qed
qed

section \<open>Writing a page\<close>

text \<open>An entry for \<open>v\<close> with block \<open>b\<close> put where the probe for \<open>v\<close> stopped.\<close>

lemma put_entry:
  assumes ok: "pages_ok t" and stop: "stops t v d" "\<forall>e < d. \<not> stops t v e"
    and i: "i = probe_at t v d" and e: "physical_block e = b" "virtual_addr e = v" "b \<noteq> 0"
    and new: "physical_block (t ! i) \<noteq> 0 \<Longrightarrow> physical_block (t ! i) = b \<and> virtual_addr (t ! i) = v"
    and fresh: "\<And>u j. holds_page t u j \<Longrightarrow> j \<noteq> i \<Longrightarrow> physical_block (t ! j) \<noteq> b"
  shows "pages_ok (t[i := e])"
    and "holds_page (t[i := e]) u j \<longleftrightarrow> (if j = i then u = v else holds_page t u j)"
proof -
  let ?t = "t[i := e]"
  have lt: "i < length t" using ok by (simp add: i pages_ok_def)
  have at: "?t ! j = (if j = i then e else t ! j)" for j using lt by (cases "j < length t") (auto simp: nth_list_update)
  have holds: "holds_page ?t u j \<longleftrightarrow> (if j = i then u = v else holds_page t u j)" for u j
    using lt e by (auto simp: holds_page_def at)
  then show "holds_page ?t u j \<longleftrightarrow> (if j = i then u = v else holds_page t u j)" .
  have keep: "\<not> stops ?t u k" if "\<not> stops t u k" "probe_at t u k \<noteq> i \<or> u \<noteq> v" for u k
    using that e new by (auto simp: stops_def at)
  have path: "\<exists>d. probe_at ?t u d = j \<and> (\<forall>e < d. \<not> stops ?t u e)" if h: "holds_page ?t u j" for u j
  proof (cases "j = i")
    case True
    with h have u: "u = v" using holds by simp
    have "probe_at t v k \<noteq> i" if "k < d" for k
    proof
      assume "probe_at t v k = i"
      then have "stops t v k" using stop(1) i by (simp add: stops_def)
      with stop(2) that show False by simp
    qed
    with stop(2) keep i True u show ?thesis by (intro exI [of _ d]) auto
  next
    case False
    with h have h': "holds_page t u j" using holds by simp
    from table_path [OF ok h'] obtain k where k: "probe_at t u k = j" "\<forall>e < k. \<not> stops t u e" by blast
    have "u \<noteq> v \<or> probe_at t u l \<noteq> i" if "l < k" for l
    proof (rule disjCI)
      assume "\<not> probe_at t u l \<noteq> i"
      then have "\<not> stops t u l" "probe_at t u l = i" using k(2) that by simp_all
      then show "u \<noteq> v" using new by (auto simp: stops_def)
    qed
    with k keep show ?thesis by (intro exI [of _ k]) auto
  qed
  show "pages_ok ?t"
    unfolding pages_ok_def
  proof (intro conjI allI impI)
    show "?t \<noteq> []" using lt by auto
    show "\<exists>d. probe_at ?t u d = j \<and> (\<forall>e < d. \<not> stops ?t u e)" if "holds_page ?t u j" for u j
      using path that .
    show "j = k" if "holds_page ?t u j" "holds_page ?t w k" "physical_block (?t ! k) = physical_block (?t ! j)" for u w j k
    proof -
      have "j = k" if jk: "j \<noteq> i" "k \<noteq> i"
        using that ok \<open>holds_page ?t u j\<close> \<open>holds_page ?t w k\<close> \<open>physical_block (?t ! k) = physical_block (?t ! j)\<close>
        unfolding holds pages_ok_def by (auto simp: at)
      moreover have False if "j = i" "k \<noteq> i"
        using that fresh [of w k] \<open>holds_page ?t w k\<close> \<open>physical_block (?t ! k) = physical_block (?t ! j)\<close> e
        by (auto simp: holds at)
      moreover have False if "j \<noteq> i" "k = i"
        using that fresh [of u j] \<open>holds_page ?t u j\<close> \<open>physical_block (?t ! k) = physical_block (?t ! j)\<close> e
        by (auto simp: holds at)
      ultimately show ?thesis by blast
    qed
  qed
qed

lemma alloc_free_block:
  assumes ok: "swap_ok s" and room: "room s"
  obtains b s' where "wm2ud_alloc_block s = (b, s')" "b \<noteq> 0" "bd_valid (sw_device s) b"
    "\<forall>e \<in> set (page_table s). physical_block e \<noteq> b" "sw_device s' = sw_device s"
    "page_table s' = page_table s" "page_table_size s' = page_table_size s"
proof -
  have len: "page_table_size s = length (page_table s)" and tot: "unat (total_blocks (sw_device s)) < 2 ^ 50"
    and bs: "block_size (sw_device s) = 4096" using ok by (simp_all add: swap_ok_def WM2UD_PAGE_SIZE_def)
  let ?P = "\<lambda>i. \<not> list_ex (\<lambda>e. physical_block e = of_nat i) (take (page_table_size s) (page_table s))"
  from room obtain j where "1 \<le> j" "j < unat (total_blocks (sw_device s))" "?P j"
    by (auto simp: room_def list_ex_iff len)
  from scan_exists [of 1 j _ ?P, OF this] obtain i where i: "scan ?P 1 (unat (total_blocks (sw_device s))) = Some i" by blast
  note d = scan_SomeD(1-3) [OF i]
  have u: "unat (of_nat i :: u64) = i" using d(2) tot by (intro unat_of_nat_small) simp
  have nz: "(of_nat i :: u64) \<noteq> 0" using u d(1) by auto
  have v: "bd_valid (sw_device s) (of_nat i)" using d(2) tot by (simp add: bd_valid_def u bs)
  have fr: "\<forall>e \<in> set (page_table s). physical_block e \<noteq> of_nat i" using d(3) by (simp add: list_ex_iff len)
  have "wm2ud_alloc_block s = (of_nat i, s\<lparr>sw_super := (sw_super s)\<lparr>ws_free_pages := ws_free_pages (sw_super s) - 1\<rparr>\<rparr>)"
    using i by (simp add: wm2ud_alloc_block_def)
  from that [OF this nz v fr] show thesis by simp
qed

text \<open>The end of a write: the entry is set, the block written and the time stamped.\<close>

definition put_page :: "u64 \<Rightarrow> nat \<Rightarrow> u64 \<Rightarrow> u64 \<Rightarrow> u8 list \<Rightarrow> wm2ud \<Rightarrow> wm2ud" where
  "put_page now i b v data s = lru_touch now i
     (s\<lparr>page_table := (page_table s)[i := (page_table s ! i)\<lparr>physical_block := b, virtual_addr := v\<rparr>],
        sw_device := bd_write b data (sw_device s)\<rparr>)"

lemma put_page_effect:
  assumes ok: "swap_ok s" and stop: "stops (page_table s) v d" "\<forall>e < d. \<not> stops (page_table s) v e"
    and i: "i = probe_at (page_table s) v d" and b: "b \<noteq> 0" "bd_valid (sw_device s) b"
    and new: "physical_block (page_table s ! i) \<noteq> 0 \<Longrightarrow>
      physical_block (page_table s ! i) = b \<and> virtual_addr (page_table s ! i) = v"
    and only: "\<And>j. holds_page (page_table s) v j \<Longrightarrow> j = i"
    and fresh: "\<And>u j. holds_page (page_table s) u j \<Longrightarrow> j \<noteq> i \<Longrightarrow> physical_block (page_table s ! j) \<noteq> b"
    and data: "length data = WM2UD_PAGE_SIZE"
  shows "swap_ok (put_page now i b v data s)" "swap_map (put_page now i b v data s) = (swap_map s)(v \<mapsto> data)"
proof -
  let ?t = "page_table s" and ?e = "(page_table s ! i)\<lparr>physical_block := b, virtual_addr := v\<rparr>"
  let ?s = "s\<lparr>page_table := ?t[i := ?e], sw_device := bd_write b data (sw_device s)\<rparr>"
  have tok: "pages_ok ?t" and bs: "block_size (sw_device s) = WM2UD_PAGE_SIZE" using ok by (simp_all add: swap_ok_def)
  have lt: "i < length ?t" using tok by (simp add: i pages_ok_def)
  have e: "physical_block ?e = b" "virtual_addr ?e = v" by simp_all
  have put: "pages_ok (?t[i := ?e])" "holds_page (?t[i := ?e]) u j \<longleftrightarrow> (if j = i then u = v else holds_page ?t u j)" for u j
    by (rule put_entry [OF tok stop i e b(1)]; use new fresh in blast)+
  have len: "length data = block_size (sw_device s)" using data bs by simp
  have tb: "total_blocks (bd_write b data (sw_device s)) = total_blocks (sw_device s)"
    by (simp add: bd_write_def file_write_block_def Let_def)
  note wr = dev.wr_same [OF b(2) len] dev.wr_other [OF b(2) len] dev.wr_size [OF b(2) len]
    dev.wr_valid [OF b(2) len] present_write [OF b(2) len]
  have at: "?t[i := ?e] ! j = (if j = i then ?e else ?t ! j)" for j using lt by (cases "j < length ?t") (auto simp: nth_list_update)
  have ok': "swap_ok ?s"
    unfolding swap_ok_def
  proof (intro conjI allI impI)
    show "page_table_size ?s = length (page_table ?s)" "block_size (sw_device ?s) = WM2UD_PAGE_SIZE"
      "unat (total_blocks (sw_device ?s)) < 2 ^ 50" using ok wr(3) tb by (simp_all add: swap_ok_def)
    show "pages_ok (page_table ?s)" using put(1) by simp
    show "bd_valid (sw_device ?s) (physical_block (page_table ?s ! j))"
      "bd_present (sw_device ?s) (physical_block (page_table ?s ! j))" if "holds_page (page_table ?s) u j" for u j
      using that ok b(2) wr(4-6) put(2) by (auto simp: swap_ok_def at split: if_splits)
  qed
  then show "swap_ok (put_page now i b v data s)" by (simp add: put_page_def touch_ok)
  have "swap_map ?s u = ((swap_map s)(v \<mapsto> data)) u" for u
  proof (cases "u = v")
    case True
    have "holds_page (page_table ?s) v i" using put(2) [of v i] by simp
    from swap_map_Some [OF _ this] put(1) wr(1) True show ?thesis by (simp add: at)
  next
    case u: False
    show ?thesis
    proof (cases "\<exists>j. holds_page ?t u j")
      case True
      then obtain j where j: "holds_page ?t u j" ..
      have ji: "j \<noteq> i"
      proof
        assume "j = i"
        with j new have "u = v" by (simp add: holds_page_def)
        with u show False by simp
      qed
      have "holds_page (page_table ?s) u j" using put(2) [of u j] j ji by simp
      from swap_map_Some [OF _ this] put(1) have "swap_map ?s u = Some (blk (physical_block (?t ! j)) (bd_write b data (sw_device s)))"
        using ji by (simp add: at)
      with wr(2) [OF fresh [OF j ji]] swap_map_Some [OF tok j] u show ?thesis by simp
    next
      case False
      then have "swap_map s u = None" "swap_map ?s u = None" using put(2) u by (simp_all add: swap_map_None)
      with u show ?thesis by simp
    qed
  qed
  then have "swap_map ?s = (swap_map s)(v \<mapsto> data)" by (rule ext)
  then show "swap_map (put_page now i b v data s) = (swap_map s)(v \<mapsto> data)"
    using put(1) by (simp add: put_page_def touch_map)
qed

text \<open>A page that is not there yet goes to a free block, and one that is there stays in its block.\<close>

lemma write_new_page:
  assumes ok: "swap_ok s" and data: "length data = WM2UD_PAGE_SIZE" and room: "room s"
    and d: "stops (page_table s) v d" "\<forall>e < d. \<not> stops (page_table s) v e" and i: "i = probe_at (page_table s) v d" "i < length (page_table s)"
    and free: "physical_block (page_table s ! i) = 0" and none: "\<And>j. \<not> holds_page (page_table s) v j"
  shows "\<exists>s'. wm2ud_write_page now v (Some data) (Some s) = Some (0, Some s') \<and>
    swap_ok s' \<and> swap_map s' = (swap_map s)(v \<mapsto> data)"
proof -
  let ?t = "page_table s"
  have probe: "probe_slot ?t (page_table_size s) v (hash_addr v (page_table_size s)) = Some i"
    using probe_stops(1) [OF d] ok by (simp add: i(1) swap_ok_def)
  from alloc_free_block [OF ok room] obtain b s1 where b: "wm2ud_alloc_block s = (b, s1)" "b \<noteq> 0"
    "bd_valid (sw_device s) b" "\<forall>e \<in> set ?t. physical_block e \<noteq> b" "sw_device s1 = sw_device s"
    "page_table s1 = ?t" "page_table_size s1 = page_table_size s" .
  have ok1: "swap_ok s1" using ok by (simp add: swap_ok_def b(5-7))
  have m1: "swap_map s1 = swap_map s" by (simp add: swap_map_def fun_eq_iff b(5,6))
  have fresh: "physical_block (?t ! j) \<noteq> b" if "holds_page ?t u j" for u j
    using b(4) that by (simp add: holds_page_def)
  have "wm2ud_write_page now v (Some data) (Some s) = Some (0, Some (put_page now i b v data s1))"
    using probe free b(1,2) i(2) by (simp add: wm2ud_write_page_def put_page_def set_physical_def set_virtual_def
      bd_write_def b(6) Let_def)
  moreover note put_page_effect [OF ok1, of v d i b data now, unfolded b(5,6) m1, OF d i(1) b(2,3)]
  ultimately show ?thesis using free none fresh data by blast
qed

lemma write_same_page:
  assumes ok: "swap_ok s" and data: "length data = WM2UD_PAGE_SIZE"
    and d: "stops (page_table s) v d" "\<forall>e < d. \<not> stops (page_table s) v e" and i: "i = probe_at (page_table s) v d"
    and h: "holds_page (page_table s) v i"
  shows "\<exists>s'. wm2ud_write_page now v (Some data) (Some s) = Some (0, Some s') \<and>
    swap_ok s' \<and> swap_map s' = (swap_map s)(v \<mapsto> data)"
proof -
  let ?t = "page_table s"
  have tok: "pages_ok ?t" using ok by (simp add: swap_ok_def)
  have probe: "probe_slot ?t (page_table_size s) v (hash_addr v (page_table_size s)) = Some i"
    using probe_stops(1) [OF d] ok by (simp add: i swap_ok_def)
  define b where "b = physical_block (?t ! i)"
  have v: "bd_valid (sw_device s) b" using ok h by (auto simp: swap_ok_def b_def)
  have nz: "b \<noteq> 0" and old: "physical_block (?t ! i) = b \<and> virtual_addr (?t ! i) = v"
    using h by (simp_all add: b_def holds_page_def)
  have "(?t ! i)\<lparr>physical_block := b, virtual_addr := v\<rparr> = ?t ! i"
    using old by (intro wm2ud_page_entry.equality) simp_all
  then have "?t[i := (?t ! i)\<lparr>physical_block := b, virtual_addr := v\<rparr>] = ?t" by (simp only: list_update_id)
  then have "wm2ud_write_page now v (Some data) (Some s) = Some (0, Some (put_page now i b v data s))"
    using probe nz by (simp add: wm2ud_write_page_def put_page_def bd_write_def b_def Let_def)
  moreover have fresh: "physical_block (?t ! j) \<noteq> b" if hj: "holds_page ?t u j" "j \<noteq> i" for u j
    using tok hj h unfolding pages_ok_def b_def by blast
  moreover have "swap_ok (put_page now i b v data s) \<and> swap_map (put_page now i b v data s) = (swap_map s)(v \<mapsto> data)"
    by (rule conjI; rule put_page_effect [OF ok d i nz v]; use old holds_unique [OF tok _ h] fresh data in blast)
  ultimately show ?thesis by blast
qed

text \<open>
  C2: A swap device refines a map from addresses to pages: wm2ud_write_page of a page,
  when there is room for it or the address has one already, returns 0 and is the update of the map;
  the probing invariant of the page table is kept.
\<close>

theorem wm2ud_write_refines:
  assumes ok: "swap_ok s" and data: "length data = WM2UD_PAGE_SIZE" and room: "swap_map s v \<noteq> None \<or> room s"
  shows "\<exists>s'. wm2ud_write_page now v (Some data) (Some s) = Some (0, Some s') \<and>
    swap_ok s' \<and> swap_map s' = (swap_map s)(v \<mapsto> data)"
proof -
  let ?t = "page_table s"
  have tok: "pages_ok ?t" using ok by (simp add: swap_ok_def)
  have "(\<exists>i < length ?t. physical_block (?t ! i) = 0) \<or> (\<exists>i. holds_page ?t v i)"
    using room by (auto simp: swap_map_None room_def)
  from probe_finds [OF tok this] obtain d where d: "stops ?t v d" "\<forall>e < d. \<not> stops ?t v e" "probe_at ?t v d < length ?t"
    "physical_block (?t ! probe_at ?t v d) = 0 \<Longrightarrow> \<forall>j. \<not> holds_page ?t v j"
    "physical_block (?t ! probe_at ?t v d) \<noteq> 0 \<Longrightarrow> holds_page ?t v (probe_at ?t v d)" by blast
  show ?thesis
  proof (cases "physical_block (?t ! probe_at ?t v d) = 0")
    case True
    with d(4) have none: "\<not> holds_page ?t v j" for j by blast
    then have "room s" using room by (simp add: swap_map_None)
    then show ?thesis using write_new_page [OF ok data _ d(1,2) refl d(3) True] none by blast
  next
    case False
    show ?thesis by (rule write_same_page [OF ok data d(1,2) refl d(5) [OF False]])
  qed
qed

text \<open>A formatted device of eight blocks, with its page table cut down to four entries.\<close>

definition small_swap :: wm2ud where
  "small_swap = (the (wm2ud_format (Some [])))\<lparr>page_table := replicate 4 empty_entry, page_table_size := 4\<rparr>"

lemma small_swap_facts:
  "page_table small_swap = replicate 4 empty_entry" "page_table_size small_swap = 4"
  "block_size (sw_device small_swap) = 4096" "total_blocks (sw_device small_swap) = 262144"
  by (simp_all add: small_swap_def wm2ud_format_def WM2UD_PAGE_SIZE_def block_device_open_def Let_def)

lemma small_swap_ok: "swap_ok small_swap" "room small_swap"
proof -
  have none: "\<not> holds_page (page_table small_swap) v i" for v i
    by (auto simp: small_swap_facts holds_page_def empty_entry_def)
  then show "swap_ok small_swap"
    by (simp add: swap_ok_def pages_ok_def small_swap_facts WM2UD_PAGE_SIZE_def)
  have "\<exists>i < length (page_table small_swap). physical_block (page_table small_swap ! i) = 0"
    by (rule exI [of _ 0]) (simp add: small_swap_facts empty_entry_def)
  then show "room small_swap"
    by (auto simp: room_def small_swap_facts empty_entry_def intro!: exI [of _ 1])
qed

theorem wm2ud_write_refines_witness:
  "\<exists>s'. wm2ud_write_page 7 0x5000 (Some (replicate WM2UD_PAGE_SIZE 9)) (Some small_swap) = Some (0, Some s') \<and>
    swap_ok s' \<and> swap_map s' = (swap_map small_swap)(0x5000 \<mapsto> replicate WM2UD_PAGE_SIZE 9)"
  using small_swap_ok(2) by (intro wm2ud_write_refines [OF small_swap_ok(1)]) simp_all

section \<open>Reading and freeing a page\<close>



text \<open>
  When every entry of the page table is taken, by whatever pages, an
  operation on an address without a page never returns: its probe goes round the table for ever.
  The eviction that wm2ud_write_page has is never reached this way.
\<close>

theorem wm2ud_full_table_hangs:
  assumes ok: "swap_ok s" and full: "\<forall>e \<in> set (page_table s). physical_block e \<noteq> 0" and miss: "swap_map s v = None"
  shows "wm2ud_write_page now v (Some data) (Some s) = None \<and> wm2ud_read_page now v (Some buf) (Some s) = None \<and>
    wm2ud_free_page v (Some s) = None"
proof -
  let ?t = "page_table s" and ?h = "hash_addr v (page_table_size s)"
  have len: "page_table_size s = length ?t" and ne: "?t \<noteq> []" using ok by (simp_all add: swap_ok_def pages_ok_def)
  have h: "?h < length ?t" unfolding hash_addr_def len by (rule mod_less_divisor) (use ne in simp)
  have no: "\<not> (physical_block (?t ! j) = 0 \<or> virtual_addr (?t ! j) = v)" if "j < length ?t" for j
    using that full miss by (auto simp: swap_map_None holds_page_def)
  have "probe_slot ?t (page_table_size s) v ?h = None"
    using probe_Some_stop [of ?t "page_table_size s" v ?h] probe_Some_lt [of ?t "page_table_size s" v ?h] h no len
    by (cases "probe_slot ?t (page_table_size s) v ?h") auto
  moreover have "find_page ?t (page_table_size s) v ?h = None"
    using find_Some_stop [of ?t "page_table_size s" v ?h] h no len
    by (cases "find_page ?t (page_table_size s) v ?h") auto
  ultimately show ?thesis
    by (simp add: wm2ud_write_page_def wm2ud_read_page_def wm2ud_free_page_def)
qed

text \<open>A table of two entries, both taken by pages that hash to the first.\<close>

definition two_pages :: wm2ud where
  "two_pages = small_swap\<lparr>sw_device := block_device_open (replicate 12288 0) WM2UD_PAGE_SIZE,
     page_table := [empty_entry\<lparr>physical_block := 1\<rparr>, empty_entry\<lparr>virtual_addr := 0x2000, physical_block := 2\<rparr>],
     page_table_size := 2\<rparr>"

lemma two_pages_facts:
  "page_table two_pages = [empty_entry\<lparr>physical_block := 1\<rparr>, empty_entry\<lparr>virtual_addr := 0x2000, physical_block := 2\<rparr>]"
  "page_table_size two_pages = 2" "sw_device two_pages = block_device_open (replicate 12288 0) WM2UD_PAGE_SIZE"
  by (simp_all add: two_pages_def)

lemma two_pages_holds:
  "holds_page (page_table two_pages) v i \<longleftrightarrow> (i = 0 \<and> v = 0) \<or> (i = 1 \<and> v = 0x2000)"
  by (auto simp: holds_page_def two_pages_facts empty_entry_def less_Suc_eq nth_Cons')

lemma two_pages_ok: "swap_ok two_pages"
proof -
  let ?t = "page_table two_pages"
  have t: "length ?t = 2" by (simp add: two_pages_facts)
  have h: "probe_at ?t 0 0 = 0" "probe_at ?t 0x2000 0 = 0" "probe_at ?t 0x2000 1 = 1"
    by (simp_all add: probe_at_def t hash_addr_def WM2UD_PAGE_SIZE_def)
  have "\<not> stops ?t 0x2000 0" unfolding stops_def h by (simp add: two_pages_facts empty_entry_def)
  then have path: "\<exists>d. probe_at ?t v d = i \<and> (\<forall>e < d. \<not> stops ?t v e)" if "holds_page ?t v i" for v i
    using that h unfolding two_pages_holds by (metis less_one not_less_zero)
  have "pages_ok ?t"
    unfolding pages_ok_def
  proof (intro conjI allI impI)
    show "?t \<noteq> []" by (simp add: two_pages_facts)
    show "i = j" if "holds_page ?t v i" "holds_page ?t w j" "physical_block (?t ! j) = physical_block (?t ! i)" for v w i j
      using that unfolding two_pages_holds by (auto simp: two_pages_facts)
  qed (rule path)
  then show ?thesis
    by (auto simp: swap_ok_def two_pages_holds t)
      (simp_all add: two_pages_facts block_device_open_def WM2UD_PAGE_SIZE_def bd_valid_def bd_present_def)
qed

theorem wm2ud_full_table_hangs_witness:
  "wm2ud_write_page 7 0x1000 (Some [1]) (Some two_pages) = None \<and>
   wm2ud_read_page 7 0x1000 (Some [1]) (Some two_pages) = None \<and> wm2ud_free_page 0x1000 (Some two_pages) = None"
proof -
  have "swap_map two_pages 0x1000 = None" by (simp add: swap_map_None two_pages_holds)
  moreover have "\<forall>e \<in> set (page_table two_pages). physical_block e \<noteq> 0" by (simp add: two_pages_facts)
  ultimately show ?thesis using wm2ud_full_table_hangs [OF two_pages_ok] by blast
qed

text \<open>
  Freeing a page empties its entry in the middle of probe chains: after the
  page of one address has been freed, another page whose address hashes to the same entry, and
  which was never freed, can no longer be read.
\<close>

theorem wm2ud_free_loses_page:
  assumes "swap_ok s" "swap_map s w \<noteq> None" "v \<noteq> w"
    and "hash_addr v (page_table_size s) = i" "hash_addr w (page_table_size s) = i"
    and "physical_block (page_table s ! i) \<noteq> 0" "virtual_addr (page_table s ! i) = v"
  shows "\<exists>s'. wm2ud_free_page v (Some s) = Some (0, Some s') \<and>
    wm2ud_read_page now w (Some buf) (Some s') = Some (-1, Some buf, Some s')"
proof -
  have i: "i < length (page_table s)"
    using assms(1) mod_less_divisor [of "length (page_table s)"]
    unfolding assms(4) [symmetric] hash_addr_def by (auto simp: swap_ok_def pages_ok_def)
  have "find_page (page_table s) (page_table_size s) v i = Some (Some i)"
    using assms(6,7) by (subst find_page.simps) simp
  moreover have "find_page ((page_table s)[i := e]) (page_table_size s) w i = Some None" if "physical_block e = 0" for e
    using i that by (subst find_page.simps) simp
  ultimately show ?thesis using assms(4,5) i
    by (simp add: wm2ud_free_page_def wm2ud_read_page_def set_physical_def set_virtual_def Let_def)
qed

theorem wm2ud_free_loses_page_witness:
  "\<exists>s'. wm2ud_free_page 0 (Some two_pages) = Some (0, Some s') \<and>
    wm2ud_read_page 7 0x2000 (Some [1]) (Some s') = Some (-1, Some [1], Some s')"
proof -
  have "swap_map two_pages 0x2000 \<noteq> None" by (auto simp: swap_map_None two_pages_holds)
  from wm2ud_free_loses_page [OF two_pages_ok this, of 0 0] show ?thesis
    by (simp add: two_pages_facts hash_addr_def WM2UD_PAGE_SIZE_def empty_entry_def)
qed

end
