(* ===== verification/Eclc_Lexer.thy ===== *)
theory Eclc_Lexer
  imports Prelude
begin

text \<open>
  The lexer of ECLC, the E-comOS C compiler: eclc/src/frontend/lexer.c with the types of
  eclc/include/eclc/token.h. A source is the buffer that \<open>read_file\<close> makes, its bytes followed by
  a null; a position outside the buffer has no character, and then the lexer has no result. The
  value of a token is an address, 0 for NULL. Characters above 127 belong to no class, as in the C
  locale; positions fit their \<open>int\<close>; memory is available when asked for. Error messages for
  unknown characters are left out.
\<close>

section \<open>Tokens\<close>

datatype token_type =
  TOK_INTEGER | TOK_STRING | TOK_CHAR | TOK_INT | TOK_RETURN | TOK_INCLUDE | TOK_IDENTIFIER |
  TOK_ASSIGN | TOK_PLUS | TOK_MINUS | TOK_MULTIPLY | TOK_DIVIDE | TOK_MODULO | TOK_AMPERSAND |
  TOK_PIPE | TOK_CARET | TOK_TILDE | TOK_EXCLAMATION | TOK_QUESTION | TOK_COLON |
  TOK_EQ | TOK_NE | TOK_LT | TOK_LE | TOK_GT | TOK_GE |
  TOK_LBRACE | TOK_RBRACE | TOK_LPAREN | TOK_RPAREN | TOK_LBRACKET | TOK_RBRACKET |
  TOK_SEMICOLON | TOK_COMMA | TOK_DOT | TOK_ARROW | TOK_HASH | TOK_EOF | TOK_ERROR

record token =
  t_type :: token_type
  t_value :: int
  t_line :: int
  t_column :: int

record token_stream =
  ts_tokens :: "token list"
  ts_capacity :: nat
  ts_current :: nat

definition NUL :: char where "NUL = CHR 0x00"

definition in_range :: "nat \<Rightarrow> nat \<Rightarrow> char \<Rightarrow> bool" where
  "in_range lo hi c = (lo \<le> of_char c \<and> of_char c \<le> hi)"

definition isdigit :: "char \<Rightarrow> bool" where "isdigit = in_range 48 57"
definition isalpha :: "char \<Rightarrow> bool" where "isalpha c = (in_range 65 90 c \<or> in_range 97 122 c)"
definition isspace :: "char \<Rightarrow> bool" where "isspace c = (c = CHR '' '' \<or> in_range 9 13 c)"

definition is_identifier_char :: "char \<Rightarrow> bool" where
  "is_identifier_char c = (isalpha c \<or> isdigit c \<or> c = CHR ''_'')"

text \<open>\<open>strcmp\<close> on strings without their nulls.\<close>

fun strcmp :: "string \<Rightarrow> string \<Rightarrow> int" where
  "strcmp [] [] = 0"
| "strcmp [] (d # ds) = - of_char d"
| "strcmp (c # cs) [] = of_char c"
| "strcmp (c # cs) (d # ds) = (if c = d then strcmp cs ds else of_char c - of_char d)"

text \<open>The result of \<open>strcmp\<close> is stored as the token's pointer, as the code has it.\<close>

definition create_token :: "token_type \<Rightarrow> string option \<Rightarrow> int \<Rightarrow> int \<Rightarrow> token" where
  "create_token type value line column =
     \<lparr>t_type = type, t_value = (case value of Some v \<Rightarrow> strcmp v v | None \<Rightarrow> 0),
      t_line = line, t_column = column\<rparr>"

definition token_stream_add :: "token_stream \<Rightarrow> token \<Rightarrow> token_stream" where
  "token_stream_add stream token =
     (let stream = (if length (ts_tokens stream) \<ge> ts_capacity stream
        then stream\<lparr>ts_capacity := (if ts_capacity stream \<noteq> 0 then ts_capacity stream * 2 else 16)\<rparr> else stream)
      in stream\<lparr>ts_tokens := ts_tokens stream @ [token]\<rparr>)"

text \<open>The token, by its index, and the advanced stream.\<close>

definition token_stream_next :: "token_stream \<Rightarrow> nat option \<times> token_stream" where
  "token_stream_next stream =
     (if ts_current stream \<ge> length (ts_tokens stream) then (None, stream)
      else (Some (ts_current stream), stream\<lparr>ts_current := ts_current stream + 1\<rparr>))"

definition token_stream_peek :: "token_stream \<Rightarrow> nat option" where
  "token_stream_peek stream =
     (if ts_current stream \<ge> length (ts_tokens stream) then None else Some (ts_current stream))"

text \<open>The addresses that freeing a stream frees, besides its array and itself.\<close>

definition token_stream_free :: "token_stream \<Rightarrow> int list" where
  "token_stream_free stream = filter (\<lambda>v. v \<noteq> 0) (map t_value (ts_tokens stream))"

section \<open>The branches of the loop\<close>

text \<open>
  Where the lexer is: position, line and column. The two ways of skipping while a condition on
  the position holds: within a line, and counting lines.
\<close>

type_synonym place = "nat \<times> int \<times> int"

function skip_chars :: "(nat \<Rightarrow> bool) \<Rightarrow> string \<Rightarrow> place \<Rightarrow> place option" where
  "skip_chars go src (pos, line, column) =
     (if pos < length src then
        (if go pos then skip_chars go src (pos + 1, line, column + 1) else Some (pos, line, column))
      else None)"
  by pat_completeness auto

termination by (relation "measure (\<lambda>(go, src, pos, _). length src - pos)") auto

function skip_text :: "(nat \<Rightarrow> bool) \<Rightarrow> string \<Rightarrow> place \<Rightarrow> place option" where
  "skip_text go src (pos, line, column) =
     (if pos < length src then
        (if go pos then
           (if src ! pos = CHR 10 then skip_text go src (pos + 1, line + 1, 1)
            else skip_text go src (pos + 1, line, column + 1))
         else Some (pos, line, column))
      else None)"
  by pat_completeness auto

termination by (relation "measure (\<lambda>(go, src, pos, _). length src - pos)") auto

declare skip_chars.simps [simp del] skip_text.simps [simp del]

text \<open>The token whose text starts at \<open>start\<close>, when the lexer has come to a place.\<close>

definition text_token :: "token_type \<Rightarrow> string \<Rightarrow> nat \<Rightarrow> place \<Rightarrow> token list \<times> place" where
  "text_token type src start at_place = (case at_place of (pos, line, column) \<Rightarrow>
     ([create_token type (Some (take (pos - start) (drop start src))) line (column - int (pos - start))], at_place))"

definition lex_string :: "string \<Rightarrow> place \<Rightarrow> (token list \<times> place) option" where
  "lex_string src p = (case p of (start, line, column) \<Rightarrow>
     (case skip_text (\<lambda>i. src ! i \<noteq> CHR 34 \<and> src ! i \<noteq> NUL) src (start + 1, line, column + 1) of
        None \<Rightarrow> None
      | Some (pos, line, column) \<Rightarrow>
          Some (text_token TOK_STRING src start
            (if src ! pos = CHR 34 then (pos + 1, line, column + 1) else (pos, line, column)))))"

definition lex_char :: "string \<Rightarrow> place \<Rightarrow> (token list \<times> place) option" where
  "lex_char src p = (case p of (start, line, column) \<Rightarrow>
     (if start + 1 \<ge> length src then None
      else (let n = (if src ! (start + 1) = CHR 92 then 3 else 2); pos = start + n; column = column + int n in
        if pos \<ge> length src then None
        else Some (text_token TOK_CHAR src start
          (if src ! pos = CHR 39 then (pos + 1, line, column + 1) else (pos, line, column))))))"

definition lex_comment :: "string \<Rightarrow> place \<Rightarrow> (token list \<times> place) option" where
  "lex_comment src p = (case p of (start, line, column) \<Rightarrow>
     (case skip_text (\<lambda>i. \<not> (src ! i = CHR ''*'' \<and> src ! (i + 1) = CHR ''/'') \<and> src ! i \<noteq> NUL) src
             (start + 2, line, column + 2) of
        None \<Rightarrow> None
      | Some (pos, line, column) \<Rightarrow>
          Some ([], if src ! pos = CHR ''*'' then (pos + 2, line, column + 2) else (pos, line, column))))"

definition lex_line_comment :: "string \<Rightarrow> place \<Rightarrow> (token list \<times> place) option" where
  "lex_line_comment src p =
     map_option (Pair []) (skip_chars (\<lambda>i. src ! i \<noteq> CHR 10 \<and> src ! i \<noteq> NUL) src p)"

definition lex_number :: "string \<Rightarrow> place \<Rightarrow> (token list \<times> place) option" where
  "lex_number src p =
     map_option (text_token TOK_INTEGER src (fst p)) (skip_chars (\<lambda>i. isdigit (src ! i)) src p)"

definition word_type :: "string \<Rightarrow> token_type" where
  "word_type value =
     (if strcmp value ''int'' = 0 then TOK_INT else if strcmp value ''return'' = 0 then TOK_RETURN
      else TOK_IDENTIFIER)"

definition lex_word :: "string \<Rightarrow> place \<Rightarrow> (token list \<times> place) option" where
  "lex_word src p = (case skip_chars (\<lambda>i. is_identifier_char (src ! i)) src p of
     None \<Rightarrow> None
   | Some q \<Rightarrow> Some (text_token (word_type (take (fst q - fst p) (drop (fst p) src))) src (fst p) q))"

definition double_type :: "char \<Rightarrow> char \<Rightarrow> token_type option" where
  "double_type c d =
     (if c = CHR ''='' \<and> d = CHR ''='' then Some TOK_EQ
      else if c = CHR ''!'' \<and> d = CHR ''='' then Some TOK_NE
      else if c = CHR ''<'' \<and> d = CHR ''='' then Some TOK_LE
      else if c = CHR ''>'' \<and> d = CHR ''='' then Some TOK_GE
      else if c = CHR ''-'' \<and> d = CHR ''>'' then Some TOK_ARROW
      else None)"

definition single_table :: "(char \<times> token_type) list" where
  "single_table =
     [(CHR ''{'', TOK_LBRACE), (CHR ''}'', TOK_RBRACE), (CHR ''('', TOK_LPAREN), (CHR '')'', TOK_RPAREN),
      (CHR ''['', TOK_LBRACKET), (CHR '']'', TOK_RBRACKET), (CHR '';'', TOK_SEMICOLON), (CHR '','', TOK_COMMA),
      (CHR ''.'', TOK_DOT), (CHR ''='', TOK_ASSIGN), (CHR ''+'', TOK_PLUS), (CHR ''-'', TOK_MINUS),
      (CHR ''*'', TOK_MULTIPLY), (CHR ''/'', TOK_DIVIDE), (CHR ''%'', TOK_MODULO), (CHR ''&'', TOK_AMPERSAND),
      (CHR ''|'', TOK_PIPE), (CHR ''^'', TOK_CARET), (CHR ''~'', TOK_TILDE), (CHR ''!'', TOK_EXCLAMATION),
      (CHR ''?'', TOK_QUESTION), (CHR '':'', TOK_COLON), (CHR ''<'', TOK_LT), (CHR ''>'', TOK_GT),
      (CHR ''#'', TOK_HASH)]"

definition single_type :: "char \<Rightarrow> token_type" where
  "single_type c = (case map_of single_table c of Some t \<Rightarrow> t | None \<Rightarrow> TOK_ERROR)"

definition lex_operator :: "string \<Rightarrow> place \<Rightarrow> token list \<times> place" where
  "lex_operator src p = (case p of (pos, line, column) \<Rightarrow>
     (let c = src ! pos; d = src ! (pos + 1) in
      case double_type c d of
        Some type \<Rightarrow> ([create_token type (Some [c, d]) line column], pos + 2, line, column + 2)
      | None \<Rightarrow>
          (let type = single_type c in
           (if type \<noteq> TOK_ERROR then [create_token type (Some [c]) line column] else [], pos + 1, line, column + 1))))"

section \<open>The loop\<close>

text \<open>One turn of the loop, at a position that holds a character.\<close>

definition lex_turn :: "string \<Rightarrow> place \<Rightarrow> (token list \<times> place) option" where
  "lex_turn src p = (case p of (pos, line, column) \<Rightarrow>
     (let c = src ! pos in
      if isspace c then Some ([], if c = CHR 10 then (pos + 1, line + 1, 1) else (pos + 1, line, column + 1))
      else if c = CHR 34 then lex_string src p
      else if c = CHR 39 then lex_char src p
      else if c = CHR ''/'' \<and> src ! (pos + 1) = CHR ''*'' then lex_comment src p
      else if c = CHR ''/'' \<and> src ! (pos + 1) = CHR ''/'' then lex_line_comment src p
      else if isdigit c then lex_number src p
      else if isalpha c \<or> c = CHR ''_'' then lex_word src p
      else Some (lex_operator src p)))"

lemma skip_chars_forward:
  "skip_chars go src p = Some q \<Longrightarrow>
   fst p \<le> fst q \<and> fst q < length src \<and> \<not> go (fst q) \<and> (go (fst p) \<longrightarrow> fst p < fst q)"
proof (induction go src p rule: skip_chars.induct)
  case (1 go src pos line column)
  then show ?case using skip_chars.simps [of go src pos line column] by (auto split: if_splits)
qed

lemma skip_text_forward:
  "skip_text go src p = Some q \<Longrightarrow> fst p \<le> fst q \<and> fst q < length src \<and> \<not> go (fst q)"
proof (induction go src p rule: skip_text.induct)
  case (1 go src pos line column)
  then show ?case using skip_text.simps [of go src pos line column] by (auto split: if_splits)
qed

lemma text_token_place [simp]: "snd (text_token type src start p) = p"
  by (cases p) (simp add: text_token_def)

lemma lex_operator_forward [simp]: "pos < fst (snd (lex_operator src (pos, line, column)))"
  by (simp add: lex_operator_def Let_def split: prod.splits option.splits)

lemma lex_forward:
  "lex_string src p = Some r \<Longrightarrow> fst p < fst (snd r)"
  "lex_char src p = Some r \<Longrightarrow> fst p < fst (snd r)"
  "lex_comment src p = Some r \<Longrightarrow> fst p < fst (snd r)"
  "lex_line_comment src p = Some r \<Longrightarrow> src ! fst p \<notin> {CHR 10, NUL} \<Longrightarrow> fst p < fst (snd r)"
  "lex_number src p = Some r \<Longrightarrow> isdigit (src ! fst p) \<Longrightarrow> fst p < fst (snd r)"
  "lex_word src p = Some r \<Longrightarrow> is_identifier_char (src ! fst p) \<Longrightarrow> fst p < fst (snd r)"
  by (auto simp: lex_string_def lex_char_def lex_comment_def lex_line_comment_def lex_number_def lex_word_def
        Let_def dest!: skip_chars_forward skip_text_forward split: prod.splits option.splits if_splits)

lemma lex_turn_forward: "lex_turn src p = Some r \<Longrightarrow> fst p < fst (snd r)"
  by (cases p) (auto simp: lex_turn_def Let_def is_identifier_char_def NUL_def split: if_splits dest: lex_forward)

function lex_loop :: "string \<Rightarrow> place \<Rightarrow> token_stream \<Rightarrow> token_stream option" where
  "lex_loop src p stream =
     (if fst p < length src then
        (if src ! fst p = NUL then
           Some (token_stream_add stream (create_token TOK_EOF None (fst (snd p)) (snd (snd p))))
         else (case lex_turn src p of None \<Rightarrow> None
               | Some (ts, q) \<Rightarrow> lex_loop src q (foldl token_stream_add stream ts)))
      else None)"
  by pat_completeness auto

termination
  by (relation "measure (\<lambda>(src, p, _). length src - fst p)") (auto dest: lex_turn_forward)

declare lex_loop.simps [simp del]

definition tokenize :: "string \<Rightarrow> token_stream option" where
  "tokenize src = lex_loop src (0, 1, 1) \<lparr>ts_tokens = [], ts_capacity = 0, ts_current = 0\<rparr>"

section \<open>Lexemes\<close>

text \<open>The texts of the tokens of each type, and a source that separates them by spaces.\<close>

definition lexeme :: "token_type \<Rightarrow> string \<Rightarrow> bool" where
  "lexeme ty s = (case ty of
     TOK_INTEGER \<Rightarrow> s \<noteq> [] \<and> list_all isdigit s
   | TOK_IDENTIFIER \<Rightarrow> s \<noteq> [] \<and> \<not> isdigit (hd s) \<and> list_all is_identifier_char s \<and> s \<noteq> ''int'' \<and> s \<noteq> ''return''
   | TOK_INT \<Rightarrow> s = ''int''
   | TOK_RETURN \<Rightarrow> s = ''return''
   | TOK_STRING \<Rightarrow> 2 \<le> length s \<and> hd s = CHR 34 \<and> last s = CHR 34 \<and>
       list_all (\<lambda>c. c \<noteq> CHR 34 \<and> c \<noteq> NUL \<and> c \<noteq> CHR 10) (butlast (tl s))
   | TOK_CHAR \<Rightarrow> hd s = CHR 39 \<and> last s = CHR 39 \<and>
       (length s = 3 \<and> s ! 1 \<noteq> CHR 92 \<or> length s = 4 \<and> s ! 1 = CHR 92)
   | TOK_INCLUDE \<Rightarrow> False | TOK_EOF \<Rightarrow> False | TOK_ERROR \<Rightarrow> False
   | _ \<Rightarrow> length s = 2 \<and> double_type (s ! 0) (s ! 1) = Some ty \<or> length s = 1 \<and> single_type (s ! 0) = ty)"

definition render :: "(token_type \<times> string) list \<Rightarrow> string" where
  "render ls = concat (map (\<lambda>(ty, s). s @ '' '') ls)"

lemma strcmp_same [simp]: "strcmp s s = 0"
  by (induction s) simp_all

lemma of_char_zero: "(of_char c :: int) = 0 \<longleftrightarrow> c = NUL"
  using of_char_eq_iff [where 'a = int, of c NUL] by (simp add: NUL_def)

lemma strcmp_zero: "strcmp s t = 0 \<Longrightarrow> s = t \<or> NUL \<in> set s \<union> set t"
  by (induction s t rule: strcmp.induct) (auto simp: of_char_zero split: if_splits)

lemma skip_chars_run:
  "(\<And>i. a \<le> i \<Longrightarrow> i < a + n \<Longrightarrow> go i) \<Longrightarrow> \<not> go (a + n) \<Longrightarrow> a + n < length src \<Longrightarrow>
   skip_chars go src (a, l, c) = Some (a + n, l, c + int n)"
  by (induction n arbitrary: a c) (subst skip_chars.simps, simp)+

lemma skip_text_run:
  "(\<And>i. a \<le> i \<Longrightarrow> i < a + n \<Longrightarrow> go i \<and> src ! i \<noteq> CHR 10) \<Longrightarrow> \<not> go (a + n) \<Longrightarrow> a + n < length src \<Longrightarrow>
   skip_text go src (a, l, c) = Some (a + n, l, c + int n)"
  by (induction n arbitrary: a c) (subst skip_text.simps, simp)+

text \<open>A lexeme at a position of the source, followed by a space.\<close>

definition reads :: "token_type \<Rightarrow> string \<Rightarrow> (string \<Rightarrow> place \<Rightarrow> (token list \<times> place) option) \<Rightarrow> bool" where
  "reads ty s branch = (\<forall>pre rest line column.
     branch (pre @ s @ CHR '' '' # rest) (length pre, line, column) =
     Some ([\<lparr>t_type = ty, t_value = 0, t_line = line, t_column = column\<rparr>],
           length pre + length s, line, column + int (length s)))"

lemma text_token_at:
  "text_token ty (pre @ s @ rest) (length pre) (length pre + length s, line, column + int (length s)) =
   ([\<lparr>t_type = ty, t_value = 0, t_line = line, t_column = column\<rparr>],
    length pre + length s, line, column + int (length s))"
  by (simp add: text_token_def create_token_def)

lemma space_class [simp]:
  "\<not> isdigit (CHR '' '')" "\<not> isalpha (CHR '' '')" "\<not> is_identifier_char (CHR '' '')" "isspace (CHR '' '')"
  by (simp_all add: isdigit_def isalpha_def is_identifier_char_def isspace_def in_range_def)

lemma skip_lexeme:
  assumes "list_all P s" and "\<not> P (CHR '' '')"
  shows "skip_chars (\<lambda>i. P ((pre @ s @ CHR '' '' # rest) ! i)) (pre @ s @ CHR '' '' # rest) (length pre, line, column) =
    Some (length pre + length s, line, column + int (length s))"
proof (rule skip_chars_run)
  fix i assume i: "length pre \<le> i" "i < length pre + length s"
  then have "i - length pre < length s" by arith
  with i have "(pre @ s @ CHR '' '' # rest) ! i = s ! (i - length pre)" by (simp add: nth_append)
  moreover have "P (s ! (i - length pre))" using assms(1) i by (simp add: list_all_length)
  ultimately show "P ((pre @ s @ CHR '' '' # rest) ! i)" by simp
qed (simp_all add: assms(2))

lemma reads_number: "list_all isdigit s \<Longrightarrow> reads TOK_INTEGER s lex_number"
  by (simp add: reads_def lex_number_def skip_lexeme text_token_at)

lemma reads_word: "list_all is_identifier_char s \<Longrightarrow> reads (word_type s) s lex_word"
  by (simp add: reads_def lex_word_def skip_lexeme text_token_at)

lemma reads_string:
  assumes "list_all (\<lambda>c. c \<noteq> CHR 34 \<and> c \<noteq> NUL \<and> c \<noteq> CHR 10) body"
  shows "reads TOK_STRING (CHR 34 # body @ [CHR 34]) lex_string"
  unfolding reads_def
proof (intro allI)
  fix pre rest :: string and line column :: int
  let ?src = "pre @ (CHR 34 # body @ [CHR 34]) @ CHR '' '' # rest"
  have "skip_text (\<lambda>i. ?src ! i \<noteq> CHR 34 \<and> ?src ! i \<noteq> NUL) ?src (length pre + 1, line, column + 1) =
      Some (length pre + 1 + length body, line, column + 1 + int (length body))"
  proof (rule skip_text_run)
    fix i assume i: "length pre + 1 \<le> i" "i < length pre + 1 + length body"
    then have j: "i - (length pre + 1) < length body" by arith
    with i have "?src ! i = body ! (i - (length pre + 1))" by (simp add: nth_append nth_Cons')
    moreover note j
    ultimately show "(?src ! i \<noteq> CHR 34 \<and> ?src ! i \<noteq> NUL) \<and> ?src ! i \<noteq> CHR 10"
      using assms by (simp add: list_all_length)
  qed (simp_all add: nth_append)
  then show "lex_string ?src (length pre, line, column) =
      Some ([\<lparr>t_type = TOK_STRING, t_value = 0, t_line = line, t_column = column\<rparr>],
        length pre + length (CHR 34 # body @ [CHR 34]), line, column + int (length (CHR 34 # body @ [CHR 34])))"
    using text_token_at [of TOK_STRING pre "CHR 34 # body @ [CHR 34]" "CHR '' '' # rest" line column]
    by (simp add: lex_string_def nth_append algebra_simps)
qed

lemma reads_char:
  "c \<noteq> CHR 92 \<Longrightarrow> reads TOK_CHAR [CHR 39, c, CHR 39] lex_char"
  "reads TOK_CHAR [CHR 39, CHR 92, c, CHR 39] lex_char"
  using text_token_at [of TOK_CHAR _ "[CHR 39, c, CHR 39]"] text_token_at [of TOK_CHAR _ "[CHR 39, CHR 92, c, CHR 39]"]
  by (simp_all add: reads_def lex_char_def nth_append algebra_simps numeral_eq_Suc)

lemma reads_double:
  "double_type c d = Some ty \<Longrightarrow> reads ty [c, d] (\<lambda>src p. Some (lex_operator src p))"
  by (simp add: reads_def lex_operator_def nth_append create_token_def)

lemma reads_single:
  "single_type c \<noteq> TOK_ERROR \<Longrightarrow> reads (single_type c) [c] (\<lambda>src p. Some (lex_operator src p))"
  by (simp add: reads_def lex_operator_def nth_append create_token_def double_type_def Let_def)

section \<open>One turn reads one lexeme\<close>

lemma digit_class:
  "isdigit c \<Longrightarrow> \<not> isspace c \<and> c \<noteq> CHR 34 \<and> c \<noteq> CHR 39 \<and> c \<noteq> CHR ''/'' \<and> c \<noteq> NUL"
  by (auto simp: isdigit_def isspace_def in_range_def NUL_def)

lemma word_class:
  "isalpha c \<or> c = CHR ''_'' \<Longrightarrow>
   \<not> isspace c \<and> c \<noteq> CHR 34 \<and> c \<noteq> CHR 39 \<and> c \<noteq> CHR ''/'' \<and> c \<noteq> NUL \<and> \<not> isdigit c"
  by (auto simp: isalpha_def isdigit_def isspace_def in_range_def NUL_def)

lemma operator_class:
  "single_type c \<noteq> TOK_ERROR \<Longrightarrow>
   \<not> isspace c \<and> c \<noteq> CHR 34 \<and> c \<noteq> CHR 39 \<and> c \<noteq> NUL \<and> \<not> isdigit c \<and> \<not> isalpha c \<and> c \<noteq> CHR ''_''"
proof -
  assume "single_type c \<noteq> TOK_ERROR"
  then obtain t where "(c, t) \<in> set single_table"
    by (auto simp: single_type_def dest: map_of_SomeD split: option.splits)
  moreover have "list_all (\<lambda>(c, t). \<not> isspace c \<and> c \<noteq> CHR 34 \<and> c \<noteq> CHR 39 \<and> c \<noteq> NUL \<and> \<not> isdigit c \<and>
      \<not> isalpha c \<and> c \<noteq> CHR ''_'') single_table"
    by (simp add: single_table_def isalpha_def isdigit_def isspace_def in_range_def NUL_def)
  ultimately show ?thesis by (auto simp: list_all_iff)
qed

lemma double_class: "double_type c d = Some ty \<Longrightarrow> single_type c \<noteq> TOK_ERROR \<and> c \<noteq> CHR ''/''"
proof -
  assume "double_type c d = Some ty"
  then have "c \<in> {CHR ''='', CHR ''!'', CHR ''<'', CHR ''>'', CHR ''-''}"
    by (simp add: double_type_def split: if_splits)
  then show ?thesis by (elim insertE) (simp_all add: single_type_def single_table_def)
qed

lemma word_type_cases:
  "NUL \<notin> set s \<Longrightarrow> word_type s = (if s = ''int'' then TOK_INT else if s = ''return'' then TOK_RETURN else TOK_IDENTIFIER)"
  using strcmp_zero [of s "''int''"] strcmp_zero [of s "''return''"] by (auto simp: word_type_def NUL_def)

lemma turn_is_branch:
  assumes "reads ty s branch" and "s \<noteq> []"
    and "\<And>src p. src ! fst p = hd s \<Longrightarrow> lex_turn src p = branch src p"
  shows "reads ty s lex_turn"
  using assms by (auto simp: reads_def nth_append hd_conv_nth)

lemma turn_number: "s \<noteq> [] \<Longrightarrow> list_all isdigit s \<Longrightarrow> reads TOK_INTEGER s lex_turn"
  by (rule turn_is_branch [OF reads_number])
    (auto simp: lex_turn_def Let_def neq_Nil_conv dest: digit_class split: prod.splits)

lemma turn_word:
  "s \<noteq> [] \<Longrightarrow> \<not> isdigit (hd s) \<Longrightarrow> list_all is_identifier_char s \<Longrightarrow> reads (word_type s) s lex_turn"
proof (rule turn_is_branch [OF reads_word])
  fix src :: string and p :: place
  assume s: "s \<noteq> []" "\<not> isdigit (hd s)" "list_all is_identifier_char s" "src ! fst p = hd s"
  then have "isalpha (hd s) \<or> hd s = CHR ''_''" by (cases s) (auto simp: is_identifier_char_def)
  with s(4) word_class [OF this] show "lex_turn src p = lex_word src p"
    by (cases p) (simp add: lex_turn_def)
qed

lemma turn_string:
  "list_all (\<lambda>c. c \<noteq> CHR 34 \<and> c \<noteq> NUL \<and> c \<noteq> CHR 10) body \<Longrightarrow> reads TOK_STRING (CHR 34 # body @ [CHR 34]) lex_turn"
  by (rule turn_is_branch [OF reads_string]) (auto simp: lex_turn_def isspace_def in_range_def split: prod.splits)

lemma turn_char:
  "c \<noteq> CHR 92 \<Longrightarrow> reads TOK_CHAR [CHR 39, c, CHR 39] lex_turn"
  "reads TOK_CHAR [CHR 39, CHR 92, c, CHR 39] lex_turn"
  by (rule turn_is_branch [OF reads_char(1)] turn_is_branch [OF reads_char(2)];
      auto simp: lex_turn_def isspace_def in_range_def split: prod.splits)+

lemma turn_double: "double_type c d = Some ty \<Longrightarrow> reads ty [c, d] lex_turn"
  by (rule turn_is_branch [OF reads_double])
    (auto simp: lex_turn_def Let_def dest!: double_class operator_class split: prod.splits)

lemma turn_single: "single_type c \<noteq> TOK_ERROR \<Longrightarrow> reads (single_type c) [c] lex_turn"
  using reads_single [of c] operator_class [of c] by (auto simp: reads_def lex_turn_def nth_append)

lemma identifier_no_null: "list_all is_identifier_char s \<Longrightarrow> NUL \<notin> set s"
  by (auto simp: list_all_iff is_identifier_char_def isalpha_def isdigit_def in_range_def NUL_def)

lemma turn_operator:
  assumes "length s = 2 \<and> double_type (s ! 0) (s ! 1) = Some ty \<or> length s = 1 \<and> single_type (s ! 0) = ty"
    and "ty \<noteq> TOK_ERROR"
  shows "reads ty s lex_turn \<and> s \<noteq> [] \<and> hd s \<noteq> NUL"
  using assms turn_single [of "s ! 0"] turn_double [of "s ! 0" "s ! 1" ty]
    double_class [of "s ! 0" "s ! 1" ty] operator_class [of "s ! 0"]
  by (auto simp: length_Suc_conv numeral_eq_Suc)

lemma string_parts: "2 \<le> length s \<Longrightarrow> s = hd s # butlast (tl s) @ [last s]"
  by (cases s) (auto simp: Suc_le_length_iff)

lemma turn_lexeme: "lexeme ty s \<Longrightarrow> reads ty s lex_turn \<and> s \<noteq> [] \<and> hd s \<noteq> NUL"
proof -
  assume l: "lexeme ty s"
  consider "ty = TOK_INTEGER" | "ty \<in> {TOK_IDENTIFIER, TOK_INT, TOK_RETURN}" | "ty = TOK_STRING" | "ty = TOK_CHAR"
    | "(length s = 2 \<and> double_type (s ! 0) (s ! 1) = Some ty \<or> length s = 1 \<and> single_type (s ! 0) = ty) \<and> ty \<noteq> TOK_ERROR"
    using l by (cases ty) (simp_all add: lexeme_def)
  then show ?thesis
  proof cases
    case 1
    with l show ?thesis using turn_number [of s] digit_class [of "hd s"] by (cases s) (auto simp: lexeme_def)
  next
    case 2
    with l have "s \<noteq> [] \<and> \<not> isdigit (hd s) \<and> list_all is_identifier_char s"
      by (auto simp: lexeme_def is_identifier_char_def isalpha_def isdigit_def in_range_def)
    moreover from this have "word_type s = ty"
      using 2 l word_type_cases [of s] identifier_no_null [of s] by (auto simp: lexeme_def)
    ultimately show ?thesis using turn_word [of s] identifier_no_null [of s] by (cases s) auto
  next
    case 3
    with l show ?thesis using turn_string [of "butlast (tl s)"] string_parts [of s]
      by (auto simp: lexeme_def NUL_def)
  next
    case 4
    then show ?thesis using l turn_char [of "s ! 1"] turn_char(2) [of "s ! 2"]
      by (auto simp: lexeme_def NUL_def length_Suc_conv numeral_eq_Suc)
  next
    case 5
    then show ?thesis using turn_operator by blast
  qed
qed

section \<open>The whole source\<close>

text \<open>The tokens of a list of lexemes rendered on one line, from a column on.\<close>

fun rendered_tokens :: "int \<Rightarrow> (token_type \<times> string) list \<Rightarrow> token list" where
  "rendered_tokens column [] = [\<lparr>t_type = TOK_EOF, t_value = 0, t_line = 1, t_column = column\<rparr>]"
| "rendered_tokens column ((ty, s) # ls) =
     \<lparr>t_type = ty, t_value = 0, t_line = 1, t_column = column\<rparr> #
     rendered_tokens (column + int (length s) + 1) ls"

definition null_values :: "token_stream \<Rightarrow> bool" where
  "null_values stream = (\<forall>t \<in> set (ts_tokens stream). t_value t = 0)"

lemma token_stream_add_simps [simp]:
  "ts_tokens (token_stream_add stream t) = ts_tokens stream @ [t]"
  "ts_current (token_stream_add stream t) = ts_current stream"
  by (simp_all add: token_stream_add_def)

lemma add_all_simps [simp]:
  "ts_tokens (foldl token_stream_add stream ts) = ts_tokens stream @ ts"
  "ts_current (foldl token_stream_add stream ts) = ts_current stream"
  by (induction ts arbitrary: stream) simp_all

lemma loop_lexemes:
  assumes "list_all (\<lambda>(ty, s). lexeme ty s) ls"
  shows "\<exists>stream'. lex_loop (pre @ render ls @ [NUL]) (length pre, 1, column) stream = Some stream' \<and>
    ts_tokens stream' = ts_tokens stream @ rendered_tokens column ls \<and> ts_current stream' = ts_current stream"
  using assms
proof (induction ls arbitrary: pre column stream)
  case Nil
  then show ?case by (subst lex_loop.simps) (simp add: render_def create_token_def)
next
  case (Cons l ls)
  obtain ty s where l: "l = (ty, s)" by force
  let ?rest = "render ls @ [NUL]"
  let ?src = "pre @ s @ CHR '' '' # ?rest"
  let ?tok = "\<lparr>t_type = ty, t_value = 0, t_line = 1, t_column = column\<rparr>"
  have src: "pre @ render (l # ls) @ [NUL] = ?src" by (simp add: render_def l)
  from Cons.prems l have "reads ty s lex_turn" and s: "s \<noteq> []" "hd s \<noteq> NUL"
    using turn_lexeme [of ty s] by auto
  then have turn: "lex_turn ?src (length pre, 1, column) = Some ([?tok], length (pre @ s), 1, column + int (length s))"
    by (simp add: reads_def)
  have "lex_loop ?src (length pre, 1, column) stream =
      lex_loop ?src (length (pre @ s), 1, column + int (length s)) (token_stream_add stream ?tok)"
    using turn s by (subst lex_loop.simps) (simp add: nth_append hd_conv_nth)
  also have "\<dots> = lex_loop ?src (length (pre @ s @ '' ''), 1, column + int (length s) + 1) (token_stream_add stream ?tok)"
    by (subst lex_loop.simps) (simp add: lex_turn_def nth_append NUL_def)
  also have "?src = (pre @ s @ '' '') @ render ls @ [NUL]" by simp
  finally show ?case
    unfolding src
    using Cons.IH [of "pre @ s @ '' ''" "column + int (length s) + 1" "token_stream_add stream ?tok"] Cons.prems
    by (auto simp: l)
qed

text \<open>Whatever the source, no token carries its text.\<close>

lemma create_token_value [simp]: "t_value (create_token type value line column) = 0"
  by (simp add: create_token_def split: option.splits)

lemma lex_turn_values: "lex_turn src p = Some (ts, q) \<Longrightarrow> \<forall>t \<in> set ts. t_value t = 0"
  by (auto simp: lex_turn_def lex_string_def lex_char_def lex_comment_def lex_line_comment_def lex_number_def
      lex_word_def lex_operator_def text_token_def Let_def split: prod.splits option.splits if_splits)

lemma loop_values: "lex_loop src p stream = Some stream' \<Longrightarrow> null_values stream \<Longrightarrow> null_values stream'"
proof (induction src p stream rule: lex_loop.induct)
  case (1 src p stream)
  show ?case
  proof (cases "fst p < length src \<and> src ! fst p \<noteq> NUL")
    case True
    with 1(2) obtain ts q where turn: "lex_turn src p = Some (ts, q)"
      and rest: "lex_loop src q (foldl token_stream_add stream ts) = Some stream'"
      by (subst (asm) lex_loop.simps) (auto split: option.splits)
    have "null_values (foldl token_stream_add stream ts)"
      using 1(3) lex_turn_values [OF turn] by (auto simp: null_values_def)
    with 1(1) True turn rest show ?thesis by auto
  next
    case False
    with 1(2,3) show ?thesis by (subst (asm) lex_loop.simps) (auto simp: null_values_def split: if_splits)
  qed
qed

lemma tokenize_values: "tokenize src = Some stream \<Longrightarrow> null_values stream"
  unfolding tokenize_def by (erule loop_values) (simp add: null_values_def)

text \<open>A turn inside a null-terminated source stays inside it, if every quote is followed by two characters.\<close>

definition terminated :: "string \<Rightarrow> bool" where
  "terminated src = (src \<noteq> [] \<and> last src = NUL)"

lemma before_null: "terminated src \<Longrightarrow> i < length src \<Longrightarrow> src ! i \<noteq> NUL \<Longrightarrow> i + 1 < length src"
  by (metis Suc_eq_plus1 Suc_lessI diff_Suc_1 last_conv_nth terminated_def)

lemma skip_stops:
  "(\<exists>j. fst p \<le> j \<and> j < length src \<and> \<not> go j) \<Longrightarrow> skip_chars go src p \<noteq> None"
  "(\<exists>j. fst p \<le> j \<and> j < length src \<and> \<not> go j) \<Longrightarrow> skip_text go src p \<noteq> None"
proof -
  show "(\<exists>j. fst p \<le> j \<and> j < length src \<and> \<not> go j) \<Longrightarrow> skip_chars go src p \<noteq> None"
  proof (induction go src p rule: skip_chars.induct)
    case (1 go src pos line column)
    then show ?case using skip_chars.simps [of go src pos line column]
      by (auto simp: less_Suc_eq_le) (metis Suc_leI le_neq_implies_less)+
  qed
  show "(\<exists>j. fst p \<le> j \<and> j < length src \<and> \<not> go j) \<Longrightarrow> skip_text go src p \<noteq> None"
  proof (induction go src p rule: skip_text.induct)
    case (1 go src pos line column)
    then show ?case using skip_text.simps [of go src pos line column]
      by (auto simp: less_Suc_eq_le) (metis Suc_leI le_neq_implies_less)+
  qed
qed

lemma skip_to_null:
  assumes "terminated src" and "fst p < length src" and "\<And>i. src ! i = NUL \<Longrightarrow> \<not> go i"
  shows "\<exists>q. skip_chars go src p = Some q" "\<exists>q. skip_text go src p = Some q"
proof -
  have "fst p \<le> length src - 1 \<and> length src - 1 < length src \<and> \<not> go (length src - 1)"
    using assms by (auto simp: terminated_def last_conv_nth)
  then show "\<exists>q. skip_chars go src p = Some q" "\<exists>q. skip_text go src p = Some q"
    using skip_stops [of p src go] by blast+
qed

lemma length_text_token [simp]: "length (fst (text_token ty src start p)) = 1"
  by (cases p) (simp add: text_token_def)

definition turn_inside :: "string \<Rightarrow> (token list \<times> place) option \<Rightarrow> bool" where
  "turn_inside src r = (case r of None \<Rightarrow> False | Some (ts, q) \<Rightarrow> length ts \<le> 1 \<and> fst q < length src)"

lemma turn_inside_text_token [simp]: "turn_inside src (Some (text_token ty src start q)) = (fst q < length src)"
  using length_text_token [of ty src start q] text_token_place [of ty src start q]
  by (cases "text_token ty src start q") (auto simp: turn_inside_def simp del: length_text_token text_token_place)

lemma null_no_class: "\<not> isdigit NUL" "\<not> is_identifier_char NUL"
  by (simp_all add: NUL_def isdigit_def isalpha_def is_identifier_char_def in_range_def)

lemma lex_string_inside:
  assumes "terminated src" and "start + 1 < length src"
  shows "turn_inside src (lex_string src (start, line, column))"
proof -
  obtain pos l c where q: "skip_text (\<lambda>i. src ! i \<noteq> CHR 34 \<and> src ! i \<noteq> NUL) src (start + 1, line, column + 1) = Some (pos, l, c)"
    using skip_to_null(2) [OF assms(1), of "(start + 1, line, column + 1)" "\<lambda>i. src ! i \<noteq> CHR 34 \<and> src ! i \<noteq> NUL"]
      assms(2) by auto
  then have "pos < length src" by (auto dest: skip_text_forward)
  moreover have "src ! pos = CHR 34 \<Longrightarrow> pos + 1 < length src"
    using before_null [OF assms(1) \<open>pos < length src\<close>] by (simp add: NUL_def)
  ultimately show ?thesis using q by (auto simp: lex_string_def)
qed

lemma lex_comment_inside:
  assumes "terminated src" and "start + 2 < length src"
  shows "turn_inside src (lex_comment src (start, line, column))"
proof -
  let ?go = "\<lambda>i. \<not> (src ! i = CHR ''*'' \<and> src ! (i + 1) = CHR ''/'') \<and> src ! i \<noteq> NUL"
  obtain pos l c where q: "skip_text ?go src (start + 2, line, column + 2) = Some (pos, l, c)"
    using skip_to_null(2) [OF assms(1), of "(start + 2, line, column + 2)" ?go] assms(2) by (auto simp: NUL_def)
  then have pos: "pos < length src" "\<not> ?go pos" by (auto dest: skip_text_forward)
  have "src ! pos = CHR ''*'' \<Longrightarrow> pos + 2 < length src"
    using pos(2) before_null [OF assms(1) pos(1)] before_null [OF assms(1), of "pos + 1"] by (simp add: NUL_def)
  with pos(1) q show ?thesis by (auto simp: lex_comment_def turn_inside_def)
qed

lemma lex_char_inside:
  assumes "terminated src" and "start + 3 < length src"
  shows "turn_inside src (lex_char src (start, line, column))"
  using assms(2) before_null [OF assms(1), of "start + 2"] before_null [OF assms(1), of "start + 3"]
  by (auto simp: lex_char_def Let_def NUL_def)

lemma lex_turn_inside:
  assumes t: "terminated src" and "pos < length src" and "src ! pos \<noteq> NUL"
    and "src ! pos = CHR 39 \<Longrightarrow> pos + 3 < length src"
  shows "turn_inside src (lex_turn src (pos, line, column))"
proof -
  let ?p = "(pos, line, column)"
  have pos: "pos + 1 < length src" using before_null assms(1-3) by blast
  have skip: "\<exists>q. skip_chars go src ?p = Some q \<and> fst q < length src" if "\<And>i. src ! i = NUL \<Longrightarrow> \<not> go i" for go
    using skip_to_null(1) [OF t, of ?p go] assms(2) that skip_chars_forward by fastforce
  have word: "turn_inside src (lex_word src ?p)" "turn_inside src (lex_number src ?p)"
      "turn_inside src (lex_line_comment src ?p)"
    using skip [of "\<lambda>i. is_identifier_char (src ! i)"] skip [of "\<lambda>i. isdigit (src ! i)"]
      skip [of "\<lambda>i. src ! i \<noteq> CHR 10 \<and> src ! i \<noteq> NUL"] null_no_class
    by (force simp: lex_word_def lex_number_def lex_line_comment_def turn_inside_def [of _ "Some (Pair [] q)" for q])+
  have comment: "src ! pos = CHR ''/'' \<Longrightarrow> src ! (pos + 1) = CHR ''*'' \<Longrightarrow> turn_inside src (lex_comment src ?p)"
    using lex_comment_inside [OF t] before_null [OF t pos] by (simp add: NUL_def)
  have "double_type (src ! pos) (src ! (pos + 1)) = Some ty \<Longrightarrow> pos + 2 < length src" for ty
    using before_null [OF t pos] by (auto simp: double_type_def NUL_def split: if_splits)
  then have op: "turn_inside src (Some (lex_operator src ?p))"
    using pos by (auto simp: lex_operator_def turn_inside_def Let_def split: option.splits)
  show ?thesis
    using word comment op lex_string_inside [OF t pos] lex_char_inside [OF t assms(4)] pos
    by (simp add: lex_turn_def Let_def) (simp add: turn_inside_def)
qed

lemma loop_inside:
  assumes "terminated src" and "\<forall>i < length src. src ! i = CHR 39 \<longrightarrow> i + 3 < length src"
  shows "fst p < length src \<Longrightarrow> \<exists>stream'. lex_loop src p stream = Some stream' \<and>
    ts_tokens stream' \<noteq> [] \<and> t_type (last (ts_tokens stream')) = TOK_EOF \<and>
    length (ts_tokens stream') \<le> length (ts_tokens stream) + (length src - fst p)"
  using assms
proof (induction src p stream rule: lex_loop.induct)
  case (1 src p stream)
  show ?case
  proof (cases "src ! fst p = NUL")
    case True
    with 1(2) show ?thesis by (subst lex_loop.simps) (simp add: create_token_def)
  next
    case False
    then have "turn_inside src (lex_turn src p)"
      using lex_turn_inside [OF 1(3), of "fst p" "fst (snd p)" "snd (snd p)"] 1(2,4) by simp
    then obtain ts q where turn: "lex_turn src p = Some (ts, q)" and q: "length ts \<le> 1" "fst q < length src"
      by (auto simp: turn_inside_def split: option.splits)
    have "fst p < fst q" using lex_turn_forward [OF turn] by simp
    moreover have "\<exists>stream'. lex_loop src q (foldl token_stream_add stream ts) = Some stream' \<and>
        ts_tokens stream' \<noteq> [] \<and> t_type (last (ts_tokens stream')) = TOK_EOF \<and>
        length (ts_tokens stream') \<le> length (ts_tokens (foldl token_stream_add stream ts)) + (length src - fst q)"
      by (rule 1(1) [OF 1(2) False turn refl]) (use q 1 in auto)
    moreover have "lex_loop src p stream = lex_loop src q (foldl token_stream_add stream ts)"
      using 1(2) False turn by (subst lex_loop.simps) simp
    ultimately show ?thesis using q by fastforce
  qed
qed

lemma tokenize_result:
  assumes "\<forall>i < length s. s ! i = CHR 39 \<longrightarrow> i + 2 < length s"
  shows "\<exists>stream. tokenize (s @ [NUL]) = Some stream \<and> ts_tokens stream \<noteq> [] \<and>
    t_type (last (ts_tokens stream)) = TOK_EOF \<and> length (ts_tokens stream) \<le> length s + 1 \<and>
    (\<forall>t \<in> set (ts_tokens stream). t_value t = 0)"
proof -
  have "\<forall>i < length (s @ [NUL]). (s @ [NUL]) ! i = CHR 39 \<longrightarrow> i + 3 < length (s @ [NUL])"
    using assms by (auto simp: nth_append NUL_def)
  moreover have "terminated (s @ [NUL])" by (simp add: terminated_def)
  ultimately obtain stream where stream: "tokenize (s @ [NUL]) = Some stream" "ts_tokens stream \<noteq> []"
      "t_type (last (ts_tokens stream)) = TOK_EOF" "length (ts_tokens stream) \<le> length s + 1"
    unfolding tokenize_def
    using loop_inside [of "s @ [NUL]" "(0, 1, 1)" "\<lparr>ts_tokens = [], ts_capacity = 0, ts_current = 0\<rparr>"] by auto
  with tokenize_values [OF stream(1)] show ?thesis by (auto simp: null_values_def)
qed

text \<open>
  C40: The lexer terminates inside its buffer on every source in which each single quote is followed
  by at least two characters: it ends with the token for the end of the file, and there are at most
  as many tokens as characters, and one more. No token carries its text: \<open>create_token\<close> stores the
  result of a comparison, 0, where a copy of the text is meant.
\<close>

theorem tokenize_total:
  assumes "\<forall>i < length s. s ! i = CHR 39 \<longrightarrow> i + 2 < length s"
  shows "\<exists>stream. tokenize (s @ [NUL]) = Some stream \<and> ts_tokens stream \<noteq> [] \<and>
    t_type (last (ts_tokens stream)) = TOK_EOF \<and> length (ts_tokens stream) \<le> length s + 1 \<and>
    (\<forall>t \<in> set (ts_tokens stream). t_value t = 0)"
  using assms by (rule tokenize_result)

theorem tokenize_total_witness:
  "\<exists>stream. tokenize ([CHR 39, CHR ''x'', CHR 39] @ '' ; }'' @ [NUL]) = Some stream"
proof -
  let ?s = "[CHR 39, CHR ''x'', CHR 39] @ '' ; }''"
  have "\<forall>i < length ?s. ?s ! i = CHR 39 \<longrightarrow> i + 2 < length ?s"
    by (auto simp: nth_Cons')
  from tokenize_total [OF this] show ?thesis by auto
qed

text \<open>
  A source that ends in a single quote is read past its end: the lexer skips the character
  after the quote without looking whether it is the null that ends the source.
\<close>

theorem tokenize_overruns: "tokenize (replicate n (CHR '' '') @ [CHR 39, NUL]) = None"
proof -
  let ?src = "replicate n (CHR '' '') @ [CHR 39, NUL]"
  have "k \<le> n \<Longrightarrow> lex_loop ?src (n - k, 1, column) stream = None" for k column stream
  proof (induction k arbitrary: column stream)
    case 0
    have "lex_turn ?src (n, 1, column) = None"
      by (simp add: lex_turn_def lex_char_def nth_append isspace_def in_range_def NUL_def)
    then show ?case by (subst lex_loop.simps) (simp add: nth_append NUL_def)
  next
    case (Suc k)
    then have "n - Suc k + 1 = n - k" by arith
    moreover have "lex_turn ?src (n - Suc k, 1, column) = Some ([], n - Suc k + 1, 1, column + 1)"
      using Suc.prems by (simp add: lex_turn_def nth_append)
    ultimately show ?case using Suc by (subst lex_loop.simps) (simp add: nth_append NUL_def)
  qed
  from this [of n] show ?thesis by (simp add: tokenize_def)
qed



end
