(* ===== verification/Eclc_Parser.thy ===== *)
theory Eclc_Parser
  imports Eclc_Lexer
begin

text \<open>
  The parser of ECLC: eclc/src/frontend/parser.c with the trees of eclc/include/eclc/ast.h. It reads
  one function without parameters whose body is one return statement. The messages for the standard
  error are collected beside the parser's fields. Nodes that an error leaves unreachable are not
  followed.
\<close>

section \<open>Trees and the parser\<close>

datatype node_type =
  NODE_PROGRAM | NODE_FUNCTION_DEF | NODE_VARIABLE_DECL | NODE_RETURN_STMT | NODE_INTEGER_LITERAL |
  NODE_BINARY_OP | NODE_IDENTIFIER

datatype ast = Node (node_kind: node_type) (node_token: token) (node_left: "ast option") (node_right: "ast option")

record parser =
  ps_tokens :: "token_stream option"
  ps_pos :: nat
  ps_root :: "ast option"
  ps_filename :: "string option"
  ps_errors :: "string list"

definition create_node :: "node_type \<Rightarrow> token \<Rightarrow> ast" where
  "create_node type token = Node type token None None"

definition parser_tokens :: "parser \<Rightarrow> token list" where
  "parser_tokens parser = (case ps_tokens parser of None \<Rightarrow> [] | Some s \<Rightarrow> ts_tokens s)"

definition report :: "string \<Rightarrow> parser \<Rightarrow> parser" where
  "report msg parser = parser\<lparr>ps_errors := ps_errors parser @ [msg]\<rparr>"

definition current_token :: "parser \<Rightarrow> token option" where
  "current_token parser =
     (if ps_pos parser \<ge> length (parser_tokens parser) then None else Some (parser_tokens parser ! ps_pos parser))"

definition advance :: "parser \<Rightarrow> parser" where
  "advance parser =
     (if ps_pos parser < length (parser_tokens parser) then parser\<lparr>ps_pos := ps_pos parser + 1\<rparr> else parser)"

definition match :: "parser \<Rightarrow> token_type \<Rightarrow> bool" where
  "match parser type = (case current_token parser of None \<Rightarrow> False | Some t \<Rightarrow> t_type t = type)"

definition consume :: "token_type \<Rightarrow> parser \<Rightarrow> bool \<times> parser" where
  "consume type parser = (if match parser type then (True, advance parser) else (False, parser))"

section \<open>Parsing\<close>

definition parse_leaf :: "token_type \<Rightarrow> node_type \<Rightarrow> parser \<Rightarrow> ast option \<times> parser" where
  "parse_leaf type kind parser = (case current_token parser of
     None \<Rightarrow> (None, parser)
   | Some t \<Rightarrow> (if t_type t \<noteq> type then (None, parser) else (Some (create_node kind t), advance parser)))"

definition parse_integer :: "parser \<Rightarrow> ast option \<times> parser" where
  "parse_integer = parse_leaf TOK_INTEGER NODE_INTEGER_LITERAL"

definition parse_identifier :: "parser \<Rightarrow> ast option \<times> parser" where
  "parse_identifier = parse_leaf TOK_IDENTIFIER NODE_IDENTIFIER"

definition parse_return_stmt :: "parser \<Rightarrow> ast option \<times> parser" where
  "parse_return_stmt parser = (case consume TOK_RETURN parser of
     (False, parser) \<Rightarrow> (None, parser)
   | (True, parser) \<Rightarrow>
       (let return_token = parser_tokens parser ! (ps_pos parser - 1) in
        case parse_integer parser of (value, parser) \<Rightarrow>
        (case consume TOK_SEMICOLON parser of
           (False, parser) \<Rightarrow> (None, report ''Error: Expected ';' after return statement'' parser)
         | (True, parser) \<Rightarrow> (Some (Node NODE_RETURN_STMT return_token value None), parser))))"

definition parse_block :: "parser \<Rightarrow> ast option \<times> parser" where
  "parse_block parser = (case consume TOK_LBRACE parser of
     (False, parser) \<Rightarrow> (None, parser)
   | (True, parser) \<Rightarrow>
       (case parse_return_stmt parser of (stmt, parser) \<Rightarrow>
        (case consume TOK_RBRACE parser of
           (False, parser) \<Rightarrow> (None, report ''Error: Expected '}' to close block'' parser)
         | (True, parser) \<Rightarrow> (stmt, parser))))"

definition parse_function :: "parser \<Rightarrow> ast option \<times> parser" where
  "parse_function parser = (case consume TOK_INT parser of
     (False, parser) \<Rightarrow> (None, parser)
   | (True, parser) \<Rightarrow>
       (case current_token parser of
          None \<Rightarrow> (None, report ''Error: Expected function name'' parser)
        | Some name \<Rightarrow>
            (if t_type name \<noteq> TOK_IDENTIFIER then (None, report ''Error: Expected function name'' parser)
             else (case consume TOK_LPAREN (advance parser) of
               (False, parser) \<Rightarrow> (None, report ''Error: Expected '(' after function name'' parser)
             | (True, parser) \<Rightarrow>
                 (case consume TOK_RPAREN parser of
                    (False, parser) \<Rightarrow> (None, report ''Error: Expected ')' after parameters'' parser)
                  | (True, parser) \<Rightarrow>
                      (case parse_block parser of (body, parser) \<Rightarrow>
                        (Some (Node NODE_FUNCTION_DEF name body None), parser)))))))"

definition dummy_token :: token where
  "dummy_token = \<lparr>t_type = TOK_INTEGER, t_value = 0, t_line = 0, t_column = 0\<rparr>"

definition parse_program :: "parser \<Rightarrow> ast \<times> parser" where
  "parse_program parser = (case parse_function parser of (f, parser) \<Rightarrow> (Node NODE_PROGRAM dummy_token f None, parser))"

definition parser_create :: "token_stream option \<Rightarrow> string option \<Rightarrow> parser" where
  "parser_create tokens filename =
     \<lparr>ps_tokens = tokens, ps_pos = 0, ps_root = None, ps_filename = filename, ps_errors = []\<rparr>"

definition parser_parse :: "parser option \<Rightarrow> ast option \<times> parser option" where
  "parser_parse parser = (case parser of None \<Rightarrow> (None, None) | Some p \<Rightarrow>
     (if ps_tokens p = None then (None, Some p)
      else (case parse_program p of (root, p) \<Rightarrow> (Some root, Some (p\<lparr>ps_root := Some root\<rparr>)))))"

text \<open>The text of a tree; \<open>str\<close> is what \<open>%s\<close> prints for an address.\<close>

fun ast_print :: "(int \<Rightarrow> string) \<Rightarrow> ast \<Rightarrow> nat \<Rightarrow> string" where
  "ast_print str (Node kind token left right) indent =
     concat (replicate indent ''  '') @
     (case kind of
        NODE_PROGRAM \<Rightarrow> ''Program''
      | NODE_FUNCTION_DEF \<Rightarrow> ''Function: '' @ str (t_value token)
      | NODE_RETURN_STMT \<Rightarrow> ''Return''
      | NODE_INTEGER_LITERAL \<Rightarrow> ''Integer: '' @ str (t_value token)
      | NODE_IDENTIFIER \<Rightarrow> ''Identifier: '' @ str (t_value token)
      | _ \<Rightarrow> ''Unknown node'') @ [CHR 10] @
     (case left of None \<Rightarrow> [] | Some n \<Rightarrow> ast_print str n (indent + 1)) @
     (case right of None \<Rightarrow> [] | Some n \<Rightarrow> ast_print str n (indent + 1))"

section \<open>The grammar\<close>

text \<open>
  What the parser accepts: a function, and the one statement of its body, by the tokens at the
  start of a list; \<open>rest\<close> is what the parser has not read.
\<close>

definition spec_block :: "token list \<Rightarrow> ast option" where
  "spec_block ts =
     (if map t_type (take 5 ts) = [TOK_LBRACE, TOK_RETURN, TOK_INTEGER, TOK_SEMICOLON, TOK_RBRACE] then
        Some (Node NODE_RETURN_STMT (ts ! 1) (Some (Node NODE_INTEGER_LITERAL (ts ! 2) None None)) None)
      else if map t_type (take 4 ts) = [TOK_LBRACE, TOK_RETURN, TOK_SEMICOLON, TOK_RBRACE] then
        Some (Node NODE_RETURN_STMT (ts ! 1) None None)
      else None)"

definition spec_function :: "token list \<Rightarrow> ast option" where
  "spec_function ts =
     (if map t_type (take 4 ts) = [TOK_INT, TOK_IDENTIFIER, TOK_LPAREN, TOK_RPAREN] then
        Some (Node NODE_FUNCTION_DEF (ts ! 1) (spec_block (drop 4 ts)) None)
      else None)"

definition rest :: "parser \<Rightarrow> token list" where
  "rest p = drop (ps_pos p) (parser_tokens p)"

lemma current_token_rest: "current_token p = (case rest p of [] \<Rightarrow> None | t # _ \<Rightarrow> Some t)"
  by (auto simp: current_token_def rest_def Cons_nth_drop_Suc [symmetric] not_le split: list.splits)

lemma advance_simps [simp]:
  "rest (advance p) = tl (rest p)" "ps_tokens (advance p) = ps_tokens p"
  "rest (report m p) = rest p" "ps_tokens (report m p) = ps_tokens p"
  by (simp_all add: advance_def report_def rest_def parser_tokens_def drop_Suc tl_drop)

lemma last_read: "rest p \<noteq> [] \<Longrightarrow> parser_tokens (advance p) ! (ps_pos (advance p) - Suc 0) = hd (rest p)"
  by (simp add: rest_def advance_def parser_tokens_def hd_drop_conv_nth)

lemma consume_rest:
  "consume type p = (case rest p of [] \<Rightarrow> (False, p)
     | t # _ \<Rightarrow> if t_type t = type then (True, advance p) else (False, p))"
  by (simp add: consume_def match_def current_token_rest split: list.splits)

lemma parse_leaf_rest:
  "parse_leaf type kind p = (case rest p of [] \<Rightarrow> (None, p)
     | t # _ \<Rightarrow> if t_type t = type then (Some (Node kind t None None), advance p) else (None, p))"
  by (simp add: parse_leaf_def current_token_rest create_node_def split: list.splits)

lemma parse_block_spec: "fst (parse_block p) = spec_block (rest p)"
  by (auto simp: parse_block_def parse_return_stmt_def parse_integer_def consume_rest parse_leaf_rest last_read
      spec_block_def numeral_eq_Suc Let_def split: list.splits prod.splits if_splits)

lemma parse_block_result: "parse_block p = (body, q) \<Longrightarrow> body = spec_block (rest p)"
  using parse_block_spec [of p] by simp

lemma parse_function_spec: "fst (parse_function p) = spec_function (rest p)"
  by (auto simp: parse_function_def consume_rest current_token_rest spec_function_def numeral_eq_Suc
      split: list.splits prod.splits dest!: parse_block_result)

lemma parse_tree:
  "fst (parser_parse (Some (parser_create (Some stream) filename))) =
     Some (Node NODE_PROGRAM dummy_token (spec_function (ts_tokens stream)) None)"
  using parse_function_spec [of "parser_create (Some stream) filename"]
  by (auto simp: parser_parse_def parse_program_def parser_create_def rest_def parser_tokens_def split: prod.splits)

text \<open>
  C19: The parser accepts exactly its grammar: the tree of a program holds the function whose tokens
  start the stream, if they are \<open>int name ( )\<close>, and in it the return statement, if the next tokens
  are its block. A program is always returned, and left in the parser, whatever the tokens.
\<close>

theorem parser_parse_grammar:
  "\<exists>p. parser_parse (Some (parser_create (Some stream) filename)) =
     (Some (Node NODE_PROGRAM dummy_token (spec_function (ts_tokens stream)) None), Some p) \<and>
     ps_root p = Some (Node NODE_PROGRAM dummy_token (spec_function (ts_tokens stream)) None)"
  using parse_tree [of stream filename] by (auto simp: parser_parse_def parser_create_def split: prod.splits)

text \<open>The smallest program, one lexeme after the other.\<close>

definition return_program :: "string \<Rightarrow> string \<Rightarrow> (token_type \<times> string) list" where
  "return_program name number =
     [(TOK_INT, ''int''), (TOK_IDENTIFIER, name), (TOK_LPAREN, ''(''), (TOK_RPAREN, '')''), (TOK_LBRACE, ''{''),
      (TOK_RETURN, ''return''), (TOK_INTEGER, number), (TOK_SEMICOLON, '';''), (TOK_RBRACE, ''}'')]"

text \<open>
  Lexer and parser together: the source \<open>int name ( ) { return number ; }\<close> becomes the tree of a
  function with one return statement and its number, each node at the line and column of its word;
  but the tree does not hold the number, nor the name: the values of all tokens are NULL.
\<close>

theorem eclc_front_end:
  assumes "lexeme TOK_IDENTIFIER name" and "lexeme TOK_INTEGER number"
  shows "map_option (\<lambda>stream. fst (parser_parse (Some (parser_create (Some stream) file))))
      (tokenize (render (return_program name number) @ [NUL])) =
    Some (Some (Node NODE_PROGRAM dummy_token
      (Some (Node NODE_FUNCTION_DEF \<lparr>t_type = TOK_IDENTIFIER, t_value = 0, t_line = 1, t_column = 5\<rparr>
        (Some (Node NODE_RETURN_STMT
          \<lparr>t_type = TOK_RETURN, t_value = 0, t_line = 1, t_column = int (length name) + 12\<rparr>
          (Some (Node NODE_INTEGER_LITERAL
            \<lparr>t_type = TOK_INTEGER, t_value = 0, t_line = 1, t_column = int (length name) + 19\<rparr> None None)) None))
        None)) None))"
proof -
  have "list_all (\<lambda>(ty, s). lexeme ty s) (return_program name number)"
    using assms by (simp add: return_program_def) (simp add: lexeme_def single_type_def single_table_def)
  from loop_lexemes [OF this, of "[]" 1 "\<lparr>ts_tokens = [], ts_capacity = 0, ts_current = 0\<rparr>"]
  obtain stream where "tokenize (render (return_program name number) @ [NUL]) = Some stream"
    and "ts_tokens stream = rendered_tokens 1 (return_program name number)"
    by (auto simp: tokenize_def)
  then show ?thesis
    using parse_function_spec [of "parser_create (Some stream) file"]
    by (auto simp: parser_parse_def parse_program_def parser_create_def rest_def parser_tokens_def return_program_def
        spec_function_def spec_block_def numeral_eq_Suc split: prod.splits)
qed

theorem eclc_front_end_witness:
  "tokenize (''int main ( ) { return 42 ; } '' @ [NUL]) \<noteq> None"
proof -
  have "lexeme TOK_IDENTIFIER ''main''" "lexeme TOK_INTEGER ''42''"
    by (simp_all add: lexeme_def isdigit_def isalpha_def in_range_def is_identifier_char_def)
  from eclc_front_end [OF this] show ?thesis by (auto simp: render_def return_program_def)
qed

end
