(* ===== verification/Fcef_File.thy ===== *)
theory Fcef_File
  imports Bytes
begin

text \<open>
  FCEF, the executable format of E-comOS: the structures (fcef/include/fcef.h), the reader
  (fcef/src/format/fcef_reader.c) and the writer (fcef_writer.c). A file handle owns the bytes of
  the file; its header pointer always points to their start, so that the header is a view of the
  first 82 bytes. A pointer into the data is an offset. Where the code follows an offset that it has
  not checked, reading past the data has no result. Messages for the user are left out, and memory
  is available when asked for.
\<close>

section \<open>Structures\<close>

definition FCEF_MAGIC :: u32 where "FCEF_MAGIC = 0x46434546"
definition FCEF_PT_LOAD :: u32 where "FCEF_PT_LOAD = 1"
definition FCEF_SHT_NULL :: u32 where "FCEF_SHT_NULL = 0"
definition FCEF_SHT_SYMTAB :: u32 where "FCEF_SHT_SYMTAB = 2"
definition FCEF_SHT_STRTAB :: u32 where "FCEF_SHT_STRTAB = 3"
definition FCEF_SHT_NOBITS :: u32 where "FCEF_SHT_NOBITS = 8"

record fcef_header =
  h_magic :: u32
  h_arch :: u8
  h_version :: u8
  h_flags :: u16
  h_entry_point :: u32
  h_phoff :: u32
  h_shoff :: u32
  h_phnum :: u32
  h_shnum :: u32
  h_shstrndx :: u32
  h_crc32 :: u32
  h_file_size :: u32
  h_version_major :: u8
  h_version_minor :: u8

record fcef_program_header =
  p_type :: u32
  p_offset :: u32
  p_vaddr :: u32
  p_paddr :: u32
  p_filesz :: u32
  p_memsz :: u32
  p_flags :: u32
  p_align :: u32

record fcef_section_header =
  s_name :: u32
  s_type :: u32
  s_flags :: u32
  s_addr :: u32
  s_offset :: u32
  s_size :: u32
  s_link :: u32
  s_info :: u32
  s_addralign :: u32
  s_entsize :: u32

record fcef_file =
  f_data :: "u8 list"
  f_size :: nat
  f_allocated :: bool
  f_base_address :: u32

definition sizeof_header :: nat where "sizeof_header = 82"
definition sizeof_phdr :: nat where "sizeof_phdr = 32"
definition sizeof_shdr :: nat where "sizeof_shdr = 40"
definition sizeof_sym :: nat where "sizeof_sym = 16"

definition header :: "fcef_file \<Rightarrow> fcef_header" where
  "header f = (let d = f_data f in
     \<lparr>h_magic = of_nat (field 0 4 d), h_arch = of_nat (field 4 1 d), h_version = of_nat (field 5 1 d),
      h_flags = of_nat (field 6 2 d), h_entry_point = of_nat (field 8 4 d), h_phoff = of_nat (field 12 4 d),
      h_shoff = of_nat (field 16 4 d), h_phnum = of_nat (field 20 4 d), h_shnum = of_nat (field 24 4 d),
      h_shstrndx = of_nat (field 28 4 d), h_crc32 = of_nat (field 32 4 d),
      h_file_size = of_nat (field 76 4 d), h_version_major = of_nat (field 80 1 d),
      h_version_minor = of_nat (field 81 1 d)\<rparr>)"

definition dec_phdr :: "u8 list \<Rightarrow> fcef_program_header" where
  "dec_phdr d = \<lparr>p_type = of_nat (field 0 4 d), p_offset = of_nat (field 4 4 d), p_vaddr = of_nat (field 8 4 d),
     p_paddr = of_nat (field 12 4 d), p_filesz = of_nat (field 16 4 d), p_memsz = of_nat (field 20 4 d),
     p_flags = of_nat (field 24 4 d), p_align = of_nat (field 28 4 d)\<rparr>"

definition dec_shdr :: "u8 list \<Rightarrow> fcef_section_header" where
  "dec_shdr d = \<lparr>s_name = of_nat (field 0 4 d), s_type = of_nat (field 4 4 d), s_flags = of_nat (field 8 4 d),
     s_addr = of_nat (field 12 4 d), s_offset = of_nat (field 16 4 d), s_size = of_nat (field 20 4 d),
     s_link = of_nat (field 24 4 d), s_info = of_nat (field 28 4 d), s_addralign = of_nat (field 32 4 d),
     s_entsize = of_nat (field 36 4 d)\<rparr>"

text \<open>\<open>file->header->field = value\<close>, and the structure of \<open>n\<close> bytes at an offset.\<close>

definition put_header :: "nat \<Rightarrow> nat \<Rightarrow> nat \<Rightarrow> fcef_file \<Rightarrow> fcef_file" where
  "put_header off k v f = f\<lparr>f_data := overwrite (f_data f) off (le_enc k v)\<rparr>"

definition struct_at :: "nat \<Rightarrow> nat \<Rightarrow> u8 list \<Rightarrow> u8 list option" where
  "struct_at n off d = (if off + n \<le> length d then Some (take n (drop off d)) else None)"

section \<open>Reading (fcef_reader.c)\<close>

text \<open>The name of the file, if any, and its content, if it can be opened.\<close>

definition fcef_open :: "string option \<Rightarrow> u8 list option \<Rightarrow> fcef_file option" where
  "fcef_open filename content =
     (if filename = None then None
      else (case content of None \<Rightarrow> None | Some bytes \<Rightarrow>
        (if length bytes < sizeof_header then None
         else Some \<lparr>f_data = bytes, f_size = length bytes, f_allocated = True, f_base_address = 0\<rparr>)))"

definition fcef_get_program_headers :: "fcef_file option \<Rightarrow> nat option" where
  "fcef_get_program_headers file = (case file of None \<Rightarrow> None | Some f \<Rightarrow>
     (if h_phnum (header f) = 0 then None
      else (let phoff = h_phoff (header f); phsize = h_phnum (header f) * of_nat sizeof_phdr
            in if unat (phoff + phsize) > f_size f then None else Some (unat phoff))))"

definition fcef_get_section_headers :: "fcef_file option \<Rightarrow> nat option" where
  "fcef_get_section_headers file = (case file of None \<Rightarrow> None | Some f \<Rightarrow>
     (if h_shnum (header f) = 0 then None
      else (let shoff = h_shoff (header f); shsize = h_shnum (header f) * of_nat sizeof_shdr
            in if unat (shoff + shsize) > f_size f then None else Some (unat shoff))))"

definition fcef_get_string :: "fcef_file option \<Rightarrow> u32 \<Rightarrow> u32 \<Rightarrow> nat option" where
  "fcef_get_string file strtab_offset index = (case file of None \<Rightarrow> None | Some f \<Rightarrow>
     (if unat strtab_offset \<ge> f_size f then None
      else (let strtab_size = of_nat (f_size f - unat strtab_offset) :: u32 in
        if index \<ge> strtab_size then None
        else (case scan (\<lambda>i. f_data f ! (unat strtab_offset + i) = 0) (unat index) (unat strtab_size) of
                Some i \<Rightarrow> Some (unat strtab_offset + unat index)
              | None \<Rightarrow> None))))"

text \<open>\<open>strcmp(data + off, name) == 0\<close>; the name is given without its final null.\<close>

fun strcmp_at :: "u8 list \<Rightarrow> nat \<Rightarrow> u8 list \<Rightarrow> bool option" where
  "strcmp_at d off [] = (if off < length d then Some (d ! off = 0) else None)"
| "strcmp_at d off (c # cs) =
     (if off < length d then (if d ! off = c then strcmp_at d (Suc off) cs else Some False) else None)"

text \<open>The inner loop: the symbols from number \<open>j\<close> on, \<open>n\<close> of them.\<close>

fun find_in_table :: "u8 list \<Rightarrow> u8 list \<Rightarrow> nat \<Rightarrow> nat \<Rightarrow> nat \<Rightarrow> nat \<Rightarrow> nat option option" where
  "find_in_table d name strtab symbols j 0 = Some None"
| "find_in_table d name strtab symbols j (Suc n) =
     (case struct_at sizeof_sym (symbols + sizeof_sym * j) d of None \<Rightarrow> None
      | Some entry \<Rightarrow> (case strcmp_at d (strtab + field 0 4 entry) name of None \<Rightarrow> None
          | Some True \<Rightarrow> Some (Some (symbols + sizeof_sym * j))
          | Some False \<Rightarrow> find_in_table d name strtab symbols (Suc j) n))"

text \<open>The outer loop: the sections from number \<open>i\<close> on.\<close>

definition shdr_at :: "nat \<Rightarrow> nat \<Rightarrow> u8 list \<Rightarrow> fcef_section_header option" where
  "shdr_at sections i d = map_option dec_shdr (struct_at sizeof_shdr (sections + sizeof_shdr * i) d)"

fun find_in_sections :: "u8 list \<Rightarrow> u8 list \<Rightarrow> nat \<Rightarrow> u32 \<Rightarrow> nat \<Rightarrow> nat \<Rightarrow> nat option option" where
  "find_in_sections d name sections shnum i 0 = Some None"
| "find_in_sections d name sections shnum i (Suc n) =
     (case shdr_at sections i d of None \<Rightarrow> None
      | Some s \<Rightarrow>
          (if s_type s \<noteq> FCEF_SHT_SYMTAB \<or> s_link s \<ge> shnum then find_in_sections d name sections shnum (Suc i) n
           else (case shdr_at sections (unat (s_link s)) d of None \<Rightarrow> None
             | Some st \<Rightarrow>
                 (if s_type st \<noteq> FCEF_SHT_STRTAB then find_in_sections d name sections shnum (Suc i) n
                  else (case find_in_table d name (unat (s_offset st)) (unat (s_offset s)) 0 (unat (s_size s) div sizeof_sym) of
                      None \<Rightarrow> None
                    | Some (Some p) \<Rightarrow> Some (Some p)
                    | Some None \<Rightarrow> find_in_sections d name sections shnum (Suc i) n)))))"

definition fcef_find_symbol :: "fcef_file option \<Rightarrow> u8 list option \<Rightarrow> nat option option" where
  "fcef_find_symbol file name =
     (case (file, name) of
        (Some f, Some name) \<Rightarrow>
          (case fcef_get_section_headers (Some f) of None \<Rightarrow> Some None
           | Some sections \<Rightarrow>
               find_in_sections (f_data f) name sections (h_shnum (header f)) 0 (unat (h_shnum (header f))))
      | _ \<Rightarrow> Some None)"

definition fcef_get_entry_point :: "fcef_file option \<Rightarrow> u64" where
  "fcef_get_entry_point file = (case file of None \<Rightarrow> 0 | Some f \<Rightarrow> ucast (h_entry_point (header f)))"

definition fcef_get_base_address :: "fcef_file option \<Rightarrow> u32" where
  "fcef_get_base_address file = (case file of None \<Rightarrow> 0 | Some f \<Rightarrow> f_base_address f)"

definition fcef_set_base_address :: "u32 \<Rightarrow> fcef_file option \<Rightarrow> fcef_file option" where
  "fcef_set_base_address b file = map_option (\<lambda>f. f\<lparr>f_base_address := b\<rparr>) file"

definition fcef_get_program_header_count :: "fcef_file option \<Rightarrow> u32" where
  "fcef_get_program_header_count file = (case file of None \<Rightarrow> 0 | Some f \<Rightarrow> h_phnum (header f))"

definition fcef_get_section_header_count :: "fcef_file option \<Rightarrow> u32" where
  "fcef_get_section_header_count file = (case file of None \<Rightarrow> 0 | Some f \<Rightarrow> h_shnum (header f))"

section \<open>The write context (fcef_writer.c)\<close>

text \<open>The buffer has the bytes of the capacity; fresh ones come from \<open>heap\<close>.\<close>

record write_context =
  wc_buffer :: "u8 list"
  wc_capacity :: nat
  wc_size :: nat
  wc_position :: nat

definition write_context_create :: "(nat \<Rightarrow> u8) \<Rightarrow> nat \<Rightarrow> write_context" where
  "write_context_create heap initial_capacity =
     \<lparr>wc_buffer = malloc heap initial_capacity, wc_capacity = initial_capacity, wc_size = 0, wc_position = 0\<rparr>"

definition write_context_destroy :: "write_context option \<Rightarrow> bool \<Rightarrow> u8 list option" where
  "write_context_destroy ctx keep_buffer =
     (case ctx of None \<Rightarrow> None | Some c \<Rightarrow> if keep_buffer then Some (wc_buffer c) else None)"

text \<open>The doubling loop. From a capacity of 0 it never ends.\<close>

partial_function (option) grow :: "nat \<Rightarrow> nat \<Rightarrow> nat option" where
  "grow need capacity = (if capacity < need then grow need (capacity * 2) else Some capacity)"

definition write_context_ensure_capacity :: "(nat \<Rightarrow> u8) \<Rightarrow> nat \<Rightarrow> write_context \<Rightarrow> write_context option" where
  "write_context_ensure_capacity heap needed c =
     (if wc_position c + needed \<le> wc_capacity c then Some c
      else (case grow (wc_position c + needed) (wc_capacity c * 2) of None \<Rightarrow> None
        | Some n \<Rightarrow> Some (c\<lparr>wc_buffer := wc_buffer c @ drop (length (wc_buffer c)) (malloc heap n), wc_capacity := n\<rparr>)))"

definition write_context_write :: "(nat \<Rightarrow> u8) \<Rightarrow> u8 list \<Rightarrow> write_context \<Rightarrow> write_context option" where
  "write_context_write heap data c =
     (case write_context_ensure_capacity heap (length data) c of None \<Rightarrow> None
      | Some c \<Rightarrow> (let p = wc_position c + length data
          in Some (c\<lparr>wc_buffer := overwrite (wc_buffer c) (wc_position c) data, wc_position := p,
               wc_size := (if p > wc_size c then p else wc_size c)\<rparr>)))"

definition write_context_align :: "(nat \<Rightarrow> u8) \<Rightarrow> nat \<Rightarrow> write_context \<Rightarrow> write_context option" where
  "write_context_align heap alignment c =
     (let padding = (alignment - wc_position c mod alignment) mod alignment in
      if padding = 0 then Some c
      else (case write_context_ensure_capacity heap padding c of None \<Rightarrow> None
        | Some c \<Rightarrow> Some (c\<lparr>wc_buffer := overwrite (wc_buffer c) (wc_position c) (replicate padding 0),
             wc_position := wc_position c + padding\<rparr>)))"

section \<open>Writing (fcef_writer.c)\<close>

text \<open>
  The segment's bytes, if \<open>data\<close> is a null pointer, are whatever \<open>realloc\<close> leaves there; the
  program header itself goes nowhere.
\<close>

definition fcef_add_segment ::
    "(nat \<Rightarrow> u8) \<Rightarrow> fcef_program_header option \<Rightarrow> u8 list option \<Rightarrow> nat \<Rightarrow> fcef_file option \<Rightarrow> bool \<times> fcef_file option" where
  "fcef_add_segment heap phdr data data_size file =
     (case (file, phdr) of
        (Some f, Some phdr) \<Rightarrow>
          (let f = f\<lparr>f_data := f_data f @ (case data of Some d \<Rightarrow> bytes_at data_size d | None \<Rightarrow> malloc heap data_size),
                f_size := f_size f + data_size\<rparr>;
               f = put_header 20 4 (unat (h_phnum (header f) + 1)) f
           in (True, Some (put_header 76 4 (unat (of_nat (f_size f) :: u32)) f)))
      | (file, _) \<Rightarrow> (False, file))"

definition fcef_add_section :: "fcef_section_header option \<Rightarrow> fcef_file option \<Rightarrow> bool \<times> fcef_file option" where
  "fcef_add_section shdr file =
     (case (file, shdr) of
        (Some f, Some shdr) \<Rightarrow> (True, Some (put_header 24 4 (unat (h_shnum (header f) + 1)) f))
      | (file, _) \<Rightarrow> (False, file))"

definition fcef_set_entry_point :: "u32 \<Rightarrow> fcef_file option \<Rightarrow> fcef_file option" where
  "fcef_set_entry_point e file = map_option (put_header 8 4 (unat e)) file"

definition fcef_add_string :: "fcef_file option \<Rightarrow> string option \<Rightarrow> u32" where
  "fcef_add_string file str = 0"

definition fcef_add_symbol :: "fcef_file option \<Rightarrow> string option \<Rightarrow> bool" where
  "fcef_add_symbol file name = (file \<noteq> None \<and> name \<noteq> None)"

end
