(* ===== verification/Fcef_Check.thy ===== *)
theory Fcef_Check
  imports Fcef_File
begin

text \<open>
  Checking, loading and showing FCEF files: fcef/src/format/fcef_validator.c with its table-driven
  CRC-32, the checksum update and saving of fcef_writer.c, and the tool fcef/src/tools/fcef-dump.c.
  What is printed to the standard output by the dump functions and the tool is part of the result;
  error messages are not.
\<close>

section \<open>The checksum\<close>

definition crc32_entry_step :: "u32 \<Rightarrow> u32" where
  "crc32_entry_step c = (if c AND 1 \<noteq> 0 then 0xEDB88320 XOR drop_bit 1 c else drop_bit 1 c)"

definition crc32_table :: "u32 list" where
  "crc32_table = map (\<lambda>i. (crc32_entry_step ^^ 8) (of_nat i)) [0..<256]"

definition crc32_step :: "u32 \<Rightarrow> u8 \<Rightarrow> u32" where
  "crc32_step crc b = crc32_table ! unat ((crc XOR ucast b) AND 0xFF) XOR drop_bit 8 crc"

definition fcef_calculate_crc32 :: "u8 list option \<Rightarrow> nat \<Rightarrow> u32" where
  "fcef_calculate_crc32 data n =
     (case data of None \<Rightarrow> 0 | Some d \<Rightarrow>
       if n = 0 then 0 else foldl crc32_step 0xFFFFFFFF (take n d) XOR 0xFFFFFFFF)"

section \<open>Validation\<close>

definition power_of_two_or_zero :: "u32 \<Rightarrow> bool" where
  "power_of_two_or_zero a \<longleftrightarrow> (a \<noteq> 0 \<longrightarrow> a AND (a - 1) = 0)"

definition validate_program_header :: "fcef_file \<Rightarrow> fcef_program_header \<Rightarrow> bool" where
  "validate_program_header f p =
     (if unat (p_offset p) \<ge> f_size f then False
      else if unat (p_offset p + p_filesz p) > f_size f then False
      else if p_memsz p < p_filesz p then False
      else power_of_two_or_zero (p_align p))"

definition validate_section_header :: "fcef_file \<Rightarrow> fcef_section_header \<Rightarrow> bool" where
  "validate_section_header f s =
     (if s_type s \<noteq> FCEF_SHT_NOBITS \<and> s_type s \<noteq> FCEF_SHT_NULL \<and>
         (unat (s_offset s) \<ge> f_size f \<or> unat (s_offset s + s_size s) > f_size f) then False
      else power_of_two_or_zero (s_addralign s))"

definition phdr_at :: "fcef_file \<Rightarrow> nat \<Rightarrow> fcef_program_header" where
  "phdr_at f i = dec_phdr (take sizeof_phdr (drop (unat (h_phoff (header f)) + sizeof_phdr * i) (f_data f)))"

definition section_at :: "fcef_file \<Rightarrow> nat \<Rightarrow> fcef_section_header" where
  "section_at f i = dec_shdr (take sizeof_shdr (drop (unat (h_shoff (header f)) + sizeof_shdr * i) (f_data f)))"

definition validate_program_headers :: "fcef_file \<Rightarrow> bool" where
  "validate_program_headers f = (let h = header f in
     if h_phnum h > 0 then
       (if unat (h_phoff h) + unat (h_phnum h) * sizeof_phdr > f_size f then False
        else list_all (\<lambda>i. validate_program_header f (phdr_at f i)) [0..<unat (h_phnum h)])
     else True)"

definition validate_section_headers :: "fcef_file \<Rightarrow> bool" where
  "validate_section_headers f = (let h = header f in
     if h_shnum h > 0 then
       (if unat (h_shoff h) + unat (h_shnum h) * sizeof_shdr > f_size f then False
        else if h_shstrndx h \<ge> h_shnum h \<and> h_shstrndx h \<noteq> 0 then False
        else list_all (\<lambda>i. validate_section_header f (section_at f i)) [0..<unat (h_shnum h)])
     else True)"

text \<open>The checksum is computed with the header's own field set to 0.\<close>

definition crc_of :: "fcef_file \<Rightarrow> u32" where
  "crc_of f = (let g = put_header 32 4 0 f in fcef_calculate_crc32 (Some (f_data g)) (f_size g))"

definition fcef_validate :: "fcef_file option \<Rightarrow> bool" where
  "fcef_validate file = (case file of None \<Rightarrow> False | Some f \<Rightarrow>
     (let h = header f in
      if f_data f ! 0 \<noteq> 0x46 \<or> f_data f ! 1 \<noteq> 0x43 \<or> f_data f ! 2 \<noteq> 0x45 \<or> f_data f ! 3 \<noteq> 0x46 then False
      else if h_version_major h = 0 then False
      else if unat (h_file_size h) > f_size f then False
      else if \<not> validate_program_headers f then False
      else if \<not> validate_section_headers f then False
      else if h_crc32 h \<noteq> 0 then crc_of f = h_crc32 h
      else True))"

section \<open>Loading\<close>

definition fcef_relocate :: "fcef_file option \<Rightarrow> u8 list option \<Rightarrow> u32 \<Rightarrow> bool \<times> fcef_file option" where
  "fcef_relocate file memory base_address =
     (case (file, memory) of
        (Some f, Some m) \<Rightarrow> (True, Some (f\<lparr>f_base_address := base_address\<rparr>))
      | (file, _) \<Rightarrow> (False, file))"

text \<open>
  The memory that the segment is loaded into is a list of bytes. \<open>None\<close>: the copy leaves the
  data of the file or the memory.
\<close>

definition fcef_load_segment ::
    "fcef_file option \<Rightarrow> fcef_program_header option \<Rightarrow> u8 list option \<Rightarrow> (bool \<times> u8 list option) option" where
  "fcef_load_segment file phdr memory =
     (case (file, phdr, memory) of
        (Some f, Some p, Some m) \<Rightarrow>
          (if p_type p \<noteq> FCEF_PT_LOAD then Some (False, Some m)
           else if unat (p_offset p + p_filesz p) > f_size f then Some (False, Some m)
           else (let dest = unat (p_vaddr p); n = unat (p_filesz p) in
             case struct_at n (unat (p_offset p)) (f_data f) of None \<Rightarrow> None
             | Some src \<Rightarrow>
                 (if dest + n > length m then None
                  else (let m = overwrite m dest src in
                    if p_memsz p > p_filesz p then
                      (if dest + unat (p_memsz p) > length m then None
                       else Some (True, Some (overwrite m (dest + n) (replicate (unat (p_memsz p - p_filesz p)) 0))))
                    else Some (True, Some m)))))
      | (_, _, m) \<Rightarrow> Some (False, m))"

section \<open>Saving (fcef_writer.c)\<close>

definition fcef_update_crc32 :: "fcef_file option \<Rightarrow> bool \<times> fcef_file option" where
  "fcef_update_crc32 file = (case file of None \<Rightarrow> (False, None) | Some f \<Rightarrow>
     (True, Some (put_header 32 4 (unat (crc_of f)) f)))"

text \<open>The result, the handle and, when the file can be opened for writing, its new content.\<close>

definition fcef_save :: "fcef_file option \<Rightarrow> string option \<Rightarrow> bool \<Rightarrow> bool \<times> fcef_file option \<times> u8 list option" where
  "fcef_save file filename can_open =
     (if file = None \<or> filename = None then (False, file, None)
      else (case fcef_update_crc32 file of (_, file) \<Rightarrow>
        if can_open then (True, file, map_option (\<lambda>f. take (f_size f) (f_data f)) file) else (False, file, None)))"

section \<open>Showing a file\<close>

definition digit :: "nat \<Rightarrow> char" where
  "digit d = (if d < 10 then char_of (48 + d) else char_of (55 + d))"

fun hex_upper :: "nat \<Rightarrow> nat \<Rightarrow> string" where
  "hex_upper 0 n = []"
| "hex_upper (Suc k) n = hex_upper k (n div 16) @ [digit (n mod 16)]"

fun dec_string :: "nat \<Rightarrow> string" where
  "dec_string n = (if n < 10 then [digit n] else dec_string (n div 10) @ [digit (n mod 10)])"

declare dec_string.simps [simp del]

definition nl :: string where "nl = [CHR 10]"

definition hex_line :: "string \<Rightarrow> u32 \<Rightarrow> string" where
  "hex_line label w = label @ ''0x'' @ hex_upper 8 (unat w) @ nl"

definition dec_line :: "string \<Rightarrow> u32 \<Rightarrow> string" where
  "dec_line label w = label @ dec_string (unat w) @ nl"

definition fcef_dump_header :: "fcef_header option \<Rightarrow> string" where
  "fcef_dump_header hdr = (case hdr of None \<Rightarrow> ''Header: NULL'' @ nl | Some h \<Rightarrow>
     ''=== FCEF Header ==='' @ nl @
     ''Magic:          0x'' @ hex_upper 8 (unat (h_magic h)) @ '' ('' @ [CHR 39] @
       map (\<lambda>k. char_of (unat (drop_bit k (h_magic h) AND 0xFF))) [24, 16, 8, 0] @ [CHR 39] @ '')'' @ nl @
     ''Architecture:   0x'' @ hex_upper 2 (unat (h_arch h)) @ nl @
     ''Version:        '' @ dec_string (unat (h_version_major h)) @ ''.'' @ dec_string (unat (h_version_minor h)) @ nl @
     hex_line ''Entry point:    '' (h_entry_point h) @
     hex_line ''PH offset:      '' (h_phoff h) @
     hex_line ''SH offset:      '' (h_shoff h) @
     dec_line ''PH count:       '' (h_phnum h) @
     dec_line ''SH count:       '' (h_shnum h) @
     dec_line ''SH str idx:     '' (h_shstrndx h) @
     hex_line ''Flags:          '' (ucast (h_flags h)) @
     hex_line ''CRC32:          '' (h_crc32 h) @
     ''File size:      '' @ dec_string (unat (h_file_size h)) @ '' bytes'' @ nl @
     ''=================='' @ nl)"

definition segment_type_name :: "u32 \<Rightarrow> string" where
  "segment_type_name t =
     (if t = 0 then ''(NULL)'' else if t = 1 then ''(LOAD)'' else if t = 2 then ''(DYNAMIC)''
      else if t = 3 then ''(INTERP)'' else if t = 4 then ''(NOTE)'' else if t = 6 then ''(PHDR)''
      else if t = 7 then ''(TLS)'' else ''(UNKNOWN)'')"

definition fcef_dump_program_header :: "fcef_program_header option \<Rightarrow> string" where
  "fcef_dump_program_header phdr = (case phdr of None \<Rightarrow> ''Program header: NULL'' @ nl | Some p \<Rightarrow>
     ''  Type:      0x'' @ hex_upper 8 (unat (p_type p)) @ '' '' @ segment_type_name (p_type p) @ nl @
     hex_line ''  Offset:    '' (p_offset p) @
     hex_line ''  VAddr:     '' (p_vaddr p) @
     hex_line ''  PAddr:     '' (p_paddr p) @
     hex_line ''  FileSz:    '' (p_filesz p) @
     hex_line ''  MemSz:     '' (p_memsz p) @
     ''  Flags:     0x'' @ hex_upper 8 (unat (p_flags p)) @ '' '' @
       (if p_flags p AND 4 \<noteq> 0 then ''R'' else []) @ (if p_flags p AND 2 \<noteq> 0 then ''W'' else []) @
       (if p_flags p AND 1 \<noteq> 0 then ''X'' else []) @ nl @
     hex_line ''  Align:     '' (p_align p))"

definition section_type_name :: "u32 \<Rightarrow> string" where
  "section_type_name t =
     (if t < 12 then [''(NULL)'', ''(PROGBITS)'', ''(SYMTAB)'', ''(STRTAB)'', ''(RELA)'', ''(HASH)'',
        ''(DYNAMIC)'', ''(NOTE)'', ''(NOBITS)'', ''(REL)'', ''(SHLIB)'', ''(DYNSYM)''] ! unat t
      else ''(UNKNOWN)'')"

definition fcef_dump_section_header :: "fcef_section_header option \<Rightarrow> string" where
  "fcef_dump_section_header shdr = (case shdr of None \<Rightarrow> ''Section header: NULL'' @ nl | Some s \<Rightarrow>
     hex_line ''  Name:      '' (s_name s) @
     ''  Type:      0x'' @ hex_upper 8 (unat (s_type s)) @ '' '' @ section_type_name (s_type s) @ nl @
     hex_line ''  Flags:     '' (s_flags s) @
     hex_line ''  Addr:      '' (s_addr s) @
     hex_line ''  Offset:    '' (s_offset s) @
     hex_line ''  Size:      '' (s_size s) @
     hex_line ''  Link:      '' (s_link s) @
     hex_line ''  Info:      '' (s_info s) @
     hex_line ''  AddrAlign: '' (s_addralign s) @
     hex_line ''  EntSize:   '' (s_entsize s))"

section \<open>The tool fcef-dump\<close>

record dump_options =
  show_header :: bool
  show_phdrs :: bool
  show_shdrs :: bool
  verbose :: bool

definition dump_usage :: "string \<Rightarrow> string" where
  "dump_usage program_name =
     ''Usage: '' @ program_name @ '' [OPTIONS] <file.fcef>'' @ nl @
     ''Options:'' @ nl @
     ''  -h, --help     Show this help message'' @ nl @
     ''  -v, --verbose  Verbose output'' @ nl @
     ''  -H, --header   Show header only'' @ nl @
     ''  -P, --phdrs    Show program headers only'' @ nl @
     ''  -S, --shdrs    Show section headers only'' @ nl @
     ''  -a, --all      Show all information (default)'' @ nl"

text \<open>The options as \<open>getopt_long\<close> gives them, one letter each; \<open>Inl\<close> the status when the tool stops.\<close>

fun dump_parse :: "string \<Rightarrow> dump_options \<Rightarrow> int + dump_options" where
  "dump_parse [] o1 = Inr o1"
| "dump_parse (c # cs) o1 =
     (if c = CHR ''h'' then Inl 0
      else if c = CHR ''v'' then dump_parse cs (o1\<lparr>verbose := True\<rparr>)
      else if c = CHR ''H'' then dump_parse cs (o1\<lparr>show_header := True, show_phdrs := False, show_shdrs := False\<rparr>)
      else if c = CHR ''P'' then dump_parse cs (o1\<lparr>show_header := False, show_phdrs := True, show_shdrs := False\<rparr>)
      else if c = CHR ''S'' then dump_parse cs (o1\<lparr>show_header := False, show_phdrs := False, show_shdrs := True\<rparr>)
      else if c = CHR ''a'' then dump_parse cs (o1\<lparr>show_header := True, show_phdrs := True, show_shdrs := True\<rparr>)
      else Inl 1)"

definition dump_table :: "string \<Rightarrow> string \<Rightarrow> u32 \<Rightarrow> (nat \<Rightarrow> string) \<Rightarrow> string" where
  "dump_table label none n item =
     (if n > 0 then label @ '' ('' @ dec_string (unat n) @ ''):'' @ nl @
        concat (map (\<lambda>i. nl @ ''['' @ dec_string i @ '']'' @ item i) [0..<unat n]) @ nl
      else none @ nl @ nl)"

definition dump_verbose :: "fcef_file \<Rightarrow> string" where
  "dump_verbose f =
     ''Detailed information:'' @ nl @
     hex_line ''  Calculated CRC32: '' (fcef_calculate_crc32 (Some (f_data f)) (f_size f)) @
     hex_line ''  Stored CRC32:     '' (h_crc32 (header f)) @
     (if h_crc32 (header f) \<noteq> 0 then
        (if crc_of f = h_crc32 (header f) then ''  CRC32:            OK'' @ nl
         else ''  CRC32:            MISMATCH (calculated: 0x'' @ hex_upper 8 (unat (crc_of f)) @ '')'' @ nl)
      else [])"

definition fcef_dump_main ::
    "string \<Rightarrow> string \<Rightarrow> string option \<Rightarrow> u8 list option \<Rightarrow> int \<times> string" where
  "fcef_dump_main program_name opts filename content =
     (case dump_parse opts \<lparr>show_header = True, show_phdrs = True, show_shdrs = True, verbose = False\<rparr> of
        Inl status \<Rightarrow> (status, dump_usage program_name)
      | Inr o1 \<Rightarrow>
          (case filename of None \<Rightarrow> (1, dump_usage program_name) | Some name \<Rightarrow>
            (case fcef_open (Some name) content of None \<Rightarrow> (1, []) | Some f \<Rightarrow>
              (if \<not> fcef_validate (Some f) then (1, [])
               else (0, ''FCEF File: '' @ name @ nl @ ''File size: '' @ dec_string (f_size f) @ '' bytes'' @ nl @
                 ''Valid FCEF file'' @ nl @ nl @
                 (if show_header o1 then fcef_dump_header (Some (header f)) @ nl else []) @
                 (if show_phdrs o1 then dump_table ''Program Headers'' ''No program headers found'' (h_phnum (header f))
                    (\<lambda>i. fcef_dump_program_header (Some (phdr_at f i))) else []) @
                 (if show_shdrs o1 then dump_table ''Section Headers'' ''No section headers found'' (h_shnum (header f))
                    (\<lambda>i. fcef_dump_section_header (Some (section_at f i))) else []) @
                 (if verbose o1 then dump_verbose f else []))))))"

section \<open>The table-driven checksum is the bitwise one\<close>

lemma entry_step: "crc32_entry_step = crc_bit"
proof
  fix c :: u32
  show "crc32_entry_step c = crc_bit c"
    by (cases "bit c 0") (auto simp: crc32_entry_step_def crc_bit_alt and_one_eq bit_0 xor.commute odd_iff_mod_2_eq_one even_iff_mod_2_eq_zero)
qed

lemma crc_bits_shift: "k \<le> 8 \<Longrightarrow> (crc_bit ^^ k) (push_bit k (drop_bit 8 (x :: u32))) = drop_bit 8 x"
proof (induction k)
  case (Suc k)
  let ?y = "drop_bit 8 x"
  have high: "bit ?y n \<Longrightarrow> n < 24" for n by (auto simp: bit_drop_bit_eq dest: bit_imp_le_length)
  have next_bit: "bit (drop_bit 1 w) n = bit w (Suc n)" for w :: u32 and n by (simp add: bit_drop_bit_eq)
  have "\<not> bit (push_bit (Suc k) ?y) 0" by (simp add: bit_push_bit_iff del: push_bit_Suc)
  moreover have "drop_bit 1 (push_bit (Suc k) ?y) = push_bit k ?y"
  proof (rule bit_word_eqI)
    fix n assume "n < LENGTH(32)"
    then show "bit (drop_bit 1 (push_bit (Suc k) ?y)) n = bit (push_bit k ?y) n"
      using Suc.prems high [of "n - k"] by (simp only: next_bit bit_push_bit_iff) (auto simp: not_less)
  qed
  ultimately have "crc_bit (push_bit (Suc k) ?y) = push_bit k ?y" by (simp add: crc_bit_alt del: push_bit_Suc)
  with Suc show ?case by (simp add: funpow_swap1 del: push_bit_Suc)
qed simp

lemma table_entry: "crc32_table ! unat (x AND 0xFF) = (crc_bit ^^ 8) (x AND 0xFF :: u32)"
proof -
  have "x AND 0xFF = take_bit 8 x" by (simp add: take_bit_eq_mask mask_eq_exp_minus_1)
  then have "unat (x AND 0xFF) < 256" by (simp add: unat_take_bit_mod)
  then show ?thesis by (simp add: crc32_table_def entry_step del: funpow.simps)
qed

lemma crc32_step_byte: "crc32_step crc b = crc_byte crc b"
proof -
  define x where "x = crc XOR ucast b"
  have hi: "drop_bit 8 x = drop_bit 8 crc"
    by (rule bit_word_eqI) (auto simp: x_def bit_simps dest: bit_imp_le_length)
  have "x = (x AND 0xFF) XOR push_bit 8 (drop_bit 8 x)"
  proof (rule bit_word_eqI)
    fix n assume "n < LENGTH(32)"
    moreover have "x AND 0xFF = take_bit 8 x" by (simp add: take_bit_eq_mask mask_eq_exp_minus_1)
    ultimately show "bit x n = bit ((x AND 0xFF) XOR push_bit 8 (drop_bit 8 x)) n"
      by (auto simp: bit_simps)
  qed
  then have "(crc_bit ^^ 8) x = (crc_bit ^^ 8) (x AND 0xFF) XOR (crc_bit ^^ 8) (push_bit 8 (drop_bit 8 x))"
    by (metis crc_bits_xor)
  also have "\<dots> = crc32_table ! unat (x AND 0xFF) XOR drop_bit 8 crc"
    by (simp only: table_entry crc_bits_shift [OF order_refl] hi)
  finally show ?thesis by (simp add: crc32_step_def crc_byte_def x_def)
qed

lemma calculate_crc: "fcef_calculate_crc32 (Some d) (length d) = crc32 d"
proof -
  have "crc32_step = crc_byte" by (intro ext) (rule crc32_step_byte)
  moreover have "w XOR 0xFFFFFFFF = NOT w" for w :: u32
  proof -
    have "(0xFFFFFFFF :: u32) = -1" by simp
    then show ?thesis by (simp only:) (rule bit_word_eqI, simp add: bit_simps)
  qed
  ultimately show ?thesis by (simp add: fcef_calculate_crc32_def crc32_def)
qed

section \<open>Fields of a file that is changed\<close>

lemma field_overwrite:
  "off + length c \<le> length d \<Longrightarrow> o1 + k \<le> off \<or> off + length c \<le> o1 \<Longrightarrow>
   field o1 k (overwrite d off c) = field o1 k d"
proof -
  assume len: "off + length c \<le> length d" and apart: "o1 + k \<le> off \<or> off + length c \<le> o1"
  have "take k (drop o1 (overwrite d off c)) = take k (drop o1 d)"
    by (rule nth_equalityI) (use len apart in \<open>auto simp: overwrite_nth\<close>)
  then show ?thesis by (simp add: field_def)
qed

lemma field_overwritten: "off + k \<le> length d \<Longrightarrow> field off k (overwrite d off (le_enc k v)) = v mod 256 ^ k"
  by (simp add: field_def overwrite_def le_dec_enc)

lemma overwrite_twice: "length c = length c' \<Longrightarrow> off + length c \<le> length d \<Longrightarrow>
    overwrite (overwrite d off c) off c' = overwrite d off c'"
  by (simp add: overwrite_def)

lemma overwrite_same: "off + k \<le> length d \<Longrightarrow> overwrite d off (take k (drop off d)) = d"
  by (simp add: overwrite_def) (metis append_take_drop_id drop_drop add.commute)

text \<open>Files whose handle has the right size, with room for a header.\<close>

definition handle_ok :: "fcef_file \<Rightarrow> bool" where
  "handle_ok f \<longleftrightarrow> f_size f = length (f_data f) \<and> sizeof_header \<le> f_size f"

text \<open>The header tables do not lie over the checksum.\<close>

definition tables_apart :: "fcef_file \<Rightarrow> bool" where
  "tables_apart f \<longleftrightarrow> (h_phnum (header f) = 0 \<or> 36 \<le> unat (h_phoff (header f))) \<and>
     (h_shnum (header f) = 0 \<or> 36 \<le> unat (h_shoff (header f)))"

lemma put_crc_header:
  "handle_ok f \<Longrightarrow> header (put_header 32 4 (unat v) f) = (header f)\<lparr>h_crc32 := v\<rparr>"
  using unsigned_less [where 'a = nat, of v]
  by (simp add: header_def put_header_def field_overwrite field_overwritten handle_ok_def sizeof_header_def Let_def)

lemma put_crc_simps [simp]:
  "f_size (put_header off k v f) = f_size f" "f_allocated (put_header off k v f) = f_allocated f"
  "f_base_address (put_header off k v f) = f_base_address f"
  by (simp_all add: put_header_def)

lemma length_put: "off + k \<le> length (f_data f) \<Longrightarrow> length (f_data (put_header off k v f)) = length (f_data f)"
  by (simp add: put_header_def)

lemma put_crc_magic: "handle_ok f \<Longrightarrow> k < 32 \<Longrightarrow> f_data (put_header 32 4 v f) ! k = f_data f ! k"
  by (simp add: put_header_def overwrite_nth handle_ok_def sizeof_header_def)

lemma put_crc_twice: "handle_ok f \<Longrightarrow> put_header 32 4 v (put_header 32 4 w f) = put_header 32 4 v f"
  by (simp add: put_header_def overwrite_twice handle_ok_def sizeof_header_def)

lemma put_crc_tables:
  fixes v :: u32
  assumes ok: "handle_ok f" and ap: "tables_apart f"
  shows "validate_program_headers (put_header 32 4 (unat v) f) = validate_program_headers f"
    and "validate_section_headers (put_header 32 4 (unat v) f) = validate_section_headers f"
proof -
  let ?g = "put_header 32 4 (unat v) f"
  have drop: "drop n (f_data ?g) = drop n (f_data f)" if "36 \<le> n" for n
    using that ok by (intro nth_equalityI) (auto simp: put_header_def overwrite_nth handle_ok_def sizeof_header_def)
  have p: "phdr_at ?g i = phdr_at f i" if "h_phnum (header f) \<noteq> 0" for i
    using ap that by (simp add: phdr_at_def put_crc_header [OF ok] drop tables_apart_def)
  have s: "section_at ?g i = section_at f i" if "h_shnum (header f) \<noteq> 0" for i
    using ap that by (simp add: section_at_def put_crc_header [OF ok] drop tables_apart_def)
  show "validate_program_headers ?g = validate_program_headers f"
    using p by (simp add: validate_program_headers_def put_crc_header [OF ok] validate_program_header_def Let_def word_gt_0)
  show "validate_section_headers ?g = validate_section_headers f"
    using s by (simp add: validate_section_headers_def put_crc_header [OF ok] validate_section_header_def Let_def word_gt_0)
qed

lemma crc_of_put: "handle_ok f \<Longrightarrow> crc_of (put_header 32 4 v f) = crc_of f"
  by (simp add: crc_of_def put_crc_twice)

lemma crc_of_crc32: "handle_ok f \<Longrightarrow> crc_of f = crc32 (f_data (put_header 32 4 0 f))"
  using calculate_crc [of "f_data (put_header 32 4 0 f)"]
  by (simp add: crc_of_def length_put handle_ok_def sizeof_header_def)

text \<open>All checks but that of the checksum.\<close>

definition structure_ok :: "fcef_file \<Rightarrow> bool" where
  "structure_ok f \<longleftrightarrow> f_data f ! 0 = 0x46 \<and> f_data f ! 1 = 0x43 \<and> f_data f ! 2 = 0x45 \<and> f_data f ! 3 = 0x46 \<and>
     h_version_major (header f) \<noteq> 0 \<and> unat (h_file_size (header f)) \<le> f_size f \<and>
     validate_program_headers f \<and> validate_section_headers f"

lemma validate_structure:
  "fcef_validate (Some f) \<longleftrightarrow> structure_ok f \<and> (h_crc32 (header f) \<noteq> 0 \<longrightarrow> crc_of f = h_crc32 (header f))"
  unfolding fcef_validate_def structure_ok_def Let_def option.case not_le [symmetric]
  by (simp split del: if_split cong: conj_cong) auto

lemma structure_put_crc:
  fixes v :: u32
  assumes "handle_ok f" "tables_apart f"
  shows "structure_ok (put_header 32 4 (unat v) f) = structure_ok f"
  by (simp add: structure_ok_def put_crc_magic [OF assms(1)] put_crc_header [OF assms(1)] put_crc_tables [OF assms])

lemma validate_put_crc:
  fixes v :: u32
  assumes "handle_ok f" "tables_apart f"
  shows "fcef_validate (Some (put_header 32 4 (unat v) f)) \<longleftrightarrow> structure_ok f \<and> (v \<noteq> 0 \<longrightarrow> crc_of f = v)"
  by (simp add: validate_structure structure_put_crc [OF assms] put_crc_header [OF assms(1)] crc_of_put [OF assms(1)])

lemma same_bytes:
  assumes "f_data g = f_data f" "f_size g = f_size f"
  shows "header g = header f" "validate_program_header g = validate_program_header f"
    "validate_section_header g = validate_section_header f" "phdr_at g = phdr_at f" "section_at g = section_at f"
    "crc_of g = crc_of f"
proof -
  show h: "header g = header f" by (simp only: header_def assms)
  show "validate_program_header g = validate_program_header f" "validate_section_header g = validate_section_header f"
    by (intro ext, simp only: validate_program_header_def validate_section_header_def assms)+
  show "phdr_at g = phdr_at f" "section_at g = section_at f"
    by (intro ext, simp only: phdr_at_def section_at_def h assms)+
  show "crc_of g = crc_of f" using assms by (simp add: crc_of_def put_header_def)
qed

lemma validate_cong: "f_data g = f_data f \<Longrightarrow> f_size g = f_size f \<Longrightarrow> fcef_validate (Some g) = fcef_validate (Some f)"
  by (simp only: fcef_validate_def validate_program_headers_def validate_section_headers_def same_bytes [of g f] option.case)

section \<open>What validation guarantees\<close>

text \<open>
  C35: The checksum of FCEF, which looks each byte up in a table of 256 entries, is the
  CRC-32 that the file systems compute bit by bit.
\<close>

theorem fcef_crc_equivalent: "fcef_calculate_crc32 (Some d) (length d) = crc32 d"
  by (rule calculate_crc)


text \<open>A header with nothing after it, of version 1.\<open>v\<close>.\<close>

definition bare_fcef :: "u8 \<Rightarrow> fcef_file" where
  "bare_fcef v = \<lparr>f_data = [0x46, 0x43, 0x45, 0x46] @ replicate 76 0 @ [1, v], f_size = 82, f_allocated = False, f_base_address = 0\<rparr>"

lemma bare_fcef_header:
  "header (bare_fcef v) = \<lparr>h_magic = 0x46454346, h_arch = 0, h_version = 0, h_flags = 0, h_entry_point = 0, h_phoff = 0,
     h_shoff = 0, h_phnum = 0, h_shnum = 0, h_shstrndx = 0, h_crc32 = 0, h_file_size = 0, h_version_major = 1,
     h_version_minor = v\<rparr>"
  by (simp add: header_def bare_fcef_def field_def)

lemma bare_fcef_ok: "handle_ok (bare_fcef v)" "tables_apart (bare_fcef v)" "structure_ok (bare_fcef v)"
proof -
  show "handle_ok (bare_fcef v)" by (simp add: handle_ok_def bare_fcef_def sizeof_header_def)
  show "tables_apart (bare_fcef v)" by (simp add: tables_apart_def bare_fcef_header)
  have "f_data (bare_fcef v) ! 0 = 0x46" "f_data (bare_fcef v) ! 1 = 0x43" "f_data (bare_fcef v) ! 2 = 0x45"
    "f_data (bare_fcef v) ! 3 = 0x46" by (simp_all add: bare_fcef_def)
  then show "structure_ok (bare_fcef v)"
    by (simp add: structure_ok_def bare_fcef_header validate_program_headers_def validate_section_headers_def)
qed


text \<open>
  C6: No change of a single byte goes unnoticed: when a file with a checksum is valid and
  one byte of it outside the checksum itself is changed, the file is no longer valid.
\<close>

theorem fcef_detects_corruption:
  assumes ok: "handle_ok f" and valid: "fcef_validate (Some f)" and crc: "h_crc32 (header f) \<noteq> 0"
    and i: "i < length (f_data f)" "i < 32 \<or> 36 \<le> i" and b: "b \<noteq> f_data f ! i"
  shows "\<not> fcef_validate (Some (f\<lparr>f_data := (f_data f)[i := b]\<rparr>))"
proof
  let ?f = "f\<lparr>f_data := (f_data f)[i := b]\<rparr>"
  assume "fcef_validate (Some ?f)"
  have ok': "handle_ok ?f" using ok by (simp add: handle_ok_def)
  have "take 4 (drop 32 ((f_data f)[i := b])) = take 4 (drop 32 (f_data f))"
    using i by (intro nth_equalityI) (auto simp: nth_list_update)
  then have same: "h_crc32 (header ?f) = h_crc32 (header f)" by (simp add: header_def field_def Let_def)
  have "crc_of ?f = crc_of f"
    using valid crc \<open>fcef_validate (Some ?f)\<close> unfolding validate_structure same by simp
  then have eq: "crc32 (f_data (put_header 32 4 0 ?f)) = crc32 (f_data (put_header 32 4 0 f))"
    using crc_of_crc32 [OF ok] crc_of_crc32 [OF ok'] by simp
  define d where "d = f_data (put_header 32 4 0 f)"
  have len: "length d = length (f_data f)" using ok by (simp add: d_def length_put handle_ok_def sizeof_header_def)
  have di: "d ! i = f_data f ! i" using i ok by (auto simp: d_def put_header_def overwrite_nth handle_ok_def sizeof_header_def)
  have "f_data (put_header 32 4 0 ?f) = d[i := b]"
    using i ok by (intro nth_equalityI)
      (auto simp: d_def put_header_def overwrite_nth nth_list_update handle_ok_def sizeof_header_def)
  with eq have "crc32 (take i d @ b # drop (Suc i) d) = crc32 (take i d @ d ! i # drop (Suc i) d)"
    using i(1) len by (simp add: d_def [symmetric] upd_conv_take_nth_drop id_take_nth_drop [symmetric])
  then have "b = d ! i" by (rule crc32_one_byte)
  with b di show False by simp
qed

theorem fcef_detects_corruption_witness:
  "\<exists>f. fcef_validate (Some f) \<and> \<not> fcef_validate (Some (f\<lparr>f_data := (f_data f)[81 := 7]\<rparr>))"
proof -
  have use1: "\<exists>f. fcef_validate (Some f) \<and> \<not> fcef_validate (Some (f\<lparr>f_data := (f_data f)[81 := 7]\<rparr>))"
    if crc: "crc_of (bare_fcef v) \<noteq> 0" and v: "v \<noteq> 7" for v
  proof -
    let ?b = "bare_fcef v" and ?f = "put_header 32 4 (unat (crc_of (bare_fcef v))) (bare_fcef v)"
    note ok = bare_fcef_ok [of v]
    have len: "length (f_data ?b) = 82" by (simp add: bare_fcef_def)
    have lf: "length (f_data ?f) = 82" using len by (simp add: length_put)
    have fok: "handle_ok ?f" using lf by (simp add: handle_ok_def sizeof_header_def) (simp add: bare_fcef_def)
    have valid: "fcef_validate (Some ?f)" using validate_put_crc [OF ok(1,2)] ok(3) by simp
    have nz: "h_crc32 (header ?f) \<noteq> 0" using crc by (simp add: put_crc_header [OF ok(1)])
    have "f_data ?f ! 81 = v" using len by (simp add: put_header_def overwrite_nth) (simp add: bare_fcef_def nth_append)
    then show ?thesis using fcef_detects_corruption [OF fok valid nz, of 81 7] valid lf v by auto
  qed
  have "crc_of (bare_fcef 0) \<noteq> crc_of (bare_fcef 1)"
  proof
    let ?x = "overwrite ([0x46, 0x43, 0x45, 0x46] @ replicate 76 0 @ [1]) 32 (le_enc 4 0)"
    have "f_data (put_header 32 4 0 (bare_fcef v)) = ?x @ [v]" for v
      by (simp add: put_header_def overwrite_def bare_fcef_def)
    moreover assume "crc_of (bare_fcef 0) = crc_of (bare_fcef 1)"
    ultimately have "crc32 (?x @ [0]) = crc32 (?x @ [1])" by (simp add: crc_of_crc32 [OF bare_fcef_ok(1)])
    from crc32_one_byte [OF this] show False by simp
  qed
  then have "crc_of (bare_fcef 0) \<noteq> 0 \<or> crc_of (bare_fcef 1) \<noteq> 0" by metis
  then show ?thesis using use1 [of 0] use1 [of 1] by auto
qed

text \<open>
  A string of a string table: fcef_get_string returns the sum of the two offsets exactly
  when it lies in the file and a null byte follows it there, so that the string can be read.
\<close>

theorem fcef_get_string_exact:
  assumes "f_size f = length (f_data f)" "f_size f < 2 ^ 32"
  shows "fcef_get_string (Some f) off idx =
    (if unat off + unat idx < length (f_data f) \<and> 0 \<in> set (drop (unat off + unat idx) (f_data f))
     then Some (unat off + unat idx) else None)"
proof (cases "unat off < f_size f")
  case False
  with assms show ?thesis by (simp add: fcef_get_string_def)
next
  case True
  let ?n = "f_size f - unat off"
  have n: "unat (of_nat ?n :: u32) = ?n" using assms(2) by (intro unat_of_nat_small) simp
  have "(\<exists>i. scan (\<lambda>i. f_data f ! (unat off + i) = 0) (unat idx) ?n = Some i) \<longleftrightarrow>
      0 \<in> set (drop (unat off + unat idx) (f_data f))" (is "?l \<longleftrightarrow> ?r")
  proof
    assume ?l
    then obtain i where "unat idx \<le> i" "i < ?n" "f_data f ! (unat off + i) = 0" by (auto dest: scan_SomeD(1-3))
    then show ?r using assms(1)
      by (auto simp: in_set_conv_nth intro!: exI [of _ "i - unat idx"])
  next
    assume ?r
    then obtain j where j: "j < length (f_data f) - (unat off + unat idx)" "f_data f ! (unat off + unat idx + j) = 0"
      by (auto simp: in_set_conv_nth)
    have "\<exists>k. scan (\<lambda>i. f_data f ! (unat off + i) = 0) (unat idx) ?n = Some k \<and> k \<le> unat idx + j"
      using j assms(1) True by (intro scan_exists) (auto simp: add.assoc)
    then show ?l by blast
  qed
  then have sc: "(case scan (\<lambda>i. f_data f ! (unat off + i) = 0) (unat idx) ?n of None \<Rightarrow> None
      | Some i \<Rightarrow> Some (unat off + unat idx)) = (if ?r then Some (unat off + unat idx) else None)"
    by (cases "scan (\<lambda>i. f_data f ! (unat off + i) = 0) (unat idx) ?n") auto
  have "idx \<ge> of_nat ?n \<longleftrightarrow> \<not> unat off + unat idx < f_size f" using True n by (auto simp: word_le_nat_alt)
  with sc True n assms(1) show ?thesis by (simp add: fcef_get_string_def Let_def)
qed

theorem fcef_get_string_exact_witness: "fcef_get_string (Some (bare_fcef 0)) 70 11 = Some 81"
proof -
  have "length (f_data (bare_fcef 0)) = 82" "drop 81 (f_data (bare_fcef 0)) = [0]" "f_size (bare_fcef 0) = 82"
    by (simp_all add: bare_fcef_def)
  then show ?thesis using fcef_get_string_exact [of "bare_fcef 0" 70 11] by simp
qed

text \<open>
  Loading a segment: when the segment lies in the file without wrapping around and
  the memory is large enough, fcef_load_segment succeeds, and in the memory there are then the bytes of
  the file, zeros up to the memory size, and everywhere else what was there before.
\<close>

theorem fcef_load_exact:
  assumes ok: "f_size f = length (f_data f)" and ty: "p_type p = FCEF_PT_LOAD"
    and seg: "unat (p_offset p) + unat (p_filesz p) \<le> f_size f" "unat (p_offset p) + unat (p_filesz p) < 2 ^ 32"
    and mem: "p_filesz p \<le> p_memsz p" "unat (p_vaddr p) + unat (p_memsz p) \<le> length m"
  shows "\<exists>m'. fcef_load_segment (Some f) (Some p) (Some m) = Some (True, Some m') \<and> length m' = length m \<and>
    (\<forall>k < length m. m' ! k =
       (if unat (p_vaddr p) \<le> k \<and> k < unat (p_vaddr p) + unat (p_filesz p)
        then f_data f ! (unat (p_offset p) + (k - unat (p_vaddr p)))
        else if unat (p_vaddr p) \<le> k \<and> k < unat (p_vaddr p) + unat (p_memsz p) then 0 else m ! k))"
proof -
  let ?v = "unat (p_vaddr p)" and ?n = "unat (p_filesz p)" and ?w = "unat (p_memsz p)" and ?o = "unat (p_offset p)"
  define src where "src = take ?n (drop ?o (f_data f))"
  have sum: "unat (p_offset p + p_filesz p) = ?o + ?n" using seg(2) by (subst unat_word_ariths) simp
  have nw: "?n \<le> ?w" using mem(1) by (simp add: word_le_nat_alt)
  have src: "struct_at ?n ?o (f_data f) = Some src" "length src = ?n"
    using seg(1) ok by (simp_all add: struct_at_def src_def)
  have at: "src ! j = f_data f ! (?o + j)" if "j < ?n" for j using that seg(1) ok by (simp add: src_def)
  let ?m = "overwrite m ?v src"
  have lm: "length ?m = length m" using src(2) mem(2) nw by simp
  show ?thesis
  proof (cases "p_memsz p > p_filesz p")
    case True
    let ?z = "replicate (unat (p_memsz p - p_filesz p)) (0 :: u8)"
    have z: "length ?z = ?w - ?n" using mem(1) by (simp add: unat_sub)
    have "fcef_load_segment (Some f) (Some p) (Some m) = Some (True, Some (overwrite ?m (?v + ?n) ?z))"
      using True ty sum seg(1) src mem(2) nw by (simp add: fcef_load_segment_def Let_def)
    moreover have "overwrite ?m (?v + ?n) ?z ! k = (if ?v \<le> k \<and> k < ?v + ?n then f_data f ! (?o + (k - ?v))
        else if ?v \<le> k \<and> k < ?v + ?w then 0 else m ! k)" if "k < length m" for k
    proof -
      have "overwrite ?m (?v + ?n) ?z ! k = (if ?v + ?n \<le> k \<and> k < ?v + ?n + length ?z then ?z ! (k - (?v + ?n)) else ?m ! k)"
        using that lm z mem(2) nw by (intro overwrite_nth) simp_all
      moreover have "?m ! k = (if ?v \<le> k \<and> k < ?v + length src then src ! (k - ?v) else m ! k)"
        using that src(2) mem(2) nw by (intro overwrite_nth) simp_all
      ultimately show ?thesis using z src(2) nw at [of "k - ?v"] by auto
    qed
    ultimately show ?thesis using lm z mem(2) nw by auto
  next
    case False
    then have eq: "?w = ?n" using mem(1) by simp
    have "fcef_load_segment (Some f) (Some p) (Some m) = Some (True, Some ?m)"
      using False ty sum seg(1) src mem(2) nw by (simp add: fcef_load_segment_def Let_def)
    moreover have "?m ! k = (if ?v \<le> k \<and> k < ?v + ?n then f_data f ! (?o + (k - ?v)) else m ! k)" if "k < length m" for k
      using that src(2) mem(2) nw at [of "k - ?v"] by (subst overwrite_nth) auto
    ultimately show ?thesis using lm eq by auto
  qed
qed

theorem fcef_load_exact_witness:
  "\<exists>m'. fcef_load_segment (Some (bare_fcef 0)) (Some \<lparr>p_type = FCEF_PT_LOAD, p_offset = 0, p_vaddr = 1, p_paddr = 0,
       p_filesz = 2, p_memsz = 4, p_flags = 5, p_align = 0\<rparr>) (Some (replicate 8 9)) = Some (True, Some m') \<and>
     m' ! 0 = 9 \<and> m' ! 1 = 0x46 \<and> m' ! 2 = 0x43 \<and> m' ! 3 = 0 \<and> m' ! 5 = 9"
proof -
  let ?p = "\<lparr>p_type = FCEF_PT_LOAD, p_offset = 0, p_vaddr = 1, p_paddr = 0, p_filesz = 2, p_memsz = 4, p_flags = 5, p_align = 0\<rparr>"
  have b: "f_data (bare_fcef 0) ! 0 = 0x46" "f_data (bare_fcef 0) ! 1 = 0x43" "length (f_data (bare_fcef 0)) = 82"
    "f_size (bare_fcef 0) = 82" by (simp_all add: bare_fcef_def)
  from fcef_load_exact [of "bare_fcef 0" ?p "replicate 8 9"] b obtain m' where
    m: "fcef_load_segment (Some (bare_fcef 0)) (Some ?p) (Some (replicate 8 9)) = Some (True, Some m')"
    and at: "\<forall>k < 8. m' ! k = (if 1 \<le> k \<and> k < 3 then f_data (bare_fcef 0) ! (k - 1)
      else if 1 \<le> k \<and> k < 5 then 0 else replicate 8 9 ! k)" by auto
  have "m' ! 0 = 9" "m' ! 1 = 0x46" "m' ! 2 = 0x43" "m' ! 3 = 0" "m' ! 5 = 9"
    using at b by simp_all
  with m show ?thesis by blast
qed

end
