(* ===== verification/Eclc_Driver.thy ===== *)
theory Eclc_Driver
  imports Eclc_Parser Fcef_Check
begin

text \<open>
  The driver of ECLC: eclc/src/main.c, the command line of eclc/src/driver/args.c and the FCEF
  output of eclc/src/fcef/fcef.c. Files are a map from names to bytes; the environment says which
  files can be created, what \<open>%s\<close> prints and \<open>atoi\<close> reads at an address, and which value a caller
  finds where \<open>generate_executable\<close> ends without a \<open>return\<close>. A function of the driver gives its
  status, the files and what it prints; \<open>None\<close> when the lexer leaves its buffer. Messages on the
  standard error are left out.
\<close>

section \<open>FCEF output (fcef.c)\<close>

record eclc_output =
  eo_code :: "u8 list option"
  eo_code_size :: nat
  eo_data :: "u8 list option"
  eo_data_size :: nat
  eo_rodata :: "u8 list option"
  eo_rodata_size :: nat
  eo_bss :: "u8 list option"
  eo_bss_size :: nat
  eo_entry_point :: u32
  eo_text_addr :: u32
  eo_data_addr :: u32
  eo_rodata_addr :: u32

text \<open>The bytes of a header, at the start of a buffer: magic, version, checksum, size, reserved bytes.\<close>

definition fcef_init_header :: "u8 list \<Rightarrow> u8 list" where
  "fcef_init_header hdr =
     (let hdr = overwrite hdr 0 [0x46, 0x43, 0x45, 0x46];
          hdr = overwrite hdr 80 [1];
          hdr = overwrite hdr 81 [0];
          hdr = overwrite hdr 32 (le_enc 4 0);
          hdr = overwrite hdr 76 (le_enc 4 0)
      in overwrite hdr 36 (replicate 40 0))"

definition be_bytes :: "u32 \<Rightarrow> u8 list" where
  "be_bytes w = map (\<lambda>k. ucast (drop_bit k w AND 0xFF)) [24, 16, 8, 0]"

definition eclc_to_fcef :: "(nat \<Rightarrow> u8) \<Rightarrow> eclc_output option \<Rightarrow> u8 list option" where
  "eclc_to_fcef heap output = (case output of None \<Rightarrow> None | Some eo \<Rightarrow>
     (case eo_code eo of None \<Rightarrow> None | Some code \<Rightarrow>
       (if eo_code_size eo = 0 then None
        else (let total_size = sizeof_header + eo_code_size eo + eo_rodata_size eo + eo_data_size eo;
                  buffer = fcef_init_header (malloc heap total_size);
                  buffer = overwrite buffer 76 (le_enc 4 total_size);
                  buffer = overwrite buffer 36 (be_bytes (eo_entry_point eo));
                  buffer = overwrite buffer 40 (be_bytes (eo_text_addr eo));
                  buffer = overwrite buffer 44 (be_bytes (eo_data_addr eo));
                  buffer = overwrite buffer 48 (be_bytes (of_nat (eo_code_size eo)));
                  buffer = overwrite buffer sizeof_header (bytes_at (eo_code_size eo) code);
                  ptr = sizeof_header + eo_code_size eo;
                  (buffer, ptr) = (case eo_rodata eo of
                      Some ro \<Rightarrow> if eo_rodata_size eo > 0
                        then (overwrite buffer ptr (bytes_at (eo_rodata_size eo) ro), ptr + eo_rodata_size eo)
                        else (buffer, ptr)
                    | None \<Rightarrow> (buffer, ptr))
              in Some (case eo_data eo of
                      Some da \<Rightarrow> if eo_data_size eo > 0 then overwrite buffer ptr (bytes_at (eo_data_size eo) da) else buffer
                    | None \<Rightarrow> buffer)))))"

type_synonym file_map = "string \<Rightarrow> u8 list option"

text \<open>Saving succeeds when the file can be created and takes all bytes: \<open>room\<close> is how many it takes.\<close>

definition eclc_save_fcef ::
    "(nat \<Rightarrow> u8) \<Rightarrow> nat option \<Rightarrow> eclc_output option \<Rightarrow> string option \<Rightarrow> file_map \<Rightarrow> bool \<times> file_map" where
  "eclc_save_fcef heap room output filename files =
     (case (output, filename) of
        (Some eo, Some name) \<Rightarrow>
          (case eclc_to_fcef heap (Some eo) of None \<Rightarrow> (False, files) | Some bytes \<Rightarrow>
            (case room of None \<Rightarrow> (False, files)
             | Some n \<Rightarrow> (min n (length bytes) = length bytes, files(name \<mapsto> take n bytes))))
      | _ \<Rightarrow> (False, files))"

text \<open>The buffers that are freed, besides the structure itself.\<close>

definition eclc_free_output :: "eclc_output option \<Rightarrow> u8 list list" where
  "eclc_free_output output = (case output of None \<Rightarrow> []
     | Some eo \<Rightarrow> concat (map (\<lambda>b. case b of Some p \<Rightarrow> [p] | None \<Rightarrow> [])
         [eo_code eo, eo_data eo, eo_rodata eo, eo_bss eo]))"

section \<open>The command line (args.c)\<close>

record compiler_config =
  input_files :: "string list"
  c_mode :: bool
  cpp_mode :: bool
  folder_mode :: bool
  folder_path :: "string option"
  output_file :: "string option"
  optimization_level :: int
  debug_info :: bool
  show_help :: bool
  show_version :: bool

definition signed_char :: "char \<Rightarrow> int" where
  "signed_char c = (if of_char c < (128 :: int) then of_char c else of_char c - 256)"

text \<open>
  One option, with the arguments after it: whether it takes the next one, and the configuration.
  The null after \<open>-O\<close> is read when nothing follows it.
\<close>

definition parse_option :: "string \<Rightarrow> string list \<Rightarrow> compiler_config \<Rightarrow> bool \<times> compiler_config" where
  "parse_option a as config =
     (if a = ''--c-code'' then (False, config\<lparr>c_mode := True, cpp_mode := False\<rparr>)
      else if a = ''--cpp-code'' then (False, config\<lparr>cpp_mode := True, c_mode := False\<rparr>)
      else if a = ''-f'' \<and> as \<noteq> [] then (True, config\<lparr>folder_mode := True, folder_path := Some (hd as)\<rparr>)
      else if a = ''-o'' \<and> as \<noteq> [] then (True, config\<lparr>output_file := Some (hd as)\<rparr>)
      else if take 2 a = ''-O'' then (False, config\<lparr>optimization_level := signed_char ((a @ [NUL]) ! 2) - 48\<rparr>)
      else if a = ''-g'' then (False, config\<lparr>debug_info := True\<rparr>)
      else if a = ''--help'' \<or> a = ''-h'' then (False, config\<lparr>show_help := True\<rparr>)
      else if a = ''--version'' \<or> a = ''-v'' then (False, config\<lparr>show_version := True\<rparr>)
      else (False, config))"

text \<open>\<open>argv\<close> from an index on.\<close>

fun parse_args :: "string list \<Rightarrow> compiler_config \<Rightarrow> compiler_config" where
  "parse_args [] config = config"
| "parse_args (a # as) config =
     (if a \<noteq> [] \<and> hd a = CHR ''-'' then
        (case parse_option a as config of (takes, config) \<Rightarrow> parse_args (drop (if takes then 1 else 0) as) config)
      else parse_args as (config\<lparr>input_files := input_files config @ [a]\<rparr>))"

definition parse_arguments :: "string list \<Rightarrow> compiler_config" where
  "parse_arguments argv = parse_args (tl argv)
     \<lparr>input_files = [], c_mode = False, cpp_mode = False, folder_mode = False, folder_path = None,
      output_file = None, optimization_level = 0, debug_info = False, show_help = False, show_version = False\<rparr>"

definition print_help :: string where
  "print_help = concat (map (\<lambda>l. l @ nl)
     [''ECLC - E-comOS C/C++ Compiler'', [],
      ''Usage: eclc [options] <file1> [file2 ...]'', [],
      ''Basic Usage:'',
      ''  eclc hello.c                 # Compile C file'',
      ''  eclc hello.cpp              # Compile C++ file'',
      ''  eclc -f project/src         # Compile folder'',
      ''  eclc main.c -o myapp        # Specify output'', [],
      ''Language Options:'',
      ''  --c-code                    # Force C mode'',
      ''  --cpp-code                  # Force C++ mode'',
      ''  (Usually auto-detected from file extension)'', [],
      ''Full help: eclc --help''])"

section \<open>Compiling a file (main.c)\<close>

record eclc_env =
  can_create :: "string \<Rightarrow> bool"
  text_at :: "int \<Rightarrow> string"
  atoi_at :: "int \<Rightarrow> int"
  leftover :: int

type_synonym driver_result = "int \<times> file_map \<times> string"

definition read_file :: "file_map \<Rightarrow> string \<Rightarrow> string option" where
  "read_file files filename = map_option (\<lambda>bytes. map (\<lambda>b. char_of (unat b)) bytes @ [NUL]) (files filename)"

fun strrchr :: "char \<Rightarrow> string \<Rightarrow> nat option" where
  "strrchr c [] = None"
| "strrchr c (x # xs) = (case strrchr c xs of Some i \<Rightarrow> Some (Suc i) | None \<Rightarrow> (if x = c then Some 0 else None))"

definition is_c_file :: "string \<Rightarrow> bool" where
  "is_c_file filename = (case strrchr (CHR ''.'') filename of None \<Rightarrow> False
     | Some i \<Rightarrow> drop i filename = ''.c'' \<or> drop i filename = ''.cpp'')"

definition int_string :: "int \<Rightarrow> string" where
  "int_string i = (if i < 0 then ''-'' else []) @ dec_string (nat \<bar>i\<bar>)"

text \<open>The number in the tree, if \<open>ast->left->left->left\<close> is an integer whose text is not NULL.\<close>

definition tree_value :: "eclc_env \<Rightarrow> ast \<Rightarrow> int" where
  "tree_value env tree =
     (case Option.bind (Option.bind (node_left tree) node_left) node_left of
        None \<Rightarrow> 0
      | Some n \<Rightarrow> if node_kind n = NODE_INTEGER_LITERAL \<and> t_value (node_token n) \<noteq> 0
          then atoi_at env (t_value (node_token n)) else 0)"

text \<open>\<open>fcef_header_t header = {0}\<close>, initialised, with the size of the file set.\<close>

definition executable_header :: "u8 list" where
  "executable_header = overwrite (fcef_init_header (replicate sizeof_header 0)) 76 (le_enc 4 (sizeof_header + 4))"

definition generate_executable :: "eclc_env \<Rightarrow> ast \<Rightarrow> string \<Rightarrow> file_map \<Rightarrow> driver_result" where
  "generate_executable env tree out files =
     (let return_value = tree_value env tree in
      if \<not> can_create env out then (1, files, [])
      else (leftover env, files(out \<mapsto> executable_header @ [0xC0, 0x03, 0x5F, 0xD6]),
        ''Generated FCEF file: '' @ out @ '' (return value: '' @ int_string return_value @ '')'' @ nl))"

definition compile_file_quiet_with_output :: "eclc_env \<Rightarrow> string \<Rightarrow> string \<Rightarrow> file_map \<Rightarrow> driver_result option" where
  "compile_file_quiet_with_output env filename out files = (case read_file files filename of
     None \<Rightarrow> Some (1, files, [])
   | Some source \<Rightarrow> (case tokenize source of
       None \<Rightarrow> None
     | Some tokens \<Rightarrow> (case fst (parser_parse (Some (parser_create (Some tokens) (Some filename)))) of
         None \<Rightarrow> Some (1, files, [])
       | Some tree \<Rightarrow> Some (generate_executable env tree out files))))"

definition esc :: "string \<Rightarrow> string \<Rightarrow> string" where
  "esc code s = [CHR 27] @ ''['' @ code @ ''m'' @ s @ [CHR 27] @ ''[0m''"

definition compile_file_with_output ::
    "eclc_env \<Rightarrow> string \<Rightarrow> string option \<Rightarrow> file_map \<Rightarrow> driver_result option" where
  "compile_file_with_output env filename out files =
     (let start = (case out of None \<Rightarrow> ''Compiling: '' @ filename @ nl
                   | Some o1 \<Rightarrow> esc ''32'' ''   Compiling'' @ '' '' @ filename @ '' -> '' @ o1 @ nl) in
      case read_file files filename of
        None \<Rightarrow> Some (1, files, start)
      | Some source \<Rightarrow> (case tokenize source of
          None \<Rightarrow> None
        | Some tokens \<Rightarrow> (case fst (parser_parse (Some (parser_create (Some tokens) (Some filename)))) of
            None \<Rightarrow> Some (1, files, start)
          | Some tree \<Rightarrow> (case out of
              Some o1 \<Rightarrow> (case generate_executable env tree o1 files of (result, files, msg) \<Rightarrow>
                Some (result, files, start @ msg @
                  (if result = 0 then esc ''32'' ''    Finished'' @ '' executable: '' @ o1 @ nl else [])))
            | None \<Rightarrow> Some (0, files, start @ ''AST for '' @ filename @ '':'' @ nl @
                ast_print (text_at env) tree 0 @ nl)))))"

definition compile_file :: "eclc_env \<Rightarrow> string \<Rightarrow> file_map \<Rightarrow> driver_result option" where
  "compile_file env filename files = compile_file_with_output env filename None files"

section \<open>Compiling a folder\<close>

definition pad2 :: "nat \<Rightarrow> string" where
  "pad2 n = (if n < 10 then '' '' else []) @ dec_string n"

definition progress_cell :: "nat \<Rightarrow> nat \<Rightarrow> nat \<Rightarrow> string" where
  "progress_cell current total_files i =
     (let filled = current * 20 div total_files in
      if i < filled then esc ''32'' ''='' else if i = filled \<and> current < total_files then esc ''33'' ''>'' else '' '')"

definition print_progress :: "nat \<Rightarrow> nat \<Rightarrow> string option \<Rightarrow> bool \<Rightarrow> string" where
  "print_progress current total_files current_file success =
     [CHR 13] @ (if success then esc ''32'' ''   Compiling'' else esc ''31'' ''     Failed'') @
     '' ['' @ pad2 current @ ''/'' @ pad2 total_files @ ''] '' @
     concat (map (progress_cell current total_files) [0..<20]) @
     '' '' @ (case current_file of Some f \<Rightarrow> f | None \<Rightarrow> [])"

definition hidden :: "string \<Rightarrow> bool" where
  "hidden name = (name \<noteq> [] \<and> hd name = CHR ''.'')"

text \<open>A directory is the names that \<open>readdir\<close> gives, if it can be opened.\<close>

definition count_c_files :: "string list option \<Rightarrow> nat" where
  "count_c_files dir = (case dir of None \<Rightarrow> 0
     | Some entries \<Rightarrow> length (filter is_c_file (filter (\<lambda>n. \<not> hidden n) entries)))"

definition output_name :: "string \<Rightarrow> string" where
  "output_name d_name = (let name = take 255 d_name in
     case strrchr (CHR ''.'') name of Some i \<Rightarrow> take i name | None \<Rightarrow> name)"

text \<open>The second loop: files compiled so far, failures, files of the system, what is printed.\<close>

fun compile_entries :: "eclc_env \<Rightarrow> string \<Rightarrow> nat \<Rightarrow> string list \<Rightarrow> nat \<times> nat \<times> file_map \<times> string \<Rightarrow>
    (nat \<times> nat \<times> file_map \<times> string) option" where
  "compile_entries env folder total_files [] st = Some st"
| "compile_entries env folder total_files (d_name # entries) (current, failed, files, out) =
     (if hidden d_name \<or> \<not> is_c_file d_name then compile_entries env folder total_files entries (current, failed, files, out)
      else (let current = current + 1;
                out = out @ print_progress current total_files (Some d_name) True;
                filepath = take 1023 (folder @ ''/'' @ d_name)
            in case compile_file_quiet_with_output env filepath (output_name d_name) files of
                 None \<Rightarrow> None
               | Some (result, files, msg) \<Rightarrow>
                   (if result \<noteq> 0 then
                      compile_entries env folder total_files entries (current, failed + 1, files,
                        out @ msg @ print_progress current total_files (Some d_name) False @ nl @
                        esc ''31'' ''Error:'' @ '' Failed to compile '' @ d_name @ nl)
                    else compile_entries env folder total_files entries (current, failed, files, out @ msg))))"

text \<open>
  The directory is opened and read twice, once to count; its content may change in between, when
  the outputs go to the same directory.
\<close>

definition compile_folder :: "eclc_env \<Rightarrow> string list option \<Rightarrow> string list option \<Rightarrow> string \<Rightarrow> file_map \<Rightarrow>
    driver_result option" where
  "compile_folder env counted dir folder files = (case dir of None \<Rightarrow> Some (1, files, [])
     | Some entries \<Rightarrow>
         (let total_files = count_c_files counted in
          if total_files = 0 then
            Some (0, files, ''No C/C++ files found in '' @ [CHR 39] @ folder @ [CHR 39] @ nl)
          else (case compile_entries env folder total_files entries (0, 0, files, []) of None \<Rightarrow> None
            | Some (current, failed, files, out) \<Rightarrow>
                Some (if failed > 0 then 1 else 0, files, out @ nl @
                  (if failed = 0 then
                     esc ''32'' ''    Finished'' @ '' compiling '' @ dec_string total_files @ '' files, '' @
                     dec_string total_files @ '' executables generated'' @ nl
                   else esc ''31'' ''    Finished'' @ '' with '' @ dec_string failed @ '' errors out of '' @
                     dec_string total_files @ '' files, '' @ int_string (int total_files - int failed) @
                     '' executables generated'' @ nl)))))"

section \<open>The main program\<close>

text \<open>The operand of the first \<open>-o\<close> among the arguments from the second to the last but one.\<close>

fun find_output :: "string list \<Rightarrow> string option" where
  "find_output (a # b # as) = (if a = ''-o'' then Some b else find_output (b # as))"
| "find_output as = None"

definition eclc_main :: "eclc_env \<Rightarrow> (string \<Rightarrow> string list option) \<Rightarrow> (string \<Rightarrow> string list option) \<Rightarrow>
    string list \<Rightarrow> file_map \<Rightarrow> driver_result option" where
  "eclc_main env counted dirs argv files =
     (if length argv < 2 then Some (1, files, [])
      else if length argv \<ge> 3 \<and> argv ! 1 = ''-f'' then
        compile_folder env (counted (argv ! 2)) (dirs (argv ! 2)) (argv ! 2) files
      else if length argv \<ge> 3 \<and> last argv = ''-o'' then Some (1, files, [])
      else compile_file_with_output env (argv ! 1) (find_output (drop 2 argv)) files)"

section \<open>What the compiler writes\<close>

lemma executable_header_bytes:
  "executable_header = [0x46, 0x43, 0x45, 0x46] @ replicate 72 0 @ [86, 0, 0, 0, 1, 0]"
  by code_simp

definition executable_file :: fcef_file where
  "executable_file = \<lparr>f_data = executable_header @ [0xC0, 0x03, 0x5F, 0xD6], f_size = 86, f_allocated = True,
     f_base_address = 0\<rparr>"

lemma executable_fields:
  "header executable_file = \<lparr>h_magic = 0x46454346, h_arch = 0, h_version = 0, h_flags = 0, h_entry_point = 0,
     h_phoff = 0, h_shoff = 0, h_phnum = 0, h_shnum = 0, h_shstrndx = 0, h_crc32 = 0, h_file_size = 86,
     h_version_major = 1, h_version_minor = 0\<rparr>"
  by (simp add: header_def executable_file_def executable_header_bytes field_def)

text \<open>A compilation that is not undefined creates nothing or the file above.\<close>

lemma no_text_value:
  assumes "null_values stream"
  shows "tree_value env (Node NODE_PROGRAM dummy_token (spec_function (ts_tokens stream)) None) = 0"
proof -
  have "t_value (ts_tokens stream ! 6) = 0" if "6 < length (ts_tokens stream)"
    using assms that by (simp add: null_values_def)
  moreover have "6 < length (ts_tokens stream)"
    if "map t_type (take 5 (drop 4 (ts_tokens stream))) = [TOK_LBRACE, TOK_RETURN, TOK_INTEGER, TOK_SEMICOLON, TOK_RBRACE]"
    using arg_cong [OF that, of length] by simp
  ultimately show ?thesis
    by (auto simp: tree_value_def spec_function_def spec_block_def simp del: take_drop drop_take
        split: if_splits)
qed

lemma compile_quiet_result:
  assumes "read_file files name = Some source" and "tokenize source = Some stream"
  shows "compile_file_quiet_with_output env name out files =
    Some (generate_executable env (Node NODE_PROGRAM dummy_token (spec_function (ts_tokens stream)) None) out files)"
  using assms by (simp add: compile_file_quiet_with_output_def parse_tree)

text \<open>
  Whatever the program says, ECLC compiles it to the same 86 bytes and reports the return
  value 0: every readable source, whether it parses or not, as long as each single quote in it is
  followed by two characters. The status is what the caller finds where \<open>generate_executable\<close>
  ends without a \<open>return\<close>; a syntax error is never a failure.
\<close>

theorem eclc_output_constant:
  assumes "files name = Some bytes" and "\<forall>i < length bytes. bytes ! i = 39 \<longrightarrow> i + 2 < length bytes"
    and "can_create env out"
  shows "compile_file_quiet_with_output env name out files =
    Some (leftover env, files(out \<mapsto> [0x46, 0x43, 0x45, 0x46] @ replicate 72 0 @ [86, 0, 0, 0, 1, 0, 0xC0, 0x03, 0x5F, 0xD6]),
      ''Generated FCEF file: '' @ out @ '' (return value: 0)'' @ nl)"
proof -
  let ?s = "map (\<lambda>b. char_of (unat b)) bytes :: string"
  have quote: "char_of (unat b) = CHR 39 \<longleftrightarrow> b = 39" for b :: u8
  proof
    assume "char_of (unat b) = CHR 39"
    then have "of_char (char_of (unat b)) = (39 :: nat)" by simp
    then have "unat b = 39" using unsigned_less [where 'a = nat, of b] by simp
    then show "b = 39" by (simp add: word_unat_eq_iff)
  next
    assume "b = 39"
    moreover have "char_of (39 :: nat) = CHR 39" by (simp add: char_of_def bit_0)
    ultimately show "char_of (unat b) = CHR 39" by simp
  qed
  have "\<forall>i < length ?s. ?s ! i = CHR 39 \<longrightarrow> i + 2 < length ?s" using assms(2) by (simp add: quote)
  then obtain stream where stream: "tokenize (?s @ [NUL]) = Some stream" using tokenize_result [of ?s] by blast
  have "read_file files name = Some (?s @ [NUL])" by (simp add: read_file_def assms(1))
  moreover have "char_of (48 :: nat) = CHR ''0''" by (simp add: char_of_def bit_0)
  ultimately show ?thesis
    using compile_quiet_result [OF _ stream] assms(3) no_text_value [OF tokenize_values [OF stream]]
    by (simp add: generate_executable_def executable_header_bytes int_string_def dec_string.simps digit_def)
qed

theorem eclc_output_constant_witness:
  "compile_file_quiet_with_output \<lparr>can_create = \<lambda>_. True, text_at = \<lambda>_. [], atoi_at = \<lambda>_. 0, leftover = 0\<rparr>
     ''a.c'' ''a'' [''a.c'' \<mapsto> [0x7B, 0x7B]] =
   Some (0, [''a.c'' \<mapsto> [0x7B, 0x7B],
      ''a'' \<mapsto> [0x46, 0x43, 0x45, 0x46] @ replicate 72 0 @ [86, 0, 0, 0, 1, 0, 0xC0, 0x03, 0x5F, 0xD6]],
      ''Generated FCEF file: '' @ ''a'' @ '' (return value: 0)'' @ nl)"
  using eclc_output_constant [of "[''a.c'' \<mapsto> [0x7B, 0x7B]]" "''a.c''" "[0x7B, 0x7B]"
      "\<lparr>can_create = \<lambda>_. True, text_at = \<lambda>_. [], atoi_at = \<lambda>_. 0, leftover = 0\<rparr>" "''a''"]
  by (simp add: less_Suc_eq)

text \<open>
  What ECLC writes passes the validation of FCEF files: it opens, its fields are consistent,
  and no checksum is stored. It has no program header, so that a loader finds no segment in it, and
  its entry point is 0, in the header, not at the instruction that follows it.
\<close>

theorem eclc_output_validates:
  assumes "can_create env out"
  shows "\<exists>f. fcef_open (Some out) (fst (snd (generate_executable env tree out files)) out) = Some f \<and>
    fcef_validate (Some f) \<and> fcef_get_program_headers (Some f) = None \<and> fcef_get_section_headers (Some f) = None \<and>
    fcef_get_entry_point (Some f) = 0"
proof -
  have open_file: "fcef_open (Some out) (fst (snd (generate_executable env tree out files)) out) = Some executable_file"
    using assms
    by (simp add: generate_executable_def fcef_open_def executable_file_def executable_header_bytes sizeof_header_def)
  have "f_data executable_file ! 0 = 0x46" "f_data executable_file ! 1 = 0x43" "f_data executable_file ! 2 = 0x45"
    "f_data executable_file ! 3 = 0x46" by (simp_all add: executable_file_def executable_header_bytes)
  then have "fcef_validate (Some executable_file)"
    by (simp add: validate_structure structure_ok_def executable_fields validate_program_headers_def
        validate_section_headers_def) (simp add: executable_file_def)
  then show ?thesis unfolding open_file
    by (simp add: fcef_get_program_headers_def fcef_get_section_headers_def fcef_get_entry_point_def executable_fields)
qed

theorem eclc_output_validates_witness:
  "\<exists>f. fcef_open (Some ''a'') (fst (snd (generate_executable
      \<lparr>can_create = \<lambda>_. True, text_at = \<lambda>_. [], atoi_at = \<lambda>_. 0, leftover = 0\<rparr>
      (Node NODE_PROGRAM dummy_token None None) ''a'' (\<lambda>_. None))) ''a'') = Some f \<and> fcef_validate (Some f)"
  using eclc_output_validates [of "\<lparr>can_create = \<lambda>_. True, text_at = \<lambda>_. [], atoi_at = \<lambda>_. 0, leftover = 0\<rparr>" "''a''"
      "Node NODE_PROGRAM dummy_token None None" "\<lambda>_. None"]
  by auto

section \<open>The image of a compiler output\<close>

definition consistent :: "eclc_output \<Rightarrow> bool" where
  "consistent eo = (case (eo_code eo, eo_rodata eo, eo_data eo) of
     (Some c, Some r, Some d) \<Rightarrow> eo_code_size eo = length c \<and> c \<noteq> [] \<and> eo_rodata_size eo = length r \<and>
       eo_data_size eo = length d \<and> sizeof_header + length c + length r + length d < 2 ^ 32
   | _ \<Rightarrow> False)"

definition image_header :: "(nat \<Rightarrow> u8) \<Rightarrow> eclc_output \<Rightarrow> nat \<Rightarrow> u8 list" where
  "image_header heap eo n =
     overwrite (overwrite (overwrite (overwrite (overwrite (fcef_init_header (malloc heap n)) 76 (le_enc 4 n))
       36 (be_bytes (eo_entry_point eo))) 40 (be_bytes (eo_text_addr eo))) 44 (be_bytes (eo_data_addr eo)))
       48 (be_bytes (of_nat (eo_code_size eo)))"

lemma length_be_bytes [simp]: "length (be_bytes w) = 4"
  by (simp add: be_bytes_def)

lemma length_fcef_init_header [simp]: "82 \<le> length b \<Longrightarrow> length (fcef_init_header b) = length b"
  by (simp add: fcef_init_header_def)

lemma length_image_header [simp]: "82 \<le> n \<Longrightarrow> length (image_header heap eo n) = n"
  by (simp add: image_header_def)

lemma image_bytes:
  assumes "consistent eo"
  obtains c r d where "eo_code eo = Some c" "eo_rodata eo = Some r" "eo_data eo = Some d" "c \<noteq> []"
    "82 + length c + length r + length d < 2 ^ 32"
    "\<And>heap. eclc_to_fcef heap (Some eo) =
       Some (take 82 (image_header heap eo (82 + length c + length r + length d)) @ c @ r @ d)"
proof -
  from assms obtain c r d where eo: "eo_code eo = Some c" "eo_rodata eo = Some r" "eo_data eo = Some d" "c \<noteq> []"
      "eo_code_size eo = length c" "eo_rodata_size eo = length r" "eo_data_size eo = length d"
      and bound: "82 + length c + length r + length d < 2 ^ 32"
    by (auto simp: consistent_def sizeof_header_def split: option.splits)
  have "eclc_to_fcef heap (Some eo) =
       Some (take 82 (image_header heap eo (82 + length c + length r + length d)) @ c @ r @ d)" for heap
    using eo by (simp add: eclc_to_fcef_def sizeof_header_def image_header_def [symmetric] Let_def bytes_at_def)
      (auto simp: overwrite_def image_header_def numeral_2_eq_2)
  with eo bound that show ?thesis by blast
qed

text \<open>The fields of the image; those that nothing sets are what the heap held.\<close>

lemma field_chunk: "off + length c \<le> length d \<Longrightarrow> length c = k \<Longrightarrow> field off k (overwrite d off c) = le_dec c"
  by (simp add: field_def overwrite_def)

lemma init_header_fields:
  assumes "82 \<le> length b"
  shows "field 0 4 (fcef_init_header b) = 0x46454346" "field 32 4 (fcef_init_header b) = 0"
    "field 80 1 (fcef_init_header b) = 1" "field 81 1 (fcef_init_header b) = 0"
    "4 \<le> k \<Longrightarrow> k + j \<le> 32 \<Longrightarrow> field k j (fcef_init_header b) = field k j b"
  using assms by (simp_all add: fcef_init_header_def field_overwrite field_chunk le_dec_enc)

lemma image_header_fields:
  assumes "82 \<le> n"
  shows "k + j \<le> 36 \<or> 80 \<le> k \<Longrightarrow> field k j (image_header heap eo n) = field k j (fcef_init_header (malloc heap n))"
    and "field 76 4 (image_header heap eo n) = n mod 256 ^ 4"
proof -
  show "field k j (image_header heap eo n) = field k j (fcef_init_header (malloc heap n))" if "k + j \<le> 36 \<or> 80 \<le> k"
    using that assms by (elim disjE) (simp_all add: image_header_def field_overwrite)
  show "field 76 4 (image_header heap eo n) = n mod 256 ^ 4"
    using assms by (simp add: image_header_def field_overwrite field_overwritten)
qed

lemma image_fields:
  assumes "82 \<le> n" and "n < 2 ^ 32" and "b = take 82 (image_header heap eo n) @ sections" and "length b = n"
  shows "field 0 4 b = 0x46454346" "field 32 4 b = 0" "field 76 4 b = n" "field 80 1 b = 1" "field 81 1 b = 0"
    "\<And>k j. 4 \<le> k \<Longrightarrow> k + j \<le> 32 \<Longrightarrow> field k j b = field k j (malloc heap n)"
proof -
  have f: "field k j b = field k j (image_header heap eo n)" if "k + j \<le> 82" for k j
  proof -
    have "j \<le> 82 - k" using that by arith
    then show ?thesis using that assms(1,3) by (simp add: field_def min_def drop_take)
  qed
  show "field 0 4 b = 0x46454346" "field 32 4 b = 0" "field 76 4 b = n" "field 80 1 b = 1" "field 81 1 b = 0"
    using assms(1,2) by (simp_all add: f image_header_fields init_header_fields del: One_nat_def)
  show "field k j b = field k j (malloc heap n)" if "4 \<le> k" "k + j \<le> 32" for k j
    using that assms(1,2) by (simp add: f image_header_fields init_header_fields)
qed

definition image_file :: "u8 list \<Rightarrow> fcef_file" where
  "image_file b = \<lparr>f_data = b, f_size = length b, f_allocated = True, f_base_address = 0\<rparr>"

lemma four: "replicate 4 x = [x, x, x, x]"
    "le_enc 4 n = [of_nat n, of_nat (n div 256), of_nat (n div 256 div 256), of_nat (n div 256 div 256 div 256)]"
proof -
  have four: "(4 :: nat) = Suc (Suc (Suc (Suc 0)))" by simp
  show "replicate 4 x = [x, x, x, x]" unfolding four by simp
  show "le_enc 4 n = [of_nat n, of_nat (n div 256), of_nat (n div 256 div 256), of_nat (n div 256 div 256 div 256)]"
    unfolding four le_enc.simps ..
qed

lemma field_ones: "k + 4 \<le> n \<Longrightarrow> field k 4 (replicate n 0xFF) = 0xFFFFFFFF"
proof -
  assume "k + 4 \<le> n"
  then have "take 4 (drop k (replicate n 0xFF)) = replicate 4 (0xFF :: u8)" by simp
  moreover have "le_dec (replicate 4 0xFF) = 0xFFFFFFFF" by (simp add: four)
  ultimately show ?thesis by (simp add: field_def)
qed

text \<open>
  The image of a compiler output holds its header, then the code, the read-only data and the
  data, and its size is stored in it. But whether it is a valid FCEF file depends on the memory
  that \<open>malloc\<close> returned, since nothing sets the fields for the program headers and the sections:
  on fresh zeroes it is valid, on a heap of bytes 0xFF it is not.
\<close>

theorem eclc_to_fcef_image:
  assumes "consistent eo"
  shows "\<exists>b. eclc_to_fcef heap (Some eo) = Some b \<and>
      drop sizeof_header b = the (eo_code eo) @ the (eo_rodata eo) @ the (eo_data eo) \<and>
      unat (h_file_size (header (image_file b))) = length b \<and>
      ((\<forall>i < length b. heap i = 0) \<longrightarrow> fcef_validate (fcef_open (Some name) (Some b))) \<and>
      ((\<forall>i < length b. heap i = 0xFF) \<longrightarrow> \<not> fcef_validate (fcef_open (Some name) (Some b)))"
proof -
  obtain c r d where eo: "eo_code eo = Some c" "eo_rodata eo = Some r" "eo_data eo = Some d"
    and n: "82 + length c + length r + length d < 2 ^ 32"
    and out: "eclc_to_fcef heap (Some eo) =
       Some (take 82 (image_header heap eo (82 + length c + length r + length d)) @ c @ r @ d)"
    using image_bytes [OF assms] by metis
  define n' where "n' = 82 + length c + length r + length d"
  define b where "b = take 82 (image_header heap eo n') @ c @ r @ d"
  have len: "length b = n'" and dropped: "drop 82 b = c @ r @ d" by (simp_all add: b_def n'_def)
  note fields = image_fields [OF _ _ b_def len]
  have f: "field 0 4 b = 0x46454346" "field 32 4 b = 0" "field 76 4 b = n'" "field 80 1 b = 1" "field 81 1 b = 0"
    using fields n by (simp_all add: n'_def)
  have h: "field k j b = field k j (malloc heap n')" if "4 \<le> k" "k + j \<le> 32" for k j
    using fields(6) [of k j] that n by (simp add: n'_def)
  have "unat (of_nat n' :: u32) = n'" using n by (intro unat_of_nat_small) (simp add: n'_def)
  then have size: "unat (h_file_size (header (image_file b))) = length b"
    by (simp add: header_def image_file_def f len)
  have opened: "fcef_open (Some name) (Some b) = Some (image_file b)"
    using len by (simp add: fcef_open_def image_file_def sizeof_header_def n'_def)
  have "length (take 4 b) = 4" using len by (simp add: n'_def)
  then have "take 4 b = le_enc 4 (field 0 4 b)" using le_enc_dec [of "take 4 b" 4] by (simp add: field_def)
  also have "\<dots> = [0x46, 0x43, 0x45, 0x46]" unfolding f(1) by (simp add: four)
  finally have "take 4 b = [0x46, 0x43, 0x45, 0x46]" .
  then have magic: "b ! 0 = 0x46" "b ! 1 = 0x43" "b ! 2 = 0x45" "b ! 3 = 0x46"
    using nth_take [of 0 4 b] nth_take [of 1 4 b] nth_take [of 2 4 b] nth_take [of 3 4 b] by simp_all
  have "fcef_validate (Some (image_file b))" if "\<forall>i < length b. heap i = 0"
  proof -
    have "malloc heap n' = replicate n' 0"
      using that len by (auto simp: malloc_def intro: nth_equalityI)
    then have "h_phnum (header (image_file b)) = 0" "h_shnum (header (image_file b)) = 0"
      by (simp_all add: header_def image_file_def h n'_def field_zero)
    moreover have "h_version_major (header (image_file b)) = 1" "h_crc32 (header (image_file b)) = 0"
      using f by (simp_all add: header_def image_file_def)
    ultimately show ?thesis using size magic
      by (simp add: validate_structure structure_ok_def validate_program_headers_def validate_section_headers_def)
        (simp add: image_file_def)
  qed
  moreover have "\<not> fcef_validate (Some (image_file b))" if "\<forall>i < length b. heap i = 0xFF"
  proof -
    have "malloc heap n' = replicate n' 0xFF"
      using that len by (auto simp: malloc_def intro: nth_equalityI)
    moreover have "82 \<le> n'" by (simp add: n'_def)
    ultimately have "h_phnum (header (image_file b)) = 0xFFFFFFFF" "h_phoff (header (image_file b)) = 0xFFFFFFFF"
      by (simp_all add: header_def image_file_def h field_ones)
    then have "\<not> validate_program_headers (image_file b)"
      using n by (simp add: validate_program_headers_def image_file_def len n'_def sizeof_phdr_def)
    then show ?thesis by (simp add: validate_structure structure_ok_def)
  qed
  ultimately show ?thesis
    using eo out size dropped opened by (intro exI [of _ b]) (simp add: b_def n'_def sizeof_header_def)
qed

theorem eclc_to_fcef_image_witness:
  "\<exists>b. eclc_to_fcef (\<lambda>_. 0) (Some \<lparr>eo_code = Some [0xC3], eo_code_size = 1, eo_data = Some [], eo_data_size = 0,
      eo_rodata = Some [], eo_rodata_size = 0, eo_bss = None, eo_bss_size = 0, eo_entry_point = 0, eo_text_addr = 0,
      eo_data_addr = 0, eo_rodata_addr = 0\<rparr>) = Some b \<and> drop sizeof_header b = [0xC3] \<and>
    fcef_validate (fcef_open (Some ''a'') (Some b))"
  using eclc_to_fcef_image [of "\<lparr>eo_code = Some [0xC3], eo_code_size = 1, eo_data = Some [], eo_data_size = 0,
      eo_rodata = Some [], eo_rodata_size = 0, eo_bss = None, eo_bss_size = 0, eo_entry_point = 0, eo_text_addr = 0,
      eo_data_addr = 0, eo_rodata_addr = 0\<rparr>" "\<lambda>_. 0" "''a''"]
  by (auto simp: consistent_def sizeof_header_def)

end
