(* ===== verification/Dos25_Runtime.thy ===== *)
theory Dos25_Runtime
  imports Interfaces Bytes "HOL-Library.Sublist"
begin

text \<open>
  The runtime part of the DOS25 boot loader: the shared memory with its two message queues
  (dos25/src/uefi/runtime.c, include/boot.h) and the daemon that serves requests for UEFI runtime
  services from them (dos25/src/uefi/daemon.c). The firmware is a parameter: functions on a state
  of any type. The memory is the structure that the header pointer gives access to; what is
  printed is left out.
\<close>

section \<open>Status codes, messages, queues (common.h, boot.h)\<close>

datatype boot_status =
  BOOT_SUCCESS | BOOT_ERROR | BOOT_ERROR_MEMORY | BOOT_ERROR_DISK | BOOT_ERROR_FORMAT |
  BOOT_ERROR_NOT_FOUND | BOOT_ERROR_IO

definition IPC_MSG_RESET_SYSTEM :: u32 where "IPC_MSG_RESET_SYSTEM = 1"
definition IPC_MSG_GET_TIME :: u32 where "IPC_MSG_GET_TIME = 2"
definition IPC_MSG_SET_TIME :: u32 where "IPC_MSG_SET_TIME = 3"
definition IPC_MSG_GET_VARIABLE :: u32 where "IPC_MSG_GET_VARIABLE = 4"
definition IPC_MSG_SHUTDOWN :: u32 where "IPC_MSG_SHUTDOWN = 6"

definition SHARED_MEM_MAGIC :: u64 where "SHARED_MEM_MAGIC = 0x444F533235534D00"
definition SHARED_MEM_SIZE :: nat where "SHARED_MEM_SIZE = 2 * 1024 * 1024"
definition DOS25_QUEUE_SIZE :: nat where "DOS25_QUEUE_SIZE = 256"
definition DOS25_MAX_DATA :: nat where "DOS25_MAX_DATA = 4096"

record dos_message =
  d_type :: u32
  d_source :: u32
  d_target :: u32
  d_timestamp :: u64
  d_size :: u32
  d_sequence :: u32
  d_data :: "u8 list"

definition zero_dos_message :: dos_message where
  "zero_dos_message = \<lparr>d_type = 0, d_source = 0, d_target = 0, d_timestamp = 0, d_size = 0, d_sequence = 0,
     d_data = replicate DOS25_MAX_DATA 0\<rparr>"

record dos_queue =
  producer_index :: u32
  consumer_index :: u32
  q_count :: u32
  q_capacity :: u32
  q_messages :: "dos_message list"

record shared_memory =
  sm_magic :: u64
  sm_version :: u32
  sm_size :: u32
  sm_sequence :: u32
  sm_status :: u32
  kernel_to_daemon :: dos_queue
  daemon_to_kernel :: dos_queue
  sm_rt_services :: u64
  sm_rt_services_phys :: u64
  messages_sent :: u64
  messages_received :: u64
  errors :: u64

text \<open>
  The sizes of the structures and the offsets of their fields, in the layout of x86-64: a \<open>u64\<close> is
  aligned to 8 bytes.
\<close>

definition align8 :: "nat \<Rightarrow> nat" where "align8 n = (n + 7) div 8 * 8"

definition sizeof_dos_message :: nat where
  "sizeof_dos_message = align8 (align8 (3 * 4) + 8 + 2 * 4 + DOS25_MAX_DATA)"

definition sizeof_dos_queue :: nat where
  "sizeof_dos_queue = 4 * 4 + DOS25_QUEUE_SIZE * sizeof_dos_message"

definition offset_rt_services :: nat where
  "offset_rt_services = 8 + 4 * 4 + 2 * sizeof_dos_queue"

definition sizeof_shared_memory :: nat where
  "sizeof_shared_memory = offset_rt_services + 2 * 8 + 3 * 8"

section \<open>The queues (runtime.c)\<close>

definition ipc_queue_empty :: "dos_queue option \<Rightarrow> bool" where
  "ipc_queue_empty queue = (case queue of Some q \<Rightarrow> q_count q = 0 | None \<Rightarrow> True)"

definition ipc_queue_full :: "dos_queue option \<Rightarrow> bool" where
  "ipc_queue_full queue = (case queue of Some q \<Rightarrow> q_count q \<ge> q_capacity q | None \<Rightarrow> True)"

definition ipc_send_message :: "dos_queue option \<Rightarrow> dos_message option \<Rightarrow> boot_status \<times> dos_queue option" where
  "ipc_send_message queue msg = (case (queue, msg) of
     (Some q, Some m) \<Rightarrow>
       (if ipc_queue_full queue then (BOOT_ERROR_IO, queue)
        else (BOOT_SUCCESS, Some (q\<lparr>q_messages := (q_messages q)[unat (producer_index q) := m],
          producer_index := (producer_index q + 1) mod q_capacity q, q_count := q_count q + 1\<rparr>)))
   | _ \<Rightarrow> (BOOT_ERROR, queue))"

text \<open>The message is written through a pointer; \<open>deliver\<close> says that there is one.\<close>

definition ipc_receive_message :: "dos_queue option \<Rightarrow> bool \<Rightarrow> boot_status \<times> dos_message option \<times> dos_queue option" where
  "ipc_receive_message queue deliver = (case queue of
     None \<Rightarrow> (BOOT_ERROR, None, queue)
   | Some q \<Rightarrow>
       (if \<not> deliver then (BOOT_ERROR, None, queue)
        else if ipc_queue_empty queue then (BOOT_ERROR_NOT_FOUND, None, queue)
        else (BOOT_SUCCESS, Some (q_messages q ! unat (consumer_index q)),
          Some (q\<lparr>consumer_index := (consumer_index q + 1) mod q_capacity q, q_count := q_count q - 1\<rparr>))))"

text \<open>
  \<open>SetMem\<close> clears the allocated 2 MB, which end inside the messages of the second queue: the messages
  after \<open>n\<close> cleared bytes keep their content. (\<open>n\<close> ends in the data of a message, after its 32 bytes of fields.)
\<close>

fun clear_messages :: "nat \<Rightarrow> dos_message list \<Rightarrow> dos_message list" where
  "clear_messages n [] = []"
| "clear_messages n (m # ms) =
     (if n \<ge> sizeof_dos_message then zero_dos_message # clear_messages (n - sizeof_dos_message) ms
      else zero_dos_message\<lparr>d_data := replicate (n - 32) 0 @ drop (n - 32) (d_data m)\<rparr> # ms)"

definition clear_queue :: "nat \<Rightarrow> dos_queue \<Rightarrow> dos_queue" where
  "clear_queue n q = \<lparr>producer_index = 0, consumer_index = 0, q_count = 0, q_capacity = 0,
     q_messages = clear_messages (n - 16) (q_messages q)\<rparr>"

definition init_queue :: "dos_queue \<Rightarrow> dos_queue" where
  "init_queue q = q\<lparr>producer_index := 0, consumer_index := 0, q_count := 0, q_capacity := of_nat DOS25_QUEUE_SIZE\<rparr>"

definition initialize_ipc_queues :: "shared_memory \<Rightarrow> boot_status \<times> shared_memory" where
  "initialize_ipc_queues hdr =
     (let k2d = clear_queue sizeof_dos_queue (kernel_to_daemon hdr);
          d2k = clear_queue (SHARED_MEM_SIZE - (24 + sizeof_dos_queue)) (daemon_to_kernel hdr)
      in (BOOT_SUCCESS, hdr\<lparr>sm_magic := SHARED_MEM_MAGIC, sm_version := 1, sm_size := of_nat SHARED_MEM_SIZE,
        sm_sequence := 0, sm_status := 0, kernel_to_daemon := init_queue k2d, daemon_to_kernel := init_queue d2k,
        messages_sent := 0, messages_received := 0, errors := 0\<rparr>))"

text \<open>The parts of the boot parameters that the runtime uses; the header is at the shared buffer.\<close>

record runtime_params =
  rp_rt_services :: u64
  shared_buffer :: u64
  shared_buffer_size :: nat
  shared_header :: "shared_memory option"

text \<open>What \<open>AllocatePages\<close> gives: an address and what is found there, or nothing.\<close>

definition setup_shared_memory :: "(u64 \<times> shared_memory) option \<Rightarrow> runtime_params \<Rightarrow> boot_status \<times> runtime_params" where
  "setup_shared_memory pages params = (case pages of
     None \<Rightarrow> (BOOT_ERROR_MEMORY, params)
   | Some (addr, mem) \<Rightarrow>
       (case initialize_ipc_queues mem of (status, mem) \<Rightarrow>
         (status, params\<lparr>shared_buffer := addr, shared_buffer_size := SHARED_MEM_SIZE, shared_header := Some mem\<rparr>)))"

definition preserve_runtime_services :: "u64 \<Rightarrow> runtime_params \<Rightarrow> boot_status \<times> runtime_params" where
  "preserve_runtime_services rt params =
     (BOOT_SUCCESS, params\<lparr>rp_rt_services := rt,
        shared_header := map_option (\<lambda>h. h\<lparr>sm_rt_services := rt, sm_rt_services_phys := rt\<rparr>) (shared_header params)\<rparr>)"

section \<open>The requests (daemon.c)\<close>

text \<open>
  The runtime services of the firmware, on its state. \<open>GetTime\<close> gives a status and the 16 bytes of
  a time; \<open>GetVariable\<close>, for a name and room for a number of bytes, a status, attributes, the bytes
  it writes and the size it reports.
\<close>

record 'w firmware =
  reset_system :: "u32 \<Rightarrow> 'w \<Rightarrow> u64 \<times> 'w"
  get_time :: "'w \<Rightarrow> u64 \<times> u8 list \<times> 'w"
  set_time :: "u8 list \<Rightarrow> 'w \<Rightarrow> u64 \<times> 'w"
  get_variable :: "u8 list \<Rightarrow> nat \<Rightarrow> 'w \<Rightarrow> u64 \<times> u32 \<times> u8 list \<times> u64 \<times> 'w"

definition sizeof_efi_status :: nat where "sizeof_efi_status = 8"
definition sizeof_efi_time :: nat where "sizeof_efi_time = 16"

definition EFI_ERROR :: "u64 \<Rightarrow> bool" where "EFI_ERROR s = bit s 63"
definition EFI_INVALID_PARAMETER :: u64 where "EFI_INVALID_PARAMETER = 0x8000000000000002"
definition EFI_UNSUPPORTED :: u64 where "EFI_UNSUPPORTED = 0x8000000000000003"

definition put_data :: "nat \<Rightarrow> u8 list \<Rightarrow> dos_message \<Rightarrow> dos_message" where
  "put_data off bytes m = m\<lparr>d_data := overwrite (d_data m) off bytes\<rparr>"

definition reply_header :: "dos_message \<Rightarrow> u32 \<Rightarrow> dos_message \<Rightarrow> dos_message" where
  "reply_header request n response =
     response\<lparr>d_type := d_type request, d_source := 1, d_target := d_source request, d_size := n\<rparr>"

type_synonym 'w handled = "boot_status \<times> dos_message \<times> 'w"

definition handle_reset_system :: "'w firmware \<Rightarrow> dos_message \<Rightarrow> dos_message \<Rightarrow> 'w \<Rightarrow> 'w handled" where
  "handle_reset_system fw request response w =
     (if d_size request < 4 then (BOOT_ERROR, response\<lparr>d_type := d_type request, d_size := 0\<rparr>, w)
      else (let reset_type = of_nat (le_dec (take 4 (d_data request)));
                response = reply_header request 4 response
            in case reset_system fw reset_type w of (status, w) \<Rightarrow>
              (BOOT_SUCCESS, put_data 0 (le_enc 4 (unat status)) response, w)))"

definition handle_get_time :: "'w firmware \<Rightarrow> dos_message \<Rightarrow> dos_message \<Rightarrow> 'w \<Rightarrow> 'w handled" where
  "handle_get_time fw request response w = (case get_time fw w of (status, time, w) \<Rightarrow>
     (let response = reply_header request (of_nat (sizeof_efi_status + sizeof_efi_time)) response;
          response = put_data 0 (le_enc 8 (unat status)) response
      in (BOOT_SUCCESS,
          if \<not> EFI_ERROR status then put_data sizeof_efi_status (bytes_at sizeof_efi_time time) response else response,
          w)))"

definition handle_set_time :: "'w firmware \<Rightarrow> dos_message \<Rightarrow> dos_message \<Rightarrow> 'w \<Rightarrow> 'w handled" where
  "handle_set_time fw request response w =
     (if unat (d_size request) < sizeof_efi_time then
        (BOOT_ERROR, put_data 0 (le_enc 8 (unat EFI_INVALID_PARAMETER))
           (response\<lparr>d_type := d_type request, d_size := of_nat sizeof_efi_status\<rparr>), w)
      else (case set_time fw (take sizeof_efi_time (d_data request)) w of (status, w) \<Rightarrow>
        (BOOT_SUCCESS, put_data 0 (le_enc 8 (unat status))
           (reply_header request (of_nat sizeof_efi_status) response), w)))"

definition handle_get_variable :: "'w firmware \<Rightarrow> dos_message \<Rightarrow> dos_message \<Rightarrow> 'w \<Rightarrow> 'w handled" where
  "handle_get_variable fw request response w =
     (let room = DOS25_MAX_DATA - sizeof_efi_status - 4 in
      case get_variable fw (d_data request) room w of (status, attributes, bytes, data_size, w) \<Rightarrow>
        (let response = put_data 12 (take room bytes) response;
             response = reply_header request (of_nat (sizeof_efi_status + 4) + ucast data_size) response;
             response = put_data 0 (le_enc 8 (unat status)) response
         in (BOOT_SUCCESS, put_data sizeof_efi_status (le_enc 4 (unat attributes)) response, w)))"

text \<open>The reply, the firmware and whether the daemon goes on.\<close>

definition process_message :: "'w firmware \<Rightarrow> dos_message \<Rightarrow> 'w \<Rightarrow> bool \<Rightarrow> 'w handled \<times> bool" where
  "process_message fw request w running =
     (let response = zero_dos_message\<lparr>d_timestamp := d_timestamp request, d_sequence := d_sequence request\<rparr> in
      if d_type request = IPC_MSG_RESET_SYSTEM then (handle_reset_system fw request response w, running)
      else if d_type request = IPC_MSG_GET_TIME then (handle_get_time fw request response w, running)
      else if d_type request = IPC_MSG_SET_TIME then (handle_set_time fw request response w, running)
      else if d_type request = IPC_MSG_GET_VARIABLE then (handle_get_variable fw request response w, running)
      else if d_type request = IPC_MSG_SHUTDOWN then
        ((BOOT_SUCCESS, response\<lparr>d_type := d_type request, d_size := 0\<rparr>, w), False)
      else ((BOOT_ERROR, put_data 0 (le_enc 8 (unat EFI_UNSUPPORTED))
          (response\<lparr>d_type := d_type request, d_size := of_nat sizeof_efi_status\<rparr>), w), running))"

text \<open>One message of the loop: the reply is sent only when the request was handled without an error.\<close>

definition serve_message :: "'w firmware \<Rightarrow> dos_message \<Rightarrow> shared_memory \<times> 'w \<times> bool \<Rightarrow> shared_memory \<times> 'w \<times> bool" where
  "serve_message fw request st = (case st of (sm, w, running) \<Rightarrow>
     (case process_message fw request w running of ((status, response, w), running) \<Rightarrow>
       (let sm = (if status = BOOT_SUCCESS then
             (case ipc_send_message (Some (daemon_to_kernel sm)) (Some response) of (sent, q) \<Rightarrow>
               (if sent = BOOT_SUCCESS
                then sm\<lparr>daemon_to_kernel := the q, messages_sent := messages_sent sm + 1\<rparr>
                else sm\<lparr>errors := errors sm + 1\<rparr>))
           else sm\<lparr>errors := errors sm + 1\<rparr>)
        in (sm\<lparr>messages_received := messages_received sm + 1\<rparr>, w, running))))"

text \<open>The loop, for as many messages as are left of the five of the demo.\<close>

fun daemon_loop :: "'w firmware \<Rightarrow> nat \<Rightarrow> shared_memory \<times> 'w \<times> bool \<Rightarrow> shared_memory \<times> 'w \<times> bool" where
  "daemon_loop fw 0 st = st"
| "daemon_loop fw (Suc n) (sm, w, running) =
     (if \<not> running then (sm, w, running)
      else (case ipc_receive_message (Some (kernel_to_daemon sm)) True of
        (status, msg, q) \<Rightarrow>
          (case msg of
             Some request \<Rightarrow> daemon_loop fw n (serve_message fw request (sm\<lparr>kernel_to_daemon := the q\<rparr>, w, running))
           | None \<Rightarrow> (sm, w, running))))"

definition daemon_message_loop :: "'w firmware option \<Rightarrow> shared_memory option \<Rightarrow> 'w \<Rightarrow>
    boot_status \<times> shared_memory option \<times> 'w" where
  "daemon_message_loop rt shared_mem w = (case (shared_mem, rt) of
     (Some sm, Some fw) \<Rightarrow> (case daemon_loop fw 5 (sm, w, True) of (sm, w, _) \<Rightarrow> (BOOT_SUCCESS, Some sm, w))
   | _ \<Rightarrow> (BOOT_ERROR, shared_mem, w))"

definition start_runtime_daemon :: "'w firmware option \<Rightarrow> runtime_params \<Rightarrow> 'w \<Rightarrow> boot_status \<times> runtime_params \<times> 'w" where
  "start_runtime_daemon rt params w = (case (shared_header params, rt) of
     (Some sm, Some fw) \<Rightarrow>
       (if sm_magic sm \<noteq> SHARED_MEM_MAGIC then (BOOT_ERROR, params, w)
        else (case daemon_message_loop (Some fw) (Some sm) w of
          (status, sm, w) \<Rightarrow> (status, params\<lparr>shared_header := sm\<rparr>, w)))
   | _ \<Rightarrow> (BOOT_ERROR, params, w))"

section \<open>The queues are bounded queues\<close>

definition dq_wf :: "dos_queue \<Rightarrow> bool" where
  "dq_wf q \<longleftrightarrow> length (q_messages q) = 256 \<and> q_capacity q = 256 \<and> unat (consumer_index q) < 256 \<and>
     unat (q_count q) \<le> 256 \<and> unat (producer_index q) = (unat (consumer_index q) + unat (q_count q)) mod 256"

definition dq_items :: "dos_queue \<Rightarrow> dos_message list" where
  "dq_items q = ring (q_messages q) (unat (consumer_index q)) (unat (q_count q))"

definition dq_enq :: "dos_message \<Rightarrow> dos_queue \<Rightarrow> dos_queue option" where
  "dq_enq m q = (case ipc_send_message (Some q) (Some m) of (status, q') \<Rightarrow> if status = BOOT_SUCCESS then q' else None)"

definition dq_deq :: "dos_queue \<Rightarrow> (dos_message \<times> dos_queue) option" where
  "dq_deq q = (case ipc_receive_message (Some q) True of
     (status, Some m, Some q') \<Rightarrow> Some (m, q') | _ \<Rightarrow> None)"

lemma length_dq_items [simp]: "length (dq_items q) = unat (q_count q)"
  by (simp add: dq_items_def)

lemma dq_index_step: "unat (x :: u32) < 256 \<Longrightarrow> unat ((x + 1) mod 256) = (unat x + 1) mod 256"
  using unat_succ_mod [of x 256] by simp

lemma dq_count_step: "unat (q_count q) < 256 \<Longrightarrow> unat (q_count q + 1) = Suc (unat (q_count q))"
  by (simp add: unat_word_ariths)

lemma dq_full: "dq_wf q \<Longrightarrow> ipc_queue_full (Some q) = (256 \<le> length (dq_items q))"
  by (simp add: ipc_queue_full_def dq_wf_def word_le_nat_alt)

lemma dq_send_room:
  assumes wf: "dq_wf q" and room: "length (dq_items q) < 256"
  shows "\<exists>q'. ipc_send_message (Some q) (Some m) = (BOOT_SUCCESS, Some q') \<and> dq_wf q' \<and> dq_items q' = dq_items q @ [m]"
proof -
  let ?q = "q\<lparr>q_messages := (q_messages q)[unat (producer_index q) := m],
    producer_index := (producer_index q + 1) mod q_capacity q, q_count := q_count q + 1\<rparr>"
  have send: "ipc_send_message (Some q) (Some m) = (BOOT_SUCCESS, Some ?q)"
    using dq_full [OF wf] room by (simp add: ipc_send_message_def)
  have count: "unat (q_count q + 1) = Suc (unat (q_count q))" using room by (simp add: dq_count_step)
  have prod: "unat ((producer_index q + 1) mod q_capacity q) = (unat (producer_index q) + 1) mod 256"
    using wf dq_index_step [of "producer_index q"] by (simp add: dq_wf_def)
  have "dq_wf ?q" using wf room count prod by (simp add: dq_wf_def mod_Suc_eq)
  moreover have "dq_items ?q = dq_items q @ [m]"
    using wf room count ring_snoc [of "unat (q_count q)" "q_messages q" "unat (consumer_index q)" m]
    by (simp add: dq_items_def dq_wf_def)
  ultimately show ?thesis using send by blast
qed

lemma dq_receive_head:
  assumes wf: "dq_wf q" and items: "dq_items q = m # ms"
  shows "\<exists>q'. ipc_receive_message (Some q) True = (BOOT_SUCCESS, Some m, Some q') \<and> dq_wf q' \<and> dq_items q' = ms"
proof -
  let ?q = "q\<lparr>consumer_index := (consumer_index q + 1) mod q_capacity q, q_count := q_count q - 1\<rparr>"
  have pos: "0 < unat (q_count q)" using items length_dq_items [of q] by simp
  then have count: "Suc (unat (q_count q - 1)) = unat (q_count q)"
    by (simp add: unat_gt_0 unat_minus_one)
  have cons: "unat ((consumer_index q + 1) mod q_capacity q) = (unat (consumer_index q) + 1) mod 256"
    using wf dq_index_step [of "consumer_index q"] by (simp add: dq_wf_def)
  have "((c + 1) mod 256 + k) mod 256 = (c + Suc k) mod 256" for c k :: nat by (simp add: mod_simps)
  from this [of "unat (consumer_index q)" "unat (q_count q - 1)"]
  have "dq_wf ?q" using wf cons count unfolding dq_wf_def by simp
  moreover have "dq_items q = q_messages q ! unat (consumer_index q) # dq_items ?q"
    using ring_Cons [of "unat (consumer_index q)" "q_messages q" "unat (q_count q - 1)"] wf cons count
    by (simp add: dq_items_def dq_wf_def)
  moreover have "q_count q \<noteq> 0" using pos by auto
  ultimately show ?thesis using items by (simp add: ipc_receive_message_def ipc_queue_empty_def)
qed

interpretation dq: bounded_fifo dq_enq dq_deq "\<lambda>m. m" dq_items dq_wf 256
proof unfold_locales
  fix q m assume "dq_wf q" "length (dq_items q) < 256"
  from dq_send_room [OF this, of m]
  show "\<exists>q'. dq_enq m q = Some q' \<and> dq_wf q' \<and> dq_items q' = dq_items q @ [m]" by (auto simp: dq_enq_def)
next
  fix q m assume "dq_wf q" "256 \<le> length (dq_items q)"
  then show "dq_enq m q = None" using dq_full [of q] by (simp add: dq_enq_def ipc_send_message_def)
next
  fix q assume "dq_wf q" "dq_items q = []"
  then have "unat (q_count q) = 0" using length_dq_items [of q] by simp
  then have "q_count q = 0" by (simp add: unat_eq_0)
  then show "dq_deq q = None" by (simp add: dq_deq_def ipc_receive_message_def ipc_queue_empty_def)
next
  fix q m ms assume "dq_wf q" "dq_items q = m # ms"
  from dq_receive_head [OF this] show "\<exists>q'. dq_deq q = Some (m, q') \<and> dq_wf q' \<and> dq_items q' = ms"
    by (auto simp: dq_deq_def)
qed

section \<open>The daemon's loop\<close>

definition sm_wf :: "shared_memory \<Rightarrow> bool" where
  "sm_wf sm \<longleftrightarrow> dq_wf (kernel_to_daemon sm) \<and> dq_wf (daemon_to_kernel sm)"

text \<open>What a reply echoes of its request.\<close>

definition echo :: "dos_message \<Rightarrow> u32 \<times> u64 \<times> u32" where
  "echo m = (d_type m, d_timestamp m, d_sequence m)"

lemma process_echo: "process_message fw request w running = ((status, response, w'), r) \<Longrightarrow> echo response = echo request"
  by (auto simp: process_message_def handle_reset_system_def handle_get_time_def handle_set_time_def
      handle_get_variable_def reply_header_def put_data_def echo_def Let_def split: if_splits prod.splits)

text \<open>What serving some requests does: \<open>served reqs rs sm sm'\<close> with the replies that were sent.\<close>

definition served :: "dos_message list \<Rightarrow> dos_message list \<Rightarrow> shared_memory \<Rightarrow> shared_memory \<Rightarrow> bool" where
  "served reqs rs sm sm' \<longleftrightarrow> sm_wf sm' \<and> dq_items (daemon_to_kernel sm') = dq_items (daemon_to_kernel sm) @ rs \<and>
     subseq (map echo rs) (map echo reqs) \<and>
     messages_received sm' = messages_received sm + of_nat (length reqs) \<and>
     messages_sent sm' = messages_sent sm + of_nat (length rs) \<and>
     errors sm' + of_nat (length rs) = errors sm + of_nat (length reqs)"

lemma served_none: "sm_wf sm \<Longrightarrow> served [] [] sm sm"
  by (simp add: served_def)

lemma served_append:
  "served reqs1 rs1 sm1 sm2 \<Longrightarrow> served reqs2 rs2 sm2 sm3 \<Longrightarrow> served (reqs1 @ reqs2) (rs1 @ rs2) sm1 sm3"
proof -
  have add: "e3 + (r1 + r2) = e1 + (q1 + q2)" if "e2 + r1 = e1 + q1" "e3 + r2 = e2 + q2"
    for e1 e2 e3 r1 r2 q1 q2 :: u64
  proof -
    have "e3 + (r1 + r2) = (e3 + r2) + r1" by (simp only: ac_simps)
    also have "\<dots> = (e2 + r1) + q2" unfolding that(2) by (simp only: ac_simps)
    finally show ?thesis unfolding that(1) by (simp only: ac_simps)
  qed
  show "served reqs1 rs1 sm1 sm2 \<Longrightarrow> served reqs2 rs2 sm2 sm3 \<Longrightarrow> served (reqs1 @ reqs2) (rs1 @ rs2) sm1 sm3"
    unfolding served_def by (auto intro: list_emb_append_mono add)
qed

lemma serve_message_served:
  assumes "sm_wf sm"
  shows "\<exists>sm' w' r rs. serve_message fw request (sm, w, running) = (sm', w', r) \<and> served [request] rs sm sm' \<and>
    kernel_to_daemon sm' = kernel_to_daemon sm"
proof -
  obtain status response w' r where proc: "process_message fw request w running = ((status, response, w'), r)"
    by (metis prod.exhaust)
  note key = process_echo [OF proc]
  have wf: "dq_wf (kernel_to_daemon sm)" "dq_wf (daemon_to_kernel sm)" using assms by (auto simp: sm_wf_def)
  show ?thesis
  proof (cases "status = BOOT_SUCCESS \<and> length (dq_items (daemon_to_kernel sm)) < 256")
    case True
    then obtain q where "ipc_send_message (Some (daemon_to_kernel sm)) (Some response) = (BOOT_SUCCESS, Some q)"
        "dq_wf q" "dq_items q = dq_items (daemon_to_kernel sm) @ [response]"
      using dq_send_room [OF wf(2), of response] by blast
    with True proc key wf show ?thesis
      by (intro exI [of _ "sm\<lparr>daemon_to_kernel := q, messages_sent := messages_sent sm + 1,
            messages_received := messages_received sm + 1\<rparr>"] exI [of _ w'] exI [of _ r] exI [of _ "[response]"])
        (simp add: serve_message_def served_def sm_wf_def)
  next
    case False
    then have "serve_message fw request (sm, w, running) =
        (sm\<lparr>errors := errors sm + 1, messages_received := messages_received sm + 1\<rparr>, w', r)"
      using proc dq_full [OF wf(2)] by (auto simp: serve_message_def ipc_send_message_def Let_def)
    with wf show ?thesis
      by (intro exI [of _ "sm\<lparr>errors := errors sm + 1, messages_received := messages_received sm + 1\<rparr>"]
          exI [of _ w'] exI [of _ r] exI [of _ "[]"]) (simp add: served_def sm_wf_def)
  qed
qed

lemma daemon_loop_served:
  assumes "sm_wf sm" and "daemon_loop fw k (sm, w, running) = (sm', w', running')"
  shows "\<exists>n rs. n \<le> k \<and> n \<le> length (dq_items (kernel_to_daemon sm)) \<and>
    (running' \<longrightarrow> n = min k (length (dq_items (kernel_to_daemon sm)))) \<and>
    served (take n (dq_items (kernel_to_daemon sm))) rs sm sm' \<and>
    dq_items (kernel_to_daemon sm') = drop n (dq_items (kernel_to_daemon sm))"
  using assms
proof (induction k arbitrary: sm w running)
  case 0
  then show ?case by (auto intro: served_none)
next
  case (Suc k)
  have wf: "dq_wf (kernel_to_daemon sm)" "dq_wf (daemon_to_kernel sm)" using Suc.prems(1) by (auto simp: sm_wf_def)
  show ?case
  proof (cases "running \<and> dq_items (kernel_to_daemon sm) \<noteq> []")
    case False
    have "sm' = sm \<and> running' = running"
    proof (cases running)
      case True
      with False have "dq_deq (kernel_to_daemon sm) = None" using dq.deq_empty [OF wf(1)] by blast
      then have "fst (snd (ipc_receive_message (Some (kernel_to_daemon sm)) True)) = None"
        by (auto simp: dq_deq_def ipc_receive_message_def split: if_splits)
      with Suc.prems(2) show ?thesis by (auto split: prod.splits if_splits)
    qed (use Suc.prems(2) in simp)
    with False served_none [OF Suc.prems(1)] show ?thesis by (intro exI [of _ 0] exI [of _ "[]"]) auto
  next
    case True
    then obtain m ms where items: "dq_items (kernel_to_daemon sm) = m # ms" by (cases "dq_items (kernel_to_daemon sm)") auto
    then obtain q where q: "ipc_receive_message (Some (kernel_to_daemon sm)) True = (BOOT_SUCCESS, Some m, Some q)"
        "dq_wf q" "dq_items q = ms" using dq_receive_head [OF wf(1)] by blast
    let ?sm = "sm\<lparr>kernel_to_daemon := q\<rparr>"
    obtain sm1 w1 r1 rs1 where serve: "serve_message fw m (?sm, w, running) = (sm1, w1, r1)" "served [m] rs1 ?sm sm1"
        "kernel_to_daemon sm1 = q"
      using serve_message_served [of ?sm fw m w running] wf(2) q(2) by (auto simp: sm_wf_def)
    have first: "served [m] rs1 sm sm1" using serve(2) by (simp add: served_def)
    then have "sm_wf sm1" by (simp add: served_def)
    moreover have "daemon_loop fw k (sm1, w1, r1) = (sm', w', running')"
      using Suc.prems(2) True q(1) serve(1) by simp
    ultimately obtain n rs where "n \<le> k" "n \<le> length ms" "running' \<longrightarrow> n = min k (length ms)"
        "served (take n ms) rs sm1 sm'" "dq_items (kernel_to_daemon sm') = drop n ms"
      using Suc.IH serve(3) q(3) by metis
    with served_append [OF first, of "take n ms" rs sm'] items show ?thesis
      by (intro exI [of _ "Suc n"] exI [of _ "rs1 @ rs"]) auto
  qed
qed


text \<open>The shared memory as it is set up, whatever was in it, when the messages are all there.\<close>

definition memory_shape :: "shared_memory \<Rightarrow> bool" where
  "memory_shape sm \<longleftrightarrow> length (q_messages (kernel_to_daemon sm)) = 256 \<and> length (q_messages (daemon_to_kernel sm)) = 256"

lemma length_clear_messages [simp]: "length (clear_messages n ms) = length ms"
  by (induction n ms rule: clear_messages.induct) simp_all

lemma initialized:
  assumes "memory_shape sm" and "initialize_ipc_queues sm = (status, sm')"
  shows "status = BOOT_SUCCESS" "sm_wf sm'" "dq_items (kernel_to_daemon sm') = []" "dq_items (daemon_to_kernel sm') = []"
    "sm_magic sm' = SHARED_MEM_MAGIC" "messages_sent sm' = 0" "messages_received sm' = 0" "errors sm' = 0"
  using assms
  by (auto simp: initialize_ipc_queues_def memory_shape_def sm_wf_def dq_wf_def dq_items_def init_queue_def
      clear_queue_def DOS25_QUEUE_SIZE_def Let_def)

definition blank_memory :: shared_memory where
  "blank_memory = \<lparr>sm_magic = 0, sm_version = 0, sm_size = 0, sm_sequence = 0, sm_status = 0,
     kernel_to_daemon = \<lparr>producer_index = 0, consumer_index = 0, q_count = 0, q_capacity = 0,
       q_messages = replicate 256 zero_dos_message\<rparr>,
     daemon_to_kernel = \<lparr>producer_index = 0, consumer_index = 0, q_count = 0, q_capacity = 0,
       q_messages = replicate 256 zero_dos_message\<rparr>,
     sm_rt_services = 0, sm_rt_services_phys = 0, messages_sent = 0, messages_received = 0, errors = 0\<rparr>"

lemma blank_shape: "memory_shape blank_memory"
  by (simp add: memory_shape_def blank_memory_def)

definition idle_firmware :: "unit firmware" where
  "idle_firmware = \<lparr>reset_system = \<lambda>_ w. (0, w), get_time = \<lambda>w. (0, replicate 16 0, w), set_time = \<lambda>_ w. (0, w),
     get_variable = \<lambda>_ _ w. (0, 0, [], 0, w)\<rparr>"


text \<open>
  The shared memory is larger than the memory allocated for it: the second queue and the
  fields after it run past the 2 MB that \<open>setup_shared_memory\<close> allocates, so that initialising the
  statistics and storing the runtime services writes to memory that the loader does not own.
\<close>

theorem shared_memory_overflows:
  "SHARED_MEM_SIZE < offset_rt_services \<and> sizeof_shared_memory - SHARED_MEM_SIZE = 16480 \<and>
   SHARED_MEM_SIZE < 8 + 4 * 4 + sizeof_dos_queue + 16 + 253 * sizeof_dos_message"
  by (simp add: SHARED_MEM_SIZE_def offset_rt_services_def sizeof_shared_memory_def sizeof_dos_queue_def
      sizeof_dos_message_def align8_def DOS25_MAX_DATA_def DOS25_QUEUE_SIZE_def)

text \<open>
  Over any session of sends and receives a queue of the shared memory neither loses,
  duplicates nor reorders messages, and holds at most 256: all its slots are used, unlike those of
  the kernel's own ring.
\<close>

theorem dos25_queue_fifo:
  assumes "dq_wf q" and "run_fifo dq_enq dq_deq q ops = (q', accepted, received)"
  shows "dq_items q @ accepted = received @ dq_items q' \<and> length (dq_items q') \<le> 256"
  using dq.session_order [OF assms] assms(1) by (simp add: dq_wf_def)

theorem dos25_queue_fifo_witness:
  "\<exists>q' acc got. run_fifo dq_enq dq_deq (kernel_to_daemon (snd (initialize_ipc_queues blank_memory)))
      [Send zero_dos_message, Receive] = (q', acc, got) \<and> acc = got @ dq_items q'"
proof -
  obtain st sm where i: "initialize_ipc_queues blank_memory = (st, sm)" by (metis prod.exhaust)
  note init = initialized [OF blank_shape i]
  obtain q' acc got where run: "run_fifo dq_enq dq_deq (kernel_to_daemon sm) [Send zero_dos_message, Receive] = (q', acc, got)"
    by (metis prod.exhaust)
  from dos25_queue_fifo [OF _ run] init(2,3) i run show ?thesis by (simp add: sm_wf_def)
qed

text \<open>
  A request that the daemon does not know is answered in vain: \<open>process_message\<close> fills a reply
  with EFI_UNSUPPORTED, but the loop sends replies only after success, and so no reply comes. The
  same holds for a time that is too short.
\<close>

theorem daemon_drops_error_replies:
  assumes "d_type request \<notin> {1, 2, 3, 4, 6} \<or> d_type request = 3 \<and> unat (d_size request) < 16"
  shows "\<exists>response. process_message fw request w running = ((BOOT_ERROR, response, w), running) \<and>
    d_type response = d_type request \<and> d_size response = 8 \<and>
    serve_message fw request (sm, w, running) =
      (sm\<lparr>errors := errors sm + 1, messages_received := messages_received sm + 1\<rparr>, w, running)"
proof -
  note msgs = IPC_MSG_RESET_SYSTEM_def IPC_MSG_GET_TIME_def IPC_MSG_SET_TIME_def IPC_MSG_GET_VARIABLE_def
    IPC_MSG_SHUTDOWN_def
  obtain response where "process_message fw request w running = ((BOOT_ERROR, response, w), running) \<and>
      d_type response = d_type request \<and> d_size response = 8"
    using assms
    by (fastforce simp: process_message_def handle_set_time_def msgs sizeof_efi_time_def sizeof_efi_status_def
        put_data_def Let_def)
  then show ?thesis by (intro exI [of _ response]) (simp add: serve_message_def Let_def)
qed

theorem daemon_drops_error_replies_witness:
  "serve_message idle_firmware (zero_dos_message\<lparr>d_type := 5\<rparr>) (blank_memory, (), True) =
     (blank_memory\<lparr>errors := 1, messages_received := 1\<rparr>, (), True)"
proof -
  have "d_type (zero_dos_message\<lparr>d_type := 5\<rparr>) \<notin> {1, 2, 3, 4, 6} \<or>
      d_type (zero_dos_message\<lparr>d_type := 5\<rparr>) = 3 \<and> unat (d_size (zero_dos_message\<lparr>d_type := 5\<rparr>)) < 16" by simp
  have "errors blank_memory = 0" "messages_received blank_memory = 0" by (simp_all add: blank_memory_def)
  then show ?thesis
    using daemon_drops_error_replies [OF \<open>_ \<or> _\<close>, where fw = idle_firmware and w = "()" and running = True and sm = blank_memory]
    by auto
qed

text \<open>
  The size in the reply to a variable request is the one that the firmware reports, unchecked:
  when the variable does not fit, it exceeds the 4096 bytes of data that the reply has.
\<close>

theorem get_variable_size_unchecked:
  assumes "get_variable fw (d_data request) 4084 w = (status, attributes, [], n, w')"
    and "4084 < unat n" and "unat n < 2 ^ 32 - 12"
  shows "\<exists>response. handle_get_variable fw request zero_dos_message w = (BOOT_SUCCESS, response, w') \<and>
    length (d_data response) = 4096 \<and> unat (d_size response) = 12 + unat n \<and> 4096 < unat (d_size response)"
proof -
  have "unat (12 + ucast n :: u32) = 12 + unat n"
    using assms(3) by (simp add: unat_word_ariths unsigned_ucast_eq take_bit_nat_def)
  with assms show ?thesis
    by (simp add: handle_get_variable_def DOS25_MAX_DATA_def sizeof_efi_status_def reply_header_def put_data_def
        zero_dos_message_def overwrite_def)
qed

theorem get_variable_size_unchecked_witness:
  "\<exists>response. handle_get_variable (idle_firmware\<lparr>get_variable := \<lambda>_ _ w. (0x8000000000000005, 0, [], 5000, w)\<rparr>)
      zero_dos_message zero_dos_message () = (BOOT_SUCCESS, response, ()) \<and> 4096 < unat (d_size response)"
proof -
  have "get_variable (idle_firmware\<lparr>get_variable := \<lambda>_ _ w. (0x8000000000000005, 0, [], 5000, w)\<rparr>)
      (d_data zero_dos_message) 4084 () = (0x8000000000000005, 0, [], 5000, ())" by simp
  from get_variable_size_unchecked [OF this] show ?thesis by auto
qed

end
