(* ===== verification/Dos25_Boot.thy ===== *)
theory Dos25_Boot
  imports Dos25_Runtime "HOL-Library.Multiset" "HOL-Library.State_Monad"
begin

text \<open>
  The boot sequence of DOS25 (dos25/src/uefi/boot.c, main.c, ipc_test.c) and its helpers for files and for
  the memory map (file.c, memory.c). The firmware is a parameter: it answers each call from the calls made
  before. The calls with their answers are recorded, so that what the loader does to the machine is a list.
  What is printed is left out.
\<close>

section \<open>The firmware\<close>

datatype efi_protocol = LoadedImage | SimpleFileSystem | GraphicsOutput

datatype efi_call =
  GetMemoryMap u64 u64
| AllocateAddress u64 u64
| AllocateAnyPages u64
| FreePages u64 u64
| AllocatePool u64
| FreePool u64
| HandleProtocol u64 efi_protocol
| LocateProtocol efi_protocol
| OpenVolume u64
| OpenFile u64 string
| CloseFile u64
| GetInfo u64 u64 u64
| ReadFile u64 u64 u64
| SetMem u64 u64 u8
| WaitForEvent
| ReadKeyStroke
| ExitBootServices u64
| ResetSystem u32
| GetTime
| SetTime "u8 list"
| GetVariable "u8 list" nat

text \<open>
  An answer: a status, and what the call writes through its pointers: an \<open>answered\<close> value (an address, a handle, a key of the
  map, a character), an \<open>amount\<close> (a size), the size and version of a unit of the memory map, and bytes.
\<close>

record answer =
  efi_status :: u64
  answered :: u64
  amount :: u64
  unit_size :: u64
  unit_version :: u32
  a_bytes :: "u8 list"

type_synonym trace = "(efi_call \<times> answer) list"
type_synonym efi = "trace \<Rightarrow> efi_call \<Rightarrow> answer"

text \<open>The state: the calls so far, and the variables of memory.c (a null pointer is 0).\<close>

record loader =
  calls :: trace
  gMemoryMap :: u64
  gMemoryMapSize :: u64
  gMapKey :: u64
  gDescriptorSize :: u64
  gDescriptorVersion :: u32

type_synonym 'a boot = "(loader, 'a) state"

definition efi_call :: "efi \<Rightarrow> efi_call \<Rightarrow> answer boot" where
  "efi_call fw c = State (\<lambda>s. let a = fw (calls s) c in (a, s\<lparr>calls := calls s @ [(c, a)]\<rparr>))"

definition change :: "(loader \<Rightarrow> loader) \<Rightarrow> unit boot" where
  "change f = State (\<lambda>s. ((), f s))"

lemma run_efi_call [simp]:
  "run_state (efi_call fw c) s = (fw (calls s) c, s\<lparr>calls := calls s @ [(c, fw (calls s) c)]\<rparr>)"
  by (simp add: efi_call_def Let_def)

lemma run_change [simp]: "run_state (change f) s = ((), f s)"
  by (simp add: change_def)

lemma run_get [simp]: "run_state State_Monad.get s = (s, s)"
  by (simp add: State_Monad.get_def)

definition EFI_BUFFER_TOO_SMALL :: u64 where "EFI_BUFFER_TOO_SMALL = 0x8000000000000005"
definition EFI_ABORTED :: u64 where "EFI_ABORTED = 0x8000000000000015"

section \<open>Files (file.c)\<close>

text \<open>
  The status, and what is written to \<open>buffer\<close> and \<open>size\<close>. A failed allocation leaves the buffer as it was.
\<close>

definition load_file :: "efi \<Rightarrow> string \<Rightarrow> (u64 \<times> u64 option \<times> u64 option) boot" where
  "load_file fw filename = do {
     fs \<leftarrow> efi_call fw (LocateProtocol SimpleFileSystem);
     if EFI_ERROR (efi_status fs) then State_Monad.return (efi_status fs, None, None) else do {
     root \<leftarrow> efi_call fw (OpenVolume (answered fs));
     if EFI_ERROR (efi_status root) then State_Monad.return (efi_status root, None, None) else do {
     file \<leftarrow> efi_call fw (OpenFile (answered root) filename);
     if EFI_ERROR (efi_status file) then do {
       _ \<leftarrow> efi_call fw (CloseFile (answered root));
       State_Monad.return (efi_status file, None, None)
     } else do {
     need \<leftarrow> efi_call fw (GetInfo (answered file) 0 0);
     if efi_status need \<noteq> EFI_BUFFER_TOO_SMALL then do {
       _ \<leftarrow> efi_call fw (CloseFile (answered file));
       _ \<leftarrow> efi_call fw (CloseFile (answered root));
       State_Monad.return (efi_status need, None, None)
     } else do {
     info \<leftarrow> efi_call fw (AllocatePool (amount need));
     if EFI_ERROR (efi_status info) then do {
       _ \<leftarrow> efi_call fw (CloseFile (answered file));
       _ \<leftarrow> efi_call fw (CloseFile (answered root));
       State_Monad.return (efi_status info, None, None)
     } else do {
     got \<leftarrow> efi_call fw (GetInfo (answered file) (amount need) (answered info));
     if EFI_ERROR (efi_status got) then do {
       _ \<leftarrow> efi_call fw (FreePool (answered info));
       _ \<leftarrow> efi_call fw (CloseFile (answered file));
       _ \<leftarrow> efi_call fw (CloseFile (answered root));
       State_Monad.return (efi_status got, None, None)
     } else do {
     buffer \<leftarrow> efi_call fw (AllocatePool (answered got));
     if EFI_ERROR (efi_status buffer) then do {
       _ \<leftarrow> efi_call fw (FreePool (answered info));
       _ \<leftarrow> efi_call fw (CloseFile (answered file));
       _ \<leftarrow> efi_call fw (CloseFile (answered root));
       State_Monad.return (efi_status buffer, None, Some (answered got))
     } else do {
     got' \<leftarrow> efi_call fw (ReadFile (answered file) (answered got) (answered buffer));
     _ \<leftarrow> efi_call fw (FreePool (answered info));
     _ \<leftarrow> efi_call fw (CloseFile (answered file));
     _ \<leftarrow> efi_call fw (CloseFile (answered root));
     State_Monad.return (efi_status got', Some (answered buffer), Some (amount got'))
   }}}}}}}}"

text \<open>
  \<open>file_exists\<close> of file.c: a buffer that was not written is whatever the stack holds, \<open>junk\<close>.
\<close>

definition file_exists_by_loading :: "efi \<Rightarrow> u64 \<Rightarrow> string \<Rightarrow> bool boot" where
  "file_exists_by_loading fw junk filename = do {
     r \<leftarrow> load_file fw filename;
     (case r of (st, buffer, _) \<Rightarrow>
       if EFI_ERROR st then State_Monad.return False
       else do {
         _ \<leftarrow> efi_call fw (FreePool (case buffer of Some b \<Rightarrow> b | None \<Rightarrow> junk));
         State_Monad.return True
       })
   }"

section \<open>The memory map (memory.c)\<close>

definition memory_get_map :: "efi \<Rightarrow> boot_status boot" where
  "memory_get_map fw = do {
     s \<leftarrow> State_Monad.get;
     need \<leftarrow> efi_call fw (GetMemoryMap (gMemoryMapSize s) 0);
     _ \<leftarrow> change (\<lambda>s. s\<lparr>gMemoryMapSize := amount need, gMapKey := answered need, gDescriptorSize := unit_size need,
       gDescriptorVersion := unit_version need\<rparr>);
     if efi_status need \<noteq> EFI_BUFFER_TOO_SMALL then State_Monad.return BOOT_ERROR_MEMORY else do {
     _ \<leftarrow> change (\<lambda>s. s\<lparr>gMemoryMapSize := gMemoryMapSize s + 2 * gDescriptorSize s\<rparr>);
     s \<leftarrow> State_Monad.get;
     pool \<leftarrow> efi_call fw (AllocatePool (gMemoryMapSize s));
     if EFI_ERROR (efi_status pool) then State_Monad.return BOOT_ERROR_MEMORY else do {
     _ \<leftarrow> change (\<lambda>s. s\<lparr>gMemoryMap := answered pool\<rparr>);
     s \<leftarrow> State_Monad.get;
     got \<leftarrow> efi_call fw (GetMemoryMap (gMemoryMapSize s) (gMemoryMap s));
     _ \<leftarrow> change (\<lambda>s. s\<lparr>gMemoryMapSize := amount got, gMapKey := answered got, gDescriptorSize := unit_size got,
       gDescriptorVersion := unit_version got\<rparr>);
     if EFI_ERROR (efi_status got) then do {
       s \<leftarrow> State_Monad.get;
       _ \<leftarrow> efi_call fw (FreePool (gMemoryMap s));
       _ \<leftarrow> change (\<lambda>s. s\<lparr>gMemoryMap := 0\<rparr>);
       State_Monad.return BOOT_ERROR_MEMORY
     } else State_Monad.return BOOT_SUCCESS
   }}}"

definition memory_allocate_pages :: "efi \<Rightarrow> u64 \<Rightarrow> u64 option boot" where
  "memory_allocate_pages fw num_pages = do {
     a \<leftarrow> efi_call fw (AllocateAnyPages num_pages);
     State_Monad.return (if EFI_ERROR (efi_status a) then None else Some (answered a))
   }"

definition memory_free_pages :: "efi \<Rightarrow> u64 \<Rightarrow> u64 \<Rightarrow> boot_status boot" where
  "memory_free_pages fw address num_pages = do {
     a \<leftarrow> efi_call fw (FreePages address num_pages);
     State_Monad.return (if EFI_ERROR (efi_status a) then BOOT_ERROR_MEMORY else BOOT_SUCCESS)
   }"

definition memory_allocate_pool :: "efi \<Rightarrow> u64 \<Rightarrow> u64 option boot" where
  "memory_allocate_pool fw n = do {
     a \<leftarrow> efi_call fw (AllocatePool n);
     State_Monad.return (if EFI_ERROR (efi_status a) then None else Some (answered a))
   }"

definition memory_free_pool :: "efi \<Rightarrow> u64 \<Rightarrow> boot_status boot" where
  "memory_free_pool fw buffer = do {
     a \<leftarrow> efi_call fw (FreePool buffer);
     State_Monad.return (if EFI_ERROR (efi_status a) then BOOT_ERROR_MEMORY else BOOT_SUCCESS)
   }"

definition memory_exit_boot_services :: "efi \<Rightarrow> boot_status boot" where
  "memory_exit_boot_services fw = do {
     s \<leftarrow> State_Monad.get;
     left \<leftarrow> efi_call fw (ExitBootServices (gMapKey s));
     if \<not> EFI_ERROR (efi_status left) then State_Monad.return BOOT_SUCCESS else do {
     s \<leftarrow> State_Monad.get;
     _ \<leftarrow> (if gMemoryMap s \<noteq> 0 then do {
         _ \<leftarrow> efi_call fw (FreePool (gMemoryMap s));
         change (\<lambda>s. s\<lparr>gMemoryMap := 0\<rparr>)
       } else State_Monad.return ());
     got \<leftarrow> memory_get_map fw;
     if got \<noteq> BOOT_SUCCESS then State_Monad.return BOOT_ERROR else do {
     s \<leftarrow> State_Monad.get;
     left \<leftarrow> efi_call fw (ExitBootServices (gMapKey s));
     State_Monad.return (if EFI_ERROR (efi_status left) then BOOT_ERROR else BOOT_SUCCESS)
   }}}"

section \<open>The boot steps (boot.c)\<close>

text \<open>The parameters that are passed to the kernel; the part that the runtime uses is a record of its own.\<close>

record boot_params =
  bp_signature :: u64
  bp_version :: u32
  memory_map_size :: u64
  memory_map_desc_size :: u64
  memory_map_desc_version :: u64
  memory_map_addr :: u64
  memory_map_key :: u64
  kernel_entry :: u64
  kernel_size :: u64
  kernel_base :: u64
  daemon_process_id :: u32
  bp_runtime :: runtime_params

definition BOOT_PARAMS_SIGNATURE :: u64 where "BOOT_PARAMS_SIGNATURE = 0x444F533235525420"
definition DOS25_RUNTIME_VERSION :: u32 where "DOS25_RUNTIME_VERSION = 1"

definition memory_fill_boot_params :: "boot_params \<Rightarrow> (boot_status \<times> boot_params) boot" where
  "memory_fill_boot_params params = do {
     s \<leftarrow> State_Monad.get;
     State_Monad.return (if gMemoryMap s = 0 then (BOOT_ERROR_MEMORY, params)
       else (BOOT_SUCCESS, params\<lparr>memory_map_addr := gMemoryMap s, memory_map_size := gMemoryMapSize s,
         memory_map_desc_size := gDescriptorSize s, memory_map_desc_version := ucast (gDescriptorVersion s),
         memory_map_key := gMapKey s\<rparr>))
   }"

text \<open>
  What the loader finds of the machine besides the answers: its own image handle, the address of the
  runtime services, and what is in the memory at an address that is given to it.
\<close>

record machine =
  gImageHandle :: u64
  runtime_services :: u64
  found_at :: "u64 \<Rightarrow> shared_memory"

text \<open>The device of the loaded image is read through the pointer that \<open>HandleProtocol\<close> gives.\<close>

definition file_exists :: "efi \<Rightarrow> machine \<Rightarrow> string \<Rightarrow> bool boot" where
  "file_exists fw mc filename = do {
     image \<leftarrow> efi_call fw (HandleProtocol (gImageHandle mc) LoadedImage);
     if EFI_ERROR (efi_status image) then State_Monad.return False else do {
     fs \<leftarrow> efi_call fw (HandleProtocol (answered image) SimpleFileSystem);
     if EFI_ERROR (efi_status fs) then State_Monad.return False else do {
     root \<leftarrow> efi_call fw (OpenVolume (answered fs));
     if EFI_ERROR (efi_status root) then State_Monad.return False else do {
     file \<leftarrow> efi_call fw (OpenFile (answered root) filename);
     if EFI_ERROR (efi_status file) then do {
       _ \<leftarrow> efi_call fw (CloseFile (answered root));
       State_Monad.return False
     } else do {
       _ \<leftarrow> efi_call fw (CloseFile (answered file));
       _ \<leftarrow> efi_call fw (CloseFile (answered root));
       State_Monad.return True
   }}}}}"

definition get_memory_map_simple :: "efi \<Rightarrow> boot_status boot" where
  "get_memory_map_simple fw = do {
     a \<leftarrow> efi_call fw (GetMemoryMap 0 0);
     State_Monad.return (if efi_status a \<noteq> EFI_BUFFER_TOO_SMALL then BOOT_ERROR else BOOT_SUCCESS)
   }"

definition get_memory_map :: "efi \<Rightarrow> boot_params \<Rightarrow> (boot_status \<times> boot_params) boot" where
  "get_memory_map fw params = do {
     need \<leftarrow> efi_call fw (GetMemoryMap 0 0);
     if efi_status need \<noteq> EFI_BUFFER_TOO_SMALL then State_Monad.return (BOOT_ERROR, params) else do {
     pool \<leftarrow> efi_call fw (AllocatePool (amount need + 2 * unit_size need));
     if EFI_ERROR (efi_status pool) then State_Monad.return (BOOT_ERROR_MEMORY, params) else do {
     got \<leftarrow> efi_call fw (GetMemoryMap (amount need + 2 * unit_size need) (answered pool));
     if EFI_ERROR (efi_status got) then do {
       _ \<leftarrow> efi_call fw (FreePool (answered pool));
       State_Monad.return (BOOT_ERROR, params)
     } else State_Monad.return (BOOT_SUCCESS, params\<lparr>memory_map_addr := answered pool, memory_map_size := amount got,
       memory_map_desc_size := unit_size got, memory_map_desc_version := ucast (unit_version got),
       memory_map_key := answered got\<rparr>)
   }}}"

definition shutdown_system :: "efi \<Rightarrow> unit boot" where
  "shutdown_system fw = do { _ \<leftarrow> efi_call fw (ResetSystem 2); State_Monad.return () }"

definition show_boot_menu :: "efi \<Rightarrow> boot_status boot" where
  "show_boot_menu fw = do {
     _ \<leftarrow> efi_call fw WaitForEvent;
     key \<leftarrow> efi_call fw ReadKeyStroke;
     _ \<leftarrow> (if answered key = 52 then shutdown_system fw else State_Monad.return ());
     State_Monad.return BOOT_SUCCESS
   }"

definition prepare_kernel_handoff :: "boot_status boot" where
  "prepare_kernel_handoff = State_Monad.return BOOT_SUCCESS"

text \<open>Looking for the kernel file decides only what is printed.\<close>

definition look_for_kernel :: "efi \<Rightarrow> machine \<Rightarrow> unit boot" where
  "look_for_kernel fw mc = do {
     image \<leftarrow> efi_call fw (HandleProtocol (gImageHandle mc) LoadedImage);
     if EFI_ERROR (efi_status image) then State_Monad.return () else do {
     fs \<leftarrow> efi_call fw (HandleProtocol (answered image) SimpleFileSystem);
     if EFI_ERROR (efi_status fs) then State_Monad.return () else do {
     root \<leftarrow> efi_call fw (OpenVolume (answered fs));
     if EFI_ERROR (efi_status root) then State_Monad.return () else do {
     file \<leftarrow> efi_call fw (OpenFile (answered root) ''kernel.elf'');
     _ \<leftarrow> (if EFI_ERROR (efi_status file) then State_Monad.return ()
       else do { _ \<leftarrow> efi_call fw (CloseFile (answered file)); State_Monad.return () });
     _ \<leftarrow> efi_call fw (CloseFile (answered root));
     State_Monad.return ()
   }}}}"

definition store_kernel :: "efi \<Rightarrow> u64 \<Rightarrow> boot_params \<Rightarrow> (boot_status \<times> boot_params) boot" where
  "store_kernel fw kernel_addr params = do {
     _ \<leftarrow> efi_call fw (SetMem kernel_addr (1024 * 1024) 0);
     State_Monad.return (BOOT_SUCCESS,
       params\<lparr>kernel_entry := kernel_addr, kernel_size := 1024 * 1024, kernel_base := kernel_addr\<rparr>)
   }"

definition load_kernel :: "efi \<Rightarrow> machine \<Rightarrow> boot_params \<Rightarrow> (boot_status \<times> boot_params) boot" where
  "load_kernel fw mc params = do {
     _ \<leftarrow> look_for_kernel fw mc;
     fixed \<leftarrow> efi_call fw (AllocateAddress 256 0x100000);
     if \<not> EFI_ERROR (efi_status fixed) then store_kernel fw (answered fixed) params else do {
     any \<leftarrow> efi_call fw (AllocateAnyPages 256);
     if EFI_ERROR (efi_status any) then State_Monad.return (BOOT_ERROR_MEMORY, params)
     else store_kernel fw (answered any) params
   }}"

text \<open>\<open>graphics_init\<close> reports success whether it finds a graphics protocol or not.\<close>

definition graphics_init :: "efi \<Rightarrow> boot_status boot" where
  "graphics_init fw = do { _ \<leftarrow> efi_call fw (LocateProtocol GraphicsOutput); State_Monad.return BOOT_SUCCESS }"

definition boot_shared_memory :: "efi \<Rightarrow> machine \<Rightarrow> boot_params \<Rightarrow> (boot_status \<times> boot_params) boot" where
  "boot_shared_memory fw mc params = do {
     a \<leftarrow> efi_call fw (AllocateAnyPages 512);
     State_Monad.return (case setup_shared_memory (if EFI_ERROR (efi_status a) then None
         else Some (answered a, found_at mc (answered a))) (bp_runtime params) of
       (st, rp) \<Rightarrow> (st, params\<lparr>bp_runtime := rp\<rparr>))
   }"

definition boot_params_init :: "efi \<Rightarrow> machine \<Rightarrow> boot_params \<Rightarrow> (boot_status \<times> boot_params) boot" where
  "boot_params_init fw mc params =
     (let params = params\<lparr>bp_signature := BOOT_PARAMS_SIGNATURE, bp_version := DOS25_RUNTIME_VERSION, daemon_process_id := 1\<rparr>
      in do {
     st \<leftarrow> get_memory_map_simple fw;
     if st \<noteq> BOOT_SUCCESS then State_Monad.return (st, params) else do {
     (st, params) \<leftarrow> boot_shared_memory fw mc params;
     if st \<noteq> BOOT_SUCCESS then State_Monad.return (st, params) else
     (case preserve_runtime_services (runtime_services mc) (bp_runtime params) of (st, rp) \<Rightarrow>
       let params = params\<lparr>bp_runtime := rp\<rparr> in
       if st \<noteq> BOOT_SUCCESS then State_Monad.return (st, params) else do {
       _ \<leftarrow> graphics_init fw;
       load_kernel fw mc params
   })}})"

section \<open>The self-test (ipc_test.c)\<close>

definition test_message :: "u32 \<Rightarrow> u32 \<Rightarrow> u32 \<Rightarrow> u8 list \<Rightarrow> dos_message" where
  "test_message ty n seqn bytes = zero_dos_message\<lparr>d_type := ty, d_source := 0, d_target := 1, d_size := n, d_sequence := seqn,
     d_data := overwrite (replicate DOS25_MAX_DATA 0) 0 bytes\<rparr>"

definition time_request :: dos_message where "time_request = test_message IPC_MSG_GET_TIME 0 1 []"
definition reset_request :: dos_message where "reset_request = test_message IPC_MSG_RESET_SYSTEM 4 2 (le_enc 4 2)"

definition send_to_daemon :: "dos_message \<Rightarrow> shared_memory \<Rightarrow> boot_status \<times> shared_memory" where
  "send_to_daemon m sm = (case ipc_send_message (Some (kernel_to_daemon sm)) (Some m) of
     (st, q) \<Rightarrow> (st, sm\<lparr>kernel_to_daemon := the q\<rparr>))"

text \<open>The message that the last step may receive goes to a local variable.\<close>

definition test_ipc_communication :: "shared_memory \<Rightarrow> boot_status \<times> shared_memory" where
  "test_ipc_communication sm = (case send_to_daemon time_request sm of (st, sm) \<Rightarrow>
     if st \<noteq> BOOT_SUCCESS then (st, sm)
     else (case send_to_daemon reset_request sm of (st, sm) \<Rightarrow>
       if st \<noteq> BOOT_SUCCESS then (st, sm)
       else (BOOT_SUCCESS, sm\<lparr>daemon_to_kernel := the (snd (snd (ipc_receive_message (Some (daemon_to_kernel sm)) True)))\<rparr>)))"

definition test_shared_memory :: "shared_memory \<Rightarrow> boot_status" where
  "test_shared_memory sm =
     (if sm_magic sm \<noteq> SHARED_MEM_MAGIC then BOOT_ERROR
      else if sm_version sm \<noteq> DOS25_RUNTIME_VERSION then BOOT_ERROR
      else if sm_size sm \<noteq> of_nat SHARED_MEM_SIZE then BOOT_ERROR
      else if q_capacity (kernel_to_daemon sm) \<noteq> of_nat DOS25_QUEUE_SIZE \<or>
          q_capacity (daemon_to_kernel sm) \<noteq> of_nat DOS25_QUEUE_SIZE then BOOT_ERROR
      else BOOT_SUCCESS)"

definition run_ipc_tests :: "runtime_params \<Rightarrow> boot_status \<times> runtime_params" where
  "run_ipc_tests rp = (case shared_header rp of
     None \<Rightarrow> (BOOT_ERROR, rp)
   | Some sm \<Rightarrow>
       (if test_shared_memory sm \<noteq> BOOT_SUCCESS then (test_shared_memory sm, rp)
        else (case test_ipc_communication sm of (st, sm) \<Rightarrow> (st, rp\<lparr>shared_header := Some sm\<rparr>))))"

section \<open>The whole sequence (boot.c, main.c)\<close>

text \<open>The runtime services, as calls that are answered and recorded like all others.\<close>

definition runtime_calls :: "efi \<Rightarrow> trace firmware" where
  "runtime_calls fw = \<lparr>
     reset_system = (\<lambda>ty tr. let a = fw tr (ResetSystem ty) in (efi_status a, tr @ [(ResetSystem ty, a)])),
     get_time = (\<lambda>tr. let a = fw tr GetTime in (efi_status a, a_bytes a, tr @ [(GetTime, a)])),
     set_time = (\<lambda>t tr. let a = fw tr (SetTime t) in (efi_status a, tr @ [(SetTime t, a)])),
     get_variable = (\<lambda>name room tr. let a = fw tr (GetVariable name room) in
       (efi_status a, ucast (answered a), a_bytes a, amount a, tr @ [(GetVariable name room, a)]))\<rparr>"

definition run_daemon :: "efi \<Rightarrow> boot_params \<Rightarrow> boot_params boot" where
  "run_daemon fw params = State (\<lambda>s.
     case start_runtime_daemon (if rp_rt_services (bp_runtime params) = 0 then None else Some (runtime_calls fw))
         (bp_runtime params) (calls s) of
       (_, rp, tr) \<Rightarrow> (params\<lparr>bp_runtime := rp\<rparr>, s\<lparr>calls := tr\<rparr>))"

definition wait_for_keypress :: "efi \<Rightarrow> unit boot" where
  "wait_for_keypress fw = do {
     _ \<leftarrow> efi_call fw WaitForEvent;
     _ \<leftarrow> efi_call fw ReadKeyStroke;
     State_Monad.return ()
   }"

text \<open>\<open>None\<close>: the shared memory is used through a null pointer.\<close>

definition jump_to_kernel :: "efi \<Rightarrow> boot_params \<Rightarrow> (boot_status \<times> boot_params) option boot" where
  "jump_to_kernel fw params = (case shared_header (bp_runtime params) of
     None \<Rightarrow> State_Monad.return None
   | Some sm \<Rightarrow> (case send_to_daemon time_request sm of (_, sm) \<Rightarrow> do {
       params \<leftarrow> run_daemon fw (params\<lparr>bp_runtime := (bp_runtime params)\<lparr>shared_header := Some sm\<rparr>\<rparr>);
       _ \<leftarrow> wait_for_keypress fw;
       State_Monad.return (Some (BOOT_SUCCESS, params))
     }))"

definition efi_main :: "efi \<Rightarrow> machine \<Rightarrow> boot_params \<Rightarrow> (u64 \<times> boot_params) option boot" where
  "efi_main fw mc params = do {
     (st, params) \<leftarrow> boot_params_init fw mc params;
     if st \<noteq> BOOT_SUCCESS then do { _ \<leftarrow> wait_for_keypress fw; State_Monad.return (Some (EFI_ABORTED, params)) }
     else (case run_ipc_tests (bp_runtime params) of (_, rp) \<Rightarrow> do {
       r \<leftarrow> jump_to_kernel fw (params\<lparr>bp_runtime := rp\<rparr>);
       (case r of
         None \<Rightarrow> State_Monad.return None
       | Some (st, params) \<Rightarrow>
           (if st \<noteq> BOOT_SUCCESS then do { _ \<leftarrow> wait_for_keypress fw; State_Monad.return (Some (EFI_ABORTED, params)) }
            else State_Monad.return (Some (0, params))))
     })
   }"

section \<open>What is opened is closed, what is allocated is freed\<close>

fun handle_step :: "efi_call \<times> answer \<Rightarrow> u64 multiset \<Rightarrow> u64 multiset" where
  "handle_step (OpenVolume _, a) H = (if EFI_ERROR (efi_status a) then H else add_mset (answered a) H)"
| "handle_step (OpenFile _ _, a) H = (if EFI_ERROR (efi_status a) then H else add_mset (answered a) H)"
| "handle_step (CloseFile h, a) H = H - {#h#}"
| "handle_step _ H = H"

fun pool_step :: "efi_call \<times> answer \<Rightarrow> u64 multiset \<Rightarrow> u64 multiset" where
  "pool_step (AllocatePool _, a) P = (if EFI_ERROR (efi_status a) then P else add_mset (answered a) P)"
| "pool_step (FreePool p, a) P = P - {#p#}"
| "pool_step _ P = P"

fun legal_step :: "efi_call \<times> answer \<Rightarrow> u64 multiset \<Rightarrow> u64 multiset \<Rightarrow> bool" where
  "legal_step (CloseFile h, a) H P = (h \<in># H)"
| "legal_step (OpenFile h _, a) H P = (h \<in># H)"
| "legal_step (GetInfo h _ p, a) H P = (h \<in># H \<and> (p = 0 \<or> p \<in># P))"
| "legal_step (ReadFile h _ p, a) H P = (h \<in># H \<and> p \<in># P)"
| "legal_step (FreePool p, a) H P = (p \<in># P)"
| "legal_step _ H P = True"

fun legal :: "trace \<Rightarrow> u64 multiset \<Rightarrow> u64 multiset \<Rightarrow> bool" where
  "legal [] H P = True"
| "legal (e # tr) H P = (legal_step e H P \<and> legal tr (handle_step e H) (pool_step e P))"

text \<open>A program that starts from any open handles \<open>H\<close> and pools \<open>P\<close> uses only what it holds, closes what it opens, and leaves \<open>kept\<close> allocated.\<close>

definition releases :: "trace \<Rightarrow> u64 multiset \<Rightarrow> bool" where
  "releases tr kept \<longleftrightarrow> (\<forall>H P. legal tr H P \<and> fold handle_step tr H = H \<and> fold pool_step tr P = P + kept)"

text \<open>
  \<open>emits m Q\<close>: from any state, whatever the firmware answers, the program ends with a result and new calls that
  satisfy \<open>Q\<close>. The rules walk through a program call by call, each with an answer of its own.
\<close>

definition emits :: "'a boot \<Rightarrow> ('a \<Rightarrow> trace \<Rightarrow> bool) \<Rightarrow> bool" where
  "emits m Q \<longleftrightarrow> (\<forall>s. \<exists>r new s'. run_state m s = (r, s') \<and> calls s' = calls s @ new \<and> Q r new)"

named_theorems emits

lemma emits_return [emits]: "Q r [] \<Longrightarrow> emits (State_Monad.return r) Q"
  by (simp add: emits_def)

lemma emits_call_from:
  assumes "\<And>a tr. a = fw tr c \<Longrightarrow> emits (k a) (\<lambda>r new. Q r ((c, a) # new))"
  shows "emits (State_Monad.bind (efi_call fw c) k) Q"
  unfolding emits_def
proof
  fix s :: loader
  define a where "a = fw (calls s) c"
  define s1 where "s1 = s\<lparr>calls := calls s @ [(c, a)]\<rparr>"
  obtain r new s' where "run_state (k a) s1 = (r, s')" "calls s' = calls s1 @ new" "Q r ((c, a) # new)"
    using assms [OF a_def] unfolding emits_def by blast
  then show "\<exists>r new s'. run_state (State_Monad.bind (efi_call fw c) k) s = (r, s') \<and> calls s' = calls s @ new \<and> Q r new"
    by (intro exI [of _ r] exI [of _ "(c, a) # new"] exI [of _ s']) (simp add: a_def [symmetric] s1_def)
qed

lemma emits_call [emits]:
  "(\<And>a. emits (k a) (\<lambda>r new. Q r ((c, a) # new))) \<Longrightarrow> emits (State_Monad.bind (efi_call fw c) k) Q"
  by (rule emits_call_from)

lemma emits_if [emits]: "(b \<Longrightarrow> emits m Q) \<Longrightarrow> (\<not> b \<Longrightarrow> emits n Q) \<Longrightarrow> emits (if b then m else n) Q"
  by simp

lemma emits_mono: "emits m Q \<Longrightarrow> (\<And>r new. Q r new \<Longrightarrow> Q' r new) \<Longrightarrow> emits m Q'"
  unfolding emits_def by meson

lemma emits_bind:
  assumes "emits m (\<lambda>r new. emits (k r) (\<lambda>r' new'. Q r' (new @ new')))"
  shows "emits (State_Monad.bind m k) Q"
  unfolding emits_def
proof
  fix s :: loader
  obtain r new s1 where m: "run_state m s = (r, s1)" "calls s1 = calls s @ new" "emits (k r) (\<lambda>r' new'. Q r' (new @ new'))"
    using assms unfolding emits_def by blast
  then obtain r' new' s' where "run_state (k r) s1 = (r', s')" "calls s' = calls s1 @ new'" "Q r' (new @ new')"
    unfolding emits_def by blast
  with m show "\<exists>r new s'. run_state (State_Monad.bind m k) s = (r, s') \<and> calls s' = calls s @ new \<and> Q r new"
    by (intro exI [of _ r'] exI [of _ "new @ new'"] exI [of _ s']) simp
qed

lemma emits_sub:
  assumes "emits m Q'" and "\<And>r new. Q' r new \<Longrightarrow> emits (k r) (\<lambda>r' new'. Q r' (new @ new'))"
  shows "emits (State_Monad.bind m k) Q"
  by (rule emits_bind) (use assms in \<open>auto intro: emits_mono\<close>)

fun is_read :: "efi_call \<times> answer \<Rightarrow> bool" where
  "is_read (ReadFile _ _ _, _) = True"
| "is_read _ = False"

lemma load_file_emits:
  "emits (load_file fw name) (\<lambda>(st, buffer, n) new. releases new (case buffer of None \<Rightarrow> {#} | Some b \<Rightarrow> {#b#}) \<and>
     (case buffer of None \<Rightarrow> filter is_read new = []
      | Some b \<Rightarrow> \<exists>f k a. filter is_read new = [(ReadFile f k b, a)] \<and> st = efi_status a))"
  unfolding load_file_def
  by (intro emits) (auto simp: releases_def EFI_BUFFER_TOO_SMALL_def EFI_ERROR_def)

text \<open>
  C25: Whatever the firmware answers, loading a file uses only open handles and allocated memory, closes every handle
  it opened and frees the file information; the one block it leaves allocated is the buffer it returns, which is also
  left to the caller when reading into it failed.
\<close>

theorem load_file_releases:
  "\<exists>new st buffer n s'. run_state (load_file fw name) s = ((st, buffer, n), s') \<and> calls s' = calls s @ new \<and>
     releases new (case buffer of None \<Rightarrow> {#} | Some b \<Rightarrow> {#b#}) \<and>
     (case buffer of None \<Rightarrow> filter is_read new = []
      | Some b \<Rightarrow> \<exists>f k a. filter is_read new = [(ReadFile f k b, a)] \<and> st = efi_status a)"
  using load_file_emits [of fw name] unfolding emits_def by (fastforce simp: case_prod_unfold)

text \<open>So do the check for a file and the two functions that get the memory map; a loaded map is left to the caller.\<close>

lemma file_exists_releases: "emits (file_exists fw mc name) (\<lambda>_ new. releases new {#})"
  unfolding file_exists_def by (intro emits) (simp_all add: releases_def)

lemma get_memory_map_releases:
  "emits (get_memory_map fw params)
     (\<lambda>(st, params') new. releases new (if st = BOOT_SUCCESS then {#memory_map_addr params'#} else {#}))"
  unfolding get_memory_map_def by (intro emits) (auto simp: releases_def)

section \<open>Leaving the boot services\<close>

text \<open>
  What the UEFI specification says of \<open>GetMemoryMap\<close>, where \<open>need tr\<close> is the size of the map after the calls \<open>tr\<close>: a size
  that is too small is reported, and a null pointer with a size that is large enough is an invalid parameter.
\<close>

definition map_service :: "efi \<Rightarrow> (trace \<Rightarrow> u64) \<Rightarrow> bool" where
  "map_service fw need \<longleftrightarrow> (\<forall>tr n p. efi_status (fw tr (GetMemoryMap n p)) =
     (if n < need tr then EFI_BUFFER_TOO_SMALL else if p = 0 then EFI_INVALID_PARAMETER else 0))"

definition before_retry :: "efi \<Rightarrow> loader \<Rightarrow> trace" where
  "before_retry fw s = (let c = ExitBootServices (gMapKey s); tr = calls s @ [(c, fw (calls s) c)]
     in if gMemoryMap s \<noteq> 0 then (let c = FreePool (gMemoryMap s) in tr @ [(c, fw tr c)]) else tr)"

text \<open>
  C24: When the firmware refuses to leave the boot services, the second attempt is not made unless the memory map has
  grown: the size of the last map is passed with a null pointer, which is an invalid parameter, and the
  loader gives up with its memory map freed.
\<close>

theorem exit_retry_gives_up:
  assumes "map_service fw need" and "EFI_ERROR (efi_status (fw (calls s) (ExitBootServices (gMapKey s))))"
    and "need (before_retry fw s) \<le> gMemoryMapSize s"
  shows "\<exists>s'. run_state (memory_exit_boot_services fw) s = (BOOT_ERROR, s') \<and> gMemoryMap s' = 0 \<and>
    map fst (calls s') = map fst (before_retry fw s) @ [GetMemoryMap (gMemoryMapSize s) 0]"
proof -
  define tr where "tr = before_retry fw s"
  have "\<not> gMemoryMapSize s < need tr" using assms(3) by (simp add: tr_def)
  then have answer: "efi_status (fw tr (GetMemoryMap (gMemoryMapSize s) 0)) \<noteq> EFI_BUFFER_TOO_SMALL"
    using assms(1) by (simp add: map_service_def EFI_BUFFER_TOO_SMALL_def EFI_INVALID_PARAMETER_def)
  have "run_state (memory_get_map fw) s1 = (BOOT_ERROR_MEMORY, s1\<lparr>calls := tr @ [(GetMemoryMap (gMemoryMapSize s) 0, a)],
      gMemoryMapSize := amount a, gMapKey := answered a, gDescriptorSize := unit_size a, gDescriptorVersion := unit_version a\<rparr>)"
    if "calls s1 = tr" "gMemoryMapSize s1 = gMemoryMapSize s" "a = fw tr (GetMemoryMap (gMemoryMapSize s) 0)" for s1 a
    using that answer by (simp add: memory_get_map_def)
  then show ?thesis
    using assms(2) by (auto simp: memory_exit_boot_services_def Let_def tr_def before_retry_def)
qed

definition refusing_firmware :: efi where
  "refusing_firmware tr c = \<lparr>efi_status = (case c of
       GetMemoryMap n p \<Rightarrow> if n < 4800 then EFI_BUFFER_TOO_SMALL else if p = 0 then EFI_INVALID_PARAMETER else 0
     | ExitBootServices _ \<Rightarrow> EFI_INVALID_PARAMETER
     | _ \<Rightarrow> 0), answered = 8, amount = 4800, unit_size = 48, unit_version = 1, a_bytes = []\<rparr>"

definition mapped_loader :: loader where
  "mapped_loader = \<lparr>calls = [], gMemoryMap = 8, gMemoryMapSize = 4800, gMapKey = 8, gDescriptorSize = 48, gDescriptorVersion = 1\<rparr>"

theorem exit_retry_gives_up_witness:
  "\<exists>s'. run_state (memory_exit_boot_services refusing_firmware) mapped_loader = (BOOT_ERROR, s') \<and> gMemoryMap s' = 0 \<and>
    map fst (calls s') = [ExitBootServices 8, FreePool 8, GetMemoryMap 4800 0]"
  using exit_retry_gives_up [of refusing_firmware "\<lambda>_. 4800" mapped_loader]
  by (simp add: map_service_def refusing_firmware_def mapped_loader_def EFI_ERROR_def EFI_INVALID_PARAMETER_def before_retry_def Let_def)

section \<open>What a boot does\<close>

text \<open>The firmware after a request, and the daemon on a queue of requests none of which stops it.\<close>

definition world_after :: "'w firmware \<Rightarrow> dos_message \<Rightarrow> 'w \<Rightarrow> 'w" where
  "world_after fw m w = snd (snd (fst (process_message fw m w True)))"

lemma serve_world:
  assumes "d_type m \<noteq> IPC_MSG_SHUTDOWN"
  shows "snd (serve_message fw m (sm, w, True)) = (world_after fw m w, True)"
proof -
  obtain st response w' r where p: "process_message fw m w True = ((st, response, w'), r)" by (metis prod.exhaust)
  moreover have r using p assms by (auto simp: process_message_def Let_def split: if_splits)
  ultimately show ?thesis by (auto simp: serve_message_def world_after_def Let_def)
qed

lemma daemon_loop_world:
  assumes "sm_wf sm" and "dq_items (kernel_to_daemon sm) = ms" and "length ms \<le> k"
    and "\<forall>m \<in> set ms. d_type m \<noteq> IPC_MSG_SHUTDOWN"
  shows "\<exists>sm'. daemon_loop fw k (sm, w, True) = (sm', fold (world_after fw) ms w, True)"
  using assms
proof (induction ms arbitrary: k sm w)
  case Nil
  then have "dq_deq (kernel_to_daemon sm) = None" using dq.deq_empty by (simp add: sm_wf_def)
  then have "fst (snd (ipc_receive_message (Some (kernel_to_daemon sm)) True)) = None"
    by (auto simp: dq_deq_def ipc_receive_message_def split: if_splits)
  then show ?case by (cases k) (auto split: prod.splits)
next
  case (Cons m ms)
  obtain j where k: "k = Suc j" using Cons.prems(3) by (cases k) auto
  obtain q where q: "ipc_receive_message (Some (kernel_to_daemon sm)) True = (BOOT_SUCCESS, Some m, Some q)"
      "dq_wf q" "dq_items q = ms" using dq_receive_head Cons.prems(1,2) unfolding sm_wf_def by blast
  let ?sm = "sm\<lparr>kernel_to_daemon := q\<rparr>"
  have "sm_wf ?sm" using Cons.prems(1) q(2) by (simp add: sm_wf_def)
  then obtain sm1 w1 r1 where serve: "serve_message fw m (?sm, w, True) = (sm1, w1, r1)" "sm_wf sm1" "kernel_to_daemon sm1 = q"
    using serve_message_served [of ?sm fw m w True] by (auto simp: served_def)
  have "w1 = world_after fw m w" "r1" using serve_world [of m fw ?sm w] serve(1) Cons.prems(4) by auto
  then show ?case using Cons.IH [OF serve(2), of j w1] Cons.prems(3,4) serve q k by simp
qed

lemma runtime_worlds:
  "\<exists>a. world_after (runtime_calls fw) time_request tr = tr @ [(GetTime, a)]"
  "\<exists>a. world_after (runtime_calls fw) reset_request tr = tr @ [(ResetSystem 2, a)]"
proof -
  show "\<exists>a. world_after (runtime_calls fw) time_request tr = tr @ [(GetTime, a)]"
    by (simp add: world_after_def process_message_def time_request_def test_message_def runtime_calls_def Let_def
        zero_dos_message_def IPC_MSG_GET_TIME_def IPC_MSG_RESET_SYSTEM_def handle_get_time_def)
  have "le_dec (take 4 (overwrite (replicate DOS25_MAX_DATA 0) 0 (le_enc 4 2))) = 2"
    by (simp add: overwrite_def DOS25_MAX_DATA_def le_dec_enc)
  then show "\<exists>a. world_after (runtime_calls fw) reset_request tr = tr @ [(ResetSystem 2, a)]"
    by (simp add: world_after_def process_message_def reset_request_def test_message_def runtime_calls_def Let_def
        zero_dos_message_def IPC_MSG_RESET_SYSTEM_def handle_reset_system_def)
qed

lemma send_to_daemon_ok:
  assumes "sm_wf sm" and "length (dq_items (kernel_to_daemon sm)) < 256"
  shows "\<exists>q. send_to_daemon m sm = (BOOT_SUCCESS, sm\<lparr>kernel_to_daemon := q\<rparr>) \<and> dq_wf q \<and> dq_items q = dq_items (kernel_to_daemon sm) @ [m]"
  using dq_send_room [of "kernel_to_daemon sm" m] assms by (auto simp: send_to_daemon_def sm_wf_def)

text \<open>The self-test leaves its two requests in the queue.\<close>

lemma tests_leave_requests:
  assumes "sm_wf sm" and "dq_items (kernel_to_daemon sm) = []" and "dq_items (daemon_to_kernel sm) = []"
    and "test_shared_memory sm = BOOT_SUCCESS"
  shows "\<exists>q. run_ipc_tests (rp\<lparr>shared_header := Some sm\<rparr>) = (BOOT_SUCCESS, rp\<lparr>shared_header := Some (sm\<lparr>kernel_to_daemon := q\<rparr>)\<rparr>) \<and>
    dq_wf q \<and> dq_items q = [time_request, reset_request]"
proof -
  obtain q1 where q1: "send_to_daemon time_request sm = (BOOT_SUCCESS, sm\<lparr>kernel_to_daemon := q1\<rparr>)" "dq_wf q1" "dq_items q1 = [time_request]"
    using send_to_daemon_ok [of sm time_request] assms(1,2) by auto
  let ?sm = "sm\<lparr>kernel_to_daemon := q1\<rparr>"
  obtain q2 where q2: "send_to_daemon reset_request ?sm = (BOOT_SUCCESS, ?sm\<lparr>kernel_to_daemon := q2\<rparr>)" "dq_wf q2"
      "dq_items q2 = [time_request, reset_request]"
    using send_to_daemon_ok [of ?sm reset_request] assms(1) q1 by (auto simp: sm_wf_def)
  have "unat (q_count (daemon_to_kernel sm)) = 0" using assms(3) length_dq_items [of "daemon_to_kernel sm"] by simp
  then have "ipc_receive_message (Some (daemon_to_kernel sm)) True = (BOOT_ERROR_NOT_FOUND, None, Some (daemon_to_kernel sm))"
    by (simp add: ipc_receive_message_def ipc_queue_empty_def unat_eq_0)
  then show ?thesis using q1 q2 assms(4) by (auto simp: run_ipc_tests_def test_ipc_communication_def)
qed

text \<open>The steps of the boot before the self-test, and the final state of the shared memory in them.\<close>

definition is_reset :: "efi_call \<times> answer \<Rightarrow> bool" where
  "is_reset e = (case fst e of ResetSystem _ \<Rightarrow> True | _ \<Rightarrow> False)"

definition shared_ready :: "machine \<Rightarrow> boot_params \<Rightarrow> bool" where
  "shared_ready mc params \<longleftrightarrow> rp_rt_services (bp_runtime params) = runtime_services mc \<and>
     (\<exists>sm. shared_header (bp_runtime params) = Some sm \<and> sm_wf sm \<and> dq_items (kernel_to_daemon sm) = [] \<and>
       dq_items (daemon_to_kernel sm) = [] \<and> sm_magic sm = SHARED_MEM_MAGIC \<and> test_shared_memory sm = BOOT_SUCCESS)"

lemma shared_memory_ready:
  assumes "memory_shape mem" and "setup_shared_memory (Some (addr, mem)) rp = (st, rp')"
  shows "st = BOOT_SUCCESS"
    and "shared_ready mc (params\<lparr>bp_runtime := snd (preserve_runtime_services (runtime_services mc) rp')\<rparr>)"
proof -
  obtain sm where init: "initialize_ipc_queues mem = (st, sm)" and rp': "rp' = rp\<lparr>shared_buffer := addr,
      shared_buffer_size := SHARED_MEM_SIZE, shared_header := Some sm\<rparr>"
    using assms(2) by (auto simp: setup_shared_memory_def split: prod.splits)
  note facts = initialized [OF assms(1) init]
  have "sm_version sm = 1" "sm_size sm = of_nat SHARED_MEM_SIZE"
    using init by (auto simp: initialize_ipc_queues_def Let_def)
  moreover have "q_capacity (kernel_to_daemon sm) = 256" "q_capacity (daemon_to_kernel sm) = 256"
    using facts(2) by (auto simp: sm_wf_def dq_wf_def)
  ultimately have "test_shared_memory (sm\<lparr>sm_rt_services := runtime_services mc, sm_rt_services_phys := runtime_services mc\<rparr>) = BOOT_SUCCESS"
    using facts(5) by (simp add: test_shared_memory_def DOS25_RUNTIME_VERSION_def DOS25_QUEUE_SIZE_def)
  then show "shared_ready mc (params\<lparr>bp_runtime := snd (preserve_runtime_services (runtime_services mc) rp')\<rparr>)"
    using facts by (simp add: shared_ready_def preserve_runtime_services_def rp' sm_wf_def)
  show "st = BOOT_SUCCESS" by (rule facts(1))
qed

text \<open>A firmware that has a memory map and has memory to give.\<close>

definition able :: "efi \<Rightarrow> machine \<Rightarrow> bool" where
  "able fw mc \<longleftrightarrow> (\<forall>tr. efi_status (fw tr (GetMemoryMap 0 0)) = EFI_BUFFER_TOO_SMALL) \<and>
     (\<forall>tr n. \<not> EFI_ERROR (efi_status (fw tr (AllocateAnyPages n)))) \<and> (\<forall>a. memory_shape (found_at mc a)) \<and>
     runtime_services mc \<noteq> 0"

definition no_reset :: "trace \<Rightarrow> bool" where "no_reset tr \<longleftrightarrow> list_all (\<lambda>e. \<not> is_reset e) tr"

lemma no_reset_simps [simp]:
  "no_reset []" "no_reset (e # tr) \<longleftrightarrow> \<not> is_reset e \<and> no_reset tr" "no_reset (tr @ tr') \<longleftrightarrow> no_reset tr \<and> no_reset tr'"
  by (simp_all add: no_reset_def)

definition kernel_done :: "boot_params \<Rightarrow> boot_status \<times> boot_params \<Rightarrow> trace \<Rightarrow> bool" where
  "kernel_done params r new \<longleftrightarrow> fst r = BOOT_SUCCESS \<and> bp_runtime (snd r) = bp_runtime params \<and> no_reset new"

lemma store_kernel_emits: "emits (store_kernel fw addr params) (kernel_done params)"
  unfolding store_kernel_def by (intro emits) (simp add: is_reset_def kernel_done_def)

lemma look_for_kernel_emits: "emits (look_for_kernel fw mc) (\<lambda>_ new. no_reset new)"
  unfolding look_for_kernel_def
  by (intro emits emits_bind [where m = "if _ then _ else _"]) (simp_all add: is_reset_def)

lemma load_kernel_emits:
  assumes "able fw mc"
  shows "emits (load_kernel fw mc params) (kernel_done params)"
proof -
  have pages: "\<not> EFI_ERROR (efi_status (fw tr (AllocateAnyPages n)))" for tr n
    using assms by (simp add: able_def)
  show ?thesis
    unfolding load_kernel_def
    by (rule emits_sub [OF look_for_kernel_emits], rule emits_call, rule emits_if, rule emits_mono [OF store_kernel_emits])
      (auto simp: kernel_done_def is_reset_def intro!: emits_call_from emits_mono [OF store_kernel_emits] simp: pages)
qed

lemma boot_params_init_emits:
  assumes "able fw mc"
  shows "emits (boot_params_init fw mc params)
    (\<lambda>r new. fst r = BOOT_SUCCESS \<and> shared_ready mc (snd r) \<and> no_reset new)"
proof -
  let ?ready = "\<lambda>r new. fst r = BOOT_SUCCESS \<and>
    shared_ready mc ((snd r)\<lparr>bp_runtime := snd (preserve_runtime_services (runtime_services mc) (bp_runtime (snd r)))\<rparr>) \<and> no_reset new"
  have map: "emits (get_memory_map_simple fw) (\<lambda>st new. st = BOOT_SUCCESS \<and> no_reset new)"
    unfolding get_memory_map_simple_def
    by (rule emits_call_from) (use assms in \<open>auto simp: able_def is_reset_def intro!: emits\<close>)
  have shared: "emits (boot_shared_memory fw mc params) ?ready" for params
    unfolding boot_shared_memory_def
  proof (rule emits_call_from)
    fix a tr assume a: "a = fw tr (AllocateAnyPages 512)"
    obtain st rp where rp: "setup_shared_memory (Some (answered a, found_at mc (answered a))) (bp_runtime params) = (st, rp)"
      by (metis prod.exhaust)
    have "memory_shape (found_at mc (answered a))" using assms by (simp add: able_def)
    note ready = shared_memory_ready [OF this rp]
    have "\<not> EFI_ERROR (efi_status a)" using assms a by (simp add: able_def)
    then show "emits (State_Monad.return (case setup_shared_memory (if EFI_ERROR (efi_status a) then None
         else Some (answered a, found_at mc (answered a))) (bp_runtime params) of
       (st, rp) \<Rightarrow> (st, params\<lparr>bp_runtime := rp\<rparr>))) (\<lambda>r new. ?ready r ((AllocateAnyPages 512, a) # new))"
      using ready rp by (intro emits_return) (simp add: is_reset_def)
  qed
  have graphics: "emits (graphics_init fw) (\<lambda>st new. no_reset new)"
    unfolding graphics_init_def by (intro emits) (simp add: is_reset_def)
  show ?thesis
    unfolding boot_params_init_def Let_def
  proof (rule emits_sub [OF map], rule emits_if, simp, rule emits_sub [OF shared])
    fix st r new new'
    assume st: "st = BOOT_SUCCESS \<and> no_reset (new :: trace)" and r: "?ready r new'"
    obtain p where p: "r = (BOOT_SUCCESS, p)" using r by (cases r) simp
    define rp where "rp = snd (preserve_runtime_services (runtime_services mc) (bp_runtime p))"
    have rp: "preserve_runtime_services (runtime_services mc) (bp_runtime p) = (BOOT_SUCCESS, rp)"
      by (simp add: rp_def preserve_runtime_services_def)
    have "emits (State_Monad.bind (graphics_init fw) (\<lambda>_. load_kernel fw mc (p\<lparr>bp_runtime := rp\<rparr>)))
      (\<lambda>r' new''. fst r' = BOOT_SUCCESS \<and> shared_ready mc (snd r') \<and> no_reset (new @ new' @ new''))"
      using r st by (intro emits_sub [OF graphics] emits_mono [OF load_kernel_emits [OF assms]])
        (auto simp: kernel_done_def shared_ready_def p rp)
    then show "emits (case r of (st, params) \<Rightarrow> if st \<noteq> BOOT_SUCCESS then State_Monad.return (st, params) else
     (case preserve_runtime_services (runtime_services mc) (bp_runtime params) of (st, rp) \<Rightarrow>
       if st \<noteq> BOOT_SUCCESS then State_Monad.return (st, params\<lparr>bp_runtime := rp\<rparr>) else
       State_Monad.bind (graphics_init fw) (\<lambda>_. load_kernel fw mc (params\<lparr>bp_runtime := rp\<rparr>))))
     (\<lambda>r' new''. fst r' = BOOT_SUCCESS \<and> shared_ready mc (snd r') \<and> no_reset (new @ new' @ new''))"
      by (simp add: p rp)
  qed
qed

lemma run_daemon_emits:
  assumes "shared_header (bp_runtime params) = Some sm" and "sm_wf sm" and "sm_magic sm = SHARED_MEM_MAGIC"
    and "dq_items (kernel_to_daemon sm) = [time_request, reset_request, time_request]"
    and "rp_rt_services (bp_runtime params) \<noteq> 0"
  shows "emits (run_daemon fw params) (\<lambda>_ new. map fst new = [GetTime, ResetSystem 2, GetTime])"
  unfolding emits_def
proof
  fix s :: loader
  let ?rt = "runtime_calls fw"
  have "\<forall>m \<in> set [time_request, reset_request, time_request]. d_type m \<noteq> IPC_MSG_SHUTDOWN"
    by (simp add: time_request_def reset_request_def test_message_def IPC_MSG_SHUTDOWN_def IPC_MSG_GET_TIME_def IPC_MSG_RESET_SYSTEM_def)
  from daemon_loop_world [OF assms(2,4) _ this, of 5 ?rt "calls s"] obtain sm'
    where loop: "daemon_loop ?rt 5 (sm, calls s, True) =
      (sm', world_after ?rt time_request (world_after ?rt reset_request (world_after ?rt time_request (calls s))), True)" by auto
  obtain a where a: "world_after ?rt time_request (calls s) = calls s @ [(GetTime, a)]" using runtime_worlds(1) by blast
  obtain b where b: "world_after ?rt reset_request (calls s @ [(GetTime, a)]) = (calls s @ [(GetTime, a)]) @ [(ResetSystem 2, b)]"
    using runtime_worlds(2) by blast
  obtain c where c: "world_after ?rt time_request ((calls s @ [(GetTime, a)]) @ [(ResetSystem 2, b)]) =
      ((calls s @ [(GetTime, a)]) @ [(ResetSystem 2, b)]) @ [(GetTime, c)]" using runtime_worlds(1) by blast
  have "daemon_loop ?rt 5 (sm, calls s, True) = (sm', calls s @ [(GetTime, a), (ResetSystem 2, b), (GetTime, c)], True)"
    unfolding loop a b c by simp
  then have "run_state (run_daemon fw params) s = (params\<lparr>bp_runtime := (bp_runtime params)\<lparr>shared_header := Some sm'\<rparr>\<rparr>,
      s\<lparr>calls := calls s @ [(GetTime, a), (ResetSystem 2, b), (GetTime, c)]\<rparr>)"
    using assms(1,3,5) by (simp add: run_daemon_def start_runtime_daemon_def daemon_message_loop_def)
  then show "\<exists>r new s'. run_state (run_daemon fw params) s = (r, s') \<and> calls s' = calls s @ new \<and>
      map fst new = [GetTime, ResetSystem 2, GetTime]" by simp
qed

lemma jump_emits:
  assumes "shared_header (bp_runtime params) = Some sm" and "sm_wf sm" and "sm_magic sm = SHARED_MEM_MAGIC"
    and "dq_items (kernel_to_daemon sm) = [time_request, reset_request]" and "rp_rt_services (bp_runtime params) \<noteq> 0"
  shows "emits (jump_to_kernel fw params) (\<lambda>r new. (\<exists>params'. r = Some (BOOT_SUCCESS, params')) \<and>
    map fst new = [GetTime, ResetSystem 2, GetTime, WaitForEvent, ReadKeyStroke])"
proof -
  obtain q where q: "send_to_daemon time_request sm = (BOOT_SUCCESS, sm\<lparr>kernel_to_daemon := q\<rparr>)" "dq_wf q"
      "dq_items q = [time_request, reset_request, time_request]"
    using send_to_daemon_ok [of sm time_request] assms(2,4) by auto
  let ?sm = "sm\<lparr>kernel_to_daemon := q\<rparr>"
  let ?params = "params\<lparr>bp_runtime := (bp_runtime params)\<lparr>shared_header := Some ?sm\<rparr>\<rparr>"
  have daemon: "emits (run_daemon fw ?params) (\<lambda>_ new. map fst new = [GetTime, ResetSystem 2, GetTime])"
    by (rule run_daemon_emits [of _ ?sm]) (use assms q in \<open>simp_all add: sm_wf_def\<close>)
  have key: "emits (wait_for_keypress fw) (\<lambda>_ new. map fst new = [WaitForEvent, ReadKeyStroke])"
    unfolding wait_for_keypress_def by (intro emits) simp
  have "emits (State_Monad.bind (run_daemon fw ?params) (\<lambda>params. State_Monad.bind (wait_for_keypress fw)
      (\<lambda>_. State_Monad.return (Some (BOOT_SUCCESS, params))))) (\<lambda>r new. (\<exists>params'. r = Some (BOOT_SUCCESS, params')) \<and>
    map fst new = [GetTime, ResetSystem 2, GetTime, WaitForEvent, ReadKeyStroke])"
    by (intro emits_sub [OF daemon] emits_sub [OF key] emits_return) simp
  then show ?thesis using assms(1) q(1) by (simp add: jump_to_kernel_def)
qed

text \<open>The self-test leaves its requests behind, and the daemon serves them before the key is awaited.\<close>

lemma tests_then_jump:
  assumes "able fw mc" and ready: "shared_ready mc p"
  shows "\<exists>rp. run_ipc_tests (bp_runtime p) = (BOOT_SUCCESS, rp) \<and>
    emits (jump_to_kernel fw (p\<lparr>bp_runtime := rp\<rparr>)) (\<lambda>r new. (\<exists>params'. r = Some (BOOT_SUCCESS, params')) \<and>
      map fst new = [GetTime, ResetSystem 2, GetTime, WaitForEvent, ReadKeyStroke])"
proof -
  obtain sm where sm: "shared_header (bp_runtime p) = Some sm" "sm_wf sm" "dq_items (kernel_to_daemon sm) = []"
      "dq_items (daemon_to_kernel sm) = []" "sm_magic sm = SHARED_MEM_MAGIC" "test_shared_memory sm = BOOT_SUCCESS"
      "rp_rt_services (bp_runtime p) = runtime_services mc" using ready unfolding shared_ready_def by auto
  obtain q where tests: "run_ipc_tests ((bp_runtime p)\<lparr>shared_header := Some sm\<rparr>) =
        (BOOT_SUCCESS, (bp_runtime p)\<lparr>shared_header := Some (sm\<lparr>kernel_to_daemon := q\<rparr>)\<rparr>)"
      "dq_wf q" "dq_items q = [time_request, reset_request]"
    using tests_leave_requests [OF sm(2,3,4,6)] by blast
  have same: "(bp_runtime p)\<lparr>shared_header := Some sm\<rparr> = bp_runtime p" using sm(1) by simp
  let ?rp = "(bp_runtime p)\<lparr>shared_header := Some (sm\<lparr>kernel_to_daemon := q\<rparr>)\<rparr>"
  have "emits (jump_to_kernel fw (p\<lparr>bp_runtime := ?rp\<rparr>)) (\<lambda>r new. (\<exists>params'. r = Some (BOOT_SUCCESS, params')) \<and>
      map fst new = [GetTime, ResetSystem 2, GetTime, WaitForEvent, ReadKeyStroke])"
    by (rule jump_emits [of _ "sm\<lparr>kernel_to_daemon := q\<rparr>"])
      (use assms sm tests in \<open>simp_all add: sm_wf_def able_def\<close>)
  with tests(1) same show ?thesis by auto
qed

text \<open>
  C11: On a machine with a memory map and enough memory, every boot asks the firmware to shut the machine down, before the key
  press that should end it: the self-test leaves its reset request in the queue, from which the daemon then serves it.
\<close>

theorem boot_shuts_machine_down:
  assumes "able fw mc"
  shows "\<exists>params' s' early final. run_state (efi_main fw mc params) s = (Some (0, params'), s') \<and>
    calls s' = calls s @ early @ final \<and> no_reset early \<and>
    map fst final = [GetTime, ResetSystem 2, GetTime, WaitForEvent, ReadKeyStroke]"
proof -
  have "emits (efi_main fw mc params) (\<lambda>r new. (\<exists>params'. r = Some (0, params')) \<and>
      (\<exists>early final. new = early @ final \<and> no_reset early \<and>
        map fst final = [GetTime, ResetSystem 2, GetTime, WaitForEvent, ReadKeyStroke]))"
    unfolding efi_main_def
  proof (rule emits_sub [OF boot_params_init_emits [OF assms]])
    fix r early assume r: "fst r = BOOT_SUCCESS \<and> shared_ready mc (snd r) \<and> no_reset early"
    obtain p where p: "r = (BOOT_SUCCESS, p)" using r by (cases r) simp
    from tests_then_jump [OF assms, of p] r p obtain rp where tests: "run_ipc_tests (bp_runtime p) = (BOOT_SUCCESS, rp)"
      and jump: "emits (jump_to_kernel fw (p\<lparr>bp_runtime := rp\<rparr>)) (\<lambda>r new. (\<exists>params'. r = Some (BOOT_SUCCESS, params')) \<and>
        map fst new = [GetTime, ResetSystem 2, GetTime, WaitForEvent, ReadKeyStroke])" by auto
    have parts: "\<exists>early' final. early @ new = early' @ final \<and> no_reset early' \<and>
        map fst final = [GetTime, ResetSystem 2, GetTime, WaitForEvent, ReadKeyStroke]"
      if "map fst new = [GetTime, ResetSystem 2, GetTime, WaitForEvent, ReadKeyStroke]" for new
      by (rule exI [of _ early], rule exI [of _ new]) (use r that in simp)
    show "emits (case r of (st, params) \<Rightarrow> if st \<noteq> BOOT_SUCCESS
        then State_Monad.bind (wait_for_keypress fw) (\<lambda>_. State_Monad.return (Some (EFI_ABORTED, params)))
        else (case run_ipc_tests (bp_runtime params) of (_, rp) \<Rightarrow>
          State_Monad.bind (jump_to_kernel fw (params\<lparr>bp_runtime := rp\<rparr>)) (\<lambda>r. case r of None \<Rightarrow> State_Monad.return None
            | Some (st, params) \<Rightarrow> if st \<noteq> BOOT_SUCCESS
                then State_Monad.bind (wait_for_keypress fw) (\<lambda>_. State_Monad.return (Some (EFI_ABORTED, params)))
                else State_Monad.return (Some (0, params)))))
        (\<lambda>r' new'. (\<exists>params'. r' = Some (0, params')) \<and> (\<exists>early' final. early @ new' = early' @ final \<and> no_reset early' \<and>
          map fst final = [GetTime, ResetSystem 2, GetTime, WaitForEvent, ReadKeyStroke]))"
      unfolding p using tests
      by (auto intro!: emits_sub [OF jump] emits_return parts)
  qed
  then show ?thesis unfolding emits_def by metis
qed

definition able_firmware :: efi where
  "able_firmware tr c = \<lparr>efi_status = (case c of GetMemoryMap n p \<Rightarrow> EFI_BUFFER_TOO_SMALL | _ \<Rightarrow> 0),
     answered = 4096, amount = 4800, unit_size = 48, unit_version = 1, a_bytes = replicate 16 0\<rparr>"

definition able_machine :: machine where
  "able_machine = \<lparr>gImageHandle = 1, runtime_services = 8, found_at = \<lambda>_. blank_memory\<rparr>"

definition stack_params :: boot_params where
  "stack_params = \<lparr>bp_signature = 0, bp_version = 0, memory_map_size = 0, memory_map_desc_size = 0, memory_map_desc_version = 0,
     memory_map_addr = 0, memory_map_key = 0, kernel_entry = 0, kernel_size = 0, kernel_base = 0, daemon_process_id = 0,
     bp_runtime = \<lparr>rp_rt_services = 0, shared_buffer = 0, shared_buffer_size = 0, shared_header = None\<rparr>\<rparr>"

theorem boot_shuts_machine_down_witness:
  "\<exists>params' s' early final. run_state (efi_main able_firmware able_machine stack_params) mapped_loader = (Some (0, params'), s') \<and>
    calls s' = calls mapped_loader @ early @ final \<and> no_reset early \<and>
    map fst final = [GetTime, ResetSystem 2, GetTime, WaitForEvent, ReadKeyStroke]"
  by (rule boot_shuts_machine_down)
    (simp add: able_def able_firmware_def able_machine_def EFI_ERROR_def blank_shape)

end
