(* ===== verification/Dos25_Graphics.thy ===== *)
theory Dos25_Graphics
  imports Dos25_Runtime
begin

text \<open>
  The graphics of the boot loader (dos25/src/uefi/graphics.c): choice of a mode, the frame buffer and drawing in it.
  The protocol of the firmware is a parameter. The frame buffer is a map from addresses to the colours written there;
  sizes and coordinates are 32 bits wide, addresses 64.
\<close>

section \<open>Modes\<close>

record mode_info =
  h_res :: u32
  v_res :: u32
  scan_line :: u32

text \<open>The protocol: what its \<open>Mode\<close> structure shows, and the answers of \<open>QueryMode\<close> and \<open>SetMode\<close>, \<open>None\<close> for an error.\<close>

record gop =
  max_mode :: u32
  current_mode :: u32
  current_info :: mode_info
  frame_base :: u64

record graphics_firmware =
  query_mode :: "u32 \<Rightarrow> mode_info option"
  set_mode :: "u32 \<Rightarrow> gop \<Rightarrow> gop option"

record screen =
  gGOP :: "gop option"
  gModeInfo :: "mode_info option"
  pixels :: "u64 \<rightharpoonup> u32"

text \<open>\<open>found\<close>: the protocol that the firmware gives, if any.\<close>

definition locate_graphics :: "gop option \<Rightarrow> screen \<Rightarrow> boot_status \<times> screen" where
  "locate_graphics found s = (BOOT_SUCCESS, s\<lparr>gGOP := found\<rparr>)"

definition graphics_get_available_modes :: "screen \<Rightarrow> boot_status \<times> (u32 \<times> u32) option" where
  "graphics_get_available_modes s = (case gGOP s of
     None \<Rightarrow> (BOOT_ERROR, None)
   | Some g \<Rightarrow> (BOOT_SUCCESS, Some (max_mode g, current_mode g)))"

definition graphics_query_mode :: "graphics_firmware \<Rightarrow> u32 \<Rightarrow> screen \<Rightarrow> boot_status \<times> mode_info option" where
  "graphics_query_mode fw n s = (case gGOP s of
     None \<Rightarrow> (BOOT_ERROR, None)
   | Some _ \<Rightarrow> (case query_mode fw n of None \<Rightarrow> (BOOT_ERROR, None) | Some info \<Rightarrow> (BOOT_SUCCESS, Some info)))"

definition preferences :: "(u32 \<times> u32) list" where
  "preferences = [(1024, 768), (800, 600), (640, 480), (0, 0)]"

definition preferred :: "u32 \<times> u32 \<Rightarrow> mode_info \<Rightarrow> bool" where
  "preferred p info \<longleftrightarrow> (fst p = 0 \<and> snd p = 0) \<or> (h_res info = fst p \<and> v_res info = snd p)"

definition mode_fits :: "graphics_firmware \<Rightarrow> screen \<Rightarrow> u32 \<times> u32 \<Rightarrow> u32 \<Rightarrow> bool" where
  "mode_fits fw s p i = (case graphics_query_mode fw i s of
     (st, Some info) \<Rightarrow> st = BOOT_SUCCESS \<and> preferred p info
   | _ \<Rightarrow> False)"

text \<open>The outer loop over the preferences, the inner one over the modes.\<close>

fun search_modes :: "graphics_firmware \<Rightarrow> screen \<Rightarrow> u32 list \<Rightarrow> (u32 \<times> u32) list \<Rightarrow> u32 option" where
  "search_modes fw s modes [] = None"
| "search_modes fw s modes (p # ps) = (case find (mode_fits fw s p) modes of
     Some i \<Rightarrow> Some i | None \<Rightarrow> search_modes fw s modes ps)"

definition graphics_find_best_mode :: "graphics_firmware \<Rightarrow> screen \<Rightarrow> boot_status \<times> u32" where
  "graphics_find_best_mode fw s = (case graphics_get_available_modes s of
     (_, None) \<Rightarrow> (BOOT_SUCCESS, 0)
   | (_, Some (mode_count, current)) \<Rightarrow>
       (BOOT_SUCCESS, case search_modes fw s (map of_nat [0..<unat mode_count]) preferences of Some i \<Rightarrow> i | None \<Rightarrow> current))"

definition graphics_set_mode :: "graphics_firmware \<Rightarrow> u32 \<Rightarrow> screen \<Rightarrow> boot_status \<times> screen" where
  "graphics_set_mode fw n s = (case gGOP s of
     None \<Rightarrow> (BOOT_SUCCESS, s)
   | Some g \<Rightarrow> (case set_mode fw n g of
       None \<Rightarrow> (BOOT_ERROR, s)
     | Some g \<Rightarrow> (BOOT_SUCCESS, s\<lparr>gGOP := Some g, gModeInfo := Some (current_info g)\<rparr>)))"

section \<open>The frame buffer\<close>

record frame_params =
  framebuffer_addr :: u64
  framebuffer_width :: u32
  framebuffer_height :: u32
  framebuffer_pitch :: u32
  framebuffer_bpp :: u32

definition graphics_get_framebuffer_info :: "screen \<Rightarrow> frame_params \<Rightarrow> boot_status \<times> frame_params" where
  "graphics_get_framebuffer_info s params = (case (gGOP s, gModeInfo s) of
     (Some g, Some info) \<Rightarrow> (BOOT_SUCCESS, \<lparr>framebuffer_addr = frame_base g, framebuffer_width = h_res info,
       framebuffer_height = v_res info, framebuffer_pitch = h_res info * (32 div 8), framebuffer_bpp = 32\<rparr>)
   | _ \<Rightarrow> (BOOT_SUCCESS, \<lparr>framebuffer_addr = 0, framebuffer_width = 0, framebuffer_height = 0, framebuffer_pitch = 0,
       framebuffer_bpp = 0\<rparr>))"

definition pixel_addr :: "u64 \<Rightarrow> mode_info \<Rightarrow> u32 \<Rightarrow> u32 \<Rightarrow> u64" where
  "pixel_addr base info x y = base + ucast (y * scan_line info * 4) + ucast (x * 4)"

definition graphics_draw_pixel :: "u32 \<Rightarrow> u32 \<Rightarrow> u32 \<Rightarrow> screen \<Rightarrow> boot_status \<times> screen" where
  "graphics_draw_pixel x y color s = (case (gGOP s, gModeInfo s) of
     (Some g, Some info) \<Rightarrow>
       (if x \<ge> h_res info \<or> y \<ge> v_res info then (BOOT_ERROR, s)
        else (BOOT_SUCCESS, s\<lparr>pixels := (pixels s)(pixel_addr (frame_base g) info x y \<mapsto> color)\<rparr>))
   | _ \<Rightarrow> (BOOT_ERROR, s))"

text \<open>The pixels of a rectangle in the order of the two loops, whose bounds are sums of 32 bits.\<close>

definition span :: "u32 \<Rightarrow> u32 \<Rightarrow> u32 list" where
  "span a n = map of_nat [unat a..<unat (a + n)]"

definition rect_points :: "u32 \<Rightarrow> u32 \<Rightarrow> u32 \<Rightarrow> u32 \<Rightarrow> (u32 \<times> u32) list" where
  "rect_points x y width height = concat (map (\<lambda>row. map (\<lambda>col. (col, row)) (span x width)) (span y height))"

fun draw_points :: "(u32 \<times> u32) list \<Rightarrow> u32 \<Rightarrow> screen \<Rightarrow> boot_status \<times> screen" where
  "draw_points [] color s = (BOOT_SUCCESS, s)"
| "draw_points ((col, row) # ps) color s = (case graphics_draw_pixel col row color s of
     (st, s) \<Rightarrow> if st \<noteq> BOOT_SUCCESS then (st, s) else draw_points ps color s)"

definition graphics_draw_rect :: "u32 \<Rightarrow> u32 \<Rightarrow> u32 \<Rightarrow> u32 \<Rightarrow> u32 \<Rightarrow> screen \<Rightarrow> boot_status \<times> screen" where
  "graphics_draw_rect x y width height color s = draw_points (rect_points x y width height) color s"

definition graphics_clear_screen :: "u32 \<Rightarrow> screen \<Rightarrow> boot_status \<times> screen" where
  "graphics_clear_screen color s = (case (gGOP s, gModeInfo s) of
     (Some _, Some info) \<Rightarrow> graphics_draw_rect 0 0 (h_res info) (v_res info) color s
   | _ \<Rightarrow> (BOOT_ERROR, s))"

definition graphics_draw_char :: "u32 \<Rightarrow> u32 \<Rightarrow> char \<Rightarrow> u32 \<Rightarrow> screen \<Rightarrow> boot_status \<times> screen" where
  "graphics_draw_char x y c color s = graphics_draw_rect x y 8 8 color s"

fun graphics_draw_string :: "u32 \<Rightarrow> u32 \<Rightarrow> string \<Rightarrow> u32 \<Rightarrow> screen \<Rightarrow> boot_status \<times> screen" where
  "graphics_draw_string x y [] color s = (BOOT_SUCCESS, s)"
| "graphics_draw_string x y (c # cs) color s = (case graphics_draw_char x y c color s of
     (st, s) \<Rightarrow> if st \<noteq> BOOT_SUCCESS then (st, s) else graphics_draw_string (x + 8) y cs color s)"

definition graphics_initialize_complete ::
    "graphics_firmware \<Rightarrow> gop option \<Rightarrow> screen \<times> frame_params \<Rightarrow> boot_status \<times> screen \<times> frame_params" where
  "graphics_initialize_complete fw found sp = (case sp of (s, params) \<Rightarrow>
     (case locate_graphics found s of (st, s) \<Rightarrow>
       if st \<noteq> BOOT_SUCCESS then (BOOT_SUCCESS, s, params)
       else (case graphics_find_best_mode fw s of (st, best) \<Rightarrow>
         let best = (if st \<noteq> BOOT_SUCCESS then 0 else best) in
         (case graphics_set_mode fw best s of (st, s) \<Rightarrow>
           if st \<noteq> BOOT_SUCCESS then (BOOT_SUCCESS, s, params)
           else (case graphics_get_framebuffer_info s params of (st, params) \<Rightarrow>
             let s = snd (graphics_clear_screen 0 s);
                 s = snd (graphics_draw_string 10 10 ''DOS25 UEFI Bootloader'' 0x00FFFFFF s)
             in (BOOT_SUCCESS, s, params))))))"

section \<open>Drawing\<close>

text \<open>A mode whose lines fit their pitch and whose frame has less than 4 GB.\<close>

definition sane_mode :: "mode_info \<Rightarrow> bool" where
  "sane_mode info \<longleftrightarrow> unat (h_res info) \<le> unat (scan_line info) \<and> 4 * unat (scan_line info) * unat (v_res info) < 2 ^ 32"

definition pixel_offset :: "mode_info \<Rightarrow> nat \<Rightarrow> nat \<Rightarrow> nat" where
  "pixel_offset info x y = 4 * (y * unat (scan_line info) + x)"

lemma pixel_addr_offset:
  assumes "sane_mode info" and "x < h_res info" and "y < v_res info"
  shows "pixel_addr base info x y = base + of_nat (pixel_offset info (unat x) (unat y))"
    and "pixel_offset info (unat x) (unat y) < 4 * unat (scan_line info) * unat (v_res info)"
proof -
  have "unat x < unat (scan_line info)" "Suc (unat y) \<le> unat (v_res info)"
    using assms by (auto simp: sane_mode_def word_less_nat_alt)
  then have "unat y * unat (scan_line info) + unat x < Suc (unat y) * unat (scan_line info)"
    "Suc (unat y) * unat (scan_line info) \<le> unat (v_res info) * unat (scan_line info)" by (simp, intro mult_right_mono) simp_all
  then have less: "unat y * unat (scan_line info) + unat x < unat (v_res info) * unat (scan_line info)" by linarith
  then show bound: "pixel_offset info (unat x) (unat y) < 4 * unat (scan_line info) * unat (v_res info)"
    by (simp add: pixel_offset_def ac_simps)
  then have "unat y * unat (scan_line info) * 4 < 2 ^ 32" "unat x * 4 < 2 ^ 32"
    using assms(1) by (auto simp: sane_mode_def pixel_offset_def)
  then have "unat (y * scan_line info * 4) = unat y * unat (scan_line info) * 4" "unat (x * 4) = unat x * 4"
    by (simp_all add: unat_word_ariths mod_simps)
  moreover have "(ucast w :: u64) = of_nat (unat w)" for w :: u32 by simp
  ultimately show "pixel_addr base info x y = base + of_nat (pixel_offset info (unat x) (unat y))"
    unfolding pixel_addr_def pixel_offset_def by (simp only: of_nat_add of_nat_mult ac_simps) (simp add: algebra_simps)
qed

definition on_screen :: "mode_info \<Rightarrow> u32 \<times> u32 \<Rightarrow> bool" where
  "on_screen info q \<longleftrightarrow> fst q < h_res info \<and> snd q < v_res info"

definition painted :: "u64 set \<Rightarrow> u32 \<Rightarrow> screen \<Rightarrow> screen" where
  "painted A color s = s\<lparr>pixels := \<lambda>a. if a \<in> A then Some color else pixels s a\<rparr>"

lemma painted_simps [simp]: "gGOP (painted A color s) = gGOP s" "gModeInfo (painted A color s) = gModeInfo s"
  "pixels (painted A color s) a = (if a \<in> A then Some color else pixels s a)" "painted {} color s = s"
  by (simp_all add: painted_def)

lemma painted_painted: "painted A color (painted B color s) = painted (A \<union> B) color s"
  by (simp add: painted_def fun_eq_iff)

text \<open>Points are drawn up to the first one that is not on the screen.\<close>

lemma draw_points_stops:
  assumes "gGOP s = Some g" and "gModeInfo s = Some info"
  shows "draw_points ps color s = (if list_all (on_screen info) ps then BOOT_SUCCESS else BOOT_ERROR,
    painted ((\<lambda>(x, y). pixel_addr (frame_base g) info x y) ` set (takeWhile (on_screen info) ps)) color s)"
  using assms
proof (induction ps color s rule: draw_points.induct)
  case (2 col row ps color s)
  show ?case
  proof (cases "on_screen info (col, row)")
    case True
    have pixel: "graphics_draw_pixel col row color s = (BOOT_SUCCESS, painted {pixel_addr (frame_base g) info col row} color s)"
      using True 2(2,3) by (auto simp: graphics_draw_pixel_def on_screen_def painted_def fun_eq_iff)
    show ?thesis using 2(1) [OF pixel [symmetric]] 2(2,3) True pixel by (simp add: painted_painted)
  next
    case False
    then have "graphics_draw_pixel col row color s = (BOOT_ERROR, s)"
      using 2(2,3) by (auto simp: graphics_draw_pixel_def on_screen_def)
    then show ?thesis using False by simp
  qed
qed simp

lemma unat_u32_bound: "unat (w :: u32) < 2 ^ 32"
  using unsigned_less [of w] by simp

lemma set_span: "set (span a n) = {w. a \<le> w \<and> w < a + n}"
proof -
  have "w \<in> set (span a n)" if "a \<le> w" "w < a + n" for w
    unfolding span_def using that
    by (auto simp: word_le_nat_alt word_less_nat_alt intro!: image_eqI [of _ _ "unat w"])
  moreover have "a \<le> w \<and> w < a + n" if w: "w \<in> set (span a n)" for w
  proof -
    obtain k where k: "unat a \<le> k" "k < unat (a + n)" "w = of_nat k" using w by (auto simp: span_def)
    then have "unat w = k" using unat_u32_bound [of "a + n"] by (simp add: unat_of_nat take_bit_eq_mod)
    with k show ?thesis by (simp add: word_le_nat_alt word_less_nat_alt)
  qed
  ultimately show ?thesis by blast
qed

lemma set_rect_points: "set (rect_points x y width height) = {w. x \<le> w \<and> w < x + width} \<times> {w. y \<le> w \<and> w < y + height}"
  by (auto simp: rect_points_def set_span)

lemma draw_rect_stops:
  assumes "gGOP s = Some g" and "gModeInfo s = Some info"
  shows "graphics_draw_rect x y width height color s = (if list_all (on_screen info) (rect_points x y width height) then BOOT_SUCCESS else BOOT_ERROR,
    painted ((\<lambda>(x, y). pixel_addr (frame_base g) info x y) ` set (takeWhile (on_screen info) (rect_points x y width height))) color s)"
  unfolding graphics_draw_rect_def by (rule draw_points_stops [OF assms])

text \<open>
  A rectangle that fits the screen is drawn, and exactly its pixels change: pixel (col, row) is the word at
  4 * (row * PixelsPerScanLine + col) from the frame's base.
\<close>

theorem draw_rect_exact:
  assumes "gGOP s = Some g" and "gModeInfo s = Some info" and "sane_mode info"
    and "unat x + unat width \<le> unat (h_res info)" and "unat y + unat height \<le> unat (v_res info)"
  shows "\<exists>s'. graphics_draw_rect x y width height color s = (BOOT_SUCCESS, s') \<and> gGOP s' = gGOP s \<and> gModeInfo s' = gModeInfo s \<and>
    pixels s' = (\<lambda>a. if \<exists>col \<in> {unat x..<unat x + unat width}. \<exists>row \<in> {unat y..<unat y + unat height}.
      a = frame_base g + of_nat (pixel_offset info col row) then Some color else pixels s a)"
proof -
  have nowrap: "unat (x + width) = unat x + unat width" "unat (y + height) = unat y + unat height"
    using assms(4,5) unat_u32_bound [of "h_res info"] unat_u32_bound [of "v_res info"]
    by (simp_all add: unat_word_ariths)
  let ?ps = "rect_points x y width height"
  have inside: "on_screen info q" if "q \<in> set ?ps" for q
    using that assms(4,5) nowrap by (auto simp: set_rect_points on_screen_def word_less_nat_alt)
  have all: "takeWhile (on_screen info) ?ps = ?ps" "list_all (on_screen info) ?ps"
    using inside by (auto simp: takeWhile_eq_all_conv list_all_iff)
  have addr: "a \<in> (\<lambda>(x, y). pixel_addr (frame_base g) info x y) ` set ?ps \<longleftrightarrow>
      (\<exists>col \<in> {unat x..<unat x + unat width}. \<exists>row \<in> {unat y..<unat y + unat height}.
        a = frame_base g + of_nat (pixel_offset info col row))" (is "?L \<longleftrightarrow> ?R") for a
  proof
    assume ?L
    then obtain u v where uv: "(u, v) \<in> set ?ps" "a = pixel_addr (frame_base g) info u v" by auto
    then have "unat u \<in> {unat x..<unat x + unat width}" "unat v \<in> {unat y..<unat y + unat height}"
      using nowrap by (auto simp: set_rect_points word_le_nat_alt word_less_nat_alt)
    moreover have "a = frame_base g + of_nat (pixel_offset info (unat u) (unat v))"
      using inside [OF uv(1)] uv(2) pixel_addr_offset(1) [OF assms(3)] by (simp add: on_screen_def)
    ultimately show ?R by blast
  next
    assume ?R
    then obtain col row where cr: "col \<in> {unat x..<unat x + unat width}" "row \<in> {unat y..<unat y + unat height}"
      "a = frame_base g + of_nat (pixel_offset info col row)" by blast
    have "col < 2 ^ 32" "row < 2 ^ 32"
      using cr assms(4,5) unat_u32_bound [of "h_res info"] unat_u32_bound [of "v_res info"] by auto
    then have u: "unat (of_nat col :: u32) = col" "unat (of_nat row :: u32) = row"
      by (simp_all add: unat_of_nat take_bit_eq_mod)
    then have mem: "(of_nat col, of_nat row) \<in> set ?ps" using cr nowrap
      by (simp add: set_rect_points word_le_nat_alt word_less_nat_alt)
    have "a = pixel_addr (frame_base g) info (of_nat col) (of_nat row)"
      using inside [OF mem] pixel_addr_offset(1) [OF assms(3)] cr(3) u by (simp add: on_screen_def)
    with mem show ?L by (intro image_eqI [of _ _ "(of_nat col, of_nat row)"]) auto
  qed
  show ?thesis
    unfolding draw_rect_stops [OF assms(1,2)] all(1) using all(2) by (simp add: painted_def addr)
qed

definition demo_screen :: screen where
  "demo_screen = \<lparr>gGOP = Some \<lparr>max_mode = 1, current_mode = 0, current_info = \<lparr>h_res = 640, v_res = 480, scan_line = 704\<rparr>, frame_base = 0xE0000000\<rparr>,
     gModeInfo = Some \<lparr>h_res = 640, v_res = 480, scan_line = 704\<rparr>, pixels = Map.empty\<rparr>"

theorem draw_rect_exact_witness:
  "\<exists>s'. graphics_draw_rect 638 478 2 2 7 demo_screen = (BOOT_SUCCESS, s') \<and>
    pixels s' (0xE0000000 + of_nat (4 * (479 * 704 + 639))) = Some 7"
proof -
  let ?info = "\<lparr>h_res = 640, v_res = 480, scan_line = 704\<rparr>"
  obtain s' where s': "graphics_draw_rect 638 478 2 2 7 demo_screen = (BOOT_SUCCESS, s')"
    "pixels s' = (\<lambda>a. if \<exists>col \<in> {unat (638 :: u32)..<unat (638 :: u32) + unat (2 :: u32)}. \<exists>row \<in> {unat (478 :: u32)..<unat (478 :: u32) + unat (2 :: u32)}.
      a = 0xE0000000 + of_nat (pixel_offset ?info col row) then Some 7 else pixels demo_screen a)"
    using draw_rect_exact [of demo_screen "\<lparr>max_mode = 1, current_mode = 0, current_info = ?info, frame_base = 0xE0000000\<rparr>" ?info 638 2 478 2 7]
    by (auto simp: demo_screen_def sane_mode_def)
  have "pixels s' (0xE0000000 + of_nat (4 * (479 * 704 + 639))) = Some 7"
  proof -
    have "\<exists>col \<in> {unat (638 :: u32)..<unat (638 :: u32) + unat (2 :: u32)}. \<exists>row \<in> {unat (478 :: u32)..<unat (478 :: u32) + unat (2 :: u32)}.
        0xE0000000 + of_nat (4 * (479 * 704 + 639)) = (0xE0000000 :: u64) + of_nat (pixel_offset ?info col row)"
      by (rule bexI [of _ 639], rule bexI [of _ 479]) (simp_all add: pixel_offset_def)
    then show ?thesis unfolding s'(2) by (simp only: if_True)
  qed
  with s'(1) show ?thesis by blast
qed

section \<open>All drawing stays in the frame\<close>

definition frame_words :: "u64 \<Rightarrow> mode_info \<Rightarrow> u64 set" where
  "frame_words base info = {base + of_nat (pixel_offset info col row) | col row. col < unat (h_res info) \<and> row < unat (v_res info)}"

definition draws_inside :: "screen \<Rightarrow> screen \<Rightarrow> bool" where
  "draws_inside s s' \<longleftrightarrow> gGOP s' = gGOP s \<and> gModeInfo s' = gModeInfo s \<and>
     (\<forall>g info. gGOP s = Some g \<longrightarrow> gModeInfo s = Some info \<longrightarrow> sane_mode info \<longrightarrow>
       (\<forall>a. pixels s' a \<noteq> pixels s a \<longrightarrow> a \<in> frame_words (frame_base g) info))"

lemma draws_inside_refl [simp]: "draws_inside s s"
  by (simp add: draws_inside_def)

lemma draws_inside_trans: "draws_inside s s1 \<Longrightarrow> draws_inside s1 s2 \<Longrightarrow> draws_inside s s2"
  unfolding draws_inside_def by metis

lemma draw_points_off: "gGOP s = None \<or> gModeInfo s = None \<Longrightarrow> snd (draw_points ps color s) = s"
  by (induction ps color s rule: draw_points.induct) (auto simp: graphics_draw_pixel_def split: option.splits)

lemma draw_rect_inside: "draws_inside s (snd (graphics_draw_rect x y width height color s))"
proof (cases "gGOP s = None \<or> gModeInfo s = None")
  case True
  then show ?thesis using draw_points_off by (simp add: graphics_draw_rect_def)
next
  case False
  then obtain g info where some: "gGOP s = Some g" "gModeInfo s = Some info" by auto
  have "a \<in> frame_words (frame_base g) info"
    if "(u, v) \<in> set (takeWhile (on_screen info) ps)" "a = pixel_addr (frame_base g) info u v" "sane_mode info" for u v a ps
  proof -
    have "u < h_res info" "v < v_res info" using set_takeWhileD [OF that(1)] by (auto simp: on_screen_def)
    then show ?thesis using that pixel_addr_offset(1) [OF that(3)] unfolding frame_words_def word_less_nat_alt by blast
  qed
  then show ?thesis unfolding draw_rect_stops [OF some] by (auto simp: draws_inside_def some split: if_splits)
qed

lemma draw_string_inside: "draws_inside s (snd (graphics_draw_string x y str color s))"
proof (induction x y str color s rule: graphics_draw_string.induct)
  case (2 x y c cs color s)
  obtain st s1 where one: "graphics_draw_char x y c color s = (st, s1)" by (metis prod.exhaust)
  have "draws_inside s s1" using draw_rect_inside [of s x y 8 8 color] one by (simp add: graphics_draw_char_def)
  then show ?case using 2 [OF one [symmetric]] one by (auto intro: draws_inside_trans)
qed simp

lemma clear_screen_inside: "draws_inside s (snd (graphics_clear_screen color s))"
  using draw_rect_inside by (auto simp: graphics_clear_screen_def split: option.splits)

text \<open>
  C32: Setting up the graphics writes nothing outside the pixels of the mode that is set, whatever the firmware offers, for every mode
  whose lines fit their pitch and whose frame has less than 4 GB.
\<close>

theorem graphics_stay_in_frame:
  assumes "graphics_initialize_complete fw found (s, params) = (st, s', params')"
    and "gGOP s' = Some g" and "gModeInfo s' = Some info" and "sane_mode info"
    and "pixels s' a \<noteq> pixels s a"
  shows "a \<in> frame_words (frame_base g) info"
proof -
  obtain best where best: "graphics_find_best_mode fw (s\<lparr>gGOP := found\<rparr>) = (BOOT_SUCCESS, best)"
    by (cases found) (auto simp: graphics_find_best_mode_def graphics_get_available_modes_def)
  obtain st1 s1 where mode: "graphics_set_mode fw best (s\<lparr>gGOP := found\<rparr>) = (st1, s1)" by (metis prod.exhaust)
  have "pixels s1 = pixels s" using mode by (auto simp: graphics_set_mode_def split: option.splits)
  moreover have "draws_inside s1 s'"
  proof (cases "st1 = BOOT_SUCCESS")
    case True
    then have "s' = snd (graphics_draw_string 10 10 ''DOS25 UEFI Bootloader'' 0x00FFFFFF (snd (graphics_clear_screen 0 s1)))"
      using assms(1) mode best
      by (simp add: graphics_initialize_complete_def locate_graphics_def Let_def del: graphics_draw_string.simps split: prod.splits)
    then show ?thesis by (simp only: draws_inside_trans [OF clear_screen_inside draw_string_inside])
  next
    case False
    then show ?thesis using assms(1) mode best by (simp add: graphics_initialize_complete_def locate_graphics_def Let_def)
  qed
  ultimately show ?thesis using assms(2-5) unfolding draws_inside_def by metis
qed

definition demo_firmware :: graphics_firmware where
  "demo_firmware = \<lparr>query_mode = (\<lambda>n. if n = 0 then None else Some \<lparr>h_res = 640, v_res = 480, scan_line = 704\<rparr>),
     set_mode = \<lambda>n g. Some (g\<lparr>current_mode := n, current_info := \<lparr>h_res = 2, v_res = 1, scan_line = 4\<rparr>\<rparr>)\<rparr>"

definition no_frame :: frame_params where
  "no_frame = \<lparr>framebuffer_addr = 0, framebuffer_width = 0, framebuffer_height = 0, framebuffer_pitch = 0, framebuffer_bpp = 0\<rparr>"

theorem graphics_stay_in_frame_witness:
  "\<exists>s' params'. graphics_initialize_complete demo_firmware (gGOP demo_screen) (demo_screen, no_frame) = (BOOT_SUCCESS, s', params') \<and>
    (\<forall>a. a \<notin> frame_words 0xE0000000 \<lparr>h_res = 2, v_res = 1, scan_line = 4\<rparr> \<longrightarrow> pixels s' a = None)"
proof -
  obtain st s' params' where run: "graphics_initialize_complete demo_firmware (gGOP demo_screen) (demo_screen, no_frame) = (st, s', params')"
    by (metis prod.exhaust)
  obtain best where best: "graphics_find_best_mode demo_firmware demo_screen = (BOOT_SUCCESS, best)"
    by (auto simp: graphics_find_best_mode_def graphics_get_available_modes_def demo_screen_def)
  let ?g = "\<lparr>max_mode = 1, current_mode = best, current_info = \<lparr>h_res = 2, v_res = 1, scan_line = 4\<rparr>, frame_base = 0xE0000000\<rparr>"
  let ?s = "demo_screen\<lparr>gGOP := Some ?g, gModeInfo := Some (current_info ?g)\<rparr>"
  have same: "demo_screen\<lparr>gGOP := gGOP demo_screen\<rparr> = demo_screen" by simp
  have set: "graphics_set_mode demo_firmware best demo_screen = (BOOT_SUCCESS, ?s)"
    by (simp add: graphics_set_mode_def demo_screen_def demo_firmware_def)
  have s': "s' = snd (graphics_draw_string 10 10 ''DOS25 UEFI Bootloader'' 0x00FFFFFF (snd (graphics_clear_screen 0 ?s)))"
    "st = BOOT_SUCCESS" using run
    by (simp_all add: graphics_initialize_complete_def locate_graphics_def same best set Let_def del: graphics_draw_string.simps split: prod.splits)
  have "draws_inside ?s s'" unfolding s'(1) by (rule draws_inside_trans [OF clear_screen_inside draw_string_inside])
  then have mode: "gGOP s' = Some ?g" "gModeInfo s' = Some \<lparr>h_res = 2, v_res = 1, scan_line = 4\<rparr>"
    by (simp_all add: draws_inside_def)
  have "a \<in> frame_words 0xE0000000 \<lparr>h_res = 2, v_res = 1, scan_line = 4\<rparr>" if "pixels s' a \<noteq> pixels demo_screen a" for a
    using graphics_stay_in_frame [OF run mode _ that] by (simp add: sane_mode_def)
  moreover have "pixels demo_screen a = None" for a by (simp add: demo_screen_def)
  ultimately have "pixels s' a = None" if "a \<notin> frame_words 0xE0000000 \<lparr>h_res = 2, v_res = 1, scan_line = 4\<rparr>" for a
    using that by metis
  with run s'(2) show ?thesis by blast
qed

section \<open>The choice of a mode\<close>

definition rank :: "mode_info \<Rightarrow> nat" where
  "rank info = (if h_res info = 1024 \<and> v_res info = 768 then 0 else if h_res info = 800 \<and> v_res info = 600 then 1
     else if h_res info = 640 \<and> v_res info = 480 then 2 else 3)"

lemma find_mode:
  fixes n :: u32
  shows "case find P (map of_nat [0..<unat n]) of None \<Rightarrow> \<forall>j<n. \<not> P j | Some m \<Rightarrow> m < n \<and> P m \<and> (\<forall>j<m. \<not> P j)"
proof (cases "find P (map of_nat [0..<unat n])")
  case None
  then have "\<not> P j" if "j < n" for j
    using that unfolding find_None_iff by (auto simp: word_less_nat_alt dest: bspec [of _ _ "unat j"])
  then show ?thesis using None by simp
next
  case (Some m)
  then obtain i where i: "i < unat n" "P (of_nat i)" "m = of_nat i" "\<forall>j<i. \<not> P (of_nat j)"
    unfolding find_Some_iff by auto
  have m: "unat m = i" using i(1,3) unat_u32_bound [of n] by (simp add: unat_of_nat take_bit_eq_mod)
  have "\<not> P j" if "j < m" for j using i(4) [rule_format, of "unat j"] that m by (simp add: word_less_nat_alt)
  then show ?thesis using Some i m by (simp add: word_less_nat_alt)
qed

text \<open>
  The mode that is chosen is the best one there is: 1024x768 before 800x600 before 640x480 before any other, and the first
  among equals, of the modes that the firmware can describe.
\<close>

theorem best_mode_preferred:
  assumes "gGOP s = Some g" and "i < max_mode g" and "query_mode fw i = Some info"
  shows "\<exists>m info'. graphics_find_best_mode fw s = (BOOT_SUCCESS, m) \<and> m < max_mode g \<and> query_mode fw m = Some info' \<and>
    (rank info' < rank info \<or> rank info' = rank info \<and> m \<le> i)"
proof -
  let ?modes = "map of_nat [0..<unat (max_mode g)]"
  let ?find = "\<lambda>p. find (mode_fits fw s p) ?modes"
  have fits: "mode_fits fw s p j \<longleftrightarrow> (\<exists>info. query_mode fw j = Some info \<and> preferred p info)" for p j
    using assms(1) by (auto simp: mode_fits_def graphics_query_mode_def split: option.splits)
  have ranks: "preferred (1024, 768) x \<longleftrightarrow> rank x = 0" "preferred (800, 600) x \<longleftrightarrow> rank x = 1"
    "preferred (640, 480) x \<longleftrightarrow> rank x = 2" "preferred (0, 0) x" for x
    by (auto simp: preferred_def rank_def)
  note found = find_mode [of "max_mode g" "mode_fits fw s (1024, 768)"] find_mode [of "max_mode g" "mode_fits fw s (800, 600)"]
    find_mode [of "max_mode g" "mode_fits fw s (640, 480)"] find_mode [of "max_mode g" "mode_fits fw s (0, 0)"]
  have result: "graphics_find_best_mode fw s = (BOOT_SUCCESS, case ?find (1024, 768) of Some m \<Rightarrow> m | None \<Rightarrow>
      (case ?find (800, 600) of Some m \<Rightarrow> m | None \<Rightarrow> (case ?find (640, 480) of Some m \<Rightarrow> m | None \<Rightarrow>
      (case ?find (0, 0) of Some m \<Rightarrow> m | None \<Rightarrow> current_mode g))))"
    using assms(1) by (simp add: graphics_find_best_mode_def graphics_get_available_modes_def preferences_def split: option.split)
  have pick: ?thesis if m: "graphics_find_best_mode fw s = (BOOT_SUCCESS, m)" "m < max_mode g" "query_mode fw m = Some x"
      "rank x \<le> rank info" "rank x = rank info \<Longrightarrow> \<not> i < m" for m x
    using m by (intro exI [of _ m] exI [of _ x]) (auto simp: not_less)
  show ?thesis
  proof (cases "?find (1024, 768)")
    case (Some m)
    then obtain x where "m < max_mode g" "query_mode fw m = Some x" "rank x = 0" "rank info = 0 \<Longrightarrow> \<not> i < m"
      using found(1) [unfolded Some option.case] assms(3) by (fastforce simp: fits ranks)
    then show ?thesis using pick [of m x] result Some by simp
  next
    case none0: None
    then have r0: "rank info \<noteq> 0" using found(1) [unfolded none0 option.case] assms by (auto simp: fits ranks)
    show ?thesis
    proof (cases "?find (800, 600)")
      case (Some m)
      then obtain x where "m < max_mode g" "query_mode fw m = Some x" "rank x = 1" "rank info = 1 \<Longrightarrow> \<not> i < m"
        using found(2) [unfolded Some option.case] assms(3) by (fastforce simp: fits ranks)
      then show ?thesis using pick [of m x] result none0 Some r0 by simp
    next
      case none1: None
      then have r1: "rank info \<noteq> 1" using found(2) [unfolded none1 option.case] assms by (auto simp: fits ranks)
      show ?thesis
      proof (cases "?find (640, 480)")
        case (Some m)
        then obtain x where "m < max_mode g" "query_mode fw m = Some x" "rank x = 2" "rank info = 2 \<Longrightarrow> \<not> i < m"
          using found(3) [unfolded Some option.case] assms(3) by (fastforce simp: fits ranks)
        then show ?thesis using pick [of m x] result none0 none1 Some r0 r1 by simp
      next
        case none2: None
        then have "rank info \<noteq> 2" using found(3) [unfolded none2 option.case] assms by (auto simp: fits ranks)
        then have "rank info = 3" using r0 r1 by (auto simp: rank_def split: if_splits)
        obtain m where Some: "?find (0, 0) = Some m" using found(4) assms(2,3) by (cases "?find (0, 0)") (auto simp: fits ranks)
        then obtain x where "m < max_mode g" "query_mode fw m = Some x" "\<not> i < m" using found(4) [unfolded Some option.case] assms(3) by (fastforce simp: fits ranks)
        moreover have "rank x \<le> 3" for x by (simp add: rank_def)
        ultimately show ?thesis using pick [of m x] result none0 none1 none2 Some \<open>rank info = 3\<close> by simp
      qed
    qed
  qed
qed

theorem best_mode_preferred_witness:
  "\<exists>m. graphics_find_best_mode (demo_firmware\<lparr>query_mode := (\<lambda>n. if n = 3 then Some \<lparr>h_res = 1024, v_res = 768, scan_line = 1024\<rparr>
      else Some \<lparr>h_res = 640, v_res = 480, scan_line = 640\<rparr>)\<rparr>)
    (demo_screen\<lparr>gGOP := Some \<lparr>max_mode = 5, current_mode = 0, current_info = \<lparr>h_res = 640, v_res = 480, scan_line = 704\<rparr>, frame_base = 0\<rparr>\<rparr>)
    = (BOOT_SUCCESS, m) \<and> m \<le> 3"
proof -
  let ?fw = "demo_firmware\<lparr>query_mode := (\<lambda>n. if n = 3 then Some \<lparr>h_res = 1024, v_res = 768, scan_line = 1024\<rparr>
      else Some \<lparr>h_res = 640, v_res = 480, scan_line = 640\<rparr>)\<rparr>"
  let ?g = "\<lparr>max_mode = 5, current_mode = 0, current_info = \<lparr>h_res = 640, v_res = 480, scan_line = 704\<rparr>, frame_base = 0\<rparr>"
  obtain m info' where m: "graphics_find_best_mode ?fw (demo_screen\<lparr>gGOP := Some ?g\<rparr>) = (BOOT_SUCCESS, m)"
    "rank info' < 0 \<or> rank info' = 0 \<and> m \<le> 3"
    using best_mode_preferred [where s = "demo_screen\<lparr>gGOP := Some ?g\<rparr>" and g = ?g and i = 3 and fw = ?fw
        and info = "\<lparr>h_res = 1024, v_res = 768, scan_line = 1024\<rparr>"]
    by (auto simp: rank_def)
  then show ?thesis by blast
qed

text \<open>The pitch is computed from the width of the mode, not from the length of its lines in memory.\<close>

lemma framebuffer_pitch_ignores_lines:
  assumes "gGOP s = Some g" and "gModeInfo s = Some info"
  shows "framebuffer_pitch (snd (graphics_get_framebuffer_info s params)) = 4 * h_res info"
  using assms by (simp add: graphics_get_framebuffer_info_def)

end
