(* ===== verification/Dos25_Disk.thy ===== *)
theory Dos25_Disk
  imports Bytes
begin

text \<open>
  The tool for disk images of the boot loader: dos25/tools/dos25-disk.c. Files are a map from names to
  bytes. What the host decides is a parameter: whether a file can be created, whether an allocation
  succeeds, and what fresh memory holds. \<open>None\<close> stands for undefined behaviour, and for copying a file onto
  itself. The messages of the tool are left out.
\<close>

section \<open>Images\<close>

type_synonym files = "string \<rightharpoonup> u8 list"

record host =
  creatable :: "string \<Rightarrow> bool"
  can_alloc :: "nat \<Rightarrow> bool"
  fresh :: "nat \<Rightarrow> u8"

record dsf_header =
  signature :: "u8 list"
  dsf_version :: u32
  total_size :: u32
  boot_offset :: u32
  boot_size :: u32
  kernel_offset :: u32
  kernel_size :: u32
  checksum :: u32

definition sizeof_dsf :: nat where "sizeof_dsf = 32"

definition dsf_bytes :: "dsf_header \<Rightarrow> u8 list" where
  "dsf_bytes h = signature h @ concat (map (\<lambda>w. le_enc 4 (unat w))
     [dsf_version h, total_size h, boot_offset h, boot_size h, kernel_offset h, kernel_size h, checksum h])"

definition dsf_of_bytes :: "u8 list \<Rightarrow> dsf_header" where
  "dsf_of_bytes bs = \<lparr>signature = take 4 bs, dsf_version = of_nat (field 4 4 bs), total_size = of_nat (field 8 4 bs),
     boot_offset = of_nat (field 12 4 bs), boot_size = of_nat (field 16 4 bs), kernel_offset = of_nat (field 20 4 bs),
     kernel_size = of_nat (field 24 4 bs), checksum = of_nat (field 28 4 bs)\<rparr>"

definition calculate_checksum :: "u8 list \<Rightarrow> u32" where
  "calculate_checksum data = foldl (\<lambda>sum b. push_bit 3 sum XOR ucast b) 0 data"

section \<open>The operations\<close>

definition new_header :: "u8 list \<Rightarrow> u8 list \<Rightarrow> dsf_header" where
  "new_header boot kern = \<lparr>signature = [68, 83, 70, 0], dsf_version = 1,
     total_size = of_nat (sizeof_dsf + unat (of_nat (length boot) :: u32) + unat (of_nat (length kern) :: u32)),
     boot_offset = of_nat sizeof_dsf, boot_size = of_nat (length boot),
     kernel_offset = of_nat (sizeof_dsf + 512), kernel_size = of_nat (length kern), checksum = 0\<rparr>"

text \<open>
  The output is opened for writing only, so that the read into the fresh memory \<open>file_data\<close> fails and leaves
  the memory as it is.
\<close>

definition create_dsf_image :: "host \<Rightarrow> string \<Rightarrow> string \<Rightarrow> string \<Rightarrow> files \<Rightarrow> (int \<times> files) option" where
  "create_dsf_image os output_path boot_bin kernel_bin fs = (case (fs boot_bin, fs kernel_bin) of
     (Some boot, Some kern) \<Rightarrow>
       (let header = new_header boot kern in
        if \<not> creatable os output_path then Some (-1, fs)
        else if output_path = boot_bin \<or> output_path = kernel_bin then None
        else if \<not> can_alloc os (unat (total_size header)) then
          Some (-1, fs(output_path \<mapsto> dsf_bytes header @ boot @ kern))
        else if unat (total_size header) < 4 then None
        else (let file_data = malloc (fresh os) (unat (total_size header));
                  header = header\<lparr>checksum := calculate_checksum (drop 4 file_data)\<rparr>
          in Some (0, fs(output_path \<mapsto> dsf_bytes header @ boot @ kern))))
   | _ \<Rightarrow> Some (-1, fs))"

definition verify_dsf_image :: "host \<Rightarrow> string \<Rightarrow> files \<Rightarrow> int" where
  "verify_dsf_image os dsf_path fs = (case fs dsf_path of
     None \<Rightarrow> -1
   | Some file \<Rightarrow>
       (let header = dsf_of_bytes file in
        if length file < sizeof_dsf then -1
        else if take 3 (signature header) \<noteq> [68, 83, 70] then -1
        else if length file \<noteq> unat (total_size header) then -1
        else if \<not> can_alloc os (unat (total_size header)) then -1
        else if calculate_checksum (drop 4 file) \<noteq> checksum header then -1
        else 0))"

text \<open>
  A part of the file is read into fresh memory of its stated size, and all of that memory is written to the
  output; an output with an empty name, or none, is not written.
\<close>

definition extract_part :: "host \<Rightarrow> u8 list \<Rightarrow> u32 \<Rightarrow> u32 \<Rightarrow> string option \<Rightarrow> files \<Rightarrow> int \<times> files" where
  "extract_part os file off n output fs = (case output of
     None \<Rightarrow> (0, fs)
   | Some out \<Rightarrow>
       (if out = '''' then (0, fs)
        else if \<not> creatable os out then (-1, fs)
        else if \<not> can_alloc os (unat n) then (-1, fs(out \<mapsto> []))
        else (let got = take (unat n) (drop (unat off) file) in
          (0, fs(out \<mapsto> got @ drop (length got) (malloc (fresh os) (unat n)))))))"

definition extract_dsf_image ::
    "host \<Rightarrow> string \<Rightarrow> string option \<Rightarrow> string option \<Rightarrow> files \<Rightarrow> (int \<times> files) option" where
  "extract_dsf_image os dsf_path boot_output kernel_output fs = (case fs dsf_path of
     None \<Rightarrow> Some (-1, fs)
   | Some file \<Rightarrow>
       (let header = dsf_of_bytes file in
        if length file < sizeof_dsf then Some (-1, fs)
        else if creatable os dsf_path \<and> (boot_output = Some dsf_path \<or> kernel_output = Some dsf_path) then None
        else (case extract_part os file (boot_offset header) (boot_size header) boot_output fs of (rc, fs) \<Rightarrow>
          if rc \<noteq> 0 then Some (-1, fs)
          else Some (extract_part os file (kernel_offset header) (kernel_size header) kernel_output fs))))"

definition disk_main :: "host \<Rightarrow> string list \<Rightarrow> files \<Rightarrow> (int \<times> files) option" where
  "disk_main os argv fs =
     (if length argv < 2 then Some (1, fs)
      else if argv ! 1 = ''create'' \<and> length argv = 5 then create_dsf_image os (argv ! 2) (argv ! 3) (argv ! 4) fs
      else if argv ! 1 = ''verify'' \<and> length argv = 3 then Some (verify_dsf_image os (argv ! 2) fs, fs)
      else if argv ! 1 = ''extract'' \<and> length argv \<ge> 3 then
        extract_dsf_image os (argv ! 2) (if length argv > 3 then Some (argv ! 3) else None)
          (if length argv > 4 then Some (argv ! 4) else None) fs
      else Some (1, fs))"

section \<open>Headers\<close>

lemma dsf_header_round_trip: "length (signature h) = 4 \<Longrightarrow> dsf_of_bytes (dsf_bytes h @ rs) = h"
  by (simp add: dsf_of_bytes_def dsf_bytes_def mod_word del: power_numeral)

lemma length_dsf_bytes: "length (signature h) = 4 \<Longrightarrow> length (dsf_bytes h) = 32"
  by (simp add: dsf_bytes_def)

section \<open>The checksum\<close>

lemma checksum_step:
  "foldl (\<lambda>sum b. push_bit 3 sum XOR ucast (b :: u8)) (s :: u32) ys =
   push_bit (3 * length ys) s XOR foldl (\<lambda>sum b. push_bit 3 sum XOR ucast b) 0 ys"
proof (induction ys arbitrary: s)
  case (Cons y ys)
  have "foldl (\<lambda>sum b. push_bit 3 sum XOR ucast (b :: u8)) s (y # ys) =
      push_bit (3 * length ys) (push_bit 3 s XOR ucast y) XOR foldl (\<lambda>sum b. push_bit 3 sum XOR ucast b) 0 ys"
    using Cons [of "push_bit 3 s XOR ucast y"] by simp
  moreover have "foldl (\<lambda>sum b. push_bit 3 sum XOR ucast (b :: u8)) (0 :: u32) (y # ys) =
      push_bit (3 * length ys) (ucast y) XOR foldl (\<lambda>sum b. push_bit 3 sum XOR ucast b) 0 ys"
    using Cons [of "ucast y"] by simp
  ultimately show ?case by (simp add: push_bit_xor xor.assoc ac_simps)
qed simp

lemma checksum_suffix:
  assumes "11 \<le> length ys"
  shows "calculate_checksum (xs @ ys) = calculate_checksum ys"
proof -
  have "push_bit (3 * length ys) s = 0" for s :: u32
    by (rule bit_word_eqI) (use assms in \<open>auto simp: bit_push_bit_iff\<close>)
  then show ?thesis
    using checksum_step [of "calculate_checksum xs" ys] by (simp add: calculate_checksum_def)
qed

lemma checksum_last: "11 \<le> length xs \<Longrightarrow> calculate_checksum xs = calculate_checksum (drop (length xs - 11) xs)"
  using checksum_suffix [of "drop (length xs - 11) xs" "take (length xs - 11) xs"] by simp

text \<open>
  C34: The checksum of an image depends on its last 11 bytes only: a verified image still verifies
  after any change of the bytes between its header and those.
\<close>

theorem dsf_corruption_undetected:
  assumes "verify_dsf_image os p fs = 0" and "fs p = Some f" and "length f' = length f"
    and "take 32 f' = take 32 f" and "drop (length f - 11) f' = drop (length f - 11) f"
  shows "verify_dsf_image os p (fs(p \<mapsto> f')) = 0"
proof -
  have long: "32 \<le> length f" using assms(1,2) by (auto simp: verify_dsf_image_def Let_def sizeof_dsf_def split: if_splits)
  have "field a k f' = field a k f" if "a + k \<le> 32" for a k
  proof -
    have "take k (drop a (take 32 xs)) = take k (drop a xs)" for xs :: "u8 list" using that by (simp add: drop_take min_def)
    then show ?thesis unfolding field_def by (metis assms(4))
  qed
  moreover have "take 4 f' = take 4 f" using arg_cong [OF assms(4), of "take 4"] by simp
  ultimately have header: "dsf_of_bytes f' = dsf_of_bytes f" by (simp add: dsf_of_bytes_def)
  have "calculate_checksum (drop 4 f') = calculate_checksum (drop 4 f)"
    using checksum_last [of "drop 4 f'"] checksum_last [of "drop 4 f"] long assms(3,5) by simp
  with assms(1-3) header show ?thesis by (simp add: verify_dsf_image_def Let_def split: if_splits)
qed

definition sealed_header :: dsf_header where
  "sealed_header = \<lparr>signature = [68, 83, 70, 0], dsf_version = 1, total_size = 52, boot_offset = 32, boot_size = 4,
     kernel_offset = 544, kernel_size = 16, checksum = calculate_checksum (replicate 16 7)\<rparr>"

definition sealed_image :: "u8 list" where
  "sealed_image = dsf_bytes sealed_header @ [1, 2, 3, 4] @ replicate 16 7"

theorem dsf_corruption_undetected_witness:
  "verify_dsf_image \<lparr>creatable = \<lambda>_. True, can_alloc = \<lambda>_. True, fresh = \<lambda>_. 0\<rparr> ''o''
     ([''o'' \<mapsto> sealed_image](''o'' \<mapsto> sealed_image[32 := 99, 33 := 98])) = 0"
proof (rule dsf_corruption_undetected)
  have sig: "length (signature sealed_header) = 4" by (simp add: sealed_header_def)
  have len: "length (dsf_bytes sealed_header) = 32" using length_dsf_bytes [OF sig] .
  have size: "length sealed_image = 52" by (simp add: sealed_image_def len)
  have "calculate_checksum (drop 4 sealed_image) = calculate_checksum (replicate 16 7)"
    using checksum_suffix [of "replicate 16 7" "drop 4 (dsf_bytes sealed_header) @ [1, 2, 3, 4]"] len
    by (simp add: sealed_image_def)
  moreover have "dsf_of_bytes sealed_image = sealed_header" unfolding sealed_image_def by (rule dsf_header_round_trip [OF sig])
  ultimately show "verify_dsf_image \<lparr>creatable = \<lambda>_. True, can_alloc = \<lambda>_. True, fresh = \<lambda>_. 0\<rparr> ''o'' [''o'' \<mapsto> sealed_image] = 0"
    by (simp add: verify_dsf_image_def Let_def size sizeof_dsf_def) (simp add: sealed_header_def)
  show "[''o'' \<mapsto> sealed_image] ''o'' = Some sealed_image" by simp
  show "length (sealed_image[32 := 99, 33 := 98]) = length sealed_image" by simp
  show "take 32 (sealed_image[32 := 99, 33 := 98]) = take 32 sealed_image" by simp
  show "drop (length sealed_image - 11) (sealed_image[32 := 99, 33 := 98]) = drop (length sealed_image - 11) sealed_image"
    by (simp add: size drop_update_swap del: drop_append)
qed

lemma new_header_fields:
  assumes "32 + length boot + length kern < 2 ^ 32"
  shows "unat (total_size (new_header boot kern)) = 32 + length boot + length kern"
    and "unat (boot_size (new_header boot kern)) = length boot" and "unat (kernel_size (new_header boot kern)) = length kern"
    and "unat (boot_offset (new_header boot kern)) = 32" and "unat (kernel_offset (new_header boot kern)) = 544"
proof -
  have small: "unat (of_nat n :: u32) = n" if "n < 2 ^ 32" for n using that by (simp add: unat_of_nat take_bit_eq_mod)
  have "unat (of_nat (length boot) :: u32) = length boot" "unat (of_nat (length kern) :: u32) = length kern"
    by (rule small, use assms in linarith)+
  moreover from this have "unat (of_nat (32 + unat (of_nat (length boot) :: u32) + unat (of_nat (length kern) :: u32)) :: u32) =
      32 + length boot + length kern" using small [OF assms] by simp
  ultimately show "unat (total_size (new_header boot kern)) = 32 + length boot + length kern"
    and "unat (boot_size (new_header boot kern)) = length boot" and "unat (kernel_size (new_header boot kern)) = length kern"
    and "unat (boot_offset (new_header boot kern)) = 32" and "unat (kernel_offset (new_header boot kern)) = 544"
    by (simp_all add: new_header_def sizeof_dsf_def del: of_nat_add)
qed

text \<open>The image that is created, and what fresh memory contributes to it.\<close>

lemma created_image:
  assumes "fs b = Some boot" and "fs k = Some kern" and "32 + length boot + length kern < 2 ^ 32"
    and "create_dsf_image os out b k fs = Some (0, fs')"
  shows "can_alloc os (32 + length boot + length kern)" and "fs' = fs(out \<mapsto> dsf_bytes ((new_header boot kern)
      \<lparr>checksum := calculate_checksum (drop 4 (malloc (fresh os) (32 + length boot + length kern)))\<rparr>) @ boot @ kern)"
  using assms new_header_fields(1) [OF assms(3)]
  by (auto simp: create_dsf_image_def Let_def split: if_splits)

lemma created_succeeds:
  assumes "fs b = Some boot" and "fs k = Some kern" and "32 + length boot + length kern < 2 ^ 32"
    and "creatable os out" and "can_alloc os (32 + length boot + length kern)" and "out \<noteq> b" and "out \<noteq> k"
  shows "\<exists>fs'. create_dsf_image os out b k fs = Some (0, fs')"
  using assms new_header_fields(1) [OF assms(3)] by (simp add: create_dsf_image_def Let_def)

text \<open>
  A new image verifies only by chance: its checksum is computed over memory that was never
  filled, and it verifies exactly when the last 11 bytes of that memory happen to have the checksum of the last
  11 bytes of the image.
\<close>

theorem dsf_created_verifies_iff:
  assumes "fs b = Some boot" and "fs k = Some kern" and "32 + length boot + length kern < 2 ^ 32" and "11 \<le> length boot + length kern"
    and "create_dsf_image os out b k fs = Some (0, fs')"
  shows "verify_dsf_image os out fs' = 0 \<longleftrightarrow>
    calculate_checksum (map (fresh os) [21 + length boot + length kern..<32 + length boot + length kern]) =
    calculate_checksum (drop (length boot + length kern - 11) (boot @ kern))"
proof -
  define n where "n = length boot + length kern"
  define c where "c = calculate_checksum (map (fresh os) [21 + n..<32 + n])"
  define h where "h = (new_header boot kern)\<lparr>checksum := c\<rparr>"
  have "calculate_checksum (drop 4 (malloc (fresh os) (32 + n))) = c"
    using checksum_last [of "drop 4 (malloc (fresh os) (32 + n))"] assms(4) by (simp add: malloc_def drop_map c_def n_def)
  then have fs': "fs' = fs(out \<mapsto> dsf_bytes h @ boot @ kern)" and mem: "can_alloc os (32 + n)"
    using created_image [OF assms(1-3,5)] by (simp_all add: h_def n_def add.assoc)
  have sig: "length (signature h) = 4" "take 3 (signature h) = [68, 83, 70]" by (simp_all add: h_def new_header_def)
  have len: "length (dsf_bytes h) = 32" using length_dsf_bytes [OF sig(1)] .
  have "unat (total_size h) = 32 + n" "checksum h = c" using new_header_fields(1) [OF assms(3)] by (simp_all add: h_def n_def)
  moreover have "calculate_checksum (drop 4 (dsf_bytes h @ boot @ kern)) = calculate_checksum (drop (n - 11) (boot @ kern))"
    using checksum_last [of "drop 4 (dsf_bytes h @ boot @ kern)"] assms(4) len by (simp add: n_def)
  ultimately have verify: "verify_dsf_image os out fs' = 0 \<longleftrightarrow> calculate_checksum (drop (n - 11) (boot @ kern)) = c"
    using fs' mem sig len n_def
    by (simp add: verify_dsf_image_def Let_def dsf_header_round_trip [OF sig(1)] sizeof_dsf_def del: drop_append)
  have "calculate_checksum (map (fresh os) [21 + length boot + length kern..<32 + length boot + length kern]) = c"
    by (simp add: c_def n_def add.assoc)
  then show ?thesis unfolding verify n_def by (metis (no_types))
qed

definition any_host :: host where
  "any_host = \<lparr>creatable = \<lambda>_. True, can_alloc = \<lambda>_. True, fresh = \<lambda>i. of_nat i\<rparr>"

theorem dsf_created_verifies_iff_witness:
  "\<exists>fs'. create_dsf_image any_host ''o'' ''b'' ''k'' [''b'' \<mapsto> [1, 2, 3, 4, 5, 6, 7, 8], ''k'' \<mapsto> [9, 10, 11, 12]] = Some (0, fs') \<and>
     verify_dsf_image any_host ''o'' fs' \<noteq> 0"
proof -
  let ?fs = "[''b'' \<mapsto> [1, 2, 3, 4, 5, 6, 7, 8 :: u8], ''k'' \<mapsto> [9, 10, 11, 12]]"
  obtain fs' where made: "create_dsf_image any_host ''o'' ''b'' ''k'' ?fs = Some (0, fs')"
    using created_succeeds [of ?fs "''b''" "[1, 2, 3, 4, 5, 6, 7, 8]" "''k''" "[9, 10, 11, 12]" any_host "''o''"]
    by (auto simp: any_host_def)
  have "calculate_checksum (map (fresh any_host) [33..<44]) \<noteq> calculate_checksum [2, 3, 4, 5, 6, 7, 8, 9, 10, 11, 12]"
    by code_simp
  then have "verify_dsf_image any_host ''o'' fs' \<noteq> 0"
    using dsf_created_verifies_iff [OF _ _ _ _ made, of "[1, 2, 3, 4, 5, 6, 7, 8]" "[9, 10, 11, 12]"] by simp
  then show ?thesis using made by blast
qed

lemma extracted_part:
  assumes "creatable os out" and "out \<noteq> ''''" and "can_alloc os (unat n)"
  shows "extract_part os file off n (Some out) fs =
    (0, fs(out \<mapsto> take (unat n) (drop (unat off) file) @
       drop (length (take (unat n) (drop (unat off) file))) (malloc (fresh os) (unat n))))"
  using assms by (simp add: extract_part_def Let_def)



end
