(* ===== verification/Init_Service.thy ===== *)
theory Init_Service
  imports Interfaces Bytes
begin

text \<open>
  The init service as a program of its own, init-service/src: the service table and the messages
  that it handles (init.c), and the start-up screens (boot_animation.c, boot_splash.c,
  pure_animation.c). The system calls are external: what the service sends is a list of calls, and
  what it receives is given. A screen function is the list of its writes to the text buffer, a
  position and a cell each; delays are left out.
\<close>

section \<open>The service table (init.c)\<close>

definition INIT_SERVICES :: nat where "INIT_SERVICES = 16"
definition MSG_REGISTER :: u32 where "MSG_REGISTER = 1"
definition MSG_LOOKUP :: u32 where "MSG_LOOKUP = 2"
definition MSG_START :: u32 where "MSG_START = 3"

record service =
  sv_id :: u32
  provider_process :: u32
  sv_name :: "u8 list"
  capabilities :: u32

record init_state =
  services :: "service list"
  service_count :: nat

text \<open>A call of \<open>ipc_send_msg_msg\<close>: type, flags, receiver and the bytes of the data.\<close>

record sent_call =
  c_type :: u32
  c_flags :: u32
  c_receiver :: u32
  c_data :: "u8 list"

record init_message =
  i_type :: u32
  sender_pid :: u32
  i_data :: "u8 list"

text \<open>The first 31 characters of a name and a null, over what the field held.\<close>

definition copy_name :: "u8 list \<Rightarrow> u8 list \<Rightarrow> u8 list" where
  "copy_name name old = (let s = take 31 (takeWhile (\<lambda>c. c \<noteq> 0) name) in overwrite old 0 (s @ [0]))"

definition register_service :: "u32 \<Rightarrow> u32 \<Rightarrow> u8 list \<Rightarrow> init_state \<Rightarrow> int \<times> init_state" where
  "register_service sid process name s =
     (if service_count s \<ge> INIT_SERVICES then (-1, s)
      else (let e = services s ! service_count s;
                e = e\<lparr>sv_id := sid, provider_process := process, capabilities := 0, sv_name := copy_name name (sv_name e)\<rparr>
            in (0, s\<lparr>services := (services s)[service_count s := e], service_count := service_count s + 1\<rparr>)))"

definition ascii :: "string \<Rightarrow> u8 list" where
  "ascii s = map of_char s"

text \<open>\<open>data\<close> is what the message's data field holds when the function is called.\<close>

definition start_service :: "u32 \<Rightarrow> string \<Rightarrow> u8 list \<times> sent_call list \<times> init_state \<Rightarrow> u8 list \<times> sent_call list \<times> init_state" where
  "start_service sid name = (\<lambda>(data, calls, s).
     (let data = data[0 := ucast sid];
          call = \<lparr>c_type = MSG_START, c_flags = 0, c_receiver = sid, c_data = take 4 data\<rparr>
      in (data, calls @ [call], snd (register_service sid sid (ascii name @ [0]) s))))"

definition start_core_services :: "u8 list \<Rightarrow> init_state \<Rightarrow> sent_call list \<times> init_state" where
  "start_core_services data s =
     snd (start_service 5 ''shell'' (start_service 4 ''file_system'' (start_service 3 ''keyboard_input''
       (start_service 2 ''vga_display'' (start_service 1 ''memory_manager'' (data, [], s))))))"

text \<open>The number at the start of the data, and the answer to a look-up.\<close>

definition requested_id :: "init_message \<Rightarrow> u32" where
  "requested_id msg = of_nat (le_dec (take 4 (i_data msg)))"

definition find_provider :: "u32 \<Rightarrow> init_state \<Rightarrow> u32 option" where
  "find_provider sid s = map_option (\<lambda>i. provider_process (services s ! i))
     (scan (\<lambda>i. sv_id (services s ! i) = sid) 0 (service_count s))"

definition lookup_reply :: "init_message \<Rightarrow> u32 \<Rightarrow> sent_call" where
  "lookup_reply msg p = \<lparr>c_type = MSG_LOOKUP, c_flags = 0, c_receiver = sender_pid msg, c_data = le_enc 4 (unat p)\<rparr>"

definition handle_service_message :: "init_message \<Rightarrow> init_state \<Rightarrow> sent_call list \<times> init_state" where
  "handle_service_message msg s =
     (if i_type msg = MSG_LOOKUP then
        (case find_provider (requested_id msg) s of
           Some p \<Rightarrow> ([lookup_reply msg p], s)
         | None \<Rightarrow> ([lookup_reply msg 0], s))
      else if i_type msg = MSG_REGISTER then
        ([], snd (register_service (requested_id msg) (sender_pid msg) (drop 4 (i_data msg)) s))
      else ([], s))"

text \<open>The turns of the main loop: each receives a message or nothing.\<close>

fun init_loop :: "init_message option list \<Rightarrow> init_state \<Rightarrow> sent_call list \<times> init_state" where
  "init_loop [] s = ([], s)"
| "init_loop (None # inputs) s = init_loop inputs s"
| "init_loop (Some msg # inputs) s =
     (case handle_service_message msg s of (calls, s) \<Rightarrow>
       (case init_loop inputs s of (later, s) \<Rightarrow> (calls @ later, s)))"

definition init_main :: "u8 list \<Rightarrow> init_message option list \<Rightarrow> init_state \<Rightarrow> sent_call list \<times> init_state" where
  "init_main data inputs s = (case start_core_services data s of (calls, s) \<Rightarrow>
     (case init_loop inputs s of (later, s) \<Rightarrow> (calls @ later, s)))"

section \<open>The registry contract\<close>

definition init_ok :: "init_state \<Rightarrow> bool" where
  "init_ok s \<longleftrightarrow> length (services s) = INIT_SERVICES \<and> service_count s \<le> INIT_SERVICES"

text \<open>Registration with a name that depends on the service and its provider.\<close>

definition init_reg :: "(u32 \<Rightarrow> u32 \<Rightarrow> u8 list) \<Rightarrow> u32 \<Rightarrow> u32 \<Rightarrow> init_state \<Rightarrow> init_state option" where
  "init_reg nm sid p s = (case register_service sid p (nm sid p) s of (rc, s') \<Rightarrow> if rc = 0 then Some s' else None)"

lemma init_register_room:
  assumes "init_ok s" and "service_count s < INIT_SERVICES"
  shows "\<exists>s'. register_service sid p nm s = (0, s') \<and> init_ok s' \<and> service_count s' = Suc (service_count s) \<and>
    (\<forall>j. find_provider j s' = (if find_provider j s = None \<and> j = sid then Some p else find_provider j s))"
proof -
  let ?n = "service_count s"
  let ?e = "(services s ! ?n)\<lparr>sv_id := sid, provider_process := p, capabilities := 0,
    sv_name := copy_name nm (sv_name (services s ! ?n))\<rparr>"
  let ?s = "s\<lparr>services := (services s)[?n := ?e], service_count := ?n + 1\<rparr>"
  have at: "(services s)[?n := ?e] ! i = (if i = ?n then ?e else services s ! i)" for i
    using assms by (simp add: init_ok_def nth_list_update)
  have "find_provider j ?s = (if find_provider j s = None \<and> j = sid then Some p else find_provider j s)" for j
  proof (cases "scan (\<lambda>i. sv_id (services s ! i) = j) 0 ?n")
    case (Some i)
    then have "scan (\<lambda>i. sv_id (services ?s ! i) = j) 0 (Suc ?n) = Some i" "i \<noteq> ?n"
      by (auto simp: scan_Some_iff at)
    with Some show ?thesis by (simp add: find_provider_def at)
  next
    case None
    have "scan (\<lambda>i. sv_id (services ?s ! i) = j) 0 (Suc ?n) = (if j = sid then Some ?n else None)"
      using scan_NoneD [OF None] by (auto simp: scan_Some_iff scan_None_iff at less_Suc_eq)
    with None show ?thesis by (simp add: find_provider_def at)
  qed
  moreover have "register_service sid p nm s = (0, ?s)" using assms(2) by (simp add: register_service_def Let_def)
  moreover have "init_ok ?s" using assms by (simp add: init_ok_def)
  ultimately show ?thesis by (intro exI [of _ ?s]) simp
qed

interpretation init_services: registry "init_reg nm" find_provider init_ok service_count INIT_SERVICES
  for nm
proof unfold_locales
  fix s k v assume "init_ok s" "service_count s < INIT_SERVICES"
  from init_register_room [OF this, of k v "nm k v"]
  show "\<exists>s'. init_reg nm k v s = Some s' \<and> init_ok s' \<and> service_count s' = Suc (service_count s) \<and>
      (\<forall>j. find_provider j s' = (if find_provider j s = None \<and> j = k then Some v else find_provider j s))"
    by (auto simp: init_reg_def)
next
  fix s k v assume "init_ok s" "INIT_SERVICES \<le> service_count s"
  then show "init_reg nm k v s = None" by (simp add: init_reg_def register_service_def)
qed

lemma register_reg: "snd (register_service sid p name s) = reg_all (init_reg (\<lambda>_ _. name)) [(sid, p)] s"
  by (auto simp: init_reg_def register_service_def Let_def)

lemma register_look:
  "init_ok s \<Longrightarrow> init_ok (snd (register_service sid p name s)) \<and>
   find_provider j (snd (register_service sid p name s)) =
     (case find_provider j s of Some v \<Rightarrow> Some v | None \<Rightarrow> map_of (take (INIT_SERVICES - service_count s) [(sid, p)]) j)"
  unfolding register_reg by (rule init_services.reg_all_look)

lemma register_count:
  "service_count s < INIT_SERVICES \<Longrightarrow> service_count (snd (register_service sid p name s)) = Suc (service_count s)"
  by (simp add: register_service_def Let_def)

lemma lookup_handled:
  "i_type msg = MSG_LOOKUP \<Longrightarrow> handle_service_message msg s =
     ([lookup_reply msg (case find_provider (requested_id msg) s of Some p \<Rightarrow> p | None \<Rightarrow> 0)], s)"
  by (simp add: handle_service_message_def split: option.split)

definition core_services :: "(u32 \<times> u32) list" where
  "core_services = [(1, 1), (2, 2), (3, 3), (4, 4), (5, 5)]"

lemma core_started:
  assumes "init_ok s" and "service_count s = 0"
  shows "init_ok (snd (start_core_services data s)) \<and> service_count (snd (start_core_services data s)) = 5 \<and>
    find_provider j (snd (start_core_services data s)) = map_of core_services j"
proof -
  have empty: "find_provider j s = None" using assms(2) by (simp add: find_provider_def scan_None_iff)
  show ?thesis
    using assms empty
    by (simp add: start_core_services_def start_service_def register_look register_count core_services_def
        INIT_SERVICES_def Let_def split: option.splits)
qed



section \<open>The start-up screens\<close>

type_synonym writes = "(int \<times> u16) list"

definition cell :: "nat \<Rightarrow> nat \<Rightarrow> u16" where
  "cell color c = push_bit 8 (of_nat color) OR of_nat c"

text \<open>\<open>(color << 8) | text[i]\<close>, where a character of 128 or more is negative.\<close>

definition text_cell :: "nat \<Rightarrow> char \<Rightarrow> u16" where
  "text_cell color c = push_bit 8 (of_nat color) OR scast (of_char c :: u8)"

definition clear_screen_init :: writes where
  "clear_screen_init = map (\<lambda>i. (int i, cell 0 32)) [0..<80 * 25]"

text \<open>Division as in C, towards 0.\<close>

definition half :: "int \<Rightarrow> int" where
  "half n = (if n < 0 then - ((- n) div 2) else n div 2)"

definition print_at :: "int \<Rightarrow> string \<Rightarrow> nat \<Rightarrow> writes" where
  "print_at pos str color = map (\<lambda>i. (pos + int i, text_cell color (str ! i))) [0..<length str]"

definition print_centered :: "string \<Rightarrow> int \<Rightarrow> nat \<Rightarrow> writes" where
  "print_centered str row color = print_at (row * 80 + half (80 - int (length str))) str color"

text \<open>One row of dots: row, shift of the frame, colour of the lit dots.\<close>

definition dot_row :: "nat \<Rightarrow> nat \<Rightarrow> nat \<Rightarrow> nat \<Rightarrow> writes" where
  "dot_row frame row shift lit =
     map (\<lambda>i. (int (row * 80 + 30 + i * 2), if i < (frame + shift) mod 13 then cell lit 0xF9 else cell 8 0xFA)) [0..<10]"

definition draw_progress_dots :: "nat \<Rightarrow> writes" where
  "draw_progress_dots frame =
     concat (map (\<lambda>r. map (\<lambda>c. (int (r * 80 + c), cell 0 32)) [25..<56]) [14, 15, 16]) @
     dot_row frame 14 0 9 @ dot_row frame 15 3 11 @ dot_row frame 16 6 9"

text \<open>The remainder of C takes the sign of the dividend.\<close>

definition crem :: "int \<Rightarrow> int \<Rightarrow> int" where
  "crem a b = (if a < 0 then - ((- a) mod b) else a mod b)"

definition bar_segment :: "nat \<Rightarrow> nat \<Rightarrow> nat \<Rightarrow> writes" where
  "bar_segment frame i color =
     map (\<lambda>j. (int (16 * 80 + 30 + i * 4 + j), cell color 0xDB))
       (filter (\<lambda>j. i * 4 + j < 20) [0..<nat (min 4 (crem (int frame - int i * 2) 7))])"

definition draw_color_bar :: "nat \<Rightarrow> writes" where
  "draw_color_bar frame =
     map (\<lambda>i. (int (16 * 80 + 30 + i), cell 0 32)) [0..<20] @
     concat (map (\<lambda>(i, color). bar_segment frame i color) (zip [0..<5] [4, 2, 1, 14, 5]))"

definition show_dots_animation :: writes where
  "show_dots_animation = clear_screen_init @ print_centered ''E-comOS'' 8 15 @
     print_centered ''Microkernel Operating System'' 10 7 @
     concat (map draw_progress_dots [0..<50]) @ print_centered ''Beta 1 Release'' 19 7 @
     print_centered ''(c) E-comOS Microkernel Project'' 21 8 @ clear_screen_init"

definition show_whistler_animation :: writes where
  "show_whistler_animation = clear_screen_init @ print_centered ''E-comOS'' 10 15 @
     print_centered ''Microkernel Operating System'' 12 7 @
     concat (map draw_color_bar [0..<60]) @ print_centered ''Version 0.0.1'' 20 7 @
     print_centered ''(c) Saladin5101'' 22 8 @ clear_screen_init"

definition show_boot_animation_theme :: "int \<Rightarrow> writes" where
  "show_boot_animation_theme theme = (if theme = 1 then show_whistler_animation else show_dots_animation)"

definition show_boot_animation :: writes where
  "show_boot_animation = show_boot_animation_theme 1"

definition show_ascii_logo :: writes where
  "show_ascii_logo = clear_screen_init @ concat (map (\<lambda>(str, row). print_centered str row 11)
     [(''  _____ '', 6), ('' | ____|'', 7), ('' | |__  '', 8), ('' |  __| '', 9), ('' | |___ '', 10), ('' |_____|'', 11)]) @
     print_centered ''E-comOS'' 13 15 @ print_centered ''Microkernel OS'' 14 7"

definition show_minimal_boot :: writes where
  "show_minimal_boot = clear_screen_init @ print_centered ''E-comOS'' 12 15 @
     concat (replicate 3 (concat (map (\<lambda>str. print_centered str 14 9)
       [''Starting.'', ''Starting..'', ''Starting...'', ''Starting   '']))) @
     print_centered ''Ready'' 14 10 @ clear_screen_init"

text \<open>The screens of pure_animation.c: the same operations, other texts and colours.\<close>

definition print_vga_at :: "int \<Rightarrow> int \<Rightarrow> string \<Rightarrow> nat \<Rightarrow> writes" where
  "print_vga_at row col str color = print_at (row * 80 + col) str color"

definition print_vga_centered :: "string \<Rightarrow> int \<Rightarrow> nat \<Rightarrow> writes" where
  "print_vga_centered str row color = print_vga_at row (half (80 - int (length str))) str color"

definition clear_vga_screen :: writes where
  "clear_vga_screen = map (\<lambda>i. (int i, cell 0 32)) [0..<80 * 25]"

definition draw_vga_dots :: "nat \<Rightarrow> writes" where
  "draw_vga_dots frame =
     concat (map (\<lambda>r. map (\<lambda>c. (int (r * 80 + c), cell 0 32)) [25..<56]) [14, 15, 16]) @
     dot_row frame 14 0 9 @ dot_row frame 15 3 11 @ dot_row frame 16 6 9"

definition show_ecomos_animation :: writes where
  "show_ecomos_animation = clear_vga_screen @ print_vga_centered ''E-comOS'' 8 15 @
     print_vga_centered ''Microkernel Operating System'' 10 11 @
     concat (map draw_vga_dots [0..<50]) @ print_vga_centered ''Beta 1 Release'' 19 11 @
     print_vga_centered ''(c) E-comOS Microkernel Project'' 21 7 @ clear_vga_screen"

definition on_screen :: "writes \<Rightarrow> bool" where
  "on_screen w \<longleftrightarrow> (\<forall>(p, v) \<in> set w. 0 \<le> p \<and> p < 2000)"

text \<open>The buffer after some writes.\<close>

definition screen_after :: "writes \<Rightarrow> u16 list \<Rightarrow> u16 list" where
  "screen_after w scr = foldl (\<lambda>scr (p, v). scr[nat p := v]) scr w"

lemma on_screen_simps [simp]:
  "on_screen (v @ w) \<longleftrightarrow> on_screen v \<and> on_screen w"
  "on_screen (concat ws) \<longleftrightarrow> (\<forall>w \<in> set ws. on_screen w)"
  "on_screen (map (\<lambda>i. (f i, g i)) is) \<longleftrightarrow> (\<forall>i \<in> set is. 0 \<le> f i \<and> f i < 2000)"
  by (auto simp: on_screen_def)

lemma print_centered_on_screen:
  "length str \<le> 80 \<Longrightarrow> 0 \<le> row \<Longrightarrow> row < 25 \<Longrightarrow> on_screen (print_centered str row color)"
  by (auto simp: print_centered_def print_at_def half_def)

lemma print_vga_centered_on_screen:
  "length str \<le> 80 \<Longrightarrow> 0 \<le> row \<Longrightarrow> row < 25 \<Longrightarrow> on_screen (print_vga_centered str row color)"
  by (auto simp: print_vga_centered_def print_vga_at_def print_at_def half_def)

lemma dots_on_screen: "on_screen (draw_progress_dots frame)" "on_screen (draw_vga_dots frame)"
  by (simp_all add: draw_progress_dots_def draw_vga_dots_def dot_row_def) (auto simp: on_screen_def)

lemma bar_on_screen: "on_screen (draw_color_bar frame)"
  by (auto simp: draw_color_bar_def bar_segment_def on_screen_def)

lemma clear_on_screen: "on_screen clear_screen_init" "on_screen clear_vga_screen"
  by (simp_all add: clear_screen_init_def clear_vga_screen_def)

lemmas screen_lemmas = print_centered_on_screen print_vga_centered_on_screen dots_on_screen bar_on_screen clear_on_screen

lemma screen_after_append [simp]: "screen_after (v @ w) scr = screen_after w (screen_after v scr)"
  by (simp add: screen_after_def)

lemma length_screen_after [simp]: "length (screen_after w scr) = length scr"
  by (induction w arbitrary: scr) (auto simp: screen_after_def)

lemma screen_after_clear:
  assumes "length scr = 2000"
  shows "screen_after clear_screen_init scr = replicate 2000 (cell 0 32)"
proof -
  have "screen_after (map (\<lambda>i. (int i, f i)) [0..<n]) scr = fill_loop f n scr" for f n
    by (induction n) (simp_all add: screen_after_def fill_loop_Suc)
  then show ?thesis using assms by (simp add: clear_screen_init_def fill_loop_eq map_replicate_const)
qed

text \<open>
  No start-up screen writes outside the 80 by 25 cells of the text buffer, and the boot
  animation, of either theme, leaves the screen blank whatever was on it.
\<close>

theorem boot_screens_stay_on_screen:
  assumes "length scr = 2000"
  shows "on_screen (show_boot_animation_theme theme) \<and> on_screen show_ascii_logo \<and> on_screen show_minimal_boot \<and>
    on_screen show_ecomos_animation \<and>
    screen_after (show_boot_animation_theme theme) scr = replicate 2000 (cell 0 32)"
proof -
  have "on_screen (show_boot_animation_theme theme)"
    by (simp add: show_boot_animation_theme_def show_whistler_animation_def show_dots_animation_def screen_lemmas)
  moreover have "on_screen show_ascii_logo" "on_screen show_minimal_boot" "on_screen show_ecomos_animation"
    by (simp_all add: show_ascii_logo_def show_minimal_boot_def show_ecomos_animation_def screen_lemmas)
  moreover have "screen_after (show_boot_animation_theme theme) scr = replicate 2000 (cell 0 32)"
    using assms
    by (simp add: show_boot_animation_theme_def show_whistler_animation_def show_dots_animation_def screen_after_clear)
  ultimately show ?thesis by blast
qed

theorem boot_screens_stay_on_screen_witness:
  "screen_after show_boot_animation (replicate 2000 0x741) = replicate 2000 (cell 0 32)"
  using boot_screens_stay_on_screen [of "replicate 2000 0x741" 1] by (simp add: show_boot_animation_def)

end
