(* ===== verification/Marius_Dhcp.thy ===== *)
theory Marius_Dhcp
  imports Interfaces Bytes
begin

text \<open>
  The DHCP server of Marius for use without an operating system: marius/dhcp_bare.c. Frames are byte
  buffers over which the structures of the protocols lie; fields of more than a byte are stored in
  the order of the machine, least significant byte first, and converted by \<open>htons\<close> and \<open>htonl\<close>. The
  caller's buffers have room for a whole frame; \<open>None\<close> where one has not, or where the search for
  an address never ends.
\<close>

section \<open>Byte order and checksum\<close>

definition htons :: "u16 \<Rightarrow> u16" where
  "htons x = push_bit 8 (x AND 0xFF) OR (drop_bit 8 x AND 0xFF)"

definition htonl :: "u32 \<Rightarrow> u32" where
  "htonl x = push_bit 24 (x AND 0xFF) OR push_bit 8 (x AND 0xFF00) OR (drop_bit 8 x AND 0xFF00) OR
     (drop_bit 24 x AND 0xFF)"

definition put16 :: "nat \<Rightarrow> u16 \<Rightarrow> u8 list \<Rightarrow> u8 list" where
  "put16 off w buf = overwrite buf off (le_enc 2 (unat w))"

definition put32 :: "nat \<Rightarrow> u32 \<Rightarrow> u8 list \<Rightarrow> u8 list" where
  "put32 off w buf = overwrite buf off (le_enc 4 (unat w))"

definition get16 :: "nat \<Rightarrow> u8 list \<Rightarrow> u16" where
  "get16 off buf = of_nat (field off 2 buf)"

text \<open>The first loop of \<open>ip_checksum\<close>, and the one that folds the sum into 16 bits.\<close>

fun sum_words :: "u8 list \<Rightarrow> u32 \<Rightarrow> u32" where
  "sum_words (a # b # rest) s = sum_words rest (s + of_nat (le_dec [a, b]))"
| "sum_words [a] s = s + ucast a"
| "sum_words [] s = s"

lemma fold_smaller:
  assumes "drop_bit 16 s \<noteq> (0 :: u32)"
  shows "unat ((s AND 0xFFFF) + drop_bit 16 s) < unat s"
    and "unat ((s AND 0xFFFF) + drop_bit 16 s) = unat s mod 65536 + unat s div 65536"
proof -
  have low: "s AND 0xFFFF = take_bit 16 s" by (simp add: take_bit_eq_mask mask_eq_exp_minus_1)
  have parts: "unat (s AND 0xFFFF) = unat s mod 65536" "unat (drop_bit 16 s) = unat s div 65536"
    by (simp_all add: low unat_take_bit_mod unat_drop_bit_div)
  have "unat s < 2 ^ 32" using unsigned_less [where 'a = nat, of s] by simp
  then have "unat s mod 65536 + unat s div 65536 < 2 ^ 32" by (auto simp: less_mult_imp_div_less)
  then show sum: "unat ((s AND 0xFFFF) + drop_bit 16 s) = unat s mod 65536 + unat s div 65536"
    by (simp add: unat_word_ariths parts)
  have "0 < unat s div 65536" using assms parts(2) unat_gt_0 [of "drop_bit 16 s"] by simp
  then have "unat s mod 65536 + unat s div 65536 < unat s mod 65536 + unat s div 65536 * 65536" by linarith
  then show "unat ((s AND 0xFFFF) + drop_bit 16 s) < unat s" unfolding sum by simp
qed

function fold_sum :: "u32 \<Rightarrow> u32" where
  "fold_sum s = (if drop_bit 16 s \<noteq> 0 then fold_sum ((s AND 0xFFFF) + drop_bit 16 s) else s)"
  by pat_completeness auto

termination by (relation "measure unat") (simp_all only: in_measure wf_measure fold_smaller(1) not_False_eq_True)

declare fold_sum.simps [simp del]

definition ip_checksum :: "u8 list \<Rightarrow> u16" where
  "ip_checksum bytes = NOT (ucast (fold_sum (sum_words bytes 0)))"

section \<open>Leases\<close>

record lease =
  l_ip :: u32
  l_mac :: "u8 list"

record dhcp_server =
  leases :: "lease list"
  lease_count :: nat
  server_ip :: u32
  ip_pool_start :: u32
  ip_pool_end :: u32
  server_mac :: "u8 list"

definition dhcp_server_init :: "u32 \<Rightarrow> u32 \<Rightarrow> u32 \<Rightarrow> u8 list \<Rightarrow> dhcp_server \<Rightarrow> dhcp_server" where
  "dhcp_server_init srv_ip pool_start pool_end mac s =
     s\<lparr>server_ip := srv_ip, ip_pool_start := pool_start, ip_pool_end := pool_end, server_mac := bytes_at 6 mac,
       lease_count := 0\<rparr>"

text \<open>The search for an address from \<open>ip\<close> on; it may go round when the pool ends at the largest address.\<close>

partial_function (option) pool_scan :: "(u32 \<Rightarrow> bool) \<Rightarrow> u32 \<Rightarrow> u32 \<Rightarrow> u32 option option" where
  "pool_scan ok e ip = (if ip \<le> e then (if ok ip then Some (Some ip) else pool_scan ok e (ip + 1)) else Some None)"

definition lease_of_mac :: "u8 list \<Rightarrow> dhcp_server \<Rightarrow> nat option" where
  "lease_of_mac mac s = scan (\<lambda>i. l_mac (leases s ! i) = bytes_at 6 mac) 0 (lease_count s)"

definition leased :: "dhcp_server \<Rightarrow> u32 \<Rightarrow> bool" where
  "leased s ip = (scan (\<lambda>i. l_ip (leases s ! i) = ip) 0 (lease_count s) \<noteq> None)"

text \<open>The address, 0 when there is none, and the server.\<close>

definition allocate_ip :: "u8 list \<Rightarrow> dhcp_server \<Rightarrow> (u32 \<times> dhcp_server) option" where
  "allocate_ip mac s = (case lease_of_mac mac s of
     Some i \<Rightarrow> Some (l_ip (leases s ! i), s)
   | None \<Rightarrow>
       (case pool_scan (\<lambda>ip. \<not> leased s ip \<and> lease_count s < 100) (ip_pool_end s) (ip_pool_start s) of
          None \<Rightarrow> None
        | Some None \<Rightarrow> Some (0, s)
        | Some (Some ip) \<Rightarrow> Some (ip, s\<lparr>
            leases := (leases s)[lease_count s := \<lparr>l_ip = ip, l_mac = bytes_at 6 mac\<rparr>],
            lease_count := lease_count s + 1\<rparr>)))"

section \<open>Replies\<close>

definition sizeof_ip :: nat where "sizeof_ip = 20"
definition sizeof_udp :: nat where "sizeof_udp = 8"
definition sizeof_dhcp :: nat where "sizeof_dhcp = 552"
definition frame_size :: nat where "frame_size = 14 + sizeof_ip + sizeof_udp + sizeof_dhcp"

definition put_eth :: "dhcp_server \<Rightarrow> u8 list \<Rightarrow> u8 list" where
  "put_eth s buf =
     (let buf = overwrite buf 0 (replicate 6 0xFF);
          buf = overwrite buf 6 (bytes_at 6 (server_mac s))
      in put16 12 (htons 0x0800) buf)"

definition put_ip :: "dhcp_server \<Rightarrow> u8 list \<Rightarrow> u8 list" where
  "put_ip s buf =
     (let buf = overwrite buf 14 (replicate sizeof_ip 0);
          buf = overwrite buf 14 [0x45];
          buf = put16 16 (htons (of_nat (sizeof_ip + sizeof_udp + sizeof_dhcp))) buf;
          buf = overwrite buf 22 [64];
          buf = overwrite buf 23 [17];
          buf = put32 26 (htonl (server_ip s)) buf;
          buf = put32 30 0xFFFFFFFF buf
      in put16 24 (ip_checksum (take sizeof_ip (drop 14 buf))) buf)"

definition put_udp :: "u8 list \<Rightarrow> u8 list" where
  "put_udp buf =
     (let buf = put16 34 (htons 67) buf;
          buf = put16 36 (htons 68) buf;
          buf = put16 38 (htons (of_nat (sizeof_udp + sizeof_dhcp))) buf
      in put16 40 0 buf)"

definition reply_options :: "dhcp_server \<Rightarrow> u8 \<Rightarrow> u8 list" where
  "reply_options s msg_type =
     [53, 1, msg_type] @
     [54, 4] @ le_enc 4 (unat (htonl (server_ip s))) @
     [51, 4] @ le_enc 4 (unat (htonl 86400)) @
     [1, 4] @ le_enc 4 (unat (htonl 0xFFFFFF00)) @
     [3, 4] @ le_enc 4 (unat (htonl (server_ip s))) @
     [255]"

text \<open>\<open>req\<close> are the bytes of the request packet.\<close>

definition put_dhcp :: "dhcp_server \<Rightarrow> u8 list \<Rightarrow> u8 \<Rightarrow> u32 \<Rightarrow> u8 list \<Rightarrow> u8 list" where
  "put_dhcp s req msg_type yiaddr buf =
     (let buf = overwrite buf 42 (replicate sizeof_dhcp 0);
          buf = overwrite buf 42 [2];
          buf = overwrite buf 43 [1];
          buf = overwrite buf 44 [6];
          buf = overwrite buf 46 (take 4 (drop 4 req));
          buf = put32 58 (htonl yiaddr) buf;
          buf = put32 62 (htonl (server_ip s)) buf;
          buf = overwrite buf 70 (take 16 (drop 28 req));
          buf = overwrite buf 278 [0x63, 0x82, 0x53, 0x63]
      in overwrite buf 282 (reply_options s msg_type))"

definition create_dhcp_response :: "dhcp_server \<Rightarrow> u8 list \<Rightarrow> u8 \<Rightarrow> u32 \<Rightarrow> u8 list \<Rightarrow> u8 list" where
  "create_dhcp_response s req msg_type yiaddr buf =
     put_dhcp s req msg_type yiaddr (put_udp (put_ip s (put_eth s buf)))"

section \<open>Requests\<close>

text \<open>The message type in the options of a request: the search stops at a byte 255.\<close>

definition find_msg_type :: "u8 list \<Rightarrow> u8" where
  "find_msg_type options =
     (case scan (\<lambda>i. options ! i = 255 \<or> options ! i = 53 \<and> options ! (i + 1) = 1) 0 300 of
        Some i \<Rightarrow> if options ! i = 255 then 0 else options ! (i + 2)
      | None \<Rightarrow> 0)"

text \<open>The length of the reply, 0 for none, the reply buffer and the server.\<close>

definition reply_with :: "u8 list \<Rightarrow> u8 \<Rightarrow> u8 list \<Rightarrow> dhcp_server \<Rightarrow> (int \<times> u8 list \<times> dhcp_server) option" where
  "reply_with req msg_type out_buf s = (case allocate_ip (take 16 (drop 28 req)) s of
     None \<Rightarrow> None
   | Some (ip, s) \<Rightarrow>
       (if ip \<noteq> 0 then Some (int frame_size, create_dhcp_response s req msg_type ip out_buf, s)
        else Some (0, out_buf, s)))"

definition process_dhcp_packet :: "u8 list \<Rightarrow> u8 list \<Rightarrow> dhcp_server \<Rightarrow> (int \<times> u8 list \<times> dhcp_server) option" where
  "process_dhcp_packet in_buf out_buf s =
     (if length in_buf < frame_size \<or> length out_buf < frame_size then None
      else if get16 12 in_buf \<noteq> htons 0x0800 then Some (0, out_buf, s)
      else if in_buf ! 23 \<noteq> 17 then Some (0, out_buf, s)
      else if get16 36 in_buf \<noteq> htons 67 then Some (0, out_buf, s)
      else (let req = take sizeof_dhcp (drop 42 in_buf) in
        if take 4 (drop 236 req) \<noteq> [0x63, 0x82, 0x53, 0x63] then Some (0, out_buf, s)
        else (let msg_type = find_msg_type (drop 240 req) in
          if msg_type = 1 then reply_with req 2 out_buf s
          else if msg_type = 3 then reply_with req 5 out_buf s
          else Some (0, out_buf, s))))"

text \<open>The length is compared as an unsigned number of 64 bits.\<close>

definition dhcp_server_process :: "u8 list \<Rightarrow> int \<Rightarrow> u8 list \<Rightarrow> dhcp_server \<Rightarrow> (int \<times> u8 list \<times> dhcp_server) option" where
  "dhcp_server_process rx_buf rx_len tx_buf s =
     (if (of_int rx_len :: u64) < of_nat (14 + sizeof_ip + sizeof_udp + 240) then Some (0, tx_buf, s)
      else process_dhcp_packet rx_buf tx_buf s)"

section \<open>The server is a pool of addresses\<close>

definition held_leases :: "dhcp_server \<Rightarrow> (u8 list \<times> u32) list" where
  "held_leases s = map (\<lambda>i. (l_mac (leases s ! i), l_ip (leases s ! i))) [0..<lease_count s]"

definition ip_pool :: "dhcp_server \<Rightarrow> u32 set" where
  "ip_pool s = {ip_pool_start s..ip_pool_end s}"

definition dhcp_wf :: "dhcp_server \<Rightarrow> bool" where
  "dhcp_wf s \<longleftrightarrow> length (leases s) = 100 \<and> lease_count s \<le> 100 \<and> 0 < ip_pool_start s \<and> ip_pool_end s < - 1 \<and>
     (\<forall>i < lease_count s. l_ip (leases s ! i) \<in> ip_pool s)"

definition assign_ip :: "u8 list \<Rightarrow> dhcp_server \<Rightarrow> (u32 option \<times> dhcp_server) option" where
  "assign_ip mac s = map_option (\<lambda>(ip, s'). (if ip = 0 then None else Some ip, s')) (allocate_ip mac s)"

lemma pool_scan_result:
  assumes "e < - 1"
  shows "(\<exists>a. pool_scan ok e ip = Some (Some a) \<and> ip \<le> a \<and> a \<le> e \<and> ok a) \<or>
    pool_scan ok e ip = Some None \<and> (\<forall>x. ip \<le> x \<and> x \<le> e \<longrightarrow> \<not> ok x)"
proof (induction "unat e + 1 - unat ip" arbitrary: ip rule: less_induct)
  case less
  show ?case
  proof (cases "ip \<le> e \<and> \<not> ok ip")
    case True
    then have "ip < - 1" using assms by (meson order.strict_trans1)
    then have succ: "unat (ip + 1) = unat ip + 1"
      using unat_plus_if_size [of ip 1]
      by (auto simp: word_less_nat_alt word_size unsigned_minus_1_eq_mask mask_eq_exp_minus_1)
    have next_step: "pool_scan ok e ip = pool_scan ok e (ip + 1)" using True by (subst pool_scan.simps) simp
    have split: "ip \<le> x \<longleftrightarrow> x = ip \<or> ip + 1 \<le> x" for x
      by (auto simp: word_le_nat_alt succ word_unat_eq_iff)
    have "unat e + 1 - unat (ip + 1) < unat e + 1 - unat ip" using True succ unfolding word_le_nat_alt by linarith
    from less.hyps [OF this] True show ?thesis unfolding next_step by (metis split)
  next
    case False
    then show ?thesis by (subst (1 2) pool_scan.simps) auto
  qed
qed

lemma map_of_held:
  "map_of (held_leases s) k = map_option (\<lambda>i. l_ip (leases s ! i)) (scan (\<lambda>i. l_mac (leases s ! i) = k) 0 (lease_count s))"
  unfolding held_leases_def by (rule map_of_scan)

lemma leased_held: "leased s ip \<longleftrightarrow> ip \<in> snd ` set (held_leases s)"
  by (force simp: leased_def held_leases_def scan_None_iff image_iff)

interpretation dhcp: address_pool assign_ip "bytes_at 6" held_leases ip_pool dhcp_wf 100
proof unfold_locales
  fix s c a assume "dhcp_wf s" "map_of (held_leases s) (bytes_at 6 c) = Some a"
  then obtain i where i: "lease_of_mac c s = Some i" "l_ip (leases s ! i) = a" "i < lease_count s"
    by (auto simp: map_of_held lease_of_mac_def dest: scan_SomeD)
  have "a \<noteq> 0" using \<open>dhcp_wf s\<close> i by (auto simp: dhcp_wf_def ip_pool_def)
  with i show "assign_ip c s = Some (Some a, s)" by (simp add: assign_ip_def allocate_ip_def)
next
  fix s c assume wf: "dhcp_wf s" and new: "map_of (held_leases s) (bytes_at 6 c) = None"
  let ?ok = "\<lambda>ip. \<not> leased s ip \<and> lease_count s < 100"
  have none: "lease_of_mac c s = None" using new by (simp add: map_of_held lease_of_mac_def)
  from pool_scan_result [of "ip_pool_end s" ?ok "ip_pool_start s"] wf
  consider (found) ip where "pool_scan ?ok (ip_pool_end s) (ip_pool_start s) = Some (Some ip)" "ip \<in> ip_pool s" "?ok ip"
    | (full) "pool_scan ?ok (ip_pool_end s) (ip_pool_start s) = Some None" "\<forall>x \<in> ip_pool s. \<not> ?ok x"
    unfolding dhcp_wf_def ip_pool_def by (metis atLeastAtMost_iff)
  then show "(assign_ip c s = Some (None, s) \<and> (100 \<le> length (held_leases s) \<or> ip_pool s \<subseteq> snd ` set (held_leases s))) \<or>
      (\<exists>a s'. assign_ip c s = Some (Some a, s') \<and> dhcp_wf s' \<and> ip_pool s' = ip_pool s \<and>
        held_leases s' = held_leases s @ [(bytes_at 6 c, a)] \<and> a \<in> ip_pool s \<and> a \<notin> snd ` set (held_leases s))"
  proof cases
    case found
    let ?s = "s\<lparr>leases := (leases s)[lease_count s := \<lparr>l_ip = ip, l_mac = bytes_at 6 c\<rparr>], lease_count := lease_count s + 1\<rparr>"
    have "ip \<noteq> 0" using found(2) wf by (auto simp: ip_pool_def dhcp_wf_def)
    then have "assign_ip c s = Some (Some ip, ?s)" using none found(1) by (simp add: assign_ip_def allocate_ip_def)
    moreover have "dhcp_wf ?s" using wf found(2,3) by (auto simp: dhcp_wf_def ip_pool_def nth_list_update less_Suc_eq)
    moreover have "held_leases ?s = held_leases s @ [(bytes_at 6 c, ip)]"
      using wf found(3) by (simp add: held_leases_def dhcp_wf_def nth_list_update)
    ultimately show ?thesis using found(2,3) by (auto simp: ip_pool_def leased_held)
  next
    case full
    then have "assign_ip c s = Some (None, s)" using none by (simp add: assign_ip_def allocate_ip_def)
    moreover have "100 \<le> length (held_leases s) \<or> ip_pool s \<subseteq> snd ` set (held_leases s)"
      using full(2) by (auto simp: leased_held held_leases_def)
    ultimately show ?thesis by blast
  qed
qed

section \<open>Replies on the wire\<close>

text \<open>The order of the network: most significant byte first.\<close>

definition be_enc :: "nat \<Rightarrow> nat \<Rightarrow> u8 list" where
  "be_enc k n = rev (le_enc k n)"

lemma length_be_enc [simp]: "length (be_enc k n) = k"
  by (simp add: be_enc_def)

lemma byte_of_word: "(of_nat (unat w div 2 ^ k) :: u8) = ucast (drop_bit k (w :: 'a :: len word))"
proof -
  have "unat w div 2 ^ k = unat (drop_bit k w)" by (simp add: unat_drop_bit_div)
  then show ?thesis by simp
qed

lemma le_enc_bytes:
  "le_enc 2 n = [of_nat n, of_nat (n div 2 ^ 8)]"
  "le_enc 4 n = [of_nat n, of_nat (n div 2 ^ 8), of_nat (n div 2 ^ 16), of_nat (n div 2 ^ 24)]"
proof -
  have four: "(2 :: nat) = Suc (Suc 0)" "(4 :: nat) = Suc (Suc (Suc (Suc 0)))" by simp_all
  show "le_enc 2 n = [of_nat n, of_nat (n div 2 ^ 8)]" by (subst four(1)) simp
  show "le_enc 4 n = [of_nat n, of_nat (n div 2 ^ 8), of_nat (n div 2 ^ 16), of_nat (n div 2 ^ 24)]"
    by (subst four(2)) (simp add: div_mult2_eq [symmetric])
qed

lemma le_enc_word:
  "le_enc 2 (unat (v :: u16)) = [ucast v, ucast (drop_bit 8 v)]"
  "le_enc 4 (unat (w :: u32)) = [ucast w, ucast (drop_bit 8 w), ucast (drop_bit 16 w), ucast (drop_bit 24 w)]"
  unfolding le_enc_bytes byte_of_word by simp_all

lemma byte_masks: "(0xFF :: 'a :: len word) = mask 8" "(0xFF00 :: 'a :: len word) = push_bit 8 (mask 8)"
  by (simp_all add: mask_eq_exp_minus_1 push_bit_eq_mult)

lemma htons_be: "le_enc 2 (unat (htons v)) = be_enc 2 (unat v)"
proof -
  have "(ucast (htons v) :: u8) = ucast (drop_bit 8 v)" "(ucast (drop_bit 8 (htons v)) :: u8) = ucast v"
    by (rule bit_word_eqI, auto simp: htons_def byte_masks bit_simps)+
  then show ?thesis by (simp add: be_enc_def le_enc_word)
qed

lemma htonl_be: "le_enc 4 (unat (htonl w)) = be_enc 4 (unat w)"
proof -
  have "(ucast (htonl w) :: u8) = ucast (drop_bit 24 w)" "(ucast (drop_bit 8 (htonl w)) :: u8) = ucast (drop_bit 16 w)"
    "(ucast (drop_bit 16 (htonl w)) :: u8) = ucast (drop_bit 8 w)" "(ucast (drop_bit 24 (htonl w)) :: u8) = ucast w"
    by (rule bit_word_eqI, auto simp: htonl_def byte_masks bit_simps)+
  then show ?thesis by (simp add: be_enc_def le_enc_word)
qed

text \<open>The frame of a reply, field by field; \<open>checksum\<close> as the machine stores it.\<close>

definition ip_header :: "u16 \<Rightarrow> u32 \<Rightarrow> u8 list" where
  "ip_header checksum src = [0x45, 0] @ be_enc 2 580 @ replicate 4 0 @ [64, 17] @ le_enc 2 (unat checksum) @
     be_enc 4 (unat src) @ [255, 255, 255, 255]"

definition dhcp_options :: "u8 \<Rightarrow> u32 \<Rightarrow> u8 list" where
  "dhcp_options msg_type server =
     [53, 1, msg_type] @ [54, 4] @ be_enc 4 (unat server) @ [51, 4] @ be_enc 4 86400 @
     [1, 4, 255, 255, 255, 0] @ [3, 4] @ be_enc 4 (unat server) @ [255]"

definition reply_frame :: "dhcp_server \<Rightarrow> u8 list \<Rightarrow> u8 \<Rightarrow> u32 \<Rightarrow> u8 list" where
  "reply_frame s req msg_type yiaddr =
     replicate 6 255 @ bytes_at 6 (server_mac s) @ be_enc 2 0x0800 @
     ip_header (ip_checksum (ip_header 0 (server_ip s))) (server_ip s) @
     be_enc 2 67 @ be_enc 2 68 @ be_enc 2 560 @ replicate 2 0 @
     [2, 1, 6, 0] @ take 4 (drop 4 req) @ replicate 8 0 @ be_enc 4 (unat yiaddr) @ be_enc 4 (unat (server_ip s)) @
     replicate 4 0 @ take 16 (drop 28 req) @ replicate 192 0 @ [0x63, 0x82, 0x53, 0x63] @
     dhcp_options msg_type (server_ip s) @ replicate 284 0"

lemma length_ip_header [simp]: "length (ip_header checksum src) = 20"
  by (simp add: ip_header_def)

lemma be_const:
  "be_enc 2 0x0800 = [8, 0]" "be_enc 4 0xFFFFFF00 = [255, 255, 255, 0]" "le_enc 4 0xFFFFFFFF = [255, 255, 255, 255]"
  "le_enc 2 0 = replicate 2 0"
proof -
  have "replicate 2 (0 :: u8) = [0, 0]" by (simp add: numeral_2_eq_2)
  then show "le_enc 2 0 = replicate 2 0" by (simp add: le_enc_bytes)
qed (simp_all add: be_enc_def le_enc_bytes)

lemmas overwrite_rules = overwrite_skip overwrite_Cons overwrite_zeros overwrite_here

lemma put_eth_layout:
  "length e = 14 \<Longrightarrow> put_eth s (e @ r) = replicate 6 255 @ bytes_at 6 (server_mac s) @ be_enc 2 0x0800 @ r"
  by (simp add: put_eth_def put16_def htons_be overwrite_def)

lemma put_ip_layout:
  assumes "length e = 14" "length i = 20"
  shows "put_ip s (e @ i @ r) = e @ ip_header (ip_checksum (ip_header 0 (server_ip s))) (server_ip s) @ r"
  using assms by (simp add: put_ip_def put16_def put32_def htons_be htonl_be be_const sizeof_ip_def sizeof_udp_def
      sizeof_dhcp_def Let_def overwrite_rules ip_header_def)

lemma put_udp_layout:
  assumes "length e = 34" "length u = 8"
  shows "put_udp (e @ u @ r) = e @ be_enc 2 67 @ be_enc 2 68 @ be_enc 2 560 @ replicate 2 0 @ r"
proof -
  obtain a b c d x y z v where "u = [a, b, c, d, x, y, z, v]"
    using assms(2) by (auto simp: length_Suc_conv numeral_eq_Suc)
  with assms(1) show ?thesis
    by (simp add: put_udp_def put16_def htons_be be_const sizeof_udp_def sizeof_dhcp_def Let_def overwrite_skip overwrite_def)
qed

lemma reply_options_be: "reply_options s t = dhcp_options t (server_ip s)"
  by (simp add: reply_options_def dhcp_options_def htonl_be be_const)

lemma length_dhcp_options [simp]: "length (dhcp_options t server) = 28"
  by (simp add: dhcp_options_def)

lemma put_dhcp_layout:
  assumes "length e = 42" "length d = 552" "length req = 552"
  shows "put_dhcp s req t y (e @ d @ r) = e @
     [2, 1, 6, 0] @ take 4 (drop 4 req) @ replicate 8 0 @ be_enc 4 (unat y) @ be_enc 4 (unat (server_ip s)) @
     replicate 4 0 @ take 16 (drop 28 req) @ replicate 192 0 @ [0x63, 0x82, 0x53, 0x63] @
     dhcp_options t (server_ip s) @ replicate 284 0 @ r"
  using assms
  by (simp add: put_dhcp_def put32_def htonl_be be_const reply_options_be sizeof_dhcp_def Let_def overwrite_rules)

lemma response_layout:
  assumes "frame_size \<le> length buf" and "length req = sizeof_dhcp"
  shows "create_dhcp_response s req t y buf = reply_frame s req t y @ drop frame_size buf"
proof -
  define e i u d r where "e = take 14 buf" and "i = take 20 (drop 14 buf)" and "u = take 8 (drop 34 buf)"
    and "d = take 552 (drop 42 buf)" and "r = drop 594 buf"
  note parts = this
  have size: "frame_size = 594" by (simp add: frame_size_def sizeof_ip_def sizeof_udp_def sizeof_dhcp_def)
  have len: "length e = 14" "length i = 20" "length u = 8" "length d = 552"
    using assms(1) by (simp_all add: parts size)
  have buf: "buf = e @ i @ u @ d @ r"
    using append_take_drop_id [of 552 "drop 42 buf"] append_take_drop_id [of 8 "drop 34 buf"]
      append_take_drop_id [of 20 "drop 14 buf"] append_take_drop_id [of 14 buf]
    by (simp add: parts del: append_take_drop_id)
  define E where "E = replicate 6 255 @ bytes_at 6 (server_mac s) @ be_enc 2 0x0800"
  define I where "I = ip_header (ip_checksum (ip_header 0 (server_ip s))) (server_ip s)"
  define U where "U = be_enc 2 67 @ be_enc 2 68 @ be_enc 2 560 @ replicate 2 (0 :: u8)"
  have LEN: "length E = 14" "length I = 20" "length U = 8" by (simp_all add: E_def I_def U_def ip_header_def)
  have "put_eth s buf = E @ i @ u @ d @ r" using put_eth_layout [OF len(1)] by (simp add: buf E_def)
  moreover have "put_ip s (E @ i @ u @ d @ r) = (E @ I) @ u @ d @ r"
    using put_ip_layout [OF LEN(1) len(2)] by (simp add: I_def)
  moreover have "put_udp ((E @ I) @ u @ d @ r) = (E @ I @ U) @ d @ r"
    using put_udp_layout [OF _ len(3), of "E @ I"] by (simp add: LEN U_def)
  ultimately have "create_dhcp_response s req t y buf = put_dhcp s req t y ((E @ I @ U) @ d @ r)"
    by (simp only: create_dhcp_response_def)
  also have "\<dots> = reply_frame s req t y @ r"
    using put_dhcp_layout [OF _ len(4), of "E @ I @ U" req] assms(2)
    by (simp add: LEN sizeof_dhcp_def reply_frame_def E_def I_def U_def)
  finally show ?thesis by (simp only: size parts)
qed

text \<open>The sum over the words of an even number of bytes.\<close>

fun word_total :: "u8 list \<Rightarrow> nat" where
  "word_total (a # b # rs) = le_dec [a, b] + word_total rs"
| "word_total [a] = unat a"
| "word_total [] = 0"

lemma sum_words_total: "unat s + word_total bs < 2 ^ 32 \<Longrightarrow> unat (sum_words bs s) = unat s + word_total bs"
proof (induction bs s rule: sum_words.induct)
  case (1 a b rs s)
  have "unat (s + of_nat (le_dec [a, b])) = unat s + le_dec [a, b]"
    using 1(2) by (simp add: unat_word_ariths take_bit_eq_mod unat_of_nat del: le_dec.simps)
  with 1 show ?case by (simp del: le_dec.simps)
next
  case (2 a s)
  moreover have "unat (ucast a :: u32) = unat a"
    using unsigned_less [where 'a = nat, of a] by (simp add: unsigned_ucast_eq take_bit_eq_mod)
  ultimately show ?case by (simp add: unat_word_ariths)
qed simp

lemma word_total_append: "even (length xs) \<Longrightarrow> word_total (xs @ ys) = word_total xs + word_total ys"
  by (induction xs rule: word_total.induct) simp_all

lemma word_total_bound: "word_total bs \<le> 65535 * length bs"
proof (induction bs rule: word_total.induct)
  case (1 a b rs)
  then show ?case using le_dec_bound [of "[a, b]"] by (simp del: le_dec.simps)
next
  case (2 a)
  then show ?case using unsigned_less [where 'a = nat, of a] by simp
qed simp

lemma fold_sum_mod: "unat (fold_sum s) mod 65535 = unat s mod 65535 \<and> unat (fold_sum s) < 65536 \<and> (unat s \<noteq> 0 \<longrightarrow> unat (fold_sum s) \<noteq> 0)"
proof (induction s rule: fold_sum.induct)
  case (1 s)
  show ?case
  proof (cases "drop_bit 16 s = 0")
    case True
    then have "unat s div 65536 = 0" using unat_drop_bit_div [of 16 s] by simp
    with True show ?thesis by (simp add: fold_sum.simps [of s] div_eq_0_iff)
  next
    case False
    let ?n = "(s AND 0xFFFF) + drop_bit 16 s"
    have n: "unat ?n = unat s mod 65536 + unat s div 65536" by (rule fold_smaller(2) [OF False])
    have "unat s = unat s mod 65536 + (unat s div 65536 + 65535 * (unat s div 65536))" by simp
    then have "unat ?n mod 65535 = unat s mod 65535" unfolding n by (metis add.assoc mod_mult_self2)
    moreover have "unat ?n \<noteq> 0"
      using False n unat_drop_bit_div [of 16 s] unat_gt_0 [of "drop_bit 16 s"] by simp
    ultimately show ?thesis using 1 [OF False] False by (simp add: fold_sum.simps [of s])
  qed
qed

lemma word_total_two: "length xs = 2 \<Longrightarrow> word_total xs = le_dec xs"
  by (auto simp: length_Suc_conv numeral_2_eq_2)

lemma ip_checksum_value:
  assumes "length bs \<le> 65535"
  shows "unat (ip_checksum bs) = 65535 - unat (fold_sum (of_nat (word_total bs)))"
    and "word_total bs < 2 ^ 32"
proof -
  have "65535 * length bs \<le> 65535 * 65535" using assms by simp
  with word_total_bound [of bs] show bound: "word_total bs < 2 ^ 32" by simp
  have "unat (sum_words bs 0) = word_total bs" using sum_words_total [of 0 bs] bound by simp
  then have sum: "sum_words bs 0 = of_nat (word_total bs)" by (simp flip: \<open>unat (sum_words bs 0) = word_total bs\<close>)
  let ?f = "fold_sum (of_nat (word_total bs))"
  have "unat (ucast ?f :: u16) = unat ?f"
    using fold_sum_mod [of "of_nat (word_total bs)"] by (simp add: unsigned_ucast_eq take_bit_eq_mod)
  moreover have "unat (NOT x) = 65535 - unat x" for x :: u16
    using unat_sub [of x "- 1"] by (simp add: not_eq_complement minus_diff_commute unsigned_minus_1_eq_mask mask_eq_exp_minus_1)
  ultimately show "unat (ip_checksum bs) = 65535 - unat ?f" by (simp add: ip_checksum_def sum)
qed

text \<open>Bytes that hold their own checksum have the checksum 0.\<close>

lemma checksum_verifies:
  assumes "even (length xs)" and "length xs + length ys + 2 \<le> 65535"
  shows "ip_checksum (xs @ le_enc 2 (unat (ip_checksum (xs @ replicate 2 0 @ ys))) @ ys) = 0"
proof -
  define n f where "n = word_total xs + word_total ys" and "f = unat (fold_sum (of_nat n))"
  have "word_total (xs @ replicate 2 0 @ ys) = n"
    using assms(1) by (simp add: n_def word_total_append word_total_two)
  then have c: "unat (ip_checksum (xs @ replicate 2 0 @ ys)) = 65535 - f" and n: "n < 2 ^ 32"
    using ip_checksum_value [of "xs @ replicate 2 0 @ ys"] assms(2) by (simp_all add: f_def)
  let ?bs = "xs @ le_enc 2 (65535 - f) @ ys"
  have total: "word_total ?bs = n + (65535 - f)"
    using assms(1) by (simp add: n_def word_total_append word_total_two le_dec_enc)
  have unat_n: "unat (of_nat n :: u32) = n" using n by (simp add: unat_of_nat take_bit_eq_mod)
  have f: "f mod 65535 = n mod 65535" "f < 65536"
    using fold_sum_mod [of "of_nat n"] unat_n by (simp_all add: f_def)
  have m: "n + (65535 - f) < 2 ^ 32"
    using ip_checksum_value(2) [of ?bs] assms(2) total by simp
  let ?m = "of_nat (n + (65535 - f)) :: u32"
  have unat_m: "unat ?m = n + (65535 - f)" using m by (simp add: unat_of_nat take_bit_eq_mod del: of_nat_add)
  define g where "g = unat (fold_sum ?m)"
  have "(n + (65535 - f)) mod 65535 = (f + (65535 - f)) mod 65535" using f(1) by (metis mod_add_left_eq)
  then have "(n + (65535 - f)) mod 65535 = 0" using f(2) by simp
  moreover have "n + (65535 - f) \<noteq> 0"
  proof
    assume "n + (65535 - f) = 0"
    then have "n = 0" "f = 65535" using f(2) by auto
    then show False by (simp add: f_def fold_sum.simps)
  qed
  ultimately have "g mod 65535 = 0 \<and> g < 65536 \<and> g \<noteq> 0"
    using fold_sum_mod [of ?m] unfolding g_def unat_m by metis
  then have "g = 65535" by (auto elim!: dvdE simp flip: dvd_eq_mod_eq_0)
  then have "unat (ip_checksum ?bs) = 0"
    using ip_checksum_value(1) [of ?bs] assms(2) total by (simp add: g_def)
  then show ?thesis by (simp add: c unat_eq_zero)
qed

lemma header_checksum: "ip_checksum (ip_header (ip_checksum (ip_header 0 src)) src) = 0"
  using checksum_verifies [of "[0x45, 0] @ be_enc 2 580 @ replicate 4 0 @ [64, 17]" "be_enc 4 (unat src) @ [255, 255, 255, 255]"]
  by (simp add: ip_header_def be_const)

section \<open>The main loop\<close>

text \<open>
  The variables of the server before it runs, and the loop of \<open>dhcp_main\<close> (marius/example_bare.c). The
  driver of the network is outside the program: \<open>events\<close> are the calls of \<open>network_recv\<close>, with the bytes it
  writes to the buffer and the length it returns. The result are the frames that are sent.
\<close>

definition server_statics :: dhcp_server where
  "server_statics = \<lparr>leases = replicate 100 \<lparr>l_ip = 0, l_mac = replicate 6 0\<rparr>, lease_count = 0, server_ip = 0xC0A80101,
     ip_pool_start = 0xC0A80164, ip_pool_end = 0xC0A801C8, server_mac = [0x52, 0x54, 0x00, 0x12, 0x34, 0x56]\<rparr>"

fun dhcp_main_loop :: "(u8 list \<times> int) list \<Rightarrow> u8 list \<Rightarrow> u8 list \<Rightarrow> dhcp_server \<Rightarrow> (u8 list list \<times> dhcp_server) option" where
  "dhcp_main_loop [] rx_buf tx_buf s = Some ([], s)"
| "dhcp_main_loop ((received, n) # events) rx_buf tx_buf s =
     (let rx_buf = overwrite rx_buf 0 received in
      if n > 0 then
        (case dhcp_server_process rx_buf n tx_buf s of
           None \<Rightarrow> None
         | Some (tx_len, tx_buf, s) \<Rightarrow>
             map_option (apfst (append (if tx_len > 0 then [take (nat tx_len) tx_buf] else [])))
               (dhcp_main_loop events rx_buf tx_buf s))
      else dhcp_main_loop events rx_buf tx_buf s)"

definition dhcp_main :: "(u8 list \<times> int) list \<Rightarrow> u8 list \<Rightarrow> u8 list \<Rightarrow> (u8 list list \<times> dhcp_server) option" where
  "dhcp_main events rx_buf tx_buf = dhcp_main_loop events rx_buf tx_buf
     (dhcp_server_init 0xC0A80101 0xC0A80164 0xC0A801C8 [0x52, 0x54, 0x00, 0x12, 0x34, 0x56] server_statics)"

text \<open>What a client reads in a reply: the hardware address it is for, and the address it offers.\<close>

definition reply_client :: "u8 list \<Rightarrow> u8 list" where
  "reply_client frame = take 6 (drop 70 frame)"

definition reply_address :: "u8 list \<Rightarrow> u32" where
  "reply_address frame = of_nat (le_dec (rev (take 4 (drop 58 frame))))"

definition good_reply :: "dhcp_server \<Rightarrow> u8 list \<Rightarrow> bool" where
  "good_reply s frame \<longleftrightarrow> length frame = frame_size \<and> ip_checksum (take 20 (drop 14 frame)) = 0 \<and>
     map_of (held_leases s) (reply_client frame) = Some (reply_address frame)"

lemma sizes: "frame_size = 594" "sizeof_dhcp = 552" "sizeof_ip = 20" "sizeof_udp = 8"
  by (simp_all add: frame_size_def sizeof_ip_def sizeof_udp_def sizeof_dhcp_def)

lemma reply_frame_fields:
  assumes "length req = 552"
  shows "length (reply_frame s req t a) = 594"
    and "take 20 (drop 14 (reply_frame s req t a)) = ip_header (ip_checksum (ip_header 0 (server_ip s))) (server_ip s)"
    and "reply_client (reply_frame s req t a) = take 6 (drop 28 req)"
    and "reply_address (reply_frame s req t a) = a"
proof -
  have "le_dec (rev (be_enc 4 (unat a))) = unat a"
    using unsigned_less [where 'a = nat, of a] by (simp add: be_enc_def le_dec_enc)
  then show "reply_address (reply_frame s req t a) = a"
    using assms by (simp add: reply_address_def reply_frame_def)
qed (use assms in \<open>simp_all add: reply_frame_def reply_client_def min_def\<close>)

lemma reply_with_good:
  assumes "dhcp.fair s" and "length req = sizeof_dhcp" and "frame_size \<le> length buf"
  shows "\<exists>n buf' s'. reply_with req t buf s = Some (n, buf', s') \<and> length buf' = length buf \<and> dhcp.fair s' \<and>
    ip_pool s' = ip_pool s \<and> map_of (held_leases s) \<subseteq>\<^sub>m map_of (held_leases s') \<and>
    (n > 0 \<longrightarrow> good_reply s' (take (nat n) buf'))"
proof -
  let ?mac = "take 16 (drop 28 req)"
  from dhcp.assign_fair [OF assms(1), of ?mac] obtain r s' where
    a: "assign_ip ?mac s = Some (r, s')" "dhcp.fair s'" "ip_pool s' = ip_pool s"
      "map_of (held_leases s) \<subseteq>\<^sub>m map_of (held_leases s')"
      "\<And>ip. r = Some ip \<Longrightarrow> map_of (held_leases s') (bytes_at 6 ?mac) = Some ip" by blast
  then obtain ip where ip: "allocate_ip ?mac s = Some (ip, s')" "r = (if ip = 0 then None else Some ip)"
    by (auto simp: assign_ip_def)
  show ?thesis
  proof (cases "ip = 0")
    case True
    with a ip show ?thesis by (simp add: reply_with_def)
  next
    case False
    have "bytes_at 6 ?mac = take 6 (drop 28 req)" using assms(2) by (simp add: bytes_at_def sizes)
    with False a(5) [of ip] ip(2) have "good_reply s' (reply_frame s' req t ip)"
      using assms(2) by (simp add: good_reply_def reply_frame_fields sizes header_checksum)
    with False a ip assms show ?thesis
      by (simp add: reply_with_def response_layout sizes reply_frame_fields)
  qed
qed

lemma process_good:
  assumes "dhcp.fair s" and "frame_size \<le> length rx" and "frame_size \<le> length buf"
  shows "\<exists>n buf' s'. dhcp_server_process rx len buf s = Some (n, buf', s') \<and> length buf' = length buf \<and> dhcp.fair s' \<and>
    ip_pool s' = ip_pool s \<and> map_of (held_leases s) \<subseteq>\<^sub>m map_of (held_leases s') \<and>
    (n > 0 \<longrightarrow> good_reply s' (take (nat n) buf'))"
proof -
  have "length (take sizeof_dhcp (drop 42 rx)) = sizeof_dhcp" using assms(2) by (simp add: sizes)
  from reply_with_good [OF assms(1) this assms(3)] assms show ?thesis
    by (auto simp: dhcp_server_process_def process_dhcp_packet_def Let_def)
qed

lemma good_reply_mono: "good_reply s f \<Longrightarrow> map_of (held_leases s) \<subseteq>\<^sub>m map_of (held_leases s') \<Longrightarrow> good_reply s' f"
  by (auto simp: good_reply_def map_le_def dest: bspec)

lemma main_loop_good:
  assumes "dhcp.fair s" and "length rx = 2048" and "length tx = 2048" and "\<forall>(received, n) \<in> set events. length received \<le> 2048"
  shows "\<exists>sent s'. dhcp_main_loop events rx tx s = Some (sent, s') \<and> dhcp.fair s' \<and> ip_pool s' = ip_pool s \<and>
    map_of (held_leases s) \<subseteq>\<^sub>m map_of (held_leases s') \<and> (\<forall>f \<in> set sent. good_reply s' f)"
  using assms
proof (induction events rx tx s rule: dhcp_main_loop.induct)
  case (2 received n events rx tx s)
  let ?rx = "overwrite rx 0 received"
  have rx: "length ?rx = 2048" using 2(4,6) by simp
  show ?case
  proof (cases "n > 0")
    case True
    from process_good [OF 2(3), of ?rx tx n] rx 2(5) obtain m tx' s1 where
      one: "dhcp_server_process ?rx n tx s = Some (m, tx', s1)" "length tx' = 2048" "dhcp.fair s1" "ip_pool s1 = ip_pool s"
        "map_of (held_leases s) \<subseteq>\<^sub>m map_of (held_leases s1)" "m > 0 \<longrightarrow> good_reply s1 (take (nat m) tx')"
      by (auto simp: sizes)
    from 2(1) [OF refl True one(1) refl refl one(3) rx one(2)] 2(6) obtain sent s2 where
      rest: "dhcp_main_loop events ?rx tx' s1 = Some (sent, s2)" "dhcp.fair s2" "ip_pool s2 = ip_pool s1"
        "map_of (held_leases s1) \<subseteq>\<^sub>m map_of (held_leases s2)" "\<forall>f \<in> set sent. good_reply s2 f" by auto
    have "map_of (held_leases s) \<subseteq>\<^sub>m map_of (held_leases s2)" using one(5) rest(4) by (rule map_le_trans)
    with True one rest good_reply_mono [OF _ rest(4)] show ?thesis by (simp add: Let_def) blast
  next
    case False
    with 2(2) [OF refl False 2(3) rx 2(5)] 2(6) show ?thesis by (simp add: Let_def)
  qed
qed simp

lemma init_fair:
  "dhcp.fair (dhcp_server_init ip 0xC0A80164 0xC0A801C8 mac server_statics)"
  by (simp add: dhcp.fair_def dhcp_wf_def dhcp_server_init_def held_leases_def server_statics_def)

text \<open>
  C8: The DHCP server of Marius, running in its main loop on any frames at all, goes on for ever
  without a step that C leaves undefined, and what it sends are whole replies whose IP header carries
  a correct checksum. Two replies offer the same address exactly when they go to the same hardware
  address, so that no address is given to two clients and a client keeps the one it has; all
  addresses are of the configured pool.
\<close>

theorem dhcp_main_correct:
  assumes "length rx_buf = 2048" and "length tx_buf = 2048" and "\<forall>(received, n) \<in> set events. length received \<le> 2048"
  shows "\<exists>sent s'. dhcp_main events rx_buf tx_buf = Some (sent, s') \<and>
    (\<forall>f \<in> set sent. length f = frame_size \<and> ip_checksum (take 20 (drop 14 f)) = 0 \<and>
      0xC0A80164 \<le> reply_address f \<and> reply_address f \<le> 0xC0A801C8 \<and>
      (\<forall>g \<in> set sent. reply_address f = reply_address g \<longleftrightarrow> reply_client f = reply_client g))"
proof -
  let ?s = "dhcp_server_init 0xC0A80101 0xC0A80164 0xC0A801C8 [0x52, 0x54, 0x00, 0x12, 0x34, 0x56] server_statics"
  from main_loop_good [OF init_fair assms] obtain sent s' where
    run: "dhcp_main_loop events rx_buf tx_buf ?s = Some (sent, s')" "dhcp.fair s'" "ip_pool s' = ip_pool ?s"
      "\<forall>f \<in> set sent. good_reply s' f" by blast
  have "ip_pool ?s = {0xC0A80164..0xC0A801C8}" by (simp add: ip_pool_def dhcp_server_init_def)
  with run show ?thesis
    unfolding dhcp_main_def good_reply_def by (metis atLeastAtMost_iff dhcp.held_unique)
qed

text \<open>A request from a client: an IP packet with a datagram for port 67, DHCP's magic number, a message type.\<close>

definition request_frame :: "u8 list \<Rightarrow> u8 \<Rightarrow> u8 list \<Rightarrow> bool" where
  "request_frame rx t mac \<longleftrightarrow> frame_size \<le> length rx \<and> take 2 (drop 12 rx) = be_enc 2 0x0800 \<and> rx ! 23 = 17 \<and>
     take 2 (drop 36 rx) = be_enc 2 67 \<and> take 4 (drop 278 rx) = [0x63, 0x82, 0x53, 0x63] \<and>
     find_msg_type (take 312 (drop 282 rx)) = t \<and> take 6 (drop 70 rx) = mac"

lemma process_request:
  assumes "request_frame rx t mac" and "282 \<le> n" and "n < 2 ^ 31" and "frame_size \<le> length tx"
    and "(t, r) \<in> {(1, 2), (3, 5)}"
  shows "dhcp_server_process rx n tx s = reply_with (take sizeof_dhcp (drop 42 rx)) r tx s"
proof -
  have "get16 12 rx = htons 0x0800" "get16 36 rx = htons 67"
    using assms(1) by (simp_all add: request_frame_def get16_def field_def be_enc_def le_enc_bytes htons_def)
  moreover have "\<not> (of_int n :: u64) < of_nat (14 + sizeof_ip + sizeof_udp + 240)"
  proof -
    have "uint (of_int n :: u64) = n" using assms(2,3) by (simp add: uint_word_of_int take_bit_eq_mod)
    then show ?thesis using assms(2) by (simp add: word_less_def sizes)
  qed
  ultimately show ?thesis using assms
    by (auto simp: dhcp_server_process_def process_dhcp_packet_def request_frame_def Let_def sizes drop_take)
qed


text \<open>The first request of a client with the hardware address 07:07:07:07:07:07.\<close>

definition discover_frame :: "u8 list" where
  "discover_frame = replicate 12 0 @ [8, 0] @ replicate 9 0 @ [17] @ replicate 12 0 @ [0, 67] @ replicate 32 0 @
     replicate 6 7 @ replicate 202 0 @ [0x63, 0x82, 0x53, 0x63] @ [53, 1, 1, 255] @ replicate 308 0"

lemma discover_is_request: "request_frame discover_frame 1 (replicate 6 7)"
  by (simp add: request_frame_def discover_frame_def sizes be_const be_enc_def le_enc_bytes nth_append
      find_msg_type_def scan_first)


theorem dhcp_main_correct_witness:
  "\<exists>sent s'. dhcp_main [(discover_frame, 594), (discover_frame, 594)] (replicate 2048 0) (replicate 2048 0) = Some (sent, s') \<and>
    (\<forall>f \<in> set sent. length f = frame_size \<and> ip_checksum (take 20 (drop 14 f)) = 0 \<and>
      0xC0A80164 \<le> reply_address f \<and> reply_address f \<le> 0xC0A801C8 \<and>
      (\<forall>g \<in> set sent. reply_address f = reply_address g \<longleftrightarrow> reply_client f = reply_client g))"
  by (rule dhcp_main_correct) (simp_all add: discover_frame_def)

end
