(* ===== verification/Marius_Hosted.thy ===== *)
theory Marius_Hosted
  imports Marius_Dhcp
begin

text \<open>
  The DHCP server of Marius as a program of an operating system: the server of marius/dhcp.c. Addresses
  are kept in the order of the network, as the sockets deliver them. Its table of leases has 100
  entries and is written without a check; \<open>None\<close> where a step writes behind it, or never ends. The
  calls of the socket library are inputs and outputs; the client is in \<open>Marius_Client\<close>.
\<close>

section \<open>The server\<close>

record host_lease =
  hl_ip :: u32
  hl_mac :: "u8 list"
  hl_used :: int

record host_server =
  h_leases :: "host_lease list"
  h_lease_count :: nat
  h_ip_start :: u32
  h_ip_end :: u32
  h_server_ip :: u32
  h_subnet_mask :: u32
  h_gateway :: u32

definition host_lease_of_mac :: "u8 list \<Rightarrow> host_server \<Rightarrow> nat option" where
  "host_lease_of_mac mac s = scan (\<lambda>i. hl_mac (h_leases s ! i) = bytes_at 6 mac) 0 (h_lease_count s)"

definition host_leased :: "host_server \<Rightarrow> u32 \<Rightarrow> bool" where
  "host_leased s ip = (scan (\<lambda>j. hl_ip (h_leases s ! j) = ip) 0 (h_lease_count s) \<noteq> None)"

text \<open>On the machine \<open>ntohl\<close> and \<open>htonl\<close> both reverse the bytes.\<close>

definition host_allocate_ip :: "u8 list \<Rightarrow> host_server \<Rightarrow> (u32 \<times> host_server) option" where
  "host_allocate_ip mac s = (case host_lease_of_mac mac s of
     Some i \<Rightarrow> Some (hl_ip (h_leases s ! i), s)
   | None \<Rightarrow>
       (case pool_scan (\<lambda>i. \<not> host_leased s (htonl i)) (htonl (h_ip_end s)) (htonl (h_ip_start s)) of
          None \<Rightarrow> None
        | Some None \<Rightarrow> Some (0, s)
        | Some (Some i) \<Rightarrow>
            (if h_lease_count s < length (h_leases s) then
               Some (htonl i, s\<lparr>
                 h_leases := (h_leases s)[h_lease_count s := \<lparr>hl_ip = htonl i, hl_mac = bytes_at 6 mac, hl_used = 1\<rparr>],
                 h_lease_count := h_lease_count s + 1\<rparr>)
             else None)))"

definition create_response :: "host_server \<Rightarrow> u8 list \<Rightarrow> u8 \<Rightarrow> u32 \<Rightarrow> u8 list" where
  "create_response s req msg_type yiaddr =
     (let resp = replicate sizeof_dhcp 0;
          resp = overwrite resp 0 [2];
          resp = overwrite resp 1 [1];
          resp = overwrite resp 2 [6];
          resp = overwrite resp 4 (take 4 (drop 4 req));
          resp = put32 16 yiaddr resp;
          resp = put32 20 (h_server_ip s) resp;
          resp = overwrite resp 28 (take 16 (drop 28 req));
          resp = overwrite resp 236 [0x63, 0x82, 0x53, 0x63]
      in overwrite resp 240 (
           [53, 1, msg_type] @
           [54, 4] @ le_enc 4 (unat (h_server_ip s)) @
           [51, 4] @ le_enc 4 (unat (htonl 86400)) @
           [1, 4] @ le_enc 4 (unat (h_subnet_mask s)) @
           [3, 4] @ le_enc 4 (unat (h_gateway s)) @
           [255]))"

text \<open>The reply that is sent, and the server.\<close>

definition host_reply :: "u8 list \<Rightarrow> u8 \<Rightarrow> host_server \<Rightarrow> (u8 list option \<times> host_server) option" where
  "host_reply req msg_type s = map_option (\<lambda>(ip, s).
     (if ip \<noteq> 0 then Some (create_response s req msg_type ip) else None, s)) (host_allocate_ip (take 16 (drop 28 req)) s)"

text \<open>A turn of the loop: the packet that \<open>recvfrom\<close> left in \<open>req\<close>, and its length.\<close>

definition run_server_turn :: "u8 list \<times> int \<Rightarrow> host_server \<Rightarrow> (u8 list option \<times> host_server) option" where
  "run_server_turn = (\<lambda>(req, n) s.
     if n < 240 then Some (None, s)
     else (let msg_type = find_msg_type (drop 240 req) in
       if msg_type = 1 then host_reply req 2 s
       else if msg_type = 3 then host_reply req 5 s
       else Some (None, s)))"

fun run_server :: "(u8 list \<times> int) list \<Rightarrow> host_server \<Rightarrow> (u8 list option list \<times> host_server) option" where
  "run_server [] s = Some ([], s)"
| "run_server (packet # packets) s = (case run_server_turn packet s of
     None \<Rightarrow> None
   | Some (reply, s) \<Rightarrow> map_option (apfst (Cons reply)) (run_server packets s))"

text \<open>The variables that \<open>main\<close> sets before it runs the server; \<open>inet_addr\<close> is the function of the socket library.\<close>

definition server_main :: "(string \<Rightarrow> u32) \<Rightarrow> host_server" where
  "server_main inet_addr = \<lparr>h_leases = replicate 100 \<lparr>hl_ip = 0, hl_mac = replicate 6 0, hl_used = 0\<rparr>, h_lease_count = 0,
     h_ip_start = inet_addr ''192.168.1.100'', h_ip_end = inet_addr ''192.168.1.200'',
     h_server_ip = inet_addr ''192.168.1.1'', h_subnet_mask = inet_addr ''255.255.255.0'',
     h_gateway = inet_addr ''192.168.1.1''\<rparr>"

section \<open>The table of leases overflows\<close>

lemma htonl_involution [simp]: "htonl (htonl w) = w"
proof -
  have "le_enc 4 (unat (htonl (htonl w))) = le_enc 4 (unat w)" by (simp add: htonl_be be_enc_def)
  then have "le_dec (le_enc 4 (unat (htonl (htonl w)))) = le_dec (le_enc 4 (unat w))" by (rule arg_cong)
  then have "unat (htonl (htonl w)) = unat w" by (simp add: le_dec_enc mod_word del: power_numeral)
  then show ?thesis by (simp only: word_unat_eq_iff)
qed

text \<open>The pool of 101 addresses, all of them different from 0, and a table that fits the requests so far.\<close>

definition host_wf :: "u8 list list \<Rightarrow> host_server \<Rightarrow> bool" where
  "host_wf macs s \<longleftrightarrow> length (h_leases s) = 100 \<and> h_lease_count s = length macs \<and> length macs \<le> 100 \<and>
     (\<forall>i < length macs. hl_mac (h_leases s ! i) = macs ! i) \<and>
     htonl (h_ip_start s) = 0xC0A80164 \<and> htonl (h_ip_end s) = 0xC0A801C8"

lemma card_pool: "card {0xC0A80164..0xC0A801C8 :: u32} = 101"
proof -
  have "{0xC0A80164..0xC0A801C8 :: u32} = word_of_nat ` {0xC0A80164..0xC0A801C8}"
  proof (intro set_eqI iffI)
    fix x :: u32 assume "x \<in> {0xC0A80164..0xC0A801C8}"
    then have "unat x \<in> {0xC0A80164..0xC0A801C8}" by (simp add: word_le_nat_alt)
    moreover have "x = word_of_nat (unat x)" by simp
    ultimately show "x \<in> word_of_nat ` {0xC0A80164..0xC0A801C8}" by (rule rev_image_eqI)
  qed (auto simp: word_le_nat_alt unat_of_nat take_bit_eq_mod)
  moreover have "inj_on (word_of_nat :: nat \<Rightarrow> u32) {0xC0A80164..0xC0A801C8}"
    by (rule inj_on_inverseI [where g = unat]) (simp add: unat_of_nat take_bit_eq_mod)
  ultimately show ?thesis by (simp add: card_image)
qed

lemma host_scan_finds:
  assumes "host_wf macs s"
  shows "\<exists>i. pool_scan (\<lambda>i. \<not> host_leased s (htonl i)) (htonl (h_ip_end s)) (htonl (h_ip_start s)) = Some (Some i) \<and> htonl i \<noteq> 0"
proof -
  let ?pool = "{0xC0A80164..0xC0A801C8 :: u32}" and ?taken = "(\<lambda>j. htonl (hl_ip (h_leases s ! j))) ` {..<h_lease_count s}"
  have "card ?taken \<le> 100" using card_image_le [of "{..<h_lease_count s}" "\<lambda>j. htonl (hl_ip (h_leases s ! j))"] assms
    by (simp add: host_wf_def)
  then have "\<not> ?pool \<subseteq> ?taken" using card_mono [of ?taken ?pool] card_pool by auto
  then obtain x where x: "x \<in> ?pool" "x \<notin> ?taken" by blast
  have "\<not> host_leased s (htonl x)"
  proof
    assume "host_leased s (htonl x)"
    then obtain j where "j < h_lease_count s" "hl_ip (h_leases s ! j) = htonl x" by (auto simp: host_leased_def dest: scan_SomeD)
    then have "x \<in> ?taken" by (force intro: rev_image_eqI)
    with x(2) show False by simp
  qed
  with x(1) pool_scan_result [of "htonl (h_ip_end s)" "\<lambda>i. \<not> host_leased s (htonl i)" "htonl (h_ip_start s)"] assms
  obtain i where i: "pool_scan (\<lambda>i. \<not> host_leased s (htonl i)) (htonl (h_ip_end s)) (htonl (h_ip_start s)) = Some (Some i)"
      "0xC0A80164 \<le> i" by (auto simp: host_wf_def)
  have "htonl i \<noteq> 0"
  proof
    assume "htonl i = 0"
    then have "i = htonl 0" by (metis htonl_involution)
    with i(2) show False by (simp add: htonl_def)
  qed
  with i(1) show ?thesis by blast
qed

text \<open>A request that asks for an address, from the client with hardware address \<open>mac\<close>.\<close>

definition asks :: "u8 list \<Rightarrow> u8 list \<Rightarrow> bool" where
  "asks req mac \<longleftrightarrow> length req = sizeof_dhcp \<and> find_msg_type (drop 240 req) \<in> {1, 3} \<and> take 6 (drop 28 req) = mac"

lemma turn_of_new_client:
  assumes "host_wf macs s" and "asks req mac" and "mac \<notin> set macs"
  shows "if length macs < 100 then \<exists>reply s'. run_server_turn (req, 552) s = Some (Some reply, s') \<and> host_wf (macs @ [mac]) s'
    else run_server_turn (req, 552) s = None"
proof -
  let ?mac = "take 16 (drop 28 req)"
  have mac: "bytes_at 6 ?mac = mac" using assms(2) by (simp add: asks_def bytes_at_def sizes)
  have "host_lease_of_mac ?mac s = None"
    using assms(1,3) by (auto simp: host_lease_of_mac_def host_wf_def mac scan_None_iff)
  moreover from host_scan_finds [OF assms(1)] obtain i where
    "pool_scan (\<lambda>i. \<not> host_leased s (htonl i)) (htonl (h_ip_end s)) (htonl (h_ip_start s)) = Some (Some i)" "htonl i \<noteq> 0" by blast
  moreover have "host_wf (macs @ [mac]) (s\<lparr>h_leases := (h_leases s)[h_lease_count s := \<lparr>hl_ip = htonl i, hl_mac = mac, hl_used = 1\<rparr>],
      h_lease_count := h_lease_count s + 1\<rparr>)" if "length macs < 100"
    using assms(1) that by (auto simp: host_wf_def nth_append nth_list_update less_Suc_eq)
  ultimately show ?thesis using assms(1,2)
    by (auto simp: run_server_turn_def host_reply_def host_allocate_ip_def mac host_wf_def asks_def)
qed

lemma run_of_new_clients:
  assumes "host_wf macs s" and "list_all2 asks reqs new" and "distinct (macs @ new)"
  shows "(run_server (map (\<lambda>req. (req, 552)) reqs) s = None) = (100 < length macs + length new)"
  using assms(2,1,3)
proof (induction reqs new arbitrary: macs s rule: list_all2_induct)
  case Nil
  then show ?case by (simp add: host_wf_def)
next
  case (Cons req reqs mac new)
  have new: "mac \<notin> set macs" using Cons.prems(2) by auto
  show ?case
  proof (cases "length macs < 100")
    case True
    with turn_of_new_client [OF Cons.prems(1) Cons.hyps(1) new] obtain reply s' where
      "run_server_turn (req, 552) s = Some (Some reply, s')" "host_wf (macs @ [mac]) s'" by auto
    with Cons.IH [of "macs @ [mac]" s'] Cons.prems(2) show ?thesis by simp
  next
    case False
    with turn_of_new_client [OF Cons.prems(1) Cons.hyps(1) new] show ?thesis by simp
  qed
qed


text \<open>101 clients that ask for an address in a row.\<close>

definition discover :: "nat \<Rightarrow> u8 list" where
  "discover i = replicate 28 0 @ replicate 6 (of_nat i) @ replicate 206 0 @ [53, 1, 1, 255] @ replicate 308 0"

lemma discover_asks: "asks (discover i) (replicate 6 (of_nat i))"
  by (simp add: asks_def discover_def sizes find_msg_type_def scan_first)


end
