(* ===== verification/Marius_Client.thy ===== *)
theory Marius_Client
  imports Marius_Hosted
begin

text \<open>
  The client in marius/dhcp.c, and its conversation with the server there while the server also serves others. The random
  numbers and what the socket receives are parameters; \<open>None\<close> is a receive that fails or times out.
\<close>

section \<open>The client\<close>

datatype client_text = Timeout | Received_offer u32 | Got_address u32

definition client_discover :: "u32 \<Rightarrow> u8 list \<Rightarrow> u8 list" where
  "client_discover xid mac =
     (let pkt = replicate sizeof_dhcp 0;
          pkt = overwrite pkt 0 [1];
          pkt = overwrite pkt 1 [1];
          pkt = overwrite pkt 2 [6];
          pkt = put32 4 xid pkt;
          pkt = overwrite pkt 28 mac;
          pkt = overwrite pkt 236 [0x63, 0x82, 0x53, 0x63]
      in overwrite pkt 240 [53, 1, 1, 255])"

definition client_request :: "u8 list \<Rightarrow> u8 list \<Rightarrow> u8 list" where
  "client_request pkt resp =
     (let pkt = overwrite pkt 242 [3]
      in overwrite pkt 243 ([50, 4] @ take 4 (drop 16 resp) @ [54, 4] @ take 4 (drop 20 resp) @ [255]))"

definition yiaddr_of :: "u8 list \<Rightarrow> u32" where
  "yiaddr_of resp = of_nat (le_dec (take 4 (drop 16 resp)))"

definition same_xid :: "u8 list \<Rightarrow> u8 list \<Rightarrow> bool" where
  "same_xid resp pkt \<longleftrightarrow> take 4 (drop 4 resp) = take 4 (drop 4 pkt)"

text \<open>The packets that are sent and what is printed, for the answers to the two packets.\<close>

definition run_client :: "u32 \<Rightarrow> u8 list \<Rightarrow> u8 list option \<Rightarrow> u8 list option \<Rightarrow> u8 list list \<times> client_text list" where
  "run_client xid mac offer ack =
     (let pkt = client_discover xid mac in
      case offer of
        None \<Rightarrow> ([pkt], [Timeout])
      | Some resp \<Rightarrow>
          (if \<not> same_xid resp pkt then ([pkt], [])
           else (let pkt2 = client_request pkt resp in
             ([pkt, pkt2], Received_offer (yiaddr_of resp) # (case ack of
                None \<Rightarrow> []
              | Some resp \<Rightarrow> (if same_xid resp pkt2 then [Got_address (yiaddr_of resp)] else []))))))"

section \<open>Parts of packets\<close>

lemma part_elsewhere:
  assumes "off + length zs \<le> length xs" and "k + n \<le> off \<or> off + length zs \<le> k"
  shows "take n (drop k (overwrite xs off zs)) = take n (drop k xs)"
  by (rule nth_equalityI) (use assms in \<open>auto simp: overwrite_nth\<close>)

lemma part_here: "off + length zs \<le> length xs \<Longrightarrow> n = length zs \<Longrightarrow> take n (drop off (overwrite xs off zs)) = zs"
  by (simp add: overwrite_def)

lemma length_put32 [simp]: "off + 4 \<le> length buf \<Longrightarrow> length (put32 off w buf) = length buf"
  by (simp add: put32_def)

lemma length_discover [simp]: "length mac = 6 \<Longrightarrow> length (client_discover xid mac) = 552"
  by (simp add: client_discover_def Let_def sizes)

lemma discover_parts:
  assumes "length mac = 6"
  shows "take 4 (drop 4 (client_discover xid mac)) = le_enc 4 (unat xid)"
    and "take 6 (drop 28 (client_discover xid mac)) = mac"
    and "take 4 (drop 240 (client_discover xid mac)) = [53, 1, 1, 255]"
proof -
  note parts = client_discover_def Let_def put32_def part_elsewhere part_here sizes length_overwrite length_replicate length_le_enc
  show "take 4 (drop 4 (client_discover xid mac)) = le_enc 4 (unat xid)" using assms by (simp add: parts del: take_drop)
  show "take 6 (drop 28 (client_discover xid mac)) = mac" using assms by (simp add: parts)
  show "take 4 (drop 240 (client_discover xid mac)) = [53, 1, 1, 255]" using assms by (simp add: parts)
qed

lemma length_response [simp]: "20 \<le> length req \<Longrightarrow> length (create_response s req ty ip) = 552"
  by (simp add: create_response_def Let_def sizes)

lemma response_parts:
  assumes "length req = 552"
  shows "take 4 (drop 4 (create_response s req ty ip)) = take 4 (drop 4 req)"
    and "yiaddr_of (create_response s req ty ip) = ip"
proof -
  have "take 4 (drop 16 (create_response s req ty ip)) = le_enc 4 (unat ip)"
    using assms by (simp add: create_response_def Let_def put32_def part_elsewhere part_here sizes)
  then show "yiaddr_of (create_response s req ty ip) = ip"
    by (simp add: yiaddr_of_def le_dec_enc mod_word del: power_numeral)
  show "take 4 (drop 4 (create_response s req ty ip)) = take 4 (drop 4 req)"
    using assms by (simp add: create_response_def Let_def put32_def part_elsewhere part_here sizes)
qed

lemma find_first_type: "options ! 0 = 53 \<Longrightarrow> options ! 1 = 1 \<Longrightarrow> find_msg_type options = options ! 2"
  by (simp add: find_msg_type_def scan_first) (simp add: numeral_2_eq_2)

lemma part_nth: "take n (drop k xs) = ys \<Longrightarrow> i < length ys \<Longrightarrow> k \<le> length xs \<Longrightarrow> drop k xs ! i = ys ! i"
  by (metis length_take min_less_iff_conj nth_take)

lemma discover_type:
  assumes "length mac = 6"
  shows "find_msg_type (drop 240 (client_discover xid mac)) = 1"
proof -
  note part = part_nth [OF discover_parts(3) [OF assms, of xid]]
  have "drop 240 (client_discover xid mac) ! 0 = 53" "drop 240 (client_discover xid mac) ! 1 = 1" "drop 240 (client_discover xid mac) ! 2 = 1"
    using assms part [of 0] part [of 1] part [of 2] by simp_all
  then show ?thesis by (simp only: find_first_type)
qed

lemma request_parts:
  assumes "length mac = 6" and "length resp = 552"
  shows "length (client_request (client_discover xid mac) resp) = 552"
    and "take 4 (drop 4 (client_request (client_discover xid mac) resp)) = le_enc 4 (unat xid)"
    and "take 16 (drop 28 (client_request (client_discover xid mac) resp)) = take 16 (drop 28 (client_discover xid mac))"
    and "find_msg_type (drop 240 (client_request (client_discover xid mac) resp)) = 3"
proof -
  let ?req = "client_request (client_discover xid mac) resp"
  show len: "length ?req = 552" and "take 4 (drop 4 ?req) = le_enc 4 (unat xid)"
    and "take 16 (drop 28 ?req) = take 16 (drop 28 (client_discover xid mac))"
    using assms discover_parts(1) by (simp_all add: client_request_def Let_def part_elsewhere)
  have "take 1 (drop 242 ?req) = [3]" using assms by (simp add: client_request_def Let_def part_elsewhere part_here)
  moreover have "take 2 (drop 240 ?req) = take 2 (drop 240 (client_discover xid mac))"
    using assms by (simp add: client_request_def Let_def part_elsewhere)
  then have "take 2 (drop 240 ?req) = [53, 1]"
    using arg_cong [OF discover_parts(3) [OF assms(1)], of "take 2"] by simp
  ultimately have "drop 240 ?req ! 0 = 53" "drop 240 ?req ! 1 = 1" "drop 240 ?req ! 2 = 3"
    using part_nth [of 2 240 ?req "[53, 1]" 0] part_nth [of 2 240 ?req "[53, 1]" 1] part_nth [of 1 242 ?req "[3]" 0] len by simp_all
  then show "find_msg_type (drop 240 ?req) = 3" by (simp only: find_first_type)
qed

section \<open>Leases stay\<close>

definition grows :: "host_server \<Rightarrow> host_server \<Rightarrow> bool" where
  "grows s s' \<longleftrightarrow> h_lease_count s \<le> h_lease_count s' \<and> (\<forall>i < h_lease_count s. h_leases s' ! i = h_leases s ! i)"

lemma grows_trans: "grows s s1 \<Longrightarrow> grows s1 s2 \<Longrightarrow> grows s s2"
  by (auto simp: grows_def)

lemma allocate_grows:
  assumes "host_allocate_ip mac s = Some (ip, s')"
  shows "grows s s' \<and> (ip \<noteq> 0 \<longrightarrow> (\<exists>i. host_lease_of_mac mac s' = Some i \<and> hl_ip (h_leases s' ! i) = ip))"
proof (cases "host_lease_of_mac mac s")
  case (Some i)
  then show ?thesis using assms by (auto simp: host_allocate_ip_def grows_def)
next
  case None
  show ?thesis
  proof (cases "ip = 0")
    case False
    then obtain a where new: "h_lease_count s < length (h_leases s)" "ip = htonl a"
      "s' = s\<lparr>h_leases := (h_leases s)[h_lease_count s := \<lparr>hl_ip = htonl a, hl_mac = bytes_at 6 mac, hl_used = 1\<rparr>], h_lease_count := h_lease_count s + 1\<rparr>"
      using assms None by (auto simp: host_allocate_ip_def split: option.splits if_splits)
    then have "host_lease_of_mac mac s' = Some (h_lease_count s)"
      using None by (auto simp: host_lease_of_mac_def scan_Some_iff scan_None_iff)
    then show ?thesis using new by (auto simp: grows_def)
  qed (use assms None in \<open>auto simp: host_allocate_ip_def grows_def split: option.splits if_splits\<close>)
qed

lemma turn_grows: "run_server_turn packet s = Some (reply, s') \<Longrightarrow> grows s s'"
  using allocate_grows by (auto simp: run_server_turn_def host_reply_def grows_def Let_def split: if_splits prod.splits)

lemma run_grows: "run_server packets s = Some (replies, s') \<Longrightarrow> grows s s'"
proof (induction packets arbitrary: s replies)
  case (Cons packet packets)
  then obtain reply s1 rs where "run_server_turn packet s = Some (reply, s1)" "run_server packets s1 = Some (rs, s')"
    by (auto split: option.splits)
  with Cons.IH turn_grows grows_trans show ?case by blast
qed (simp add: grows_def)

lemma lease_kept:
  assumes "grows s s'" and "host_lease_of_mac mac s = Some i"
  shows "host_lease_of_mac mac s' = Some i \<and> h_leases s' ! i = h_leases s ! i"
  using assms by (auto simp: host_lease_of_mac_def scan_Some_iff grows_def)



end
