(* ===== verification/Eclib_Utils.thy ===== *)
theory Eclib_Utils
  imports Bytes "HOL-Library.Sublist"
begin

text \<open>
  The string and memory functions of the user library: eclib/src/utils/utils.c. One list of bytes is the
  memory of a program, a pointer is an index into it or \<open>None\<close> for the null pointer, so that
  areas can overlap. A result \<open>None\<close> stands for an access outside the memory, as by a string without
  its end. Functions that return their destination leave it out of the result.
\<close>

type_synonym memory = "u8 list"
type_synonym pointer = "nat option"

section \<open>Strings\<close>

text \<open>The loops that run to the end of a string.\<close>

definition end_of_string :: "memory \<Rightarrow> nat \<Rightarrow> nat option" where
  "end_of_string m p = scan (\<lambda>i. m ! i = 0) p (length m)"

definition eclib_strlen :: "memory \<Rightarrow> pointer \<Rightarrow> nat option" where
  "eclib_strlen m str = (case str of
     None \<Rightarrow> Some 0
   | Some p \<Rightarrow> map_option (\<lambda>i. i - p) (end_of_string m p))"

function copy_chars :: "memory \<Rightarrow> nat \<Rightarrow> nat \<Rightarrow> nat \<Rightarrow> nat \<Rightarrow> (nat \<times> memory) option" where
  "copy_chars m d s i n =
     (if i < n then
        (if length m \<le> s + i then None
         else if m ! (s + i) = 0 then Some (i, m)
         else if length m \<le> d + i then None
         else copy_chars (m[d + i := m ! (s + i)]) d s (i + 1) n)
      else Some (i, m))"
  by pat_completeness auto
termination by (relation "measure (\<lambda>(m, d, s, i, n). n - i)") auto

declare copy_chars.simps [simp del]

definition eclib_strncpy :: "memory \<Rightarrow> pointer \<Rightarrow> pointer \<Rightarrow> nat \<Rightarrow> memory option" where
  "eclib_strncpy m dest src max_len = (case (dest, src) of
     (Some d, Some s) \<Rightarrow>
       (if max_len = 0 then Some m
        else (case copy_chars m d s 0 (max_len - 1) of
                None \<Rightarrow> None
              | Some (i, m) \<Rightarrow> if d + i < length m then Some (m[d + i := 0]) else None))
   | _ \<Rightarrow> Some m)"

text \<open>A character is a signed number here.\<close>

function compare_loop :: "memory \<Rightarrow> nat \<Rightarrow> nat \<Rightarrow> int option" where
  "compare_loop m p q =
     (if length m \<le> p \<or> length m \<le> q then None
      else if m ! p \<noteq> 0 \<and> m ! q \<noteq> 0 \<and> m ! p = m ! q then compare_loop m (p + 1) (q + 1)
      else Some (sint (m ! p) - sint (m ! q)))"
  by pat_completeness auto
termination by (relation "measure (\<lambda>(m, p, q). length m - p)") auto

declare compare_loop.simps [simp del]

definition eclib_strcmp :: "memory \<Rightarrow> pointer \<Rightarrow> pointer \<Rightarrow> int option" where
  "eclib_strcmp m str1 str2 = (case (str1, str2) of
     (None, None) \<Rightarrow> Some 0
   | (None, _) \<Rightarrow> Some (-1)
   | (_, None) \<Rightarrow> Some 1
   | (Some p, Some q) \<Rightarrow> compare_loop m p q)"

function compare_upto :: "memory \<Rightarrow> nat \<Rightarrow> nat \<Rightarrow> nat \<Rightarrow> nat \<Rightarrow> int option" where
  "compare_upto m p q i n =
     (if i < n then
        (if length m \<le> p + i \<or> length m \<le> q + i then None
         else if m ! (p + i) \<noteq> m ! (q + i) \<or> m ! (p + i) = 0 then Some (uint (m ! (p + i)) - uint (m ! (q + i)))
         else compare_upto m p q (i + 1) n)
      else Some 0)"
  by pat_completeness auto
termination by (relation "measure (\<lambda>(m, p, q, i, n). n - i)") auto

declare compare_upto.simps [simp del]

definition eclib_strncmp :: "memory \<Rightarrow> pointer \<Rightarrow> pointer \<Rightarrow> nat \<Rightarrow> int option" where
  "eclib_strncmp m str1 str2 n = (case (str1, str2) of
     (Some p, Some q) \<Rightarrow> compare_upto m p q 0 n
   | (Some p, None) \<Rightarrow> Some 1
   | (None, Some q) \<Rightarrow> Some (-1)
   | (None, None) \<Rightarrow> Some 0)"

text \<open>The inner loop of the search compares \<open>n\<close> characters, the outer one tries the places in order.\<close>

definition match_at :: "memory \<Rightarrow> nat \<Rightarrow> nat \<Rightarrow> nat \<Rightarrow> bool" where
  "match_at m p q n \<longleftrightarrow> scan (\<lambda>j. m ! (p + j) \<noteq> m ! (q + j)) 0 n = None"

definition eclib_strstr :: "memory \<Rightarrow> pointer \<Rightarrow> pointer \<Rightarrow> pointer option" where
  "eclib_strstr m str substr = (case (str, substr) of
     (Some p, Some q) \<Rightarrow>
       (if length m \<le> q then None
        else if m ! q = 0 then Some None
        else (case (eclib_strlen m (Some q), eclib_strlen m (Some p)) of
                (Some substr_len, Some str_len) \<Rightarrow>
                  (if substr_len > str_len then Some None
                   else Some (map_option (\<lambda>i. p + i)
                     (scan (\<lambda>i. match_at m (p + i) q substr_len) 0 (str_len - substr_len + 1))))
              | _ \<Rightarrow> None))
   | _ \<Rightarrow> Some None)"

definition eclib_strchr :: "memory \<Rightarrow> pointer \<Rightarrow> int \<Rightarrow> pointer option" where
  "eclib_strchr m str c = (case str of
     None \<Rightarrow> Some None
   | Some s \<Rightarrow>
       (case scan (\<lambda>i. m ! i = 0 \<or> m ! i = of_int c) s (length m) of
          None \<Rightarrow> None
        | Some i \<Rightarrow> if m ! i \<noteq> 0 then Some (Some i) else if c = 0 then Some (Some i) else Some None))"

function last_char :: "memory \<Rightarrow> nat \<Rightarrow> u8 \<Rightarrow> pointer \<Rightarrow> (nat \<times> pointer) option" where
  "last_char m s c found =
     (if length m \<le> s then None
      else if m ! s = 0 then Some (s, found)
      else last_char m (s + 1) c (if m ! s = c then Some s else found))"
  by pat_completeness auto
termination by (relation "measure (\<lambda>(m, s, c, found). length m - s)") auto

declare last_char.simps [simp del]

definition eclib_strrchr :: "memory \<Rightarrow> pointer \<Rightarrow> int \<Rightarrow> pointer option" where
  "eclib_strrchr m str c = (case str of
     None \<Rightarrow> Some None
   | Some s \<Rightarrow>
       (case last_char m s (of_int c) None of
          None \<Rightarrow> None
        | Some (s, found) \<Rightarrow> if c = 0 then Some (Some s) else Some found))"

section \<open>Memory\<close>

definition copy_up :: "nat \<Rightarrow> nat \<Rightarrow> nat \<Rightarrow> memory \<Rightarrow> memory" where
  "copy_up d s n m = fold (\<lambda>i m. m[d + i := m ! (s + i)]) [0..<n] m"

definition copy_down :: "nat \<Rightarrow> nat \<Rightarrow> nat \<Rightarrow> memory \<Rightarrow> memory" where
  "copy_down d s n m = fold (\<lambda>i m. m[d + (i - 1) := m ! (s + (i - 1))]) (rev [1..<n + 1]) m"

definition eclib_memcpy :: "memory \<Rightarrow> pointer \<Rightarrow> pointer \<Rightarrow> nat \<Rightarrow> memory option" where
  "eclib_memcpy m dest src n = (case (dest, src) of
     (Some d, Some s) \<Rightarrow>
       (if n = 0 then Some m
        else if d + n \<le> length m \<and> s + n \<le> length m then Some (copy_up d s n m)
        else None)
   | _ \<Rightarrow> Some m)"

definition eclib_memmove :: "memory \<Rightarrow> pointer \<Rightarrow> pointer \<Rightarrow> nat \<Rightarrow> memory option" where
  "eclib_memmove m dest src n = (case (dest, src) of
     (Some d, Some s) \<Rightarrow>
       (if n = 0 then Some m
        else if d > s \<and> d < s + n then
          (if d + n \<le> length m \<and> s + n \<le> length m then Some (copy_down d s n m) else None)
        else eclib_memcpy m (Some d) (Some s) n)
   | _ \<Rightarrow> Some m)"

definition eclib_memset :: "memory \<Rightarrow> pointer \<Rightarrow> int \<Rightarrow> nat \<Rightarrow> memory option" where
  "eclib_memset m ptr v n = (case ptr of
     None \<Rightarrow> Some m
   | Some p \<Rightarrow>
       (if n = 0 then Some m
        else if p + n \<le> length m then Some (fold (\<lambda>i m. m[p + i := of_int v]) [0..<n] m)
        else None))"

text \<open>A copy of a string in memory that \<open>alloc\<close> provides for a size, or fails to.\<close>

definition eclib_strdup :: "(nat \<Rightarrow> pointer) \<Rightarrow> memory \<Rightarrow> pointer \<Rightarrow> (pointer \<times> memory) option" where
  "eclib_strdup alloc m str = (case str of
     None \<Rightarrow> Some (None, m)
   | Some s \<Rightarrow>
       (case eclib_strlen m (Some s) of
          None \<Rightarrow> None
        | Some n \<Rightarrow>
            (case alloc (n + 1) of
               None \<Rightarrow> Some (None, m)
             | Some dup \<Rightarrow> map_option (Pair (Some dup)) (eclib_memcpy m (Some dup) (Some s) (n + 1)))))"

section \<open>Characters\<close>

definition eclib_isdigit :: "int \<Rightarrow> int" where
  "eclib_isdigit c = (if c \<ge> 48 \<and> c \<le> 57 then 1 else 0)"

definition eclib_isalpha :: "int \<Rightarrow> int" where
  "eclib_isalpha c = (if c \<ge> 97 \<and> c \<le> 122 \<or> c \<ge> 65 \<and> c \<le> 90 then 1 else 0)"

definition eclib_tolower :: "int \<Rightarrow> int" where
  "eclib_tolower c = (if c \<ge> 65 \<and> c \<le> 90 then c + (97 - 65) else c)"

definition eclib_toupper :: "int \<Rightarrow> int" where
  "eclib_toupper c = (if c \<ge> 97 \<and> c \<le> 122 then c - (97 - 65) else c)"

section \<open>Tokens\<close>

text \<open>
  The two loops of \<open>eclib_strtok\<close>: they go on while the character is one of the separators, or while it
  is none. The search for a separator is not made at the end of the string.
\<close>

function skip_while :: "bool \<Rightarrow> memory \<Rightarrow> pointer \<Rightarrow> nat \<Rightarrow> nat option" where
  "skip_while separators m delim s =
     (if length m \<le> s then None
      else if m ! s = 0 then Some s
      else (case eclib_strchr m delim (sint (m ! s)) of
              None \<Rightarrow> None
            | Some r \<Rightarrow> if (r \<noteq> None) = separators then skip_while separators m delim (s + 1) else Some s))"
  by pat_completeness auto
termination by (relation "measure (\<lambda>(b, m, delim, s). length m - s)") auto

declare skip_while.simps [simp del]

text \<open>The token, the memory, and the static variable \<open>strtok_state\<close>.\<close>

definition eclib_strtok :: "memory \<Rightarrow> pointer \<Rightarrow> pointer \<Rightarrow> pointer \<Rightarrow> (pointer \<times> memory \<times> pointer) option" where
  "eclib_strtok m strtok_state str delim =
     (let strtok_state = (if str \<noteq> None then str else strtok_state) in
      case strtok_state of
        None \<Rightarrow> Some (None, m, None)
      | Some s \<Rightarrow>
          (case skip_while True m delim s of
             None \<Rightarrow> None
           | Some token \<Rightarrow>
               if m ! token = 0 then Some (None, m, Some token)
               else (case skip_while False m delim token of
                       None \<Rightarrow> None
                     | Some e \<Rightarrow>
                         if m ! e \<noteq> 0 then Some (Some token, m[e := 0], Some (e + 1))
                         else Some (Some token, m, Some e))))"

section \<open>Formatted text\<close>

text \<open>
  \<open>eclib_snprintf\<close>: the format and the strings among its arguments are given without their final
  null character; they lie outside the buffer. \<open>None\<close> for an argument that is missing or of another type,
  and for the negation of the least integer.
\<close>

datatype fmt_arg = Arg_Str "u8 list option" | Arg_Int int | Arg_Char int

function digits_up :: "nat \<Rightarrow> u8 list" where
  "digits_up v = of_nat (48 + v mod 10) # (if v div 10 \<noteq> 0 then digits_up (v div 10) else [])"
  by pat_completeness auto
termination by (relation "measure id") auto

declare digits_up.simps [simp del]

text \<open>What is written up to the limit \<open>lim\<close>, after the characters \<open>out\<close>; \<open>tmp\<close> holds the digits from the last to the first.\<close>

definition put_chars :: "nat \<Rightarrow> u8 list \<Rightarrow> u8 list \<Rightarrow> u8 list" where
  "put_chars lim cs out = out @ take (lim - length out) cs"

definition put_int :: "nat \<Rightarrow> int \<Rightarrow> u8 list \<Rightarrow> u8 list option" where
  "put_int lim v out =
     (if v = - (2 ^ 31) then None
      else (let neg = (v < 0); tmp = digits_up (nat (if neg then - v else v));
                out = (if neg \<and> length out < lim then out @ [45] else out)
            in Some (put_chars lim (rev tmp) out)))"

fun format_loop :: "nat \<Rightarrow> u8 list \<Rightarrow> fmt_arg list \<Rightarrow> u8 list \<Rightarrow> u8 list option" where
  "format_loop lim [] args out = Some out"
| "format_loop lim [c] args out = (if length out < lim then Some (out @ [c]) else Some out)"
| "format_loop lim (c # f # fmt) args out =
     (if \<not> length out < lim then Some out
      else if c = 37 then
        (if f = 115 then
           (case args of
              Arg_Str s # args \<Rightarrow> format_loop lim fmt args (case s of None \<Rightarrow> out | Some s \<Rightarrow> put_chars lim s out)
            | _ \<Rightarrow> None)
         else if f = 100 then
           (case args of
              Arg_Int v # args \<Rightarrow>
                (case put_int lim v out of None \<Rightarrow> None | Some out \<Rightarrow> format_loop lim fmt args out)
            | _ \<Rightarrow> None)
         else if f = 99 then
           (case args of
              Arg_Char ch # args \<Rightarrow> format_loop lim fmt args (out @ [of_int ch])
            | _ \<Rightarrow> None)
         else format_loop lim fmt args (out @ [f]))
      else format_loop lim (f # fmt) args (out @ [c]))"

text \<open>The number of characters, and the buffer; \<open>cap\<close> is the size that the caller states.\<close>

definition eclib_snprintf :: "u8 list option \<Rightarrow> nat \<Rightarrow> u8 list option \<Rightarrow> fmt_arg list \<Rightarrow> (int \<times> u8 list option) option" where
  "eclib_snprintf buf cap fmt args = (case (buf, fmt) of
     (Some b, Some f) \<Rightarrow>
       (if cap = 0 then Some (-1, buf)
        else (case format_loop (cap - 1) f args [] of
                None \<Rightarrow> None
              | Some out \<Rightarrow>
                  if length out < length b then Some (int (length out), Some (overwrite b 0 (out @ [0]))) else None))
   | _ \<Rightarrow> Some (-1, buf))"

section \<open>Copies\<close>

lemma copy_up_Suc: "copy_up d s (Suc n) m = (copy_up d s n m)[d + n := copy_up d s n m ! (s + n)]"
  by (simp add: copy_up_def)

lemma copy_down_Suc: "copy_down d s (Suc n) m = copy_down d s n (m[d + n := m ! (s + n)])"
  by (simp add: copy_down_def)

lemma copy_up_exact:
  assumes "d + n \<le> length m" and "s + n \<le> length m" and "d \<le> s \<or> s + n \<le> d"
  shows "length (copy_up d s n m) = length m \<and>
    (\<forall>j < length m. copy_up d s n m ! j = (if d \<le> j \<and> j < d + n then m ! (s + (j - d)) else m ! j))"
  using assms
proof (induction n)
  case (Suc n)
  then have "length (copy_up d s n m) = length m \<and>
    (\<forall>j < length m. copy_up d s n m ! j = (if d \<le> j \<and> j < d + n then m ! (s + (j - d)) else m ! j))" by auto
  with Suc.prems show ?case by (auto simp: copy_up_Suc nth_list_update)
qed (auto simp: copy_up_def)

lemma copy_down_exact:
  assumes "d + n \<le> length m" and "s + n \<le> length m" and "s < d"
  shows "length (copy_down d s n m) = length m \<and>
    (\<forall>j < length m. copy_down d s n m ! j = (if d \<le> j \<and> j < d + n then m ! (s + (j - d)) else m ! j))"
  using assms
proof (induction n arbitrary: m)
  case (Suc n)
  let ?m = "m[d + n := m ! (s + n)]"
  have "length (copy_down d s n ?m) = length ?m \<and>
    (\<forall>j < length ?m. copy_down d s n ?m ! j = (if d \<le> j \<and> j < d + n then ?m ! (s + (j - d)) else ?m ! j))"
    by (rule Suc.IH) (use Suc.prems in auto)
  with Suc.prems show ?case by (auto simp: copy_down_Suc nth_list_update less_Suc_eq)
qed (auto simp: copy_down_def)

lemma overwrite_copy:
  assumes "d + n \<le> length m" and "s + n \<le> length m" and "length r = length m"
    and "\<forall>j < length m. r ! j = (if d \<le> j \<and> j < d + n then m ! (s + (j - d)) else m ! j)"
  shows "r = overwrite m d (take n (drop s m))"
proof (rule nth_equalityI)
  show "length r = length (overwrite m d (take n (drop s m)))" using assms by simp
  fix j assume "j < length r"
  with assms show "r ! j = overwrite m d (take n (drop s m)) ! j" by (auto simp: overwrite_nth)
qed

text \<open>
  C27: Whatever the overlap of the two areas, a move leaves in the destination what was in the source
  before, and changes nothing else; with an area that is not inside the memory it has no result.
\<close>

theorem memmove_exact:
  "eclib_memmove m (Some d) (Some s) n =
    (if n = 0 then Some m
     else if d + n \<le> length m \<and> s + n \<le> length m then Some (overwrite m d (take n (drop s m)))
     else None)"
proof (cases "d + n \<le> length m \<and> s + n \<le> length m")
  case True
  note down = overwrite_copy [of d n m s "copy_down d s n m"] copy_down_exact [of d n m s]
  note up = overwrite_copy [of d n m s "copy_up d s n m"] copy_up_exact [of d n m s]
  show ?thesis
  proof (cases "d > s \<and> d < s + n")
    case overlap: True
    with True down show ?thesis by (simp add: eclib_memmove_def)
  next
    case False
    then have "d \<le> s \<or> s + n \<le> d" by auto
    with True False up show ?thesis by (auto simp: eclib_memmove_def eclib_memcpy_def)
  qed
qed (auto simp: eclib_memmove_def eclib_memcpy_def)

section \<open>Strings in memory\<close>

definition string_at :: "memory \<Rightarrow> nat \<Rightarrow> u8 list \<Rightarrow> bool" where
  "string_at m p xs \<longleftrightarrow> p + length xs < length m \<and> (\<forall>i < length xs. m ! (p + i) = xs ! i) \<and> 0 \<notin> set xs \<and>
     m ! (p + length xs) = 0"

lemma string_at_here: "n = length ys \<Longrightarrow> 0 \<notin> set xs \<Longrightarrow> string_at (ys @ xs @ 0 # zs) n xs"
  by (simp add: string_at_def nth_append)

lemma string_at_nonzero: "string_at m p xs \<Longrightarrow> i < length xs \<Longrightarrow> m ! (p + i) \<noteq> 0"
  by (auto simp: string_at_def in_set_conv_nth)

lemma end_of_string_at: "string_at m p xs \<Longrightarrow> end_of_string m p = Some (p + length xs)"
  unfolding end_of_string_def scan_Some_iff
  using string_at_nonzero [of m p xs] by (auto simp: string_at_def) (metis le_add_diff_inverse nat_add_left_cancel_less)

lemma strlen_exact: "string_at m p xs \<Longrightarrow> eclib_strlen m (Some p) = Some (length xs)"
  by (simp add: eclib_strlen_def end_of_string_at)

lemma match_at_prefix:
  assumes "string_at m p xs" and "string_at m q ys" and "i + length ys \<le> length xs"
  shows "match_at m (p + i) q (length ys) \<longleftrightarrow> prefix ys (drop i xs)"
proof -
  have "match_at m (p + i) q (length ys) \<longleftrightarrow> (\<forall>j < length ys. xs ! (i + j) = ys ! j)"
    using assms by (auto simp: match_at_def scan_None_iff string_at_def add.assoc)
  also have "\<dots> \<longleftrightarrow> take (length ys) (drop i xs) = ys" using assms(3) by (auto simp: list_eq_iff_nth_eq)
  also have "\<dots> \<longleftrightarrow> prefix ys (drop i xs)" by (metis prefix_def take_is_prefix append_eq_conv_conj)
  finally show ?thesis .
qed

lemma scan_Least: "scan P 0 n = Some k \<Longrightarrow> (LEAST i. P i) = k"
  by (rule Least_equality) (auto simp: scan_Some_iff not_le [symmetric])

text \<open>
  The search for a string in a string gives the first place where it occurs, and the null
  pointer when there is none, or when the string that is searched for is empty.
\<close>

theorem strstr_first:
  assumes "string_at m p xs" and "string_at m q ys"
  shows "eclib_strstr m (Some p) (Some q) =
    Some (if ys \<noteq> [] \<and> sublist ys xs then Some (p + (LEAST i. prefix ys (drop i xs))) else None)"
proof (cases "ys = []")
  case True
  with assms(2) show ?thesis by (simp add: eclib_strstr_def string_at_def)
next
  case False
  then have q: "q < length m" "m ! q \<noteq> 0" using assms(2) string_at_nonzero [of m q ys 0] by (auto simp: string_at_def)
  have places: "sublist ys xs \<longleftrightarrow> (\<exists>i. i + length ys \<le> length xs \<and> prefix ys (drop i xs))"
  proof
    assume "sublist ys xs"
    then obtain as bs where "xs = as @ ys @ bs" by (auto simp: sublist_def)
    then show "\<exists>i. i + length ys \<le> length xs \<and> prefix ys (drop i xs)" by (intro exI [of _ "length as"]) simp
  next
    assume "\<exists>i. i + length ys \<le> length xs \<and> prefix ys (drop i xs)"
    then show "sublist ys xs" by (meson sublist_order.order.trans prefix_imp_sublist sublist_drop)
  qed
  show ?thesis
  proof (cases "length ys > length xs")
    case True
    then have "\<not> sublist ys xs" by (auto dest: sublist_length_le)
    with q True show ?thesis by (simp add: eclib_strstr_def strlen_exact [OF assms(1)] strlen_exact [OF assms(2)])
  next
    case len: False
    have "scan (\<lambda>i. match_at m (p + i) q (length ys)) 0 (length xs - length ys + 1) =
        scan (\<lambda>i. prefix ys (drop i xs)) 0 (length xs - length ys + 1)" (is "_ = ?scan")
      by (rule scan_cong) (use len match_at_prefix [OF assms] in auto)
    moreover have "?scan = (if sublist ys xs then Some (LEAST i. prefix ys (drop i xs)) else None)"
    proof (cases ?scan)
      case None
      with len places show ?thesis by (auto simp: scan_None_iff less_Suc_eq_le)
    next
      case (Some k)
      with len places scan_Least [OF Some] show ?thesis by (auto simp: scan_Some_iff intro!: exI [of _ k])
    qed
    ultimately show ?thesis using q False len
      by (simp add: eclib_strstr_def strlen_exact [OF assms(1)] strlen_exact [OF assms(2)])
  qed
qed

text \<open>bc in ababc.\<close>

theorem strstr_first_witness: "eclib_strstr [97, 98, 97, 98, 99, 0, 98, 99, 0] (Some 0) (Some 6) = Some (Some 3)"
proof -
  have "string_at [97, 98, 97, 98, 99, 0, 98, 99, 0] 0 [97, 98, 97, 98, 99]" "string_at [97, 98, 97, 98, 99, 0, 98, 99, 0] 6 [98, 99]"
    using string_at_here [of 0 "[]" "[97, 98, 97, 98, 99]" "[98, 99, 0]"]
      string_at_here [of 6 "[97, 98, 97, 98, 99, 0]" "[98, 99]" "[]"] by simp_all
  note found = strstr_first [OF this]
  have "(LEAST i. prefix [98, 99] (drop i [97, 98, 97, 98, 99 :: u8])) = 3"
  proof (rule Least_equality)
    fix y assume "prefix [98, 99] (drop y [97, 98, 97, 98, 99 :: u8])"
    moreover have "\<not> prefix [98, 99] (drop 0 [97, 98, 97, 98, 99 :: u8])" "\<not> prefix [98, 99] (drop 1 [97, 98, 97, 98, 99 :: u8])"
      "\<not> prefix [98, 99] (drop 2 [97, 98, 97, 98, 99 :: u8])" by simp_all
    ultimately have "y \<noteq> 0 \<and> y \<noteq> 1 \<and> y \<noteq> 2" by metis
    then show "3 \<le> y" by linarith
  qed simp
  moreover have "sublist [98, 99] [97, 98, 97, 98, 99 :: u8]" by code_simp
  ultimately show ?thesis using found by simp
qed

section \<open>Splitting into tokens\<close>

text \<open>The maximal pieces without a separator, and calls of \<open>eclib_strtok\<close> in a row, all but the first with a null string.\<close>

function pieces :: "('a \<Rightarrow> bool) \<Rightarrow> 'a list \<Rightarrow> 'a list list" where
  "pieces D xs = (case dropWhile D xs of
     [] \<Rightarrow> []
   | y # ys \<Rightarrow> (y # takeWhile (\<lambda>c. \<not> D c) ys) # pieces D (dropWhile (\<lambda>c. \<not> D c) ys))"
  by pat_completeness auto
termination
proof (relation "measure (\<lambda>(D, xs). length xs)", goal_cases)
  case (2 D xs y ys)
  from arg_cong [OF 2, of length] length_dropWhile_le [of D xs] length_dropWhile_le [of "\<lambda>c. \<not> D c" ys]
  show ?case by simp
qed simp

declare pieces.simps [simp del]

fun strtok_calls :: "nat \<Rightarrow> memory \<Rightarrow> pointer \<Rightarrow> pointer \<Rightarrow> pointer \<Rightarrow> (pointer list \<times> memory) option" where
  "strtok_calls 0 m strtok_state str delim = Some ([], m)"
| "strtok_calls (Suc k) m strtok_state str delim = (case eclib_strtok m strtok_state str delim of
     None \<Rightarrow> None
   | Some (tok, m, strtok_state) \<Rightarrow> map_option (apfst (Cons tok)) (strtok_calls k m strtok_state None delim))"

lemma string_at_append: "string_at m p (xs @ ys) \<Longrightarrow> string_at m (p + length xs) ys"
  unfolding string_at_def
  by (auto simp: add.assoc)

lemma string_at_keep:
  "string_at m p xs \<Longrightarrow> (\<And>j. p \<le> j \<Longrightarrow> j \<le> p + length xs \<Longrightarrow> m' ! j = m ! j) \<Longrightarrow> length m' = length m \<Longrightarrow> string_at m' p xs"
  by (simp add: string_at_def)

lemma string_at_cut: "string_at m p (xs @ c # ys) \<Longrightarrow> string_at (m[p + length xs := 0]) p xs"
  by (auto simp: string_at_def nth_append split: if_splits)

lemma strchr_separator:
  assumes "string_at m q ds" and "c \<noteq> 0"
  shows "\<exists>r. eclib_strchr m (Some q) (sint c) = Some r \<and> (r \<noteq> None \<longleftrightarrow> c \<in> set ds)"
proof -
  let ?P = "\<lambda>i. m ! i = 0 \<or> m ! i = c"
  have e: "q + length ds < length m" "m ! (q + length ds) = 0" using assms(1) by (auto simp: string_at_def)
  from scan_exists [of q "q + length ds" "length m" ?P] e obtain k where
    k: "scan ?P q (length m) = Some k" "k \<le> q + length ds" by auto
  have "m ! k \<noteq> 0 \<longleftrightarrow> c \<in> set ds"
  proof
    assume "m ! k \<noteq> 0"
    with k e(2) scan_SomeD [OF k(1)] have "k - q < length ds" "m ! (q + (k - q)) = c" by (auto simp: le_less)
    with assms(1) show "c \<in> set ds" unfolding string_at_def by (metis nth_mem)
  next
    assume "c \<in> set ds"
    then obtain j where j: "j < length ds" "m ! (q + j) = c" using assms(1) by (auto simp: string_at_def in_set_conv_nth)
    then have "k \<le> q + j" using scan_SomeD(4) [OF k(1), of "q + j"] by (meson le_add1 not_le)
    with j string_at_nonzero [OF assms(1), of "k - q"] scan_SomeD(1) [OF k(1)] show "m ! k \<noteq> 0" by simp
  qed
  moreover have "sint c \<noteq> 0" using assms(2) signed_word_eqI [of c 0] by auto
  ultimately show ?thesis using k(1) by (auto simp: eclib_strchr_def)
qed

lemma skip_while_exact:
  assumes "string_at m s xs" and "string_at m q ds"
  shows "skip_while b m (Some q) s = Some (s + length (takeWhile (\<lambda>c. (c \<in> set ds) = b) xs))"
  using assms(1)
proof (induction xs arbitrary: s)
  case Nil
  then show ?case by (simp add: skip_while.simps string_at_def)
next
  case (Cons x xs)
  have x: "s < length m" "m ! s = x" "x \<noteq> 0" using Cons.prems string_at_nonzero [OF Cons.prems, of 0]
    by (auto simp: string_at_def)
  from string_at_append [of m s "[x]" xs] Cons have "skip_while b m (Some q) (s + 1) =
      Some (s + 1 + length (takeWhile (\<lambda>c. (c \<in> set ds) = b) xs))" by simp
  with x strchr_separator [OF assms(2) x(3)] show ?case
    by (subst skip_while.simps) auto
qed

lemma strtok_at:
  assumes "string_at m s xs" and "string_at m q ds"
  defines "pre \<equiv> takeWhile (\<lambda>c. c \<in> set ds) xs" and "suf \<equiv> dropWhile (\<lambda>c. c \<in> set ds) xs"
  defines "tok \<equiv> takeWhile (\<lambda>c. c \<notin> set ds) suf" and "more \<equiv> dropWhile (\<lambda>c. c \<notin> set ds) suf"
  shows "eclib_strtok m None (Some s) (Some q) =
    (if suf = [] then Some (None, m, Some (s + length xs))
     else if more = [] then Some (Some (s + length pre), m, Some (s + length xs))
     else Some (Some (s + length pre), m[s + length pre + length tok := 0], Some (s + length pre + length tok + 1)))"
proof -
  have xs: "xs = pre @ suf" "suf = tok @ more" by (simp_all add: pre_def suf_def tok_def more_def)
  have suf: "string_at m (s + length pre) suf" using string_at_append [of m s pre suf] assms(1) xs by simp
  then have more: "string_at m (s + length pre + length tok) more" using string_at_append [of m _ tok more] xs by simp
  have at: "m ! (a + length ys) = 0 \<longleftrightarrow> True" "m ! a = 0 \<longleftrightarrow> ys = []" if "string_at m a ys" for a ys
    using that string_at_nonzero [OF that, of 0] by (auto simp: string_at_def)
  from skip_while_exact [OF assms(1,2), of True] have one: "skip_while True m (Some q) s = Some (s + length pre)"
    by (simp add: pre_def)
  from skip_while_exact [OF suf assms(2), of False]
  have two: "skip_while False m (Some q) (s + length pre) = Some (s + length pre + length tok)" by (simp add: tok_def)
  have len: "suf = [] \<Longrightarrow> length pre = length xs" "more = [] \<Longrightarrow> length pre + length tok = length xs" using xs by auto
  show ?thesis
    using at(2) [OF suf] at(2) [OF more] len by (simp add: eclib_strtok_def one two add.assoc)
qed

lemma strtok_state: "eclib_strtok m (Some s) None d = eclib_strtok m None (Some s) d"
  by (simp add: eclib_strtok_def)

lemma strtok_none_left:
  assumes "string_at m s []" and "string_at m q ds"
  shows "strtok_calls k m (Some s) None (Some q) = Some (replicate k None, m)"
  using strtok_at [OF assms] by (induction k) (simp_all add: strtok_state)

lemma strtok_calls_pieces:
  assumes "string_at m s xs" and "string_at m q ds" and "q + length ds < s \<or> s + length xs < q"
  defines "ps \<equiv> pieces (\<lambda>c. c \<in> set ds)"
  shows "\<exists>toks m'. strtok_calls (length (ps xs) + k) m (Some s) None (Some q) = Some (map Some toks @ replicate k None, m') \<and>
    list_all2 (string_at m') toks (ps xs) \<and> length m' = length m \<and> (\<forall>j. j < s \<or> s + length xs < j \<longrightarrow> m' ! j = m ! j)"
  using assms(1-3)
proof (induction "length xs" arbitrary: xs m s rule: less_induct)
  case less
  let ?D = "\<lambda>c. c \<in> set ds"
  define pre suf tok more where "pre = takeWhile (\<lambda>c. c \<in> set ds) xs" and "suf = dropWhile (\<lambda>c. c \<in> set ds) xs"
    and "tok = takeWhile (\<lambda>c. c \<notin> set ds) suf" and "more = dropWhile (\<lambda>c. c \<notin> set ds) suf"
  note parts = this
  have xs: "xs = pre @ tok @ more" by (simp add: parts)
  note call = strtok_at [OF less.prems(1,2), folded parts(1,2), folded parts(3,4)]
  let ?t = "s + length pre" and ?e = "s + length pre + length tok"
  show ?case
  proof (cases "suf = []")
    case True
    then have "pre = xs" by (metis parts(1,2) append_Nil2 takeWhile_dropWhile_id)
    then have "string_at m (s + length xs) []" using string_at_append [of m s xs "[]"] less.prems(1) by simp
    moreover have "ps xs = []" unfolding ps_def
      by (subst pieces.simps) (simp only: True [unfolded parts(2)] list.case)
    ultimately show ?thesis using strtok_none_left [OF _ less.prems(2)] call True
      by (cases k) (auto simp: strtok_state intro!: exI [of _ "[]"])
  next
    case suf: False
    then obtain y ys where y: "suf = y # ys" by (cases suf) auto
    then have "\<not> ?D y" by (metis hd_dropWhile list.sel(1) parts(2) suf)
    with y have ps: "ps xs = tok # ps more" unfolding ps_def parts(3,4) using parts(2) by (subst pieces.simps) simp
    have tok: "string_at m ?t (tok @ more)" using string_at_append [of m s pre "tok @ more"] less.prems(1) xs by simp
    show ?thesis
    proof (cases more)
      case Nil
      then have "string_at m (s + length xs) []" "string_at m ?t tok"
        using string_at_append [of m s xs "[]"] less.prems(1) tok by simp_all
      moreover have "ps more = []" using Nil unfolding ps_def by (subst pieces.simps) simp
      ultimately show ?thesis using strtok_none_left [OF _ less.prems(2), of "s + length xs" k] call suf Nil ps
        by (intro exI [of _ "[?t]"] exI [of _ m]) (simp add: strtok_state)
    next
      case (Cons c rs)
      have "?D c" using Cons by (metis hd_dropWhile list.sel(1) list.distinct(1) parts(4))
      with Cons have rs: "ps more = ps rs" unfolding ps_def by (subst (1 2) pieces.simps) simp
      let ?m = "m[?e := 0]"
      have "string_at m (?e + 1) rs" using string_at_append [of m ?e "[c]" rs] string_at_append [OF tok] Cons by simp
      then have at: "string_at ?m (?e + 1) rs" by (rule string_at_keep) auto
      have len: "?e + 1 + length rs = s + length xs" using xs Cons by simp
      have ds: "string_at ?m q ds" by (rule string_at_keep [OF less.prems(2)]) (use less.prems(3) len in auto)
      have "q + length ds < ?e + 1 \<or> ?e + 1 + length rs < q" using less.prems(3) len by auto
      moreover have "length rs < length xs" using len by simp
      ultimately obtain toks m' where rest: "strtok_calls (length (ps rs) + k) ?m (Some (?e + 1)) None (Some q) =
          Some (map Some toks @ replicate k None, m')" "list_all2 (string_at m') toks (ps rs)" "length m' = length m"
          "\<forall>j. j < ?e + 1 \<or> ?e + 1 + length rs < j \<longrightarrow> m' ! j = ?m ! j"
        using less.hyps [OF _ at ds] by (auto simp: ps_def)
      have "string_at ?m ?t tok" using tok string_at_cut [of m ?t tok c rs] Cons by simp
      then have "string_at m' ?t tok" by (rule string_at_keep) (use rest(3,4) in auto)
      with rest call suf Cons ps rs len show ?thesis
        by (intro exI [of _ "?t # toks"] exI [of _ m']) (auto simp: strtok_state)
    qed
  qed
qed

text \<open>
  C18: Calls of \<open>eclib_strtok\<close> in a row, the first with a string and the others with a null pointer,
  return pointers to the maximal pieces of the string without a separator, in order, each a string
  of its own in memory in the end, and after them null pointers for ever. Nothing outside the string is
  changed.
\<close>

theorem strtok_splits:
  assumes "string_at m s xs" and "string_at m q ds" and "q + length ds < s \<or> s + length xs < q"
  shows "\<exists>toks m'. strtok_calls (length (pieces (\<lambda>c. c \<in> set ds) xs) + k) m st (Some s) (Some q) =
      Some (map Some toks @ replicate k None, m') \<and>
    list_all2 (string_at m') toks (pieces (\<lambda>c. c \<in> set ds) xs) \<and>
    length m' = length m \<and> (\<forall>j. j < s \<or> s + length xs < j \<longrightarrow> m' ! j = m ! j)"
proof -
  have "strtok_calls n m st (Some s) (Some q) = strtok_calls n m (Some s) None (Some q)" for n
    by (cases n) (simp_all add: eclib_strtok_def)
  with strtok_calls_pieces [OF assms] show ?thesis by simp
qed

text \<open>The string a,,b with commas.\<close>

theorem strtok_splits_witness:
  "\<exists>toks m'. strtok_calls 3 [97, 44, 44, 98, 0, 44, 0] None (Some 0) (Some 5) = Some (map Some toks @ [None], m') \<and>
    list_all2 (string_at m') toks [[97], [98]]"
proof -
  have at: "string_at [97, 44, 44, 98, 0, 44, 0] 0 [97, 44, 44, 98]" "string_at [97, 44, 44, 98, 0, 44, 0] 5 [44]"
    using string_at_here [of 0 "[]" "[97, 44, 44, 98]" "[44, 0]"] string_at_here [of 5 "[97, 44, 44, 98, 0]" "[44]" "[]"] by simp_all
  have "pieces (\<lambda>c. c \<in> set [44]) [97, 44, 44, 98 :: u8] = [[97], [98]]" by (simp add: pieces.simps)
  from strtok_splits [OF at, of 1 None, unfolded this] show ?thesis
    by (simp del: strtok_calls.simps flip: numeral_3_eq_3) blast
qed

section \<open>Formatted text\<close>

text \<open>The whole text that a format stands for, and numbers in decimal.\<close>

fun decimal_text :: "nat \<Rightarrow> u8 list" where
  "decimal_text n = (if n < 10 then [of_nat (48 + n)] else decimal_text (n div 10) @ [of_nat (48 + n mod 10)])"

declare decimal_text.simps [simp del]

fun formatted :: "u8 list \<Rightarrow> fmt_arg list \<Rightarrow> u8 list option" where
  "formatted (c # f # fmt) args =
     (if c \<noteq> 37 then map_option (Cons c) (formatted (f # fmt) args)
      else if f = 115 then
        (case args of Arg_Str s # args \<Rightarrow> map_option (append (case s of None \<Rightarrow> [] | Some s \<Rightarrow> s)) (formatted fmt args)
         | _ \<Rightarrow> None)
      else if f = 100 then
        (case args of Arg_Int v # args \<Rightarrow>
           if v \<le> - (2 ^ 31) then None
           else map_option (append (if v < 0 then 45 # decimal_text (nat (- v)) else decimal_text (nat v))) (formatted fmt args)
         | _ \<Rightarrow> None)
      else if f = 99 then
        (case args of Arg_Char ch # args \<Rightarrow> map_option (Cons (of_int ch)) (formatted fmt args) | _ \<Rightarrow> None)
      else map_option (Cons f) (formatted fmt args))"
| "formatted fmt args = Some fmt"

lemma digits_up_text: "rev (digits_up n) = decimal_text n"
proof (induction n rule: decimal_text.induct)
  case (1 n)
  show ?case
  proof (cases "n < 10")
    case True
    then have "n div 10 = 0" "n mod 10 = n" by simp_all
    with True show ?thesis by (subst digits_up.simps, subst decimal_text.simps) simp
  next
    case False
    then have "n div 10 \<noteq> 0" by simp
    with 1 False show ?thesis by (subst digits_up.simps, subst decimal_text.simps) simp
  qed
qed

lemma put_chars_take: "length out \<le> lim \<Longrightarrow> put_chars lim cs out = take lim (out @ cs)"
  by (simp add: put_chars_def)

lemma put_int_take:
  assumes "length out < lim" and "v \<noteq> - (2 ^ 31)"
  shows "put_int lim v out = Some (take lim (out @ (if v < 0 then 45 # decimal_text (nat (- v)) else decimal_text (nat v))))"
  using assms by (simp add: put_int_def digits_up_text put_chars_take take_Cons')

lemma take_append_take: "take n (take n xs @ ys) = take n (xs @ ys)"
  by (simp add: min_def)

lemma format_loop_take:
  "length out \<le> lim \<Longrightarrow> formatted fmt args = Some full \<Longrightarrow> format_loop lim fmt args out = Some (take lim (out @ full))"
proof (induction lim fmt args out arbitrary: full rule: format_loop.induct)
  case (3 lim c f fmt args out)
  show ?case
  proof (cases "length out < lim")
    case False
    with 3 show ?thesis by simp
  next
    case True
    note step = 3(1-5) [unfolded not_not, OF True] and left = 3(7)
    have le: "length out \<le> lim" using True by simp
    note cut = take_append_take [of lim, simplified append_assoc]
    consider "c \<noteq> 37" | "c = 37" "f = 115" | "c = 37" "f = 100" | "c = 37" "f = 99" | "c = 37" "f \<notin> {115, 100, 99}" by auto
    then show ?thesis
    proof cases
      case 1
      with left obtain t where "formatted (f # fmt) args = Some t" "full = c # t" by (auto split: if_splits)
      with 1 True step(5) show ?thesis by simp
    next
      case 2
      with left obtain str as t where a: "args = Arg_Str str # as" "formatted fmt as = Some t"
          "full = (case str of None \<Rightarrow> [] | Some cs \<Rightarrow> cs) @ t"
        by (auto split: list.splits fmt_arg.splits)
      show ?thesis
      proof (cases str)
        case None
        with 2 True a step(1) [of "Arg_Str str" as str] le show ?thesis by simp
      next
        case (Some cs)
        have "lim - (length out + min (length cs) (lim - length out)) = lim - (length out + length cs)" by (simp add: min_def)
        with 2 True a step(1) [of "Arg_Str str" as str t] le Some show ?thesis by (simp add: put_chars_take min_le_iff_disj)
      qed
    next
      case 3
      with left obtain v as t where a: "args = Arg_Int v # as" "formatted fmt as = Some t" "v \<noteq> - (2 ^ 31)"
          "full = (if v < 0 then 45 # decimal_text (nat (- v)) else decimal_text (nat v)) @ t"
        by (auto split: list.splits fmt_arg.splits if_splits)
      note put = put_int_take [OF True a(3)]
      from step(2) [OF _ _ _ a(1) refl put _ a(2)] 3
      have "format_loop lim fmt as (take lim (out @ (if v < 0 then 45 # decimal_text (nat (- v)) else decimal_text (nat v)))) =
          Some (take lim (out @ full))"
        unfolding take_append_take a(4) by (simp del: take_append)
      with 3 True a(1) put show ?thesis by (simp del: take_append)
    next
      case 4
      with left obtain ch as t where "args = Arg_Char ch # as" "formatted fmt as = Some t" "full = of_int ch # t"
        by (auto split: list.splits fmt_arg.splits)
      with 4 True step(3) [of "Arg_Char ch" as ch t] show ?thesis by simp
    next
      case 5
      with left obtain t where "formatted fmt args = Some t" "full = f # t" by auto
      with 5 True step(4) show ?thesis by simp
    qed
  qed
qed auto



end
