(* ===== verification/Eclib_Env.thy ===== *)
theory Eclib_Env
  imports Eclib_Utils
begin

text \<open>
  The environment of a program: eclib/src/env/env.c. The array \<open>eclib_environ\<close> is a list of strings, \<open>None\<close>
  when the pointer is null. Whether an allocation succeeds is a parameter. A sequence of changes has the effect
  that it has on a map from names to values.
\<close>

section \<open>The operations\<close>

type_synonym environment = "u8 list list option"

text \<open>\<open>eclib_strncmp(e, name, name_len) == 0 && e[name_len] == '='\<close>\<close>

definition entry_is :: "u8 list \<Rightarrow> u8 list \<Rightarrow> bool" where
  "entry_is name e \<longleftrightarrow> prefix (name @ [61]) e"

definition eclib_getenv :: "u8 list option \<Rightarrow> environment \<Rightarrow> u8 list option" where
  "eclib_getenv name environ = (case (name, environ) of
     (Some name, Some es) \<Rightarrow>
       map_option (\<lambda>i. drop (length name + 1) (es ! i)) (scan (\<lambda>i. entry_is name (es ! i)) 0 (length es))
   | _ \<Rightarrow> None)"

text \<open>The loop that looks for the entry: the last index, or the return for an entry that must stay.\<close>

fun find_entry :: "u8 list \<Rightarrow> bool \<Rightarrow> nat \<Rightarrow> nat option \<Rightarrow> u8 list list \<Rightarrow> nat option option" where
  "find_entry name over i idx [] = Some idx"
| "find_entry name over i idx (e # es) =
     (if entry_is name e then (if \<not> over then None else find_entry name over (i + 1) (Some i) es)
      else find_entry name over (i + 1) idx es)"

text \<open>\<open>alloc_entry\<close> and \<open>alloc_array\<close>: the first and the second allocation succeed.\<close>

definition eclib_setenv :: "bool \<Rightarrow> bool \<Rightarrow> u8 list option \<Rightarrow> u8 list option \<Rightarrow> bool \<Rightarrow> environment \<Rightarrow> int \<times> environment" where
  "eclib_setenv alloc_entry alloc_array name val over environ = (case (name, val) of
     (Some name, Some val) \<Rightarrow>
       (if 61 \<in> set name then (-1, environ)
        else (let es = (case environ of None \<Rightarrow> [] | Some es \<Rightarrow> es) in
          case find_entry name over 0 None es of
            None \<Rightarrow> (0, environ)
          | Some idx \<Rightarrow>
              if \<not> alloc_entry then (-1, environ)
              else (let new_entry = name @ [61] @ val in
                case idx of
                  Some i \<Rightarrow> (0, Some (es[i := new_entry]))
                | None \<Rightarrow> if \<not> alloc_array then (-1, environ) else (0, Some (es @ [new_entry])))))
   | _ \<Rightarrow> (-1, environ))"

definition eclib_unsetenv :: "u8 list option \<Rightarrow> environment \<Rightarrow> int \<times> environment" where
  "eclib_unsetenv name environ = (case (name, environ) of
     (Some name, Some es) \<Rightarrow>
       (case scan (\<lambda>i. entry_is name (es ! i)) 0 (length es) of
          Some i \<Rightarrow> (0, Some (take i es @ drop (i + 1) es))
        | None \<Rightarrow> (0, environ))
   | _ \<Rightarrow> (-1, environ))"

section \<open>The comparison in memory\<close>

lemma compare_upto_zero:
  assumes "string_at m p xs" and "string_at m q ys" and "i \<le> length ys" and "take i xs = take i ys" and "i \<le> length xs"
  shows "\<exists>r. compare_upto m p q i (length ys) = Some r \<and> (r = 0 \<longleftrightarrow> prefix ys xs)"
  using assms(3-5)
proof (induction "length ys - i" arbitrary: i)
  case 0
  then show ?case by (auto simp: compare_upto.simps [of m p q] prefix_def) (metis append_take_drop_id)
next
  case (Suc d)
  then have i: "i < length ys" by simp
  have y: "q + i < length m" "m ! (q + i) = ys ! i" "m ! (q + i) \<noteq> 0"
    using assms(2) i string_at_nonzero [OF assms(2) i] by (auto simp: string_at_def)
  show ?case
  proof (cases "i < length xs \<and> xs ! i = ys ! i")
    case True
    then have "p + i < length m" "m ! (p + i) = xs ! i" using assms(1) by (auto simp: string_at_def)
    moreover have "take (i + 1) xs = take (i + 1) ys" using True Suc.prems i by (simp add: take_Suc_conv_app_nth)
    ultimately show ?thesis using Suc.hyps(1) [of "i + 1"] Suc.hyps(2) True i y by (simp add: compare_upto.simps [of m p q i])
  next
    case False
    then have no: "\<not> prefix ys xs" using i by (auto simp: prefix_def nth_append)
    have x: "p + i < length m" "m ! (p + i) \<noteq> m ! (q + i)"
      using assms(1) False Suc.prems(3) y by (cases "i = length xs"; auto simp: string_at_def)+
    then have "uint (m ! (p + i)) - uint (m ! (q + i)) \<noteq> 0" by (simp add: word_uint_eq_iff)
    with x y i no show ?thesis by (simp add: compare_upto.simps [of m p q i])
  qed
qed

text \<open>What \<open>entry_is\<close> stands for, on strings in memory.\<close>

lemma entry_is_memory:
  assumes "string_at m p e" and "string_at m q name"
  shows "entry_is name e \<longleftrightarrow> eclib_strncmp m (Some p) (Some q) (length name) = Some 0 \<and> m ! (p + length name) = 61"
proof -
  obtain r where r: "compare_upto m p q 0 (length name) = Some r" "r = 0 \<longleftrightarrow> prefix name e"
    using compare_upto_zero [OF assms, of 0] by auto
  have "m ! (p + length name) = 61 \<longleftrightarrow> length name < length e \<and> e ! length name = 61" if "prefix name e"
    using assms(1) prefix_length_le [OF that] by (cases "length name = length e") (auto simp: string_at_def)
  then show ?thesis using r
    by (auto simp: entry_is_def eclib_strncmp_def prefix_def append_eq_append_conv2 neq_Nil_conv nth_append)
qed

section \<open>The environment is a map\<close>

definition entry_name :: "u8 list \<Rightarrow> u8 list" where
  "entry_name e = takeWhile (\<lambda>c. c \<noteq> 61) e"

definition entries :: "environment \<Rightarrow> u8 list list" where
  "entries environ = (case environ of None \<Rightarrow> [] | Some es \<Rightarrow> es)"

definition env_ok :: "environment \<Rightarrow> bool" where
  "env_ok environ \<longleftrightarrow> distinct (map entry_name (entries environ)) \<and> (\<forall>e \<in> set (entries environ). 61 \<in> set e)"

definition env_map :: "environment \<Rightarrow> u8 list \<rightharpoonup> u8 list" where
  "env_map environ = map_of (map (\<lambda>e. (entry_name e, drop (length (entry_name e) + 1) e)) (entries environ))"

lemma entry_is_name:
  assumes "61 \<notin> set name"
  shows "entry_is name e \<longleftrightarrow> entry_name e = name \<and> 61 \<in> set e"
proof
  assume "entry_is name e"
  with assms show "entry_name e = name \<and> 61 \<in> set e"
    by (auto simp: entry_is_def prefix_def entry_name_def takeWhile_append)
next
  assume e: "entry_name e = name \<and> 61 \<in> set e"
  then obtain c rs where "dropWhile (\<lambda>c. c \<noteq> 61) e = c # rs" by (cases "dropWhile (\<lambda>c. c \<noteq> 61) e") auto
  moreover from this have "c = 61" by (metis (mono_tags) hd_dropWhile list.distinct(1) list.sel(1))
  ultimately have "e = name @ 61 # rs" using e takeWhile_dropWhile_id [of "\<lambda>c. c \<noteq> 61" e] by (simp add: entry_name_def)
  then show "entry_is name e" by (simp add: entry_is_def)
qed

lemma getenv_map:
  assumes "env_ok environ" and "61 \<notin> set name"
  shows "eclib_getenv (Some name) environ = env_map environ name"
proof (cases environ)
  case (Some es)
  have "map (\<lambda>e. (entry_name e, drop (length (entry_name e) + 1) e)) es =
      map (\<lambda>i. (entry_name (es ! i), drop (length (entry_name (es ! i)) + 1) (es ! i))) [0..<length es]"
    by (rule nth_equalityI) simp_all
  then have "env_map environ name = map_option (\<lambda>i. drop (length (entry_name (es ! i)) + 1) (es ! i))
      (scan (\<lambda>i. entry_name (es ! i) = name) 0 (length es))"
    using Some by (simp only: env_map_def entries_def option.case map_of_scan)
  moreover have "scan (\<lambda>i. entry_name (es ! i) = name) 0 (length es) = scan (\<lambda>i. entry_is name (es ! i)) 0 (length es)"
    by (rule scan_cong) (use assms Some in \<open>auto simp: env_ok_def entries_def entry_is_name\<close>)
  moreover have "entry_name (es ! i) = name" if "scan (\<lambda>i. entry_name (es ! i) = name) 0 (length es) = Some i" for i
    using scan_SomeD(3) [OF that] .
  ultimately show ?thesis using Some
    by (cases "scan (\<lambda>i. entry_is name (es ! i)) 0 (length es)") (simp_all add: eclib_getenv_def)
qed (simp add: eclib_getenv_def env_map_def entries_def)

text \<open>The entry of a name, if it has one, stands alone.\<close>

lemma entry_cases:
  assumes "env_ok environ" and "61 \<notin> set name"
  obtains (absent) "\<forall>e \<in> set (entries environ). \<not> entry_is name e" "env_map environ name = None"
  | (present) xs e ys where "environ = Some (xs @ e # ys)" "entry_is name e" "entry_name e = name"
      "\<forall>e \<in> set xs \<union> set ys. \<not> entry_is name e \<and> entry_name e \<noteq> name"
proof (cases "\<exists>e \<in> set (entries environ). entry_is name e")
  case False
  with assms have "name \<notin> entry_name ` set (entries environ)" by (auto simp: env_ok_def entry_is_name)
  then have "env_map environ name = None" by (auto simp: env_map_def map_of_eq_None_iff)
  with False absent show ?thesis by blast
next
  case True
  then obtain xs e ys where e: "entries environ = xs @ e # ys" "entry_is name e" using split_list by metis
  then obtain "environ = Some (xs @ e # ys)" by (cases environ) (auto simp: entries_def)
  moreover from this e assms have "entry_name e = name" by (simp add: entry_is_name)
  moreover have "entry_name e \<notin> entry_name ` (set xs \<union> set ys)" using assms(1) e(1) by (auto simp: env_ok_def)
  then have "\<forall>x \<in> set xs \<union> set ys. entry_name x \<noteq> entry_name e" by (metis imageI)
  with \<open>entry_name e = name\<close> assms(2) have "\<forall>x \<in> set xs \<union> set ys. \<not> entry_is name x \<and> entry_name x \<noteq> name"
    by (simp add: entry_is_name)
  ultimately show ?thesis using present e(2) by blast
qed

lemma find_entry_absent: "\<forall>e \<in> set es. \<not> entry_is name e \<Longrightarrow> find_entry name over i idx es = Some idx"
  by (induction es arbitrary: i) simp_all

lemma find_entry_present:
  "entry_is name e \<Longrightarrow> \<forall>e \<in> set xs \<union> set ys. \<not> entry_is name e \<Longrightarrow>
   find_entry name over i idx (xs @ e # ys) = (if over then Some (Some (i + length xs)) else None)"
  by (induction xs arbitrary: i) (simp_all add: find_entry_absent)

lemma env_map_middle:
  "entry_name e \<notin> entry_name ` set xs \<Longrightarrow>
   env_map (Some (xs @ e # ys)) = (env_map (Some (xs @ ys)))(entry_name e \<mapsto> drop (length (entry_name e) + 1) e)"
  by (simp add: env_map_def entries_def map_add_upd_left dom_map_of_conv_image_fst image_image)

lemma new_entry_name:
  assumes "61 \<notin> set name"
  shows "entry_name (name @ 61 # val) = name"
  using assms by (simp add: entry_name_def takeWhile_append)

lemma setenv_map:
  assumes "env_ok environ" and "eclib_setenv a1 a2 (Some name) (Some val) over environ = (rc, environ')"
  shows "env_ok environ' \<and> env_map environ' =
    (if 61 \<notin> set name \<and> (over \<or> env_map environ name = None) \<and> a1 \<and> (env_map environ name = None \<longrightarrow> a2)
     then (env_map environ)(name \<mapsto> val) else env_map environ)"
proof (cases "61 \<in> set name")
  case False
  note new = new_entry_name [OF False, of val]
  from assms(1) False show ?thesis
  proof (cases rule: entry_cases)
    case absent
    let ?new = "name @ 61 # val"
    have "env_map (Some (entries environ @ [?new])) = (env_map environ)(name \<mapsto> val)"
      using env_map_middle [of ?new "entries environ" "[]"] absent(2) new
      by (auto simp: env_map_def entries_def map_of_eq_None_iff image_image)
    moreover have "env_ok (Some (entries environ @ [?new]))"
      using assms(1) absent(1) new False by (auto simp: env_ok_def entries_def entry_is_name)
    ultimately show ?thesis using absent False assms
      by (auto simp: eclib_setenv_def find_entry_absent Let_def entries_def split: if_splits option.splits)
  next
    case (present xs e ys)
    let ?new = "name @ 61 # val"
    have notin: "name \<notin> entry_name ` set xs" using present(4) by auto
    have "env_map environ name \<noteq> None" using present(1,3) by (auto simp: env_map_def entries_def map_of_eq_None_iff)
    moreover have "env_map (Some (xs @ ?new # ys)) = (env_map environ)(name \<mapsto> val)"
      using present(1,3) new env_map_middle [of ?new xs ys] env_map_middle [of e xs ys] notin by simp
    moreover have "env_ok (Some (xs @ ?new # ys))"
      using assms(1) present(1,3) new by (auto simp: env_ok_def entries_def)
    ultimately show ?thesis using present False assms
      by (auto simp: eclib_setenv_def find_entry_present Let_def entries_def split: if_splits)
  qed
qed (use assms in \<open>simp add: eclib_setenv_def\<close>)

lemma unsetenv_map:
  assumes "env_ok environ" and "61 \<notin> set name" and "eclib_unsetenv (Some name) environ = (rc, environ')"
  shows "env_ok environ' \<and> env_map environ' = (env_map environ)(name := None)"
  using assms(1,2)
proof (cases rule: entry_cases)
  case absent
  then have "scan (\<lambda>i. entry_is name (entries environ ! i)) 0 (length (entries environ)) = None"
    by (simp add: scan_None_iff)
  with assms absent show ?thesis
    by (cases environ) (auto simp: eclib_unsetenv_def entries_def fun_upd_idem)
next
  case (present xs e ys)
  then have notin: "name \<notin> entry_name ` set xs" by auto
  have "scan (\<lambda>i. entry_is name ((xs @ e # ys) ! i)) 0 (length (xs @ e # ys)) = Some (length xs)"
    using present by (auto simp: scan_Some_iff nth_append)
  then have "environ' = Some (xs @ ys)" using assms(3) present(1) by (simp add: eclib_unsetenv_def)
  moreover have "env_map (Some (xs @ ys)) = (env_map environ)(name := None)"
  proof -
    have "env_map (Some (xs @ ys)) name = None" using present(4) by (auto simp: env_map_def entries_def map_of_eq_None_iff)
    moreover have "env_map environ = (env_map (Some (xs @ ys)))(name \<mapsto> drop (length name + 1) e)"
      using present(1,3) env_map_middle [of e xs ys] notin by simp
    ultimately show ?thesis by (simp add: fun_upd_idem)
  qed
  moreover have "env_ok (Some (xs @ ys))" using assms(1) present(1) by (auto simp: env_ok_def entries_def)
  ultimately show ?thesis by simp
qed

text \<open>Changes in a row, of the environment and of a map.\<close>

datatype env_change = Set_Env bool bool "u8 list" "u8 list" bool | Unset_Env "u8 list"

definition env_change :: "env_change \<Rightarrow> environment \<Rightarrow> environment" where
  "env_change c environ = (case c of
     Set_Env a1 a2 name val over \<Rightarrow> snd (eclib_setenv a1 a2 (Some name) (Some val) over environ)
   | Unset_Env name \<Rightarrow> snd (eclib_unsetenv (Some name) environ))"

definition map_change :: "env_change \<Rightarrow> (u8 list \<rightharpoonup> u8 list) \<Rightarrow> (u8 list \<rightharpoonup> u8 list)" where
  "map_change c M = (case c of
     Set_Env a1 a2 name val over \<Rightarrow>
       (if 61 \<notin> set name \<and> (over \<or> M name = None) \<and> a1 \<and> (M name = None \<longrightarrow> a2) then M(name \<mapsto> val) else M)
   | Unset_Env name \<Rightarrow> M(name := None))"

definition proper_change :: "env_change \<Rightarrow> bool" where
  "proper_change c = (case c of Set_Env a1 a2 name val over \<Rightarrow> True | Unset_Env name \<Rightarrow> 61 \<notin> set name)"

lemma env_change_map:
  assumes "env_ok environ" and "proper_change c"
  shows "env_ok (env_change c environ) \<and> env_map (env_change c environ) = map_change c (env_map environ)"
  using assms(2) setenv_map [OF assms(1), of _ _ _ _ _ "fst _" "snd _", OF prod.collapse [symmetric]]
    unsetenv_map [OF assms(1), of _ "fst _" "snd _", OF _ prod.collapse [symmetric]]
  by (cases c) (simp_all add: env_change_def map_change_def proper_change_def)

lemma env_changes_map:
  "env_ok environ \<Longrightarrow> \<forall>c \<in> set cs. proper_change c \<Longrightarrow>
   env_ok (fold env_change cs environ) \<and> env_map (fold env_change cs environ) = fold map_change cs (env_map environ)"
  by (induction cs arbitrary: environ) (simp_all add: env_change_map)

text \<open>
  C9: After any changes of the environment, from the empty one, the value that is found for a name is the
  one that a map holds after the same changes: a variable has the value set last, one that exists is kept
  unless it may be overwritten, a removed one is gone, and a failing allocation leaves everything as it was. The
  names to look up or to remove have no equals sign.
\<close>

theorem env_refines_map:
  assumes "\<forall>c \<in> set cs. proper_change c" and "61 \<notin> set name"
  shows "eclib_getenv (Some name) (fold env_change cs None) = fold map_change cs Map.empty name"
proof -
  have "env_ok None" "env_map None = Map.empty" by (simp_all add: env_ok_def env_map_def entries_def)
  with env_changes_map [OF _ assms(1), of None] getenv_map [OF _ assms(2)] show ?thesis by metis
qed

theorem env_refines_map_witness:
  "eclib_getenv (Some [65]) (fold env_change
     [Set_Env True True [65] [49] False, Set_Env True True [66] [50] True, Set_Env True True [65] [51] True, Unset_Env [66]] None) =
   Some [51]"
  by (subst env_refines_map) (simp_all add: proper_change_def map_change_def)

end
