(* ===== verification/Eclib_Service.thy ===== *)
theory Eclib_Service
  imports Eclib_Utils
begin

text \<open>
  Services and memory in the user library: the table of services of eclib/src/service.c, the requests to the
  service registry in eclib/src/service/service.c, and the allocation functions of eclib/src/men/men.c, which
  ask the memory manager. A synchronous call of another process is a parameter: what it returns for a request. The
  function that records the last error belongs to no file of the library; the error is part of the result.
\<close>

section \<open>The table of services\<close>

record service_info =
  sv_id :: int
  sv_name :: "u8 list"
  sv_state :: int
  sv_pid :: int
  sv_start_time :: u64
  sv_last_heartbeat :: u64

record service_registry =
  g_services :: "service_info list"
  g_count :: nat
  g_next_id :: int

definition SERVICE_RUNNING :: int where "SERVICE_RUNNING = 0"

text \<open>The value, the table, and the text that is broadcast; \<open>None\<close> when the number of services ever registered is no integer of C.\<close>

definition name_taken :: "u8 list \<Rightarrow> service_registry \<Rightarrow> bool" where
  "name_taken name r \<longleftrightarrow> scan (\<lambda>i. sv_name (g_services r ! i) = name) 0 (g_count r) \<noteq> None"

definition service_register ::
    "int \<Rightarrow> u64 \<Rightarrow> u8 list option \<Rightarrow> service_registry \<Rightarrow> (int \<times> service_registry \<times> u8 list option) option" where
  "service_register pid now name r = (case name of
     None \<Rightarrow> Some (-1, r, None)
   | Some name \<Rightarrow>
       (if length name \<ge> 64 then Some (-1, r, None)
        else if g_count r \<ge> 256 then Some (-2, r, None)
        else if name_taken name r then Some (-3, r, None)
        else if g_next_id r \<ge> 2 ^ 31 - 1 then None
        else (let svc = \<lparr>sv_id = g_next_id r, sv_name = name, sv_state = SERVICE_RUNNING, sv_pid = pid,
                sv_start_time = now, sv_last_heartbeat = now\<rparr>
          in Some (sv_id svc,
            r\<lparr>g_services := (g_services r)[g_count r := svc], g_count := g_count r + 1, g_next_id := g_next_id r + 1\<rparr>,
            Some (map of_char ''SERVICE_REGISTER:'' @ name @ map of_char '':'' @ decimal_text (nat (sv_id svc)))))))"

definition find_service :: "int \<Rightarrow> service_registry \<Rightarrow> nat option" where
  "find_service service_id r = scan (\<lambda>i. sv_id (g_services r ! i) = service_id) 0 (g_count r)"

definition service_unregister :: "int \<Rightarrow> service_registry \<Rightarrow> int \<times> service_registry \<times> u8 list option" where
  "service_unregister service_id r = (case find_service service_id r of
     Some i \<Rightarrow> (0,
       r\<lparr>g_services := fold (\<lambda>j ss. ss[j := ss ! (j + 1)]) [i..<g_count r - 1] (g_services r), g_count := g_count r - 1\<rparr>,
       Some (map of_char ''SERVICE_UNREGISTER:'' @
         (if service_id < 0 then 45 # decimal_text (nat (- service_id)) else decimal_text (nat service_id))))
   | None \<Rightarrow> (-1, r, None))"

definition service_heartbeat :: "u64 \<Rightarrow> int \<Rightarrow> service_registry \<Rightarrow> int \<times> service_registry" where
  "service_heartbeat now service_id r = (case find_service service_id r of
     Some i \<Rightarrow> (0, r\<lparr>g_services := (g_services r)[i := (g_services r ! i)\<lparr>sv_last_heartbeat := now\<rparr>]\<rparr>)
   | None \<Rightarrow> (-1, r))"

section \<open>Requests to the service registry\<close>

definition ECLIB_NO_ERROR :: int where "ECLIB_NO_ERROR = 0"
definition CANNOT_FIND_MODULE :: int where "CANNOT_FIND_MODULE = 0x100"
definition INVALID_PARAMETER :: int where "INVALID_PARAMETER = 0x104"
definition CANNOT_ALLOCATE_MEMORY :: int where "CANNOT_ALLOCATE_MEMORY = -3006"

text \<open>The name in a request: \<open>eclib_strncpy\<close> with a bound of 63, one of them for the null character.\<close>

definition request_name :: "u8 list \<Rightarrow> u8 list" where
  "request_name name = take 62 name"

text \<open>\<open>call\<close> is the call of the registry: its own error, the process number and the error in the reply.\<close>

definition eclib_service_lookup ::
    "(u8 list \<Rightarrow> int \<times> u32 \<times> int) \<Rightarrow> u8 list option \<Rightarrow> u32 \<times> int option" where
  "eclib_service_lookup call service_name = (case service_name of
     None \<Rightarrow> (0, Some INVALID_PARAMETER)
   | Some name \<Rightarrow>
       (if name = [] then (0, Some INVALID_PARAMETER)
        else (case call (request_name name) of (err, service_pid, resp_err) \<Rightarrow>
          if err \<noteq> ECLIB_NO_ERROR then (0, Some err)
          else if resp_err \<noteq> ECLIB_NO_ERROR then (0, Some resp_err)
          else (service_pid, None))))"

definition eclib_service_register ::
    "(u8 list \<Rightarrow> u32 \<Rightarrow> int \<times> int) \<Rightarrow> u32 \<Rightarrow> u8 list option \<Rightarrow> int \<times> int option" where
  "eclib_service_register call pid service_name = (case service_name of
     None \<Rightarrow> (INVALID_PARAMETER, Some INVALID_PARAMETER)
   | Some name \<Rightarrow>
       (if name = [] then (INVALID_PARAMETER, Some INVALID_PARAMETER)
        else (case call (request_name name) pid of (err, resp_err) \<Rightarrow>
          if err \<noteq> ECLIB_NO_ERROR then (err, Some err)
          else if resp_err \<noteq> ECLIB_NO_ERROR then (resp_err, Some resp_err)
          else (ECLIB_NO_ERROR, None))))"

definition eclib_service_unregister :: "(u8 list \<Rightarrow> int \<times> int) \<Rightarrow> u8 list option \<Rightarrow> int \<times> int option" where
  "eclib_service_unregister call service_name = (case service_name of
     None \<Rightarrow> (INVALID_PARAMETER, Some INVALID_PARAMETER)
   | Some name \<Rightarrow>
       (if name = [] then (INVALID_PARAMETER, Some INVALID_PARAMETER)
        else (case call (request_name name) of (err, resp_err) \<Rightarrow>
          if err \<noteq> ECLIB_NO_ERROR then (err, Some err) else (resp_err, None))))"

section \<open>Memory from the memory manager\<close>

text \<open>
  \<open>lookup\<close> is the result of the look-up of the memory manager, \<open>call\<close> the manager: its error, the
  address and the error in the reply. A failed look-up records its own error first.
\<close>

definition eclib_malloc :: "u32 \<Rightarrow> (u64 \<Rightarrow> int \<times> pointer \<times> int) \<Rightarrow> u64 \<Rightarrow> pointer \<times> int option" where
  "eclib_malloc mem_pid call n =
     (if n = 0 then (None, Some INVALID_PARAMETER)
      else if mem_pid = 0 then (None, Some CANNOT_FIND_MODULE)
      else (case call n of (err, addr, resp_err) \<Rightarrow>
        if err \<noteq> ECLIB_NO_ERROR then (None, Some err)
        else if resp_err \<noteq> ECLIB_NO_ERROR then (None, Some resp_err)
        else (addr, None)))"

definition eclib_free :: "u32 \<Rightarrow> (nat \<Rightarrow> int) \<Rightarrow> pointer \<Rightarrow> int option" where
  "eclib_free mem_pid call addr = (case addr of
     None \<Rightarrow> None
   | Some a \<Rightarrow>
       (if mem_pid = 0 then Some CANNOT_FIND_MODULE
        else if call a \<noteq> ECLIB_NO_ERROR then Some (call a) else None))"

text \<open>The block, the error and the memory.\<close>

definition eclib_calloc ::
    "u32 \<Rightarrow> (u64 \<Rightarrow> int \<times> pointer \<times> int) \<Rightarrow> u64 \<Rightarrow> u64 \<Rightarrow> memory \<Rightarrow> (pointer \<times> int option \<times> memory) option" where
  "eclib_calloc mem_pid call nmemb n m =
     (if nmemb = 0 \<or> n = 0 then Some (None, Some INVALID_PARAMETER, m)
      else (let total_size = nmemb * n in
        if n \<noteq> 0 \<and> total_size div n \<noteq> nmemb then Some (None, Some CANNOT_ALLOCATE_MEMORY, m)
        else (case eclib_malloc mem_pid call total_size of
                (None, err) \<Rightarrow> Some (None, err, m)
              | (Some p, err) \<Rightarrow> map_option (\<lambda>m. (Some p, err, m)) (eclib_memset m (Some p) 0 (unat total_size)))))"

definition eclib_realloc ::
    "u32 \<Rightarrow> (u64 \<Rightarrow> int \<times> pointer \<times> int) \<Rightarrow> (nat \<Rightarrow> int) \<Rightarrow> (nat \<Rightarrow> u64 \<Rightarrow> int \<times> pointer \<times> int) \<Rightarrow>
     pointer \<Rightarrow> u64 \<Rightarrow> pointer \<times> int option" where
  "eclib_realloc mem_pid malloc_call free_call realloc_call ptr n =
     (if n = 0 then (None, eclib_free mem_pid free_call ptr)
      else (case ptr of
        None \<Rightarrow> eclib_malloc mem_pid malloc_call n
      | Some p \<Rightarrow>
          (if mem_pid = 0 then (None, Some CANNOT_FIND_MODULE)
           else (case realloc_call p n of (err, new_addr, resp_err) \<Rightarrow>
             if err \<noteq> ECLIB_NO_ERROR then (None, Some err)
             else if resp_err \<noteq> ECLIB_NO_ERROR then (None, Some resp_err)
             else (new_addr, None)))))"

section \<open>No overflow in \<open>eclib_calloc\<close>\<close>

lemma fold_set: "p + n \<le> length m \<Longrightarrow> fold (\<lambda>i m. m[p + i := v]) [0..<n] m = overwrite m p (replicate n v)"
proof (induction n)
  case (Suc n)
  then have "fold (\<lambda>i m. m[p + i := v]) [0..<Suc n] m = (overwrite m p (replicate n v))[p + n := v]" by simp
  also have "\<dots> = overwrite m p (replicate (Suc n) v)"
    using Suc.prems by (intro nth_equalityI) (auto simp: nth_list_update overwrite_nth simp del: replicate_Suc)
  finally show ?case .
qed (simp add: overwrite_def)

lemma memset_exact:
  "eclib_memset m (Some p) v n = (if n = 0 then Some m else if p + n \<le> length m then Some (overwrite m p (replicate n (of_int v))) else None)"
  by (simp add: eclib_memset_def fold_set)

lemma product_check:
  assumes "n \<noteq> (0 :: u64)" and "(k * n) div n = k"
  shows "unat (k * n) = unat k * unat n" and "unat k * unat n < 2 ^ 64"
proof -
  have "unat (k * n) div unat n = unat k" using assms(2) by (metis unat_div_distrib)
  then have "unat k * unat n \<le> unat (k * n)" by (metis div_times_less_eq_dividend)
  moreover have "unat (k * n) = unat k * unat n mod 2 ^ 64" by (simp add: unat_word_ariths)
  ultimately show eq: "unat (k * n) = unat k * unat n" using mod_less_eq_dividend [of "unat k * unat n" "2 ^ 64"] by linarith
  show "unat k * unat n < 2 ^ 64" using unsigned_less [where 'a = nat, of "k * n"] eq by simp
qed

text \<open>
  A block from \<open>eclib_calloc\<close> has the size of all its members: the product of number and
  size fits into 64 bits, the memory manager was asked for exactly that many bytes, and all of them are
  zero; nothing else is changed.
\<close>

theorem calloc_exact:
  assumes "eclib_calloc mem_pid call nmemb n m = Some (Some p, err, m')"
  shows "unat nmemb * unat n < 2 ^ 64 \<and> 0 < unat nmemb * unat n \<and>
    call (of_nat (unat nmemb * unat n)) = (0, Some p, 0) \<and> p + unat nmemb * unat n \<le> length m \<and>
    m' = overwrite m p (replicate (unat nmemb * unat n) 0)"
proof -
  have n: "n \<noteq> 0" "nmemb \<noteq> 0" "nmemb * n div n = nmemb"
    using assms by (auto simp: eclib_calloc_def Let_def split: if_splits)
  note size = product_check [OF n(1,3)]
  have pos: "0 < unat nmemb * unat n" using n by (simp add: unat_gt_0)
  have call: "call (nmemb * n) = (0, Some p, 0)"
    and "eclib_memset m (Some p) 0 (unat (nmemb * n)) = Some m'"
    using assms n by (auto simp: eclib_calloc_def Let_def eclib_malloc_def ECLIB_NO_ERROR_def split: if_splits option.splits prod.splits)
  moreover have "of_nat (unat nmemb * unat n) = nmemb * n" by simp
  ultimately show ?thesis using pos size by (auto simp: memset_exact split: if_splits)
qed

theorem calloc_exact_witness:
  "\<exists>m'. eclib_calloc 2 (\<lambda>_. (0, Some 1, 0)) 2 3 (replicate 8 1) = Some (Some 1, None, m') \<and>
    m' = overwrite (replicate 8 1) 1 (replicate (unat (2 :: u64) * unat (3 :: u64)) 0)"
proof -
  have run: "eclib_calloc 2 (\<lambda>_. (0, Some 1, 0)) 2 3 (replicate 8 1) =
      Some (Some 1, None, overwrite (replicate 8 1) 1 (replicate 6 0))"
    by (simp add: eclib_calloc_def eclib_malloc_def ECLIB_NO_ERROR_def memset_exact)
  from calloc_exact [OF run] run show ?thesis by blast
qed

section \<open>Services in the table\<close>

definition registered :: "service_registry \<Rightarrow> service_info list" where
  "registered r = take (g_count r) (g_services r)"

definition registry_ok :: "service_registry \<Rightarrow> bool" where
  "registry_ok r \<longleftrightarrow> length (g_services r) = 256 \<and> g_count r \<le> 256 \<and> 0 \<le> g_next_id r \<and>
     distinct (map sv_name (registered r)) \<and> distinct (map sv_id (registered r)) \<and>
     (\<forall>sv \<in> set (registered r). 0 \<le> sv_id sv \<and> sv_id sv < g_next_id r \<and> length (sv_name sv) < 64)"

lemma set_registered: "registry_ok r \<Longrightarrow> set (registered r) = (!) (g_services r) ` {..<g_count r}"
  by (simp add: registry_ok_def registered_def nth_image lessThan_atLeast0)

lemma name_taken_iff: "registry_ok r \<Longrightarrow> name_taken name r \<longleftrightarrow> name \<in> sv_name ` set (registered r)"
  by (auto simp: name_taken_def set_registered scan_None_iff)

lemma register_result:
  assumes "registry_ok r" and "service_register pid now name r = Some (rc, r', msg)"
  shows "registry_ok r' \<and>
    (if rc < 0 then r' = r
     else rc = g_next_id r \<and> g_next_id r' = rc + 1 \<and> (\<exists>nm. name = Some nm \<and> nm \<notin> sv_name ` set (registered r) \<and>
       map sv_name (registered r') = map sv_name (registered r) @ [nm] \<and> map sv_id (registered r') = map sv_id (registered r) @ [rc]))"
proof (cases "rc < 0")
  case True
  with assms show ?thesis by (auto simp: service_register_def Let_def registry_ok_def split: option.splits if_splits)
next
  case False
  then obtain nm where nm: "name = Some nm" "length nm < 64" "g_count r < 256" "\<not> name_taken nm r"
    using assms by (auto simp: service_register_def Let_def split: option.splits if_splits)
  define svc where "svc = \<lparr>sv_id = g_next_id r, sv_name = nm, sv_state = SERVICE_RUNNING, sv_pid = pid,
    sv_start_time = now, sv_last_heartbeat = now\<rparr>"
  have r': "rc = g_next_id r" "r' = r\<lparr>g_services := (g_services r)[g_count r := svc], g_count := g_count r + 1, g_next_id := g_next_id r + 1\<rparr>"
    using assms(2) nm by (auto simp: service_register_def Let_def svc_def split: if_splits)
  have new: "registered r' = registered r @ [svc]"
    using assms(1) nm(3) by (simp add: r' registered_def registry_ok_def take_Suc_conv_app_nth)
  have fresh: "nm \<notin> sv_name ` set (registered r)" using nm(4) name_taken_iff [OF assms(1)] by simp
  moreover have "g_next_id r \<notin> sv_id ` set (registered r)" using assms(1) by (force simp: registry_ok_def)
  moreover have "0 \<le> g_next_id r" "length (g_services r') = 256" "g_count r' \<le> 256" "g_next_id r' = g_next_id r + 1"
    using assms(1) nm(3) by (auto simp: registry_ok_def r')
  ultimately have "registry_ok r'"
    using assms(1) nm(2) unfolding registry_ok_def new by (auto simp: svc_def intro: less_SucI)
  moreover have "map sv_name (registered r') = map sv_name (registered r) @ [nm]"
    "map sv_id (registered r') = map sv_id (registered r) @ [rc]" by (simp_all only: new) (simp_all add: svc_def r'(1))
  moreover have "g_next_id r' = rc + 1" by (simp add: r')
  ultimately show ?thesis using False fresh nm(1) r'(1) by simp
qed

text \<open>Removing an entry shifts the ones behind it.\<close>

lemma shift_nth:
  assumes "i \<le> k" and "k < length ss"
  shows "length (fold (\<lambda>j ss. ss[j := ss ! (j + 1)]) [i..<k] ss) = length ss \<and>
    (\<forall>j < length ss. fold (\<lambda>j ss. ss[j := ss ! (j + 1)]) [i..<k] ss ! j = (if i \<le> j \<and> j < k then ss ! (j + 1) else ss ! j))"
  using assms
proof (induction k rule: dec_induct)
  case (step k)
  then have "k < length ss" by simp
  with step.IH step.hyps step.prems show ?case by (auto simp: nth_list_update less_Suc_eq)
qed auto

lemma shift_down:
  assumes "i < n" and "n \<le> length ss"
  defines "ss' \<equiv> fold (\<lambda>j ss. ss[j := ss ! (j + 1)]) [i..<n - 1] ss"
  shows "take (n - 1) ss' = take i ss @ drop (i + 1) (take n ss)" and "length ss' = length ss"
proof -
  have shift: "length ss' = length ss" "\<forall>j < length ss. ss' ! j = (if i \<le> j \<and> j < n - 1 then ss ! (j + 1) else ss ! j)"
    using shift_nth [of i "n - 1" ss] assms by auto
  then show "length ss' = length ss" by simp
  show "take (n - 1) ss' = take i ss @ drop (i + 1) (take n ss)"
  proof (rule nth_equalityI)
    show "length (take (n - 1) ss') = length (take i ss @ drop (i + 1) (take n ss))" using shift(1) assms(1,2) by simp
    fix j assume "j < length (take (n - 1) ss')"
    with assms(1,2) shift show "take (n - 1) ss' ! j = (take i ss @ drop (i + 1) (take n ss)) ! j"
      by (cases "j < i") (auto simp: nth_append)
  qed
qed

lemma unregister_result:
  assumes "registry_ok r" and "service_unregister k r = (rc, r', msg)"
  shows "registry_ok r' \<and> g_next_id r' = g_next_id r \<and>
    registered r' = filter (\<lambda>sv. sv_id sv \<noteq> k) (registered r) \<and> (rc = 0 \<longleftrightarrow> k \<in> sv_id ` set (registered r))"
proof (cases "find_service k r")
  case None
  then have "k \<notin> sv_id ` set (registered r)" using assms(1) by (auto simp: find_service_def scan_None_iff set_registered)
  moreover from this have "filter (\<lambda>sv. sv_id sv \<noteq> k) (registered r) = registered r" by (auto simp: filter_id_conv)
  ultimately show ?thesis using None assms by (simp add: service_unregister_def)
next
  case (Some i)
  then have i: "i < g_count r" "sv_id (g_services r ! i) = k" by (auto simp: find_service_def dest: scan_SomeD)
  let ?xs = "take i (g_services r)" and ?ys = "drop (i + 1) (take (g_count r) (g_services r))"
  have n: "g_count r \<le> length (g_services r)" using assms(1) by (simp add: registry_ok_def)
  have split: "registered r = ?xs @ g_services r ! i # ?ys"
    using id_take_nth_drop [of i "take (g_count r) (g_services r)"] i(1) n by (simp add: registered_def min_def)
  have r': "rc = 0" "registered r' = ?xs @ ?ys" "length (g_services r') = length (g_services r)" "g_count r' = g_count r - 1"
    "g_next_id r' = g_next_id r"
    using assms(2) Some shift_down [OF i(1) n] by (auto simp: service_unregister_def registered_def)
  have rest: "k \<notin> sv_id ` set (?xs @ ?ys)" using assms(1) i(2) unfolding registry_ok_def split by auto
  then have "\<forall>sv \<in> set (?xs @ ?ys). sv_id sv \<noteq> k" by (metis imageI)
  then have "filter (\<lambda>sv. sv_id sv \<noteq> k) ?xs = ?xs" "filter (\<lambda>sv. sv_id sv \<noteq> k) ?ys = ?ys"
    unfolding filter_id_conv by simp_all
  then have "filter (\<lambda>sv. sv_id sv \<noteq> k) (registered r) = ?xs @ ?ys"
    unfolding split filter_append filter.simps using i(2) by simp
  moreover have "registry_ok r'" using assms(1) r' unfolding registry_ok_def split by auto
  ultimately show ?thesis using r' i by (auto simp: split)
qed

lemma heartbeat_result:
  assumes "registry_ok r" and "service_heartbeat now k r = (rc, r')"
  shows "registry_ok r' \<and> g_next_id r' = g_next_id r \<and>
    map sv_id (registered r') = map sv_id (registered r) \<and> map sv_name (registered r') = map sv_name (registered r)"
proof (cases "find_service k r")
  case (Some i)
  then have i: "i < g_count r" by (auto simp: find_service_def dest: scan_SomeD)
  have n: "i < length (registered r)" using assms(1) i by (simp add: registered_def registry_ok_def)
  have r': "registered r' = (registered r)[i := (registered r ! i)\<lparr>sv_last_heartbeat := now\<rparr>]"
    "length (g_services r') = length (g_services r)" "g_count r' = g_count r" "g_next_id r' = g_next_id r"
    using assms(2) Some i by (auto simp: service_heartbeat_def registered_def take_update_swap)
  have same: "map f (registered r') = map f (registered r)" if "\<And>sv. f (sv\<lparr>sv_last_heartbeat := now\<rparr>) = f sv"
    for f :: "service_info \<Rightarrow> 'b"
    unfolding r'(1) map_update that by (metis list_update_id map_update)
  have "\<forall>sv \<in> set (registered r'). 0 \<le> sv_id sv \<and> sv_id sv < g_next_id r \<and> length (sv_name sv) < 64"
    using assms(1) n unfolding registry_ok_def r'(1) by (auto dest!: subsetD [OF set_update_subset_insert])
  with assms(1) r' same [of sv_id] same [of sv_name] show ?thesis by (simp add: registry_ok_def)
qed (use assms in \<open>simp add: service_heartbeat_def\<close>)

text \<open>Operations in a row, their results, and the numbers that registrations were given.\<close>

datatype service_op = Register_Service int u64 "u8 list option" | Unregister_Service int | Service_Heartbeat u64 int

definition service_step :: "service_op \<Rightarrow> service_registry \<Rightarrow> (int \<times> service_registry) option" where
  "service_step c r = (case c of
     Register_Service pid now name \<Rightarrow> map_option (\<lambda>(rc, r', msg). (rc, r')) (service_register pid now name r)
   | Unregister_Service k \<Rightarrow> (case service_unregister k r of (rc, r', msg) \<Rightarrow> Some (rc, r'))
   | Service_Heartbeat now k \<Rightarrow> Some (service_heartbeat now k r))"

fun service_run :: "service_op list \<Rightarrow> service_registry \<Rightarrow> (int list \<times> service_registry) option" where
  "service_run [] r = Some ([], r)"
| "service_run (c # cs) r = (case service_step c r of
     None \<Rightarrow> None
   | Some (rc, r) \<Rightarrow> map_option (apfst (Cons rc)) (service_run cs r))"

fun issued_ids :: "service_op list \<Rightarrow> int list \<Rightarrow> int list" where
  "issued_ids (Register_Service pid now name # cs) (rc # rcs) = (if 0 \<le> rc then [rc] else []) @ issued_ids cs rcs"
| "issued_ids (_ # cs) (_ # rcs) = issued_ids cs rcs"
| "issued_ids _ _ = []"

definition registry_start :: service_registry where
  "registry_start = \<lparr>g_services = replicate 256 \<lparr>sv_id = 0, sv_name = [], sv_state = 0, sv_pid = 0, sv_start_time = 0,
     sv_last_heartbeat = 0\<rparr>, g_count = 0, g_next_id = 0\<rparr>"

lemma service_step_ok:
  assumes "registry_ok r" and "service_step c r = Some (rc, r')"
  shows "registry_ok r' \<and> g_next_id r \<le> g_next_id r' \<and>
    issued_ids [c] [rc] = [g_next_id r..g_next_id r' - 1]"
proof (cases c)
  case (Register_Service pid now name)
  then obtain msg where "service_register pid now name r = Some (rc, r', msg)" using assms(2) by (auto simp: service_step_def)
  from register_result [OF assms(1) this] Register_Service show ?thesis by (cases "rc < 0") auto
next
  case (Unregister_Service k)
  then obtain msg where "service_unregister k r = (rc, r', msg)"
    using assms(2) by (auto simp: service_step_def split: prod.splits)
  from unregister_result [OF assms(1) this] Unregister_Service show ?thesis by simp
next
  case (Service_Heartbeat now k)
  with heartbeat_result [OF assms(1), of now k rc r'] assms(2) show ?thesis by (simp add: service_step_def)
qed

lemma issued_ids_Cons: "issued_ids (c # cs) (rc # rcs) = issued_ids [c] [rc] @ issued_ids cs rcs"
  by (cases c) auto

lemma upto_join: "a \<le> b \<Longrightarrow> b \<le> c \<Longrightarrow> [a..b - 1] @ [b..c - 1] = [a..c - 1 :: int]"
  using upto_split1 [of a b "c - 1"] by (cases "b = c") (simp_all del: upto.simps)

lemma service_run_ok:
  "registry_ok r \<Longrightarrow> service_run cs r = Some (rcs, r') \<Longrightarrow>
   registry_ok r' \<and> g_next_id r \<le> g_next_id r' \<and> issued_ids cs rcs = [g_next_id r..g_next_id r' - 1]"
proof (induction cs arbitrary: r rcs)
  case (Cons c cs)
  then obtain rc r1 rs where step: "service_step c r = Some (rc, r1)" "service_run cs r1 = Some (rs, r')" "rcs = rc # rs"
    by (auto split: option.splits)
  note one = service_step_ok [OF Cons.prems(1) step(1)]
  with Cons.IH [OF _ step(2)] have more: "registry_ok r'" "g_next_id r1 \<le> g_next_id r'"
    "issued_ids cs rs = [g_next_id r1..g_next_id r' - 1]" by blast+
  have "g_next_id r \<le> g_next_id r1" using one by blast
  moreover have "issued_ids (c # cs) rcs = issued_ids [c] [rc] @ issued_ids cs rs" unfolding step(3) by (rule issued_ids_Cons)
  ultimately have "issued_ids (c # cs) rcs = [g_next_id r..g_next_id r' - 1]"
    using one more upto_join by metis
  with \<open>g_next_id r \<le> g_next_id r1\<close> more show ?case by (simp del: upto.simps)
qed simp

text \<open>
  After any registrations, removals and heartbeats, the numbers that the registrations were given are
  0, 1, 2, ... in this order, so that no number is ever given twice; the services in the table have
  different names and different numbers, each given before, and are at most 256.
\<close>

theorem service_ids_consecutive:
  assumes "service_run cs registry_start = Some (rcs, r)"
  shows "issued_ids cs rcs = [0..g_next_id r - 1] \<and> length (registered r) \<le> 256 \<and>
    distinct (map sv_name (registered r)) \<and> distinct (map sv_id (registered r)) \<and>
    sv_id ` set (registered r) \<subseteq> set (issued_ids cs rcs)"
proof -
  have "registry_ok registry_start" by (simp add: registry_ok_def registry_start_def registered_def)
  from service_run_ok [OF this assms] show ?thesis
    by (auto simp: registry_ok_def registry_start_def registered_def)
qed

text \<open>A service that is registered, removed and registered again.\<close>

theorem service_ids_consecutive_witness:
  "\<exists>r. service_run [Register_Service 7 1 (Some [97]), Unregister_Service 0, Register_Service 8 4 (Some [97])] registry_start =
      Some ([0, 0, 1], r) \<and>
    issued_ids [Register_Service 7 1 (Some [97]), Unregister_Service 0, Register_Service 8 4 (Some [97])] [0, 0, 1] =
      [0..g_next_id r - 1] \<and> distinct (map sv_name (registered r))"
proof -
  have "\<exists>r. service_run [Register_Service 7 1 (Some [97]), Unregister_Service 0, Register_Service 8 4 (Some [97])] registry_start =
      Some ([0, 0, 1], r)"
    by (simp add: service_step_def service_register_def service_unregister_def find_service_def name_taken_def
        scan.simps [of _ 0 0] scan_first registry_start_def)
  then obtain r where "service_run [Register_Service 7 1 (Some [97]), Unregister_Service 0, Register_Service 8 4 (Some [97])]
      registry_start = Some ([0, 0, 1], r)" ..
  from this service_ids_consecutive [OF this] show ?thesis by blast
qed

end
