(* ===== verification/Eclib_Requests.thy ===== *)
theory Eclib_Requests
  imports Eclib_Service
begin

text \<open>
  The parts of the user library that ask others: messages (eclib/src/ipc/ipc_message.c and its twin ipc.c), capabilities
  (capability.c), shutdown (shutdown.c), and the clients of the services for processes, files, pipes, signals and time. What
  the system answers is a parameter; the system calls that are made are recorded in order. Strings are lists of bytes
  without the null character; \<open>snprintf\<close> is the one of the standard library. \<open>None\<close> stands for a read behind the end of the caller's data.
\<close>

section \<open>System calls and messages (ipc\_message.c)\<close>

record eclib_message =
  msg_type :: u32
  msg_sender :: u32
  msg_receiver :: u32
  msg_data_len :: u32
  msg_data :: "u8 list"
  msg_timestamp :: u64
  msg_flags :: u32

datatype system_call = Sys_send eclib_message | Sys_broadcast eclib_message | Sys_do_not_kill nat |
  Sys_shutdown nat u32 "u8 list" | Sys_reboot nat u32 "u8 list" | Sys_release_capability u64 | Sys_send_virtual_port u64

text \<open>\<open>answer\<close>: what a system call returns, after the ones that were made; \<open>allowed\<close>: the check of capabilities.\<close>

record system =
  answer :: "system_call list \<Rightarrow> system_call \<Rightarrow> int"
  getpid :: int
  sys_getpid :: u32
  time_now :: u64
  service_of :: "string \<Rightarrow> u32"
  allowed :: "u32 \<Rightarrow> bool"

definition make_call :: "system \<Rightarrow> system_call \<Rightarrow> system_call list \<Rightarrow> int \<times> system_call list" where
  "make_call sys c cs = (answer sys cs c, cs @ [c])"

definition text_of :: "string \<Rightarrow> u8 list" where
  "text_of t = map of_char t"

definition padded :: "nat \<Rightarrow> u8 list \<Rightarrow> u8 list" where
  "padded n bs = bs @ replicate (n - length bs) 0"

definition fill_message :: "system \<Rightarrow> u32 \<Rightarrow> u32 \<Rightarrow> u32 \<Rightarrow> u32 \<Rightarrow> u8 list option \<Rightarrow> eclib_message option" where
  "fill_message sys ty flags receiver data_len data =
     (let n = (if data_len > 256 then 256 else data_len);
          msg = \<lparr>msg_type = ty, msg_sender = of_int (getpid sys), msg_receiver = receiver, msg_data_len = n,
            msg_data = replicate 256 0, msg_timestamp = time_now sys, msg_flags = flags\<rparr>
      in (case data of
            None \<Rightarrow> Some msg
          | Some d \<Rightarrow>
              (if data_len = 0 then Some msg
               else if length d < unat n then None
               else Some (msg\<lparr>msg_data := padded 256 (take (unat n) d)\<rparr>))))"

definition lib_ipc_send_msg ::
    "system \<Rightarrow> u32 \<Rightarrow> u32 \<Rightarrow> u32 \<Rightarrow> u32 \<Rightarrow> u8 list option \<Rightarrow> system_call list \<Rightarrow> (int \<times> system_call list) option" where
  "lib_ipc_send_msg sys ty flags receiver data_len data cs =
     map_option (\<lambda>msg. make_call sys (Sys_send msg) cs) (fill_message sys ty flags receiver data_len data)"

definition ipc_broadcast_msg ::
    "system \<Rightarrow> u32 \<Rightarrow> u32 \<Rightarrow> u32 \<Rightarrow> u8 list option \<Rightarrow> system_call list \<Rightarrow> (int \<times> system_call list) option" where
  "ipc_broadcast_msg sys ty flags data_len data cs =
     map_option (\<lambda>msg. make_call sys (Sys_broadcast msg) cs) (fill_message sys ty flags 0xFFFFFFFF data_len data)"

text \<open>Receiving: \<open>received\<close> is the return value of the system call and the message that it has stored.\<close>

definition lib_ipc_receive_msg :: "system \<Rightarrow> int \<times> eclib_message \<Rightarrow> eclib_message option \<Rightarrow> int \<times> eclib_message option" where
  "lib_ipc_receive_msg sys received msg = (case msg of
     None \<Rightarrow> (-1, None)
   | Some _ \<Rightarrow> (case received of (ret, m) \<Rightarrow>
       (ret, Some (if ret \<ge> 0 \<and> msg_timestamp m = 0 then m\<lparr>msg_timestamp := time_now sys\<rparr> else m))))"

definition IPC_MSG_SHUTDOWN_REQUEST :: u32 where "IPC_MSG_SHUTDOWN_REQUEST = 0x53485554"
definition IPC_MSG_APPENDIX_S_WAIT :: u32 where "IPC_MSG_APPENDIX_S_WAIT = 0x57414954"
definition IPC_MSG_DO_NOT_KILL :: u32 where "IPC_MSG_DO_NOT_KILL = 0x444F4E54"

definition signed_text :: "int \<Rightarrow> u8 list" where
  "signed_text v = (if v < 0 then 45 # decimal_text (nat (- v)) else decimal_text (nat v))"

definition do_not_kill :: "system \<Rightarrow> nat \<Rightarrow> string \<Rightarrow> system_call list \<Rightarrow> (int \<times> system_call list) option" where
  "do_not_kill sys flag label cs = (case make_call sys (Sys_do_not_kill flag) cs of (ret, cs) \<Rightarrow>
     (if ret = 0 then
        (let data = take 31 (text_of label @ signed_text (getpid sys)) in
         map_option (\<lambda>(_, cs). (ret, cs)) (ipc_broadcast_msg sys IPC_MSG_DO_NOT_KILL 0 (of_nat (length data)) (Some data) cs))
      else Some (ret, cs)))"

definition ipc_do_not_kill_sub :: "system \<Rightarrow> system_call list \<Rightarrow> (int \<times> system_call list) option" where
  "ipc_do_not_kill_sub sys cs = do_not_kill sys 0 ''DO_NOT_KILL:'' cs"

definition ipc_do_not_kill_sub_emergency_ok :: "system \<Rightarrow> system_call list \<Rightarrow> (int \<times> system_call list) option" where
  "ipc_do_not_kill_sub_emergency_ok sys cs = do_not_kill sys 1 ''DO_NOT_KILL_EMERGENCY:'' cs"

section \<open>Capabilities (capability.c)\<close>

record capability_token =
  tok_id :: u64
  tok_capabilities :: u32
  tok_owner :: u32
  tok_valid_until :: u32
  tok_description :: "u8 list"

text \<open>\<open>acquire\<close> is the system call: it gives a token, or the null pointer.\<close>

definition acquire_capability ::
    "system \<Rightarrow> (u32 \<Rightarrow> u8 list \<Rightarrow> u32 \<Rightarrow> capability_token option) \<Rightarrow> u32 \<Rightarrow> u8 list option \<Rightarrow> u32 \<Rightarrow> capability_token option" where
  "acquire_capability sys acquire caps description timeout = (case description of
     None \<Rightarrow> None
   | Some d \<Rightarrow> map_option (tok_owner_update (\<lambda>_. of_int (getpid sys))) (acquire caps (take 64 d) timeout))"

definition empty_token :: capability_token where
  "empty_token = \<lparr>tok_id = 0, tok_capabilities = 0, tok_owner = 0, tok_valid_until = 0, tok_description = []\<rparr>"

text \<open>The value, the token behind the pointer, and the system calls.\<close>

definition release_capability ::
    "system \<Rightarrow> capability_token option \<Rightarrow> system_call list \<Rightarrow> int \<times> capability_token option \<times> system_call list" where
  "release_capability sys token cs = (case token of
     None \<Rightarrow> (-1, token, cs)
   | Some t \<Rightarrow>
       (if tok_owner t \<noteq> of_int (getpid sys) then (-2, token, cs)
        else (case make_call sys (Sys_release_capability (tok_id t)) cs of (ret, cs) \<Rightarrow>
          (ret, (if ret = 0 then Some empty_token else token), cs))))"

definition send_token_to_virtual_port ::
    "system \<Rightarrow> capability_token option \<Rightarrow> system_call list \<Rightarrow> int \<times> system_call list" where
  "send_token_to_virtual_port sys token cs = (case token of
     None \<Rightarrow> (-1, cs)
   | Some t \<Rightarrow>
       (if tok_owner t \<noteq> of_int (getpid sys) then (-2, cs)
        else if ucast (time_now sys) > tok_valid_until t then (-3, cs)
        else make_call sys (Sys_send_virtual_port (tok_id t)) cs))"

section \<open>Shutdown (shutdown.c)\<close>

definition CAPABILITY_SHUTDOWN :: u32 where "CAPABILITY_SHUTDOWN = 1"
definition CAPABILITY_REBOOT :: u32 where "CAPABILITY_REBOOT = 2"
definition SHUTDOWN_FLAG_NOWAIT :: u32 where "SHUTDOWN_FLAG_NOWAIT = 4"

text \<open>The text of the caller, or a fixed one: the words for a request of the user, in UTF-8.\<close>

definition user_asks :: "u8 list" where
  "user_asks = [0xE7, 0x94, 0xA8, 0xE6, 0x88, 0xB7, 0xE8, 0xAF, 0xB7, 0xE6, 0xB1, 0x82]"

definition shutdown_text :: "u8 list \<Rightarrow> u8 list option \<Rightarrow> u8 list" where
  "shutdown_text usual message = take 255 (case message of None \<Rightarrow> usual | Some t \<Rightarrow> (if t = [] then usual else t))"

definition announce :: "system \<Rightarrow> string \<Rightarrow> nat \<Rightarrow> u32 \<Rightarrow> u8 list \<Rightarrow> system_call list \<Rightarrow> system_call list option" where
  "announce sys label reason flags txt cs =
     (if flags AND SHUTDOWN_FLAG_NOWAIT \<noteq> 0 then Some cs
      else (let ipc_msg = take 511 (text_of label @ decimal_text reason @ text_of '':message='' @ txt) in
        map_option snd (ipc_broadcast_msg sys IPC_MSG_SHUTDOWN_REQUEST flags (of_nat (length ipc_msg)) (Some ipc_msg) cs)))"

definition lib_shutdown_system ::
    "system \<Rightarrow> nat \<Rightarrow> u32 \<Rightarrow> u8 list option \<Rightarrow> system_call list \<Rightarrow> (int \<times> system_call list) option" where
  "lib_shutdown_system sys reason flags message cs =
     (if \<not> allowed sys CAPABILITY_SHUTDOWN then Some (-1, cs)
      else (let msg_buf = shutdown_text (user_asks @ [0xE5, 0x85, 0xB3, 0xE6, 0x9C, 0xBA]) message in
        map_option (make_call sys (Sys_shutdown reason flags msg_buf)) (announce sys ''SHUTDOWN:reason='' reason flags msg_buf cs)))"

definition reboot_system ::
    "system \<Rightarrow> nat \<Rightarrow> u32 \<Rightarrow> u8 list option \<Rightarrow> system_call list \<Rightarrow> (int \<times> system_call list) option" where
  "reboot_system sys reason flags message cs =
     (if \<not> allowed sys CAPABILITY_REBOOT then Some (-1, cs)
      else (let msg_buf = shutdown_text (user_asks @ [0xE9, 0x87, 0x8D, 0xE5, 0x90, 0xAF]) message in
        map_option (make_call sys (Sys_reboot reason flags msg_buf)) (announce sys ''REBOOT:reason='' reason flags msg_buf cs)))"

text \<open>The table of callbacks: the used entries, each a function and its data.\<close>

definition register_shutdown_callback :: "nat option \<Rightarrow> nat \<Rightarrow> (nat \<times> nat) list \<Rightarrow> int \<times> (nat \<times> nat) list" where
  "register_shutdown_callback callback user_data g_callbacks = (case callback of
     None \<Rightarrow> (-1, g_callbacks)
   | Some f \<Rightarrow>
       (if length g_callbacks \<ge> 32 then (-1, g_callbacks)
        else if f \<in> set (map fst g_callbacks) then (-2, g_callbacks)
        else (0, g_callbacks @ [(f, user_data)])))"

text \<open>The message goes to the process that \<open>eclib_getpid\<close> names, the caller itself.\<close>

definition appendix_s_begin_save :: "system \<Rightarrow> system_call list \<Rightarrow> (int \<times> system_call list) option" where
  "appendix_s_begin_save sys cs = (case ipc_do_not_kill_sub sys cs of
     None \<Rightarrow> None
   | Some (_, cs) \<Rightarrow> lib_ipc_send_msg sys IPC_MSG_APPENDIX_S_WAIT 0 (sys_getpid sys) 4 (Some (text_of ''WAIT'' @ [0])) cs)"

section \<open>Processes (process.c)\<close>

text \<open>
  A client looks up its service and makes one synchronous call. \<open>call\<close> is that call, for a process, a command and
  a request: its error, and the reply.
\<close>

type_synonym ('req, 'resp) sync_call = "u32 \<Rightarrow> nat \<Rightarrow> 'req \<Rightarrow> int \<times> 'resp"

definition ask_service :: "u32 \<Rightarrow> ('req, 'resp) sync_call \<Rightarrow> nat \<Rightarrow> 'req \<Rightarrow> 'resp option" where
  "ask_service service_pid call cmd req =
     (if service_pid = 0 then None
      else (case call service_pid cmd req of (err, resp) \<Rightarrow> if err \<noteq> 0 then None else Some resp))"

text \<open>A reply of a process number and an error; only the number is looked at.\<close>

definition eclib_fork :: "system \<Rightarrow> (unit, int \<times> int) sync_call \<Rightarrow> int" where
  "eclib_fork sys call = (case ask_service (service_of sys ''process_service'') call 0x2001 () of None \<Rightarrow> -1 | Some (pid, _) \<Rightarrow> pid)"

text \<open>The strings one behind the other, each with its end; one that does not fit is left out.\<close>

definition pack_strings :: "u8 list list \<Rightarrow> u8 list" where
  "pack_strings args = fold (\<lambda>a packed. if length packed + length a + 1 < 1024 then packed @ a @ [0] else packed) args []"

record exec_request =
  exec_path :: "u8 list"
  argv_data :: "u8 list"
  envp_data :: "u8 list"

text \<open>\<open>eclib_strncpy\<close> with a bound of 255 copies 254 characters.\<close>

definition exec_request_of :: "u8 list \<Rightarrow> u8 list list \<Rightarrow> u8 list list \<Rightarrow> exec_request" where
  "exec_request_of path argv envp = \<lparr>exec_path = padded 256 (take 254 path), argv_data = padded 1024 (pack_strings argv),
     envp_data = padded 1024 (pack_strings envp)\<rparr>"

definition eclib_execve ::
    "system \<Rightarrow> (exec_request, int) sync_call \<Rightarrow> u8 list \<Rightarrow> u8 list list \<Rightarrow> u8 list list \<Rightarrow> int" where
  "eclib_execve sys call path argv envp =
     (case ask_service (service_of sys ''process_service'') call 0x2002 (exec_request_of path argv envp) of None \<Rightarrow> -1 | Some err \<Rightarrow> err)"

text \<open>The value and what is stored at \<open>status\<close>.\<close>

definition eclib_waitpid :: "system \<Rightarrow> (int \<times> int, int \<times> int) sync_call \<Rightarrow> int \<Rightarrow> int \<Rightarrow> int \<times> int option" where
  "eclib_waitpid sys call pid options =
     (case ask_service (service_of sys ''process_service'') call 0x2003 (pid, options) of
        None \<Rightarrow> (-1, None)
      | Some (who, status) \<Rightarrow> (who, Some status))"

definition eclib_wait :: "system \<Rightarrow> (int \<times> int, int \<times> int) sync_call \<Rightarrow> int \<times> int option" where
  "eclib_wait sys call = eclib_waitpid sys call (-1) 0"

text \<open>The system calls that are made before the endless loop at its end.\<close>

definition eclib_exit :: "system \<Rightarrow> u32 \<Rightarrow> system_call list \<Rightarrow> system_call list option" where
  "eclib_exit sys status cs =
     (let service_pid = service_of sys ''process_service'' in
      if service_pid = 0 then Some cs
      else map_option snd (lib_ipc_send_msg sys service_pid 0 0x2004 4 (Some (le_bytes status)) cs))"

text \<open>The result of the call is not looked at: on an error the value is the one before the call.\<close>

definition eclib_getppid :: "system \<Rightarrow> (unit, u32 option) sync_call \<Rightarrow> u32" where
  "eclib_getppid sys call =
     (let service_pid = service_of sys ''process_service'' in
      if service_pid = 0 then 0
      else (case call service_pid 0x2005 () of (_, resp) \<Rightarrow> (case resp of None \<Rightarrow> 0 | Some ppid \<Rightarrow> ppid)))"

section \<open>Folders, pipes, signals and time (filesystem.c, pipe.c, signal.c, time.c)\<close>

definition fs_path :: "u8 list \<Rightarrow> u8 list" where
  "fs_path path = padded 256 (take 254 path)"

text \<open>The value and what is stored: \<open>'stat\<close> is the structure in the reply.\<close>

definition eclib_stat :: "system \<Rightarrow> (u8 list, 'stat \<times> int) sync_call \<Rightarrow> u8 list \<Rightarrow> int \<times> 'stat option" where
  "eclib_stat sys call path = (case ask_service (service_of sys ''file_service'') call 0x3001 (fs_path path) of
     None \<Rightarrow> (-1, None)
   | Some (stat, err) \<Rightarrow> (if err = 0 then 0 else -1, Some stat))"

definition eclib_access :: "system \<Rightarrow> (u8 list \<times> int, int) sync_call \<Rightarrow> u8 list \<Rightarrow> int \<Rightarrow> int" where
  "eclib_access sys call path mode =
     (case ask_service (service_of sys ''file_service'') call 0x3002 (fs_path path, mode) of None \<Rightarrow> -1 | Some result \<Rightarrow> result)"

definition eclib_unlink :: "system \<Rightarrow> (u8 list, int) sync_call \<Rightarrow> u8 list \<Rightarrow> int" where
  "eclib_unlink sys call path =
     (case ask_service (service_of sys ''file_service'') call 0x3003 (fs_path path) of None \<Rightarrow> -1 | Some result \<Rightarrow> result)"

definition eclib_chdir :: "system \<Rightarrow> (u8 list, int) sync_call \<Rightarrow> u8 list \<Rightarrow> int" where
  "eclib_chdir sys call path =
     (case ask_service (service_of sys ''file_service'') call 0x3004 (fs_path path) of None \<Rightarrow> -1 | Some result \<Rightarrow> result)"

text \<open>What the buffer holds then, as a string: \<open>eclib_strncpy\<close> leaves two of its \<open>n\<close> places for null characters.\<close>

definition eclib_getcwd :: "system \<Rightarrow> (unit, u8 list) sync_call \<Rightarrow> nat \<Rightarrow> u8 list option" where
  "eclib_getcwd sys call n = (case ask_service (service_of sys ''file_service'') call 0x3005 () of
     None \<Rightarrow> None
   | Some cwd \<Rightarrow> (if n > 0 then Some (take (n - 2) cwd) else None))"

definition eclib_pipe :: "system \<Rightarrow> (unit, (int \<times> int) \<times> int) sync_call \<Rightarrow> int \<times> (int \<times> int) option" where
  "eclib_pipe sys call = (case ask_service (service_of sys ''pipe_service'') call 0x6001 () of
     None \<Rightarrow> (-1, None)
   | Some (fds, result) \<Rightarrow> (result, Some fds))"

definition eclib_dup2 :: "system \<Rightarrow> (int \<times> int, int) sync_call \<Rightarrow> int \<Rightarrow> int \<Rightarrow> int" where
  "eclib_dup2 sys call oldfd newfd =
     (case ask_service (service_of sys ''pipe_service'') call 0x6002 (oldfd, newfd) of None \<Rightarrow> -1 | Some result \<Rightarrow> result)"

definition eclib_signal :: "system \<Rightarrow> (int \<times> u64, u64) sync_call \<Rightarrow> int \<Rightarrow> u64 \<Rightarrow> u64" where
  "eclib_signal sys call signum handler =
     (case ask_service (service_of sys ''signal_service'') call 0x5001 (signum, handler) of None \<Rightarrow> 0 | Some old \<Rightarrow> old)"

definition eclib_kill :: "system \<Rightarrow> (int \<times> int, int) sync_call \<Rightarrow> int \<Rightarrow> int \<Rightarrow> int" where
  "eclib_kill sys call pid sig =
     (case ask_service (service_of sys ''signal_service'') call 0x5002 (pid, sig) of None \<Rightarrow> -1 | Some result \<Rightarrow> result)"

definition eclib_time :: "system \<Rightarrow> (unit, u64) sync_call \<Rightarrow> u64" where
  "eclib_time sys call = (case ask_service (service_of sys ''time_service'') call 0x4001 () of None \<Rightarrow> 0 | Some t \<Rightarrow> t)"

section \<open>Files (file.c)\<close>

text \<open>The call of the file service: the error that is recorded, or the reply.\<close>

definition ask_file_control :: "system \<Rightarrow> ('req, 'resp \<times> int) sync_call \<Rightarrow> nat \<Rightarrow> 'req \<Rightarrow> int + 'resp" where
  "ask_file_control sys call cmd req =
     (let fc_pid = service_of sys ''file_control'' in
      if fc_pid = 0 then Inl CANNOT_FIND_MODULE
      else (case call fc_pid cmd req of (err, resp, resp_err) \<Rightarrow>
        if err \<noteq> ECLIB_NO_ERROR then Inl err
        else if resp_err \<noteq> ECLIB_NO_ERROR then Inl resp_err
        else Inr resp))"

definition ECLIB_FILE_INVALID :: u32 where "ECLIB_FILE_INVALID = -1"

text \<open>The value and the error that is recorded last, if any. \<open>eclib_strncpy\<close> with a bound of 255 copies 254 characters.\<close>

definition eclib_file_open ::
    "system \<Rightarrow> (u8 list \<times> u8, u32 \<times> int) sync_call \<Rightarrow> u8 list option \<Rightarrow> u8 \<Rightarrow> u32 \<times> int option" where
  "eclib_file_open sys call filename mode =
     (if filename = None \<or> filename = Some [] then (ECLIB_FILE_INVALID, Some INVALID_PARAMETER)
      else (case ask_file_control sys call 0x1001 (take 254 (the filename), mode) of
        Inl e \<Rightarrow> (ECLIB_FILE_INVALID, Some e)
      | Inr file \<Rightarrow> (file, None)))"

definition eclib_file_read ::
    "system \<Rightarrow> (u32 \<times> u64, u64 \<times> int) sync_call \<Rightarrow> u32 \<Rightarrow> nat option \<Rightarrow> u64 \<Rightarrow> int \<times> int option" where
  "eclib_file_read sys call file buf max_len =
     (if file = ECLIB_FILE_INVALID \<or> buf = None \<or> max_len = 0 then (-1, Some INVALID_PARAMETER)
      else (case ask_file_control sys call 0x1002 (file, max_len) of
        Inl e \<Rightarrow> (-1, Some e)
      | Inr actual_len \<Rightarrow> (sint actual_len, None)))"

definition eclib_file_write ::
    "system \<Rightarrow> (u32 \<times> nat \<times> u64, u64 \<times> int) sync_call \<Rightarrow> u32 \<Rightarrow> nat option \<Rightarrow> u64 \<Rightarrow> int \<times> int option" where
  "eclib_file_write sys call file data len =
     (if file = ECLIB_FILE_INVALID \<or> data = None \<or> len = 0 then (-1, Some INVALID_PARAMETER)
      else (case ask_file_control sys call 0x1003 (file, the data, len) of
        Inl e \<Rightarrow> (-1, Some e)
      | Inr actual_len \<Rightarrow> (sint actual_len, None)))"

definition eclib_file_close :: "system \<Rightarrow> (u32, unit \<times> int) sync_call \<Rightarrow> u32 \<Rightarrow> int \<times> int option" where
  "eclib_file_close sys call file =
     (if file = ECLIB_FILE_INVALID then (INVALID_PARAMETER, Some INVALID_PARAMETER)
      else (case ask_file_control sys call 0x1004 file of
        Inl e \<Rightarrow> (e, Some e)
      | Inr _ \<Rightarrow> (ECLIB_NO_ERROR, None)))"

definition eclib_file_get_length ::
    "system \<Rightarrow> (u32 \<times> u8 list, u64 \<times> int) sync_call \<Rightarrow> u32 \<Rightarrow> u8 list option \<Rightarrow> int \<times> int option" where
  "eclib_file_get_length sys call file filename =
     (if file = ECLIB_FILE_INVALID \<and> (filename = None \<or> filename = Some []) then (-1, Some INVALID_PARAMETER)
      else (case ask_file_control sys call 0x1005 (file, case filename of None \<Rightarrow> [] | Some t \<Rightarrow> take 254 t) of
        Inl e \<Rightarrow> (-1, Some e)
      | Inr len \<Rightarrow> (sint len, None)))"

section \<open>Windows (rui.c)\<close>

text \<open>
  The number of the service, 0 before it is looked up. \<open>'place\<close> stands for position, size and colour. When the reply carries the
  error, the error of the call, which there was none, is recorded.
\<close>

definition eclib_rui_init :: "system \<Rightarrow> u32 \<Rightarrow> int \<times> u32 \<times> int option" where
  "eclib_rui_init sys g_rui_pid =
     (if g_rui_pid \<noteq> 0 then (ECLIB_NO_ERROR, g_rui_pid, None)
      else (let found = service_of sys ''rui_service'' in
        if found = 0 then (CANNOT_FIND_MODULE, 0, Some CANNOT_FIND_MODULE) else (ECLIB_NO_ERROR, found, None)))"

definition eclib_rui_create_window ::
    "system \<Rightarrow> ('place \<times> u8 list, u32 \<times> int) sync_call \<Rightarrow> 'place option \<Rightarrow> u8 list option \<Rightarrow> u32 \<Rightarrow> u32 \<times> u32 \<times> int option" where
  "eclib_rui_create_window sys call place title g_rui_pid = (case eclib_rui_init sys g_rui_pid of (err, pid, recorded) \<Rightarrow>
     (if err \<noteq> ECLIB_NO_ERROR then (0, pid, recorded)
      else (case (place, title) of
        (Some pl, Some t) \<Rightarrow> (case call pid 0x3001 (pl, take 62 t) of (err, window_id, resp_err) \<Rightarrow>
          (if err \<noteq> ECLIB_NO_ERROR \<or> resp_err \<noteq> ECLIB_NO_ERROR then (0, pid, Some err) else (window_id, pid, None)))
      | _ \<Rightarrow> (0, pid, Some INVALID_PARAMETER))))"

definition eclib_rui_draw_text ::
    "system \<Rightarrow> (u32 \<times> 'place \<times> u8 list \<times> u8, unit) sync_call \<Rightarrow> u32 \<Rightarrow> 'place option \<Rightarrow> u8 list option \<Rightarrow> u8 \<Rightarrow> u32 \<Rightarrow> int \<times> u32 \<times> int option" where
  "eclib_rui_draw_text sys call window_id place txt font_size g_rui_pid = (case eclib_rui_init sys g_rui_pid of (err, pid, recorded) \<Rightarrow>
     (if err \<noteq> ECLIB_NO_ERROR then (CANNOT_FIND_MODULE, pid, recorded)
      else (case (place, txt) of
        (Some pl, Some t) \<Rightarrow>
          (if window_id = 0 then (INVALID_PARAMETER, pid, Some INVALID_PARAMETER)
           else (fst (call pid 0x3003 (window_id, pl, take 254 t, font_size)), pid, None))
      | _ \<Rightarrow> (INVALID_PARAMETER, pid, Some INVALID_PARAMETER))))"

section \<open>What the arguments of a new program become\<close>

text \<open>The strings that fit, and how the receiver takes them out again: one after the other up to an empty one.\<close>

fun kept :: "nat \<Rightarrow> u8 list list \<Rightarrow> u8 list list" where
  "kept used [] = []"
| "kept used (a # as) = (if used + length a + 1 < 1024 then a # kept (used + length a + 1) as else kept used as)"

function strings_of :: "u8 list \<Rightarrow> u8 list list" where
  "strings_of bs = (let t = takeWhile (\<lambda>b. b \<noteq> 0) bs in if t = [] then [] else t # strings_of (drop (length t + 1) bs))"
  by auto
termination by (relation "measure length") (auto simp: Let_def takeWhile_eq_Nil_iff)

declare strings_of.simps [simp del]

definition with_ends :: "u8 list list \<Rightarrow> u8 list" where
  "with_ends ts = concat (map (\<lambda>t. t @ [0]) ts)"

lemma pack_kept:
  "fold (\<lambda>a packed. if length packed + length a + 1 < 1024 then packed @ a @ [0] else packed) args (packed :: u8 list) =
    packed @ with_ends (kept (length packed) args)"
  by (induction args arbitrary: packed) (auto simp: with_ends_def)

lemma with_ends_kept: "used < 1024 \<Longrightarrow> used + length (with_ends (kept used args)) < 1024"
proof (induction args arbitrary: used)
  case (Cons a args)
  then show ?case using Cons.IH [of "used + length a + 1"] by (auto simp: with_ends_def)
qed (simp add: with_ends_def)

lemma kept_all: "used + sum_list (map (\<lambda>a. length a + 1) args) < 1024 \<Longrightarrow> kept used args = args"
  by (induction args arbitrary: used) auto

lemma set_kept: "set (kept used args) \<subseteq> set args"
  by (induction args arbitrary: used) auto

lemma strings_of_zeros: "strings_of (replicate n 0) = []"
  by (subst strings_of.simps) (cases n; simp)

lemma strings_of_packed:
  "\<forall>t \<in> set ts. t \<noteq> [] \<and> 0 \<notin> set t \<Longrightarrow> strings_of (with_ends ts @ replicate n 0) = ts"
proof (induction ts)
  case Nil
  then show ?case by (simp add: with_ends_def strings_of_zeros)
next
  case (Cons t ts)
  have start: "with_ends (t # ts) @ replicate n 0 = t @ 0 # (with_ends ts @ replicate n 0)"
    by (simp add: with_ends_def)
  have "takeWhile (\<lambda>b. b \<noteq> 0) (t @ 0 # xs) = t" for xs
    by (subst takeWhile_append2) (use Cons.prems in auto)
  then show ?case unfolding start
    using Cons by (subst strings_of.simps) (simp add: Let_def)
qed



section \<open>Capabilities that were released\<close>

datatype token_op = Release | Send_to_port

fun token_run :: "system \<Rightarrow> token_op list \<Rightarrow> capability_token option \<Rightarrow> system_call list \<Rightarrow> capability_token option \<times> system_call list" where
  "token_run sys [] token cs = (token, cs)"
| "token_run sys (Release # ops) token cs = (case release_capability sys token cs of (_, token, cs) \<Rightarrow> token_run sys ops token cs)"
| "token_run sys (Send_to_port # ops) token cs = (case send_token_to_virtual_port sys token cs of (_, cs) \<Rightarrow> token_run sys ops token cs)"

text \<open>
  A capability can be used up to its release and never after it: once the system has released a token, whatever
  the process does with it makes no system call any more, for every process but one with the number 0.
\<close>

theorem released_token_unusable:
  assumes "release_capability sys (Some t) cs = (0, token, cs')" and "(of_int (getpid sys) :: u32) \<noteq> 0"
  shows "cs' = cs @ [Sys_release_capability (tok_id t)] \<and> token_run sys ops token cs' = (token, cs')"
proof -
  have token: "token = Some empty_token" and calls: "cs' = cs @ [Sys_release_capability (tok_id t)]"
    using assms(1) by (auto simp: release_capability_def make_call_def split: if_splits)
  have "release_capability sys token cs' = (-2, token, cs')" "send_token_to_virtual_port sys token cs' = (-2, cs')"
    using assms(2) by (auto simp: token empty_token_def release_capability_def send_token_to_virtual_port_def)
  then have "token_run sys ops token cs' = (token, cs')"
  proof (induction ops)
    case (Cons op ops)
    then show ?case by (cases op) simp_all
  qed simp
  with calls show ?thesis by blast
qed

definition quiet_system :: system where
  "quiet_system = \<lparr>answer = (\<lambda>_ _. 0), getpid = 7, sys_getpid = 7, time_now = 100,
    service_of = (\<lambda>name. if name = ''process_service'' then 9 else 0), allowed = (\<lambda>_. True)\<rparr>"

theorem released_token_unusable_witness:
  "token_run quiet_system [Send_to_port, Release] (Some empty_token) [Sys_release_capability 5] =
    (Some empty_token, [Sys_release_capability 5])"
  using released_token_unusable [of quiet_system "\<lparr>tok_id = 5, tok_capabilities = 1, tok_owner = 7, tok_valid_until = 200, tok_description = []\<rparr>"
      "[]" "Some empty_token" "[Sys_release_capability 5]" "[Send_to_port, Release]"]
  by (simp add: release_capability_def make_call_def quiet_system_def empty_token_def)

section \<open>Messages that go elsewhere\<close>

lemma message_text: "fill_message sys ty flags receiver (of_nat (length d)) (Some d) \<noteq> None" if "length d < 2 ^ 32"
proof -
  have "unat (of_nat (length d) :: u32) = length d" using that by (simp add: unat_of_nat take_bit_nat_eq_self)
  then show ?thesis by (auto simp: fill_message_def Let_def word_less_nat_alt not_less)
qed

text \<open>The arguments of the send are in another order than its parameters: the command is taken for the receiver.\<close>

lemma exit_misses_service:
  assumes "service_of sys ''process_service'' = p" and "p \<noteq> 0"
  shows "\<exists>m. eclib_exit sys status cs = Some (cs @ [Sys_send m]) \<and> msg_receiver m = 0x2004 \<and> msg_type m = p"
  using assms by (simp add: eclib_exit_def lib_ipc_send_msg_def fill_message_def make_call_def Let_def)

lemma appendix_s_waits_for_itself:
  assumes "appendix_s_begin_save sys cs = Some (ret, cs')"
  shows "\<exists>m. last cs' = Sys_send m \<and> msg_receiver m = sys_getpid sys"
  using assms by (auto simp: appendix_s_begin_save_def lib_ipc_send_msg_def fill_message_def make_call_def Let_def text_of_def split: option.splits)

text \<open>A shutdown is announced before it is made, and neither without the capability.\<close>

lemma announce_makes:
  "\<exists>ms. announce sys label reason flags txt cs = Some (cs @ ms) \<and>
    (if flags AND SHUTDOWN_FLAG_NOWAIT \<noteq> 0 then ms = [] else \<exists>m. ms = [Sys_broadcast m] \<and> msg_type m = IPC_MSG_SHUTDOWN_REQUEST)"
proof -
  define t where "t = take 511 (text_of label @ decimal_text reason @ text_of '':message='' @ txt)"
  have "length t \<le> 511" unfolding t_def length_take by simp
  then have "length t < 2 ^ 32" by simp
  then obtain m where m: "fill_message sys IPC_MSG_SHUTDOWN_REQUEST flags 0xFFFFFFFF (of_nat (length t)) (Some t) = Some m"
    using message_text [of t sys] by blast
  then have sent: "ipc_broadcast_msg sys IPC_MSG_SHUTDOWN_REQUEST flags (of_nat (length t)) (Some t) cs =
      Some (answer sys cs (Sys_broadcast m), cs @ [Sys_broadcast m])"
    by (simp only: ipc_broadcast_msg_def make_call_def option.map)
  have "msg_type m = IPC_MSG_SHUTDOWN_REQUEST" using m by (auto simp: fill_message_def Let_def split: if_splits)
  then show ?thesis
    by (cases "flags AND SHUTDOWN_FLAG_NOWAIT = 0")
      (simp_all only: announce_def Let_def t_def [symmetric] sent option.map prod.sel simp_thms if_True if_False, auto)
qed

lemma shutdown_announced_first:
  "\<exists>ret ms. lib_shutdown_system sys reason flags txt cs = Some (ret, cs @ ms) \<and>
    (if \<not> allowed sys CAPABILITY_SHUTDOWN then ret = -1 \<and> ms = []
     else \<exists>ms' t. ms = ms' @ [Sys_shutdown reason flags t] \<and>
       (if flags AND SHUTDOWN_FLAG_NOWAIT \<noteq> 0 then ms' = [] else \<exists>m. ms' = [Sys_broadcast m] \<and> msg_type m = IPC_MSG_SHUTDOWN_REQUEST))"
proof (cases "allowed sys CAPABILITY_SHUTDOWN")
  case True
  define t where "t = shutdown_text (user_asks @ [0xE5, 0x85, 0xB3, 0xE6, 0x9C, 0xBA]) txt"
  obtain ms where "announce sys ''SHUTDOWN:reason='' reason flags t cs = Some (cs @ ms)"
    "if flags AND SHUTDOWN_FLAG_NOWAIT \<noteq> 0 then ms = [] else \<exists>m. ms = [Sys_broadcast m] \<and> msg_type m = IPC_MSG_SHUTDOWN_REQUEST"
    using announce_makes [of sys "''SHUTDOWN:reason=''" reason flags t cs] by blast
  then show ?thesis using True
    by (simp only: lib_shutdown_system_def t_def [symmetric] Let_def) (auto simp: make_call_def)
qed (simp add: lib_shutdown_system_def)

text \<open>The callbacks stay distinct and at most 32.\<close>

lemma callbacks_distinct:
  assumes "distinct (map fst cbs)" and "length cbs \<le> 32" and "register_shutdown_callback f d cbs = (ret, cbs')"
  shows "distinct (map fst cbs') \<and> length cbs' \<le> 32"
  using assms by (auto simp: register_shutdown_callback_def split: option.splits if_splits)

end
