(* ===== verification/Eclib_On_Kernel.thy ===== *)
theory Eclib_On_Kernel
  imports Kernel_Syscall Eclib_Requests
begin

text \<open>
  The user library on the kernel: the system calls of \<open>Eclib_Requests\<close>, with the numbers that the library has for them
  (eclib/src/ipc/ipc\_message.c, shutdown.c, capability.c), go to the dispatcher of \<open>Kernel_Syscall\<close>. How the arguments of a
  call get into the registers is a parameter. The numbers of the library are not those of the kernel.
\<close>

section \<open>Calls as numbers\<close>

definition call_number :: "system_call \<Rightarrow> u32" where
  "call_number c = (case c of
     Sys_send _ \<Rightarrow> 1001 | Sys_do_not_kill _ \<Rightarrow> 1003 | Sys_broadcast _ \<Rightarrow> 1004
   | Sys_shutdown _ _ _ \<Rightarrow> 2001 | Sys_reboot _ _ _ \<Rightarrow> 2002
   | Sys_release_capability _ \<Rightarrow> 3002 | Sys_send_virtual_port _ \<Rightarrow> 3004)"

type_synonym registers = "system_call \<Rightarrow> u32 \<times> u32 \<times> u32"

definition kernel_call :: "event list list \<Rightarrow> registers \<Rightarrow> system_call \<Rightarrow> kernel \<Rightarrow> (int \<times> kernel) option" where
  "kernel_call tr regs c k = (case regs c of (a1, a2, a3) \<Rightarrow> syscall_handler tr (call_number c) a1 a2 a3 k)"

text \<open>The kernel after the calls of a program, in order; \<open>None\<close> when one of them never returns.\<close>

fun kernel_after :: "event list list \<Rightarrow> registers \<Rightarrow> system_call list \<Rightarrow> kernel \<Rightarrow> kernel option" where
  "kernel_after tr regs [] k = Some k"
| "kernel_after tr regs (c # cs) k = (case kernel_call tr regs c k of None \<Rightarrow> None | Some (_, k) \<Rightarrow> kernel_after tr regs cs k)"

text \<open>The library whose system calls the kernel answers, starting in the state \<open>k\<close>; 0 stands for an answer that never comes.\<close>

definition on_kernel :: "event list list \<Rightarrow> registers \<Rightarrow> kernel \<Rightarrow> system \<Rightarrow> system" where
  "on_kernel tr regs k sys = sys\<lparr>answer := (\<lambda>cs c. case kernel_after tr regs cs k of None \<Rightarrow> 0
     | Some k \<Rightarrow> (case kernel_call tr regs c k of None \<Rightarrow> 0 | Some (rc, _) \<Rightarrow> rc))\<rparr>"

section \<open>What the kernel answers\<close>

lemma call_refused: "kernel_call tr regs c k = Some (-1, k)"
proof -
  have "call_number c \<notin> {1..7}" by (cases c) (simp_all add: call_number_def)
  then show ?thesis by (simp add: kernel_call_def unknown_call split: prod.split)
qed

lemma kernel_untouched: "kernel_after tr regs cs k = Some k"
  by (induction cs) (simp_all add: call_refused)

lemma answer_refused [simp]: "make_call (on_kernel tr regs k sys) c cs = (-1, cs @ [c])"
  by (simp add: make_call_def on_kernel_def kernel_untouched call_refused)

lemma fill_on_kernel [simp]: "fill_message (on_kernel tr regs k sys) ty flags receiver n d = fill_message sys ty flags receiver n d"
  by (simp add: fill_message_def on_kernel_def)

lemma nothing_shut_down:
  "map_option fst (lib_shutdown_system (on_kernel tr regs k sys) reason flags message cs) = Some (-1)"
  "map_option fst (reboot_system (on_kernel tr regs k sys) reason flags message cs) = Some (-1)"
proof -
  let ?sys = "on_kernel tr regs k sys"
  have "map_option fst (map_option (make_call ?sys c) (announce ?sys label reason flags t cs)) = Some (-1)" for c label t
    using announce_makes [of ?sys label reason flags t cs] by auto
  then show "map_option fst (lib_shutdown_system ?sys reason flags message cs) = Some (-1)"
    "map_option fst (reboot_system ?sys reason flags message cs) = Some (-1)"
    by (simp_all add: lib_shutdown_system_def reboot_system_def Let_def)
qed


end
