(* ===== verification/Eclib_Start.thy ===== *)
theory Eclib_Start
  imports Eclib_Utils Kernel_Print
begin

text \<open>
  The start of a program and its standard streams, eclib/src: start/start.c and c\_std/stdio.c (the functions there that are more
  than a constant). The streams are variables of the program and may be null. The keyboard and the function
  \<open>kputchar\<close> that stdio_puts a character with its colour on the screen are not part of the repository and are parameters.
\<close>

section \<open>The start (start.c)\<close>

text \<open>
  The addresses are those that the linker gives; \<open>main\<close> works on the memory. The result is what \<open>sys_exit\<close> is given.
\<close>

definition start_program :: "nat \<Rightarrow> nat \<Rightarrow> (int \<Rightarrow> nat \<Rightarrow> memory \<Rightarrow> (int \<times> memory) option) \<Rightarrow> int \<Rightarrow> nat \<Rightarrow> memory \<Rightarrow> (int \<times> memory) option" where
  "start_program bss_start bss_end main eclib_argc eclib_argv m =
     (case eclib_memset m (Some bss_start) 0 (bss_end - bss_start) of
        None \<Rightarrow> None
      | Some m \<Rightarrow> main eclib_argc eclib_argv m)"

section \<open>Streams (stdio.c)\<close>

record stream =
  s_fd :: int
  s_error :: int
  s_eof :: int

definition EOF :: int where "EOF = -1"

definition stdin_stream :: stream where "stdin_stream = \<lparr>s_fd = 0, s_error = 0, s_eof = 0\<rparr>"
definition stdout_stream :: stream where "stdout_stream = \<lparr>s_fd = 1, s_error = 0, s_eof = 0\<rparr>"

text \<open>The keyboard gives a byte; it is a signed character, as is \<open>(char)EOF\<close>.\<close>

definition stdio_getchar :: "u8 \<Rightarrow> stream option \<Rightarrow> int \<times> stream option" where
  "stdio_getchar key stdin = (case stdin of
     None \<Rightarrow> (EOF, None)
   | Some f \<Rightarrow>
       (let f = f\<lparr>s_error := 0\<rparr> in
        if key = of_int EOF then (EOF, Some (f\<lparr>s_eof := 1, s_error := 1\<rparr>))
        else (sint key, Some (f\<lparr>s_eof := 0\<rparr>))))"

text \<open>The string is what stands before its null byte.\<close>

definition stdio_puts :: "(u8 \<Rightarrow> u8 \<Rightarrow> 's \<Rightarrow> 's) \<Rightarrow> u8 list option \<Rightarrow> stream option \<Rightarrow> 's \<Rightarrow> int \<times> stream option \<times> 's" where
  "stdio_puts kputchar s stdout scr = (case (s, stdout) of
     (Some str, Some f) \<Rightarrow>
       (0, Some (f\<lparr>s_error := 0\<rparr>), kputchar 10 0x07 (fold (\<lambda>c. kputchar c 0x07) (takeWhile (\<lambda>c. c \<noteq> 0) str) scr))
   | (None, Some f) \<Rightarrow> (EOF, Some (f\<lparr>s_error := 1\<rparr>), scr)
   | (_, None) \<Rightarrow> (EOF, None, scr))"

definition stdio_putchar :: "(u8 \<Rightarrow> u8 \<Rightarrow> 's \<Rightarrow> 's) \<Rightarrow> int \<Rightarrow> stream option \<Rightarrow> 's \<Rightarrow> int \<times> stream option \<times> 's" where
  "stdio_putchar kputchar c stdout scr = (case stdout of
     None \<Rightarrow> (EOF, None, scr)
   | Some f \<Rightarrow> (c, Some (f\<lparr>s_error := 0\<rparr>), kputchar (of_int c) 0x07 scr))"

section \<open>Properties\<close>

text \<open>A program starts with its uninitialised variables at zero and all else as it was loaded.\<close>

lemma length_set_run [simp]: "length (fold (\<lambda>i m. m[p + i := v]) [0..<n] m) = length m"
  by (induction n) simp_all

lemma set_run: "i < length m \<Longrightarrow> fold (\<lambda>i m. m[p + i := v]) [0..<n] m ! i = (if p \<le> i \<and> i < p + n then v else m ! i)"
proof (induction n)
  case (Suc n)
  then show ?case by (cases "i = p + n") simp_all
qed auto

lemma start_zeroes:
  assumes "bss_start \<le> bss_end" and "bss_end \<le> length m"
  shows "\<exists>m'. start_program bss_start bss_end main argc argv m = main argc argv m' \<and> length m' = length m \<and>
    (\<forall>i < length m. m' ! i = (if bss_start \<le> i \<and> i < bss_end then 0 else m ! i))"
  using assms by (cases "bss_end = bss_start") (auto simp: start_program_def eclib_memset_def set_run intro!: exI)

text \<open>On the kernel's console a line is printed as the kernel prints it, and stays on the screen.\<close>

lemma puts_on_console:
  "stdio_puts Kernel_Print.putchar (Some str) (Some f) v = (0, Some (f\<lparr>s_error := 0\<rparr>), Kernel_Print.putchar 10 7 (print str 7 v))"
  by (simp add: stdio_puts_def print_def)

lemma puts_stays_on_screen: "vga_ok v \<Longrightarrow> vga_ok (snd (snd (stdio_puts Kernel_Print.putchar s stdout v)))"
  by (cases s; cases stdout) (simp_all add: puts_on_console putchar_ok print_ok, simp_all add: stdio_puts_def)

text \<open>
  The results of \<open>getchar\<close>: a byte of ASCII is itself, the bytes after it are negative, and the last one is taken for the end of
  the input.
\<close>

lemma stdio_getchar_results:
  "fst (stdio_getchar key (Some f)) = (if unat key < 128 then int (unat key) else int (unat key) - 256)"
proof -
  have range: "0 \<le> uint key" "uint key < 256" using uint_lt2p [of key] by simp_all
  have "bit (uint key) 7 \<longleftrightarrow> 128 \<le> uint key"
  proof (cases "128 \<le> uint key")
    case True
    then have "uint key div 128 = 1" using range by (simp add: div_pos_geq div_pos_pos_trivial)
    with True show ?thesis by (simp add: bit_iff_odd)
  qed (use range in \<open>simp add: bit_iff_odd div_pos_pos_trivial\<close>)
  then have "sint key = uint key - (if 128 \<le> uint key then 256 else 0)"
    using range by (simp add: sint_uint signed_take_bit_eq_take_bit_minus take_bit_int_eq_self)
  moreover have "fst (stdio_getchar key (Some f)) = sint key" by (simp add: stdio_getchar_def EOF_def Let_def)
  moreover have "int (unat key) = uint key" by simp
  then have "unat key < 128 \<longleftrightarrow> \<not> 128 \<le> uint key" by linarith
  ultimately show ?thesis by simp
qed

lemma stdio_getchar_end: "fst (stdio_getchar key (Some f)) = EOF \<longleftrightarrow> key = 0xFF"
proof -
  have "unat key < 256" using unsigned_less [where 'a = nat, of key] by simp
  then have "fst (stdio_getchar key (Some f)) = EOF \<longleftrightarrow> unat key = 255" unfolding stdio_getchar_results by (auto simp: EOF_def simp del: of_nat_unat)
  then show ?thesis by (simp add: word_unat_eq_iff)
qed

end
