(* ===== verification/Gtlib.thy ===== *)
theory Gtlib
  imports Prelude "HOL-Library.Signed_Division"
begin

text \<open>
  The widget library, gtlib/src: windows with a linked list of widgets (window.c, widget.c), drawing on the terminal
  (terminal.c), rendering of widgets and the focus among them (widget_render.c), keys (event.c), and the
  single file gtlib.c that defines the same functions again, where it differs.

  Widgets live in a heap; a window is passed by value. A null pointer is \<open>None\<close>. The result \<open>None\<close> of a loop over
  widgets says that it reads freed memory or never ends. What \<open>malloc\<close> and \<open>strdup\<close> answer, and what fresh memory
  holds, are parameters. The terminal is the list of the characters put on it: a position with the character and its
  colours stands for the escape sequences that go there. Coordinates are integers that stay in the range of \<open>int\<close>.
\<close>

section \<open>Data (gtlib.h, ecomos-gtlib.h)\<close>

datatype gt_color = GT_COLOR_BLACK | GT_COLOR_RED | GT_COLOR_GREEN | GT_COLOR_YELLOW | GT_COLOR_BLUE | GT_COLOR_MAGENTA |
  GT_COLOR_CYAN | GT_COLOR_WHITE | GT_COLOR_DEFAULT

datatype gt_widget_type = GT_WIDGET_BUTTON | GT_WIDGET_LABEL | GT_WIDGET_TEXTBOX

type_synonym ptr = nat
type_synonym gt_attr = nat

definition GT_ATTR_NORMAL :: gt_attr where "GT_ATTR_NORMAL = 0"
definition GT_ATTR_BOLD :: gt_attr where "GT_ATTR_BOLD = 1"

record gt_widget =
  w_type :: gt_widget_type
  w_x :: int
  w_y :: int
  w_width :: int
  w_height :: int
  w_text :: "string option"
  w_fg :: gt_color
  w_bg :: gt_color
  w_attr :: gt_attr
  w_visible :: bool
  w_focused :: bool
  w_callback :: "nat option"
  w_user_data :: nat
  w_next :: "ptr option"

record gt_window =
  win_x :: int
  win_y :: int
  win_width :: int
  win_height :: int
  win_title :: "string option"
  win_visible :: bool
  win_widgets :: "ptr option"
  win_focused :: "ptr option"

type_synonym widget_heap = "ptr \<rightharpoonup> gt_widget"

text \<open>The answers of the allocator: for a structure a pointer with what is found there, for a string whether it is copied.\<close>

record allocator =
  new_widget :: "(ptr \<times> gt_widget) option"
  can_copy :: bool

definition strdup :: "allocator \<Rightarrow> string option \<Rightarrow> string option" where
  "strdup al text = (if can_copy al then text else None)"

section \<open>Windows (window.c)\<close>

definition gt_create_window :: "allocator \<Rightarrow> bool \<Rightarrow> int \<Rightarrow> int \<Rightarrow> int \<Rightarrow> int \<Rightarrow> string option \<Rightarrow> gt_window option" where
  "gt_create_window al has_memory x y width height title =
     (if \<not> has_memory then None
      else Some \<lparr>win_x = x, win_y = y, win_width = width, win_height = height, win_title = strdup al title,
        win_visible = False, win_widgets = None, win_focused = None\<rparr>)"

text \<open>Destroying a window frees its structure and its title; the heap of widgets stays as it is.\<close>

definition gt_destroy_window :: "gt_window option \<Rightarrow> widget_heap \<Rightarrow> widget_heap" where
  "gt_destroy_window window h = h"

definition gt_show_window :: "gt_window \<Rightarrow> gt_window" where
  "gt_show_window window = window\<lparr>win_visible := True\<rparr>"

definition gt_hide_window :: "gt_window \<Rightarrow> gt_window" where
  "gt_hide_window window = window\<lparr>win_visible := False\<rparr>"

definition gt_set_window_title :: "allocator \<Rightarrow> string option \<Rightarrow> gt_window \<Rightarrow> gt_window" where
  "gt_set_window_title al title window = window\<lparr>win_title := strdup al title\<rparr>"

text \<open>What the buffer of \<open>max_length\<close> characters holds then, as a string.\<close>

definition gt_get_window_title :: "gt_window \<Rightarrow> nat \<Rightarrow> string option" where
  "gt_get_window_title window max_length =
     (if max_length = 0 then None
      else (case win_title window of Some t \<Rightarrow> Some (take (max_length - 1) t) | None \<Rightarrow> Some []))"

definition gt_move_window :: "int \<Rightarrow> int \<Rightarrow> gt_window \<Rightarrow> gt_window" where
  "gt_move_window x y window = window\<lparr>win_x := x, win_y := y\<rparr>"

definition gt_resize_window :: "int \<Rightarrow> int \<Rightarrow> gt_window \<Rightarrow> gt_window" where
  "gt_resize_window width height window = window\<lparr>win_width := width, win_height := height\<rparr>"

definition gt_get_window_geometry :: "gt_window \<Rightarrow> int \<times> int \<times> int \<times> int" where
  "gt_get_window_geometry window = (win_x window, win_y window, win_width window, win_height window)"

section \<open>Widgets (widget.c)\<close>

text \<open>The new widget becomes the head of the list; the first button or text box takes the focus.\<close>

definition link_widget :: "ptr \<Rightarrow> gt_widget \<Rightarrow> gt_window \<Rightarrow> widget_heap \<Rightarrow> ptr option \<times> gt_window \<times> widget_heap" where
  "link_widget p w window h =
     (let w = w\<lparr>w_next := win_widgets window\<rparr>;
          window = window\<lparr>win_widgets := Some p\<rparr>
      in if win_focused window = None \<and> w_type w \<noteq> GT_WIDGET_LABEL
         then (Some p, window\<lparr>win_focused := Some p\<rparr>, h(p \<mapsto> w\<lparr>w_focused := True\<rparr>))
         else (Some p, window, h(p \<mapsto> w)))"

definition gt_create_button :: "allocator \<Rightarrow> int \<Rightarrow> int \<Rightarrow> int \<Rightarrow> int \<Rightarrow> string option \<Rightarrow> nat option \<Rightarrow> nat \<Rightarrow>
    gt_window \<Rightarrow> widget_heap \<Rightarrow> ptr option \<times> gt_window \<times> widget_heap" where
  "gt_create_button al x y width height text callback user_data window h = (case new_widget al of
     None \<Rightarrow> (None, window, h)
   | Some (p, junk) \<Rightarrow> link_widget p (junk\<lparr>w_type := GT_WIDGET_BUTTON, w_x := x, w_y := y, w_width := width, w_height := height,
       w_text := strdup al text, w_visible := True, w_focused := False, w_callback := callback, w_user_data := user_data\<rparr>) window h)"

definition gt_create_label :: "allocator \<Rightarrow> int \<Rightarrow> int \<Rightarrow> string option \<Rightarrow> gt_color \<Rightarrow> gt_color \<Rightarrow> gt_attr \<Rightarrow>
    gt_window \<Rightarrow> widget_heap \<Rightarrow> ptr option \<times> gt_window \<times> widget_heap" where
  "gt_create_label al x y text fg bg attr window h = (case new_widget al of
     None \<Rightarrow> (None, window, h)
   | Some (p, junk) \<Rightarrow> link_widget p (junk\<lparr>w_type := GT_WIDGET_LABEL, w_x := x, w_y := y, w_text := strdup al text,
       w_fg := fg, w_bg := bg, w_attr := attr, w_visible := True, w_focused := False\<rparr>) window h)"

definition gt_create_textbox :: "allocator \<Rightarrow> int \<Rightarrow> int \<Rightarrow> int \<Rightarrow> int \<Rightarrow> string option \<Rightarrow>
    gt_window \<Rightarrow> widget_heap \<Rightarrow> ptr option \<times> gt_window \<times> widget_heap" where
  "gt_create_textbox al x y width height text window h = (case new_widget al of
     None \<Rightarrow> (None, window, h)
   | Some (p, junk) \<Rightarrow> link_widget p (junk\<lparr>w_type := GT_WIDGET_TEXTBOX, w_x := x, w_y := y, w_width := width, w_height := height,
       w_text := strdup al text, w_visible := True, w_focused := False\<rparr>) window h)"

text \<open>The operations on one widget; \<open>None\<close> when the pointer is not to a widget.\<close>

definition on_widget :: "(gt_widget \<Rightarrow> gt_widget) \<Rightarrow> ptr option \<Rightarrow> widget_heap \<Rightarrow> widget_heap option" where
  "on_widget f p h = (case p of
     None \<Rightarrow> Some h
   | Some a \<Rightarrow> (case h a of None \<Rightarrow> None | Some w \<Rightarrow> Some (h(a \<mapsto> f w))))"

definition gt_set_widget_text :: "allocator \<Rightarrow> ptr option \<Rightarrow> string option \<Rightarrow> widget_heap \<Rightarrow> widget_heap option" where
  "gt_set_widget_text al p text h = on_widget (w_text_update (\<lambda>_. strdup al text)) p h"

definition gt_set_widget_visible :: "ptr option \<Rightarrow> bool \<Rightarrow> widget_heap \<Rightarrow> widget_heap option" where
  "gt_set_widget_visible p visible h = on_widget (w_visible_update (\<lambda>_. visible)) p h"

definition gt_get_widget_text :: "ptr option \<Rightarrow> widget_heap \<Rightarrow> string option option" where
  "gt_get_widget_text p h = (case p of None \<Rightarrow> Some None | Some a \<Rightarrow> map_option w_text (h a))"

text \<open>The widget is freed; the window that it is linked to is not told.\<close>

definition gt_destroy_widget :: "ptr option \<Rightarrow> widget_heap \<Rightarrow> widget_heap option" where
  "gt_destroy_widget p h = (case p of
     None \<Rightarrow> Some h
   | Some a \<Rightarrow> (case h a of None \<Rightarrow> None | Some _ \<Rightarrow> Some (h(a := None))))"

section \<open>Drawing (terminal.c)\<close>

type_synonym cell = "char \<times> gt_color \<times> gt_color \<times> gt_attr"
type_synonym puts = "((int \<times> int) \<times> cell) list"

text \<open>\<open>tm\<close> is the size of the terminal; a drawing function gives what it puts there, in order.\<close>

definition gt_draw_char :: "int \<times> int \<Rightarrow> gt_window \<Rightarrow> int \<Rightarrow> int \<Rightarrow> char \<Rightarrow> gt_color \<Rightarrow> gt_color \<Rightarrow> gt_attr \<Rightarrow> puts" where
  "gt_draw_char tm window x y ch fg bg attr =
     (if \<not> win_visible window then []
      else (let abs_x = win_x window + x; abs_y = win_y window + y in
        if abs_x < 0 \<or> abs_x \<ge> fst tm \<or> abs_y < 0 \<or> abs_y \<ge> snd tm then []
        else [((abs_x, abs_y), (ch, fg, bg, attr))]))"

fun gt_draw_string :: "int \<times> int \<Rightarrow> gt_window \<Rightarrow> int \<Rightarrow> int \<Rightarrow> string \<Rightarrow> gt_color \<Rightarrow> gt_color \<Rightarrow> gt_attr \<Rightarrow> puts" where
  "gt_draw_string tm window x y [] fg bg attr = []"
| "gt_draw_string tm window x y (c # cs) fg bg attr =
     (if x < win_width window
      then gt_draw_char tm window x y c fg bg attr @ gt_draw_string tm window (x + 1) y cs fg bg attr
      else [])"

definition gt_draw_border :: "int \<times> int \<Rightarrow> gt_window \<Rightarrow> gt_color \<Rightarrow> gt_color \<Rightarrow> gt_attr \<Rightarrow> puts" where
  "gt_draw_border tm window fg bg attr =
     (let put = (\<lambda>x y ch. gt_draw_char tm window x y ch fg bg attr); w = win_width window; h = win_height window in
      concat (map (\<lambda>x. put x 0 (CHR ''-'') @ put x (h - 1) (CHR ''-'')) [0..w - 1]) @
      concat (map (\<lambda>y. put 0 y (CHR ''|'') @ put (w - 1) y (CHR ''|'')) [0..h - 1]) @
      put 0 0 (CHR ''+'') @ put (w - 1) 0 (CHR ''+'') @ put 0 (h - 1) (CHR ''+'') @ put (w - 1) (h - 1) (CHR ''+''))"

text \<open>Clearing a window puts blanks on all of it, wherever the terminal ends.\<close>

definition gt_clear_window :: "gt_window \<Rightarrow> puts" where
  "gt_clear_window window =
     (if \<not> win_visible window then []
      else concat (map (\<lambda>y. map (\<lambda>x. ((win_x window + x, win_y window + y), (CHR '' '', GT_COLOR_DEFAULT, GT_COLOR_DEFAULT, GT_ATTR_NORMAL)))
        [0..win_width window - 1]) [0..win_height window - 1]))"

section \<open>Rendering (widget\_render.c)\<close>

definition button_frame :: "gt_widget \<Rightarrow> int \<Rightarrow> int \<Rightarrow> char" where
  "button_frame w x y =
     (if y = 0 \<or> y = w_height w - 1 then (if x = 0 \<or> x = w_width w - 1 then CHR ''+'' else CHR ''-'')
      else if x = 0 \<or> x = w_width w - 1 then CHR ''|'' else CHR '' '')"

definition render_button :: "int \<times> int \<Rightarrow> gt_window \<Rightarrow> gt_widget \<Rightarrow> puts" where
  "render_button tm window w =
     (let fg = (if w_focused w then GT_COLOR_YELLOW else GT_COLOR_WHITE);
          bg = (if w_focused w then GT_COLOR_BLUE else GT_COLOR_DEFAULT)
      in concat (map (\<lambda>y. concat (map (\<lambda>x. gt_draw_char tm window (w_x w + x) (w_y w + y) (button_frame w x y) fg bg GT_ATTR_NORMAL)
           [0..w_width w - 1])) [0..w_height w - 1]) @
         (case w_text w of None \<Rightarrow> []
          | Some t \<Rightarrow> gt_draw_string tm window (w_x w + (w_width w - int (length t)) sdiv 2) (w_y w + w_height w sdiv 2) t fg bg
              (if w_focused w then GT_ATTR_BOLD else GT_ATTR_NORMAL)))"

definition render_textbox :: "int \<times> int \<Rightarrow> gt_window \<Rightarrow> gt_widget \<Rightarrow> puts" where
  "render_textbox tm window w =
     (let fg = (if w_focused w then GT_COLOR_BLACK else GT_COLOR_WHITE);
          bg = (if w_focused w then GT_COLOR_WHITE else GT_COLOR_BLACK);
          put = (\<lambda>x y ch. gt_draw_char tm window (w_x w + x) (w_y w + y) ch fg bg GT_ATTR_NORMAL)
      in concat (map (\<lambda>y. concat (map (\<lambda>x. put x y (CHR '' '')) [0..w_width w - 1])) [0..w_height w - 1]) @
         concat (map (\<lambda>x. put x 0 (CHR ''-'') @ put x (w_height w - 1) (CHR ''-'')) [0..w_width w - 1]) @
         concat (map (\<lambda>y. put 0 y (CHR ''|'') @ put (w_width w - 1) y (CHR ''|'')) [0..w_height w - 1]) @
         (case w_text w of None \<Rightarrow> []
          | Some t \<Rightarrow> gt_draw_string tm window (w_x w + 1) (w_y w + 1) t fg bg GT_ATTR_NORMAL))"

definition gt_render_widget :: "int \<times> int \<Rightarrow> gt_window \<Rightarrow> gt_widget \<Rightarrow> puts" where
  "gt_render_widget tm window w =
     (if \<not> w_visible w then []
      else (case w_type w of
          GT_WIDGET_BUTTON \<Rightarrow> render_button tm window w
        | GT_WIDGET_LABEL \<Rightarrow> (case w_text w of None \<Rightarrow> []
            | Some t \<Rightarrow> gt_draw_string tm window (w_x w) (w_y w) t (w_fg w) (w_bg w) (w_attr w))
        | GT_WIDGET_TEXTBOX \<Rightarrow> render_textbox tm window w))"

partial_function (option) render_from :: "int \<times> int \<Rightarrow> gt_window \<Rightarrow> widget_heap \<Rightarrow> ptr option \<Rightarrow> puts \<Rightarrow> puts option" where
  "render_from tm window h p out = (case p of
     None \<Rightarrow> Some out
   | Some a \<Rightarrow> (case h a of
       None \<Rightarrow> None
     | Some w \<Rightarrow> render_from tm window h (w_next w) (out @ gt_render_widget tm window w)))"

definition gt_render_all_widgets :: "int \<times> int \<Rightarrow> gt_window \<times> widget_heap \<Rightarrow> puts option" where
  "gt_render_all_widgets tm wh = (case wh of (window, h) \<Rightarrow> render_from tm window h (win_widgets window) [])"

section \<open>Keys (event.c)\<close>

text \<open>What \<open>read\<close> gives: up to three bytes. A single byte is a signed character, which is widened.\<close>

definition key_of :: "u8 list \<Rightarrow> u32 option" where
  "key_of buf =
     (if buf = [] then None
      else if length buf = 1 then Some (scast (hd buf))
      else if length buf = 3 \<and> buf ! 0 = 27 \<and> buf ! 1 = 91 then
        Some (if buf ! 2 = 65 then 256 else if buf ! 2 = 66 then 257 else if buf ! 2 = 67 then 259 else if buf ! 2 = 68 then 258 else 0)
      else Some 0)"

text \<open>\<open>ready\<close>: the answer of \<open>select\<close>. The result is the return value and the key that is stored.\<close>

definition gt_wait_event :: "bool \<Rightarrow> int \<Rightarrow> u8 list \<Rightarrow> int \<times> u32 option" where
  "gt_wait_event has_event ready buf =
     (if \<not> has_event then (-1, None)
      else if ready \<le> 0 then (ready, None)
      else (case key_of (take 3 buf) of None \<Rightarrow> (-1, None) | Some k \<Rightarrow> (0, Some k)))"

section \<open>Focus (widget\_render.c)\<close>

definition interactive :: "gt_widget \<Rightarrow> bool" where
  "interactive w \<longleftrightarrow> w_type w = GT_WIDGET_BUTTON \<or> w_type w = GT_WIDGET_TEXTBOX"

text \<open>The loops over the list, from \<open>p\<close> up to \<open>stop\<close>: the first and the last interactive widget.\<close>

partial_function (option) first_interactive :: "ptr option \<Rightarrow> ptr option \<Rightarrow> widget_heap \<Rightarrow> ptr option option" where
  "first_interactive stop p h = (case p of
     None \<Rightarrow> Some None
   | Some a \<Rightarrow>
       (if stop = Some a then Some None
        else (case h a of
          None \<Rightarrow> None
        | Some w \<Rightarrow> (if interactive w then Some (Some a) else first_interactive stop (w_next w) h))))"

partial_function (option) last_interactive :: "ptr option \<Rightarrow> ptr option \<Rightarrow> ptr option \<Rightarrow> widget_heap \<Rightarrow> ptr option option" where
  "last_interactive stop found p h = (case p of
     None \<Rightarrow> Some found
   | Some a \<Rightarrow>
       (if stop = Some a then Some found
        else (case h a of
          None \<Rightarrow> None
        | Some w \<Rightarrow> last_interactive stop (if interactive w then Some a else found) (w_next w) h)))"

definition move_focus :: "ptr option \<Rightarrow> ptr \<Rightarrow> gt_window \<times> widget_heap \<Rightarrow> (gt_window \<times> widget_heap) option" where
  "move_focus current next wh = (case wh of (window, h) \<Rightarrow>
     (case on_widget (w_focused_update (\<lambda>_. False)) current h of
        None \<Rightarrow> None
      | Some h \<Rightarrow> (case on_widget (w_focused_update (\<lambda>_. True)) (Some next) h of
          None \<Rightarrow> None
        | Some h \<Rightarrow> Some (window\<lparr>win_focused := Some next\<rparr>, h))))"

definition next_of_focus :: "gt_window \<Rightarrow> widget_heap \<Rightarrow> ptr option option" where
  "next_of_focus window h = (case win_focused window of
     None \<Rightarrow> first_interactive None (win_widgets window) h
   | Some c \<Rightarrow> (case h c of
       None \<Rightarrow> None
     | Some w \<Rightarrow> (case first_interactive None (w_next w) h of
         None \<Rightarrow> None
       | Some (Some n) \<Rightarrow> Some (Some n)
       | Some None \<Rightarrow> first_interactive (Some c) (win_widgets window) h)))"

definition gt_focus_next_widget :: "gt_window \<times> widget_heap \<Rightarrow> (gt_window \<times> widget_heap) option" where
  "gt_focus_next_widget wh = (case wh of (window, h) \<Rightarrow>
     (if win_widgets window = None then Some (window, h)
      else (case next_of_focus window h of
        None \<Rightarrow> None
      | Some None \<Rightarrow> Some (window, h)
      | Some (Some n) \<Rightarrow> move_focus (win_focused window) n (window, h))))"

definition prev_of_focus :: "gt_window \<Rightarrow> widget_heap \<Rightarrow> ptr option option" where
  "prev_of_focus window h = (case win_focused window of
     None \<Rightarrow> last_interactive None None (win_widgets window) h
   | Some c \<Rightarrow> (case last_interactive (Some c) None (win_widgets window) h of
       None \<Rightarrow> None
     | Some (Some n) \<Rightarrow> Some (Some n)
     | Some None \<Rightarrow> last_interactive None None (win_widgets window) h))"

definition gt_focus_prev_widget :: "gt_window \<times> widget_heap \<Rightarrow> (gt_window \<times> widget_heap) option" where
  "gt_focus_prev_widget wh = (case wh of (window, h) \<Rightarrow>
     (if win_widgets window = None then Some (window, h)
      else (case prev_of_focus window h of
        None \<Rightarrow> None
      | Some None \<Rightarrow> Some (window, h)
      | Some (Some n) \<Rightarrow> (if win_focused window = Some n then Some (window, h)
          else move_focus (win_focused window) n (window, h)))))"

text \<open>The callback of a focused button is called with the widget and the user's data; the result says which call is made.\<close>

definition gt_activate_focused_widget :: "gt_window \<times> widget_heap \<Rightarrow> (nat \<times> ptr \<times> nat) option option" where
  "gt_activate_focused_widget wh = (case wh of (window, h) \<Rightarrow>
     (case win_focused window of
        None \<Rightarrow> Some None
      | Some p \<Rightarrow> (case h p of
          None \<Rightarrow> None
        | Some w \<Rightarrow> Some (case w_callback w of
            Some f \<Rightarrow> (if w_type w = GT_WIDGET_BUTTON then Some (f, p, w_user_data w) else None)
          | None \<Rightarrow> None))))"

section \<open>Windows that are in order\<close>

text \<open>\<open>links h p ps\<close>: the list from \<open>p\<close> consists of the widgets \<open>ps\<close>, in this order.\<close>

fun links :: "widget_heap \<Rightarrow> ptr option \<Rightarrow> ptr list \<Rightarrow> bool" where
  "links h p [] \<longleftrightarrow> p = None"
| "links h p (a # as) \<longleftrightarrow> p = Some a \<and> (\<exists>w. h a = Some w \<and> links h (w_next w) as)"

definition inter_at :: "widget_heap \<Rightarrow> ptr \<Rightarrow> bool" where
  "inter_at h a = (case h a of Some w \<Rightarrow> interactive w | None \<Rightarrow> False)"

definition stops :: "widget_heap \<Rightarrow> ptr list \<Rightarrow> ptr list" where
  "stops h ps = filter (inter_at h) ps"

text \<open>
  A window is in order when its list is finite and without repetition, the widget with the focus is the one
  that is marked, it can take the focus, and one has it whenever there is one that can.
\<close>

definition window_ok :: "ptr list \<Rightarrow> gt_window \<times> widget_heap \<Rightarrow> bool" where
  "window_ok ps wh = (case wh of (window, h) \<Rightarrow>
     links h (win_widgets window) ps \<and> distinct ps \<and>
     (\<forall>a \<in> set ps. \<forall>w. h a = Some w \<longrightarrow> w_focused w = (win_focused window = Some a)) \<and>
     (case win_focused window of None \<Rightarrow> stops h ps = [] | Some f \<Rightarrow> f \<in> set (stops h ps)))"

lemma links_append: "links h p (as @ bs) \<Longrightarrow> \<exists>q. (\<forall>cs. links h q cs \<longrightarrow> links h p (as @ cs)) \<and> links h q bs"
  by (induction as arbitrary: p) auto

lemma links_allocated: "links h p ps \<Longrightarrow> a \<in> set ps \<Longrightarrow> \<exists>w. h a = Some w"
  by (induction ps arbitrary: p) auto

lemma links_update:
  assumes "links h p ps" and "\<And>a w. a \<in> set ps \<Longrightarrow> h a = Some w \<Longrightarrow> \<exists>w'. h' a = Some w' \<and> w_next w' = w_next w"
  shows "links h' p ps"
  using assms by (induction ps arbitrary: p) fastforce+

lemma stops_simps [simp]: "stops h [] = []" "stops h (a # ps) = (if inter_at h a then a # stops h ps else stops h ps)"
  "stops h (ps @ qs) = stops h ps @ stops h qs"
  by (simp_all add: stops_def)

definition first_of :: "'a list \<Rightarrow> 'a option" where
  "first_of xs = (case xs of [] \<Rightarrow> None | x # _ \<Rightarrow> Some x)"

definition last_of :: "'a option \<Rightarrow> 'a list \<Rightarrow> 'a option" where
  "last_of found xs = (if xs = [] then found else Some (last xs))"

lemma first_interactive_all: "links h p ps \<Longrightarrow> first_interactive None p h = Some (first_of (stops h ps))"
  by (induction ps arbitrary: p) (auto simp: first_interactive.simps inter_at_def first_of_def)

lemma first_interactive_until:
  "links h p (ps @ c # qs) \<Longrightarrow> c \<notin> set ps \<Longrightarrow> first_interactive (Some c) p h = Some (first_of (stops h ps))"
  by (induction ps arbitrary: p) (auto simp: first_interactive.simps inter_at_def first_of_def)

lemma last_interactive_all: "links h p ps \<Longrightarrow> last_interactive None found p h = Some (last_of found (stops h ps))"
  by (induction ps arbitrary: p found) (auto simp: last_interactive.simps inter_at_def last_of_def)

lemma last_interactive_until:
  "links h p (ps @ c # qs) \<Longrightarrow> c \<notin> set ps \<Longrightarrow> last_interactive (Some c) found p h = Some (last_of found (stops h ps))"
  by (induction ps arbitrary: p found) (auto simp: last_interactive.simps inter_at_def last_of_def)

text \<open>Moving the focus among the widgets of a window that is in order.\<close>

lemma inter_at_type: "map_option w_type (h' a) = map_option w_type (h a) \<Longrightarrow> inter_at h' a = inter_at h a"
  by (cases "h a"; cases "h' a") (auto simp: inter_at_def interactive_def)

lemma stops_flags: "(\<And>a. a \<in> set ps \<Longrightarrow> map_option w_type (h' a) = map_option w_type (h a)) \<Longrightarrow> stops h' ps = stops h ps"
  unfolding stops_def by (rule filter_cong [OF refl]) (rule inter_at_type)

lemma move_focus_ok:
  assumes ok: "window_ok ps (window, h)" and n: "n \<in> set (stops h ps)" and f: "win_focused window = Some f"
  shows "\<exists>wf wn h'. h f = Some wf \<and> w_focused wf \<and> h n = Some wn \<and> w_focused wn = (n = f) \<and>
    move_focus (Some f) n (window, h) = Some (window\<lparr>win_focused := Some n\<rparr>, h') \<and>
    h' = h(f \<mapsto> wf\<lparr>w_focused := False\<rparr>, n \<mapsto> wn\<lparr>w_focused := True\<rparr>) \<and>
    window_ok ps (window\<lparr>win_focused := Some n\<rparr>, h') \<and> stops h' ps = stops h ps"
proof -
  have mem: "n \<in> set ps" "f \<in> set ps" using ok n f by (auto simp: window_ok_def stops_def)
  then obtain wf wn where w: "h f = Some wf" "h n = Some wn"
    using ok links_allocated unfolding window_ok_def by fastforce
  have flags: "w_focused w = (f = a)" if "a \<in> set ps" "h a = Some w" for a w
    using ok f that by (auto simp: window_ok_def)
  let ?h = "h(f \<mapsto> wf\<lparr>w_focused := False\<rparr>, n \<mapsto> wn\<lparr>w_focused := True\<rparr>)"
  have stops: "stops ?h ps = stops h ps" by (rule stops_flags) (use w in auto)
  have "links ?h (win_widgets window) ps"
    by (rule links_update [of h]) (use ok w in \<open>auto simp: window_ok_def\<close>)
  moreover have "w_focused w = (n = a)" if "a \<in> set ps" "?h a = Some w" for a w
    using that flags [of a w] by (auto split: if_splits)
  ultimately have "window_ok ps (window\<lparr>win_focused := Some n\<rparr>, ?h)"
    using ok n stops by (simp add: window_ok_def)
  moreover have "move_focus (Some f) n (window, h) = Some (window\<lparr>win_focused := Some n\<rparr>, ?h)"
    using w by (cases "n = f") (auto simp: move_focus_def on_widget_def)
  moreover have "w_focused wf" "w_focused wn = (n = f)"
    using flags [OF mem(2) w(1)] flags [OF mem(1) w(2)] by auto
  ultimately show ?thesis using w stops by blast
qed

lemma stops_split:
  assumes "window_ok ps (window, h)" and "win_focused window = Some f"
  obtains xs ys wf where "ps = xs @ f # ys" and "h f = Some wf" and "links h (w_next wf) ys" and "f \<notin> set xs"
    and "stops h ps = stops h xs @ f # stops h ys"
proof -
  have "f \<in> set ps" "inter_at h f" using assms by (auto simp: window_ok_def stops_def)
  then obtain xs ys where ps: "ps = xs @ f # ys" "f \<notin> set xs" by (meson split_list_first)
  moreover have "links h (win_widgets window) (xs @ f # ys)" using assms(1) ps by (simp add: window_ok_def)
  then obtain q where "links h q (f # ys)" using links_append by blast
  ultimately show ?thesis using that \<open>inter_at h f\<close> by auto
qed

lemma nth_split:
  assumes "distinct (xs @ f # ys)" and "i < length (xs @ f # ys)" and "(xs @ f # ys) ! i = f"
  shows "i = length xs"
  using assms nth_eq_iff_index_eq [of "xs @ f # ys" i "length xs"] by simp

lemma focused_index:
  assumes "window_ok ps (window, h)" and "i < length (stops h ps)" and "win_focused window = Some (stops h ps ! i)"
    and "stops h ps = xs @ (stops h ps ! i) # ys"
  shows "i = length xs"
proof -
  have "distinct (stops h ps)" using assms(1) by (simp add: window_ok_def stops_def)
  then show ?thesis using nth_split [of xs "stops h ps ! i" ys i] assms(2,4) by metis
qed

lemma next_of_focus_is:
  assumes ok: "window_ok ps (window, h)" and i: "i < length (stops h ps)" "win_focused window = Some (stops h ps ! i)"
  shows "next_of_focus window h = Some (if length (stops h ps) = 1 then None else Some (stops h ps ! (Suc i mod length (stops h ps))))"
proof -
  define f where "f = stops h ps ! i"
  have f: "win_focused window = Some f" using i(2) by (simp add: f_def)
  obtain xs ys wf where s: "ps = xs @ f # ys" "h f = Some wf" "links h (w_next wf) ys" "f \<notin> set xs"
    "stops h ps = stops h xs @ f # stops h ys" using stops_split [OF ok f] .
  have len: "i = length (stops h xs)" using focused_index [OF ok i] s(5) unfolding f_def by metis
  have head: "links h (win_widgets window) (xs @ f # ys)" using ok s(1) by (simp add: window_ok_def)
  show ?thesis
  proof (cases "stops h ys")
    case Nil
    then show ?thesis using s(2,5) f len first_interactive_all [OF s(3)] first_interactive_until [OF head s(4)]
      by (cases "stops h xs") (simp_all add: next_of_focus_def first_of_def nth_append)
  next
    case (Cons b bs)
    then show ?thesis using s(2,5) f len first_interactive_all [OF s(3)]
      by (simp add: next_of_focus_def first_of_def nth_append)
  qed
qed

lemma prev_of_focus_is:
  assumes ok: "window_ok ps (window, h)" and i: "i < length (stops h ps)" "win_focused window = Some (stops h ps ! i)"
  shows "prev_of_focus window h = Some (Some (stops h ps ! ((i + length (stops h ps) - 1) mod length (stops h ps))))"
proof -
  define f where "f = stops h ps ! i"
  have f: "win_focused window = Some f" using i(2) by (simp add: f_def)
  obtain xs ys wf where s: "ps = xs @ f # ys" "h f = Some wf" "links h (w_next wf) ys" "f \<notin> set xs"
    "stops h ps = stops h xs @ f # stops h ys" using stops_split [OF ok f] .
  have len: "i = length (stops h xs)" using focused_index [OF ok i] s(5) unfolding f_def by metis
  have head: "links h (win_widgets window) (xs @ f # ys)" using ok s(1) by (simp add: window_ok_def)
  then have all: "last_interactive None None (win_widgets window) h = Some (last_of None (stops h ps))"
    using last_interactive_all s(1) by blast
  show ?thesis
  proof (cases "stops h xs = []")
    case True
    then have "i = 0" "stops h ps \<noteq> []" using len s(5) by auto
    then show ?thesis using True f all last_interactive_until [OF head s(4), of None]
      by (simp add: prev_of_focus_def last_of_def last_conv_nth)
  next
    case False
    then have "(i + length (stops h ps) - 1) mod length (stops h ps) = i - 1"
      using len i(1) by (cases i) (simp_all add: mod_if)
    moreover have "stops h ps ! (i - 1) = last (stops h xs)"
      using False len s(5) by (simp add: last_conv_nth nth_append)
    ultimately show ?thesis using False f last_interactive_until [OF head s(4), of None]
      by (simp add: prev_of_focus_def last_of_def)
  qed
qed

text \<open>One step of the focus, when it is the only stop and when it is one of several.\<close>

lemma focus_stays:
  assumes ok: "window_ok ps (window, h)" and one: "stops h ps = [f]" and f: "win_focused window = Some f"
  shows "gt_focus_next_widget (window, h) = Some (window, h)" and "gt_focus_prev_widget (window, h) = Some (window, h)"
proof -
  have i: "0 < length (stops h ps)" "win_focused window = Some (stops h ps ! 0)" using one f by simp_all
  have some: "win_widgets window \<noteq> None" using ok one by (cases ps) (auto simp: window_ok_def stops_def)
  show "gt_focus_next_widget (window, h) = Some (window, h)"
    using next_of_focus_is [OF ok i] one some f by (simp add: gt_focus_next_widget_def)
  show "gt_focus_prev_widget (window, h) = Some (window, h)"
    using prev_of_focus_is [OF ok i] one some f by (simp add: gt_focus_prev_widget_def)
qed

lemma focus_moves:
  assumes ok: "window_ok ps (window, h)" and i: "i < length (stops h ps)" "win_focused window = Some (stops h ps ! i)"
    and several: "length (stops h ps) \<noteq> 1" and j: "j = Suc i mod length (stops h ps)"
  shows "\<exists>window' h'. gt_focus_next_widget (window, h) = Some (window', h') \<and> window_ok ps (window', h') \<and>
    stops h' ps = stops h ps \<and> win_focused window' = Some (stops h ps ! j) \<and> gt_focus_prev_widget (window', h') = Some (window, h)"
proof -
  define ss where "ss = stops h ps"
  define f where "f = ss ! i"
  define n where "n = ss ! j"
  have f: "win_focused window = Some f" and fs: "f \<in> set ss" using i by (simp_all add: f_def ss_def)
  have dist: "distinct ss" using ok by (simp add: window_ok_def ss_def stops_def)
  have some: "win_widgets window \<noteq> None" using ok fs by (cases ps) (auto simp: window_ok_def ss_def stops_def)
  have jl: "j < length ss" unfolding j ss_def using i(1) by (intro mod_less_divisor) auto
  have "j \<noteq> i" using several i(1) j by (cases "Suc i = length (stops h ps)") auto
  then have nf: "n \<noteq> f" using i(1) jl nth_eq_iff_index_eq [OF dist] by (simp add: n_def f_def ss_def)
  obtain wf wn h' where m: "h f = Some wf" "w_focused wf" "h n = Some wn" "w_focused wn = (n = f)"
      "move_focus (Some f) n (window, h) = Some (window\<lparr>win_focused := Some n\<rparr>, h')"
      "h' = h(f \<mapsto> wf\<lparr>w_focused := False\<rparr>, n \<mapsto> wn\<lparr>w_focused := True\<rparr>)"
      "window_ok ps (window\<lparr>win_focused := Some n\<rparr>, h')" "stops h' ps = stops h ps"
    using move_focus_ok [OF ok _ f, of n] nth_mem [OF jl] by (auto simp: ss_def n_def)
  let ?w = "window\<lparr>win_focused := Some n\<rparr>"
  have stepped: "gt_focus_next_widget (window, h) = Some (?w, h')"
    using next_of_focus_is [OF ok i] several m(5) f some by (auto simp: gt_focus_next_widget_def n_def ss_def j)
  have "(j + length ss - 1) mod length ss = i" using i(1) j by (cases "Suc i = length ss") (auto simp: mod_if ss_def)
  then have "prev_of_focus ?w h' = Some (Some f)"
    using prev_of_focus_is [OF m(7), of j] jl m(8) by (simp add: ss_def [symmetric] n_def f_def)
  moreover have "wn\<lparr>w_focused := False\<rparr> = wn" "wf\<lparr>w_focused := True\<rparr> = wf" using m(2,4) nf by auto
  then have "move_focus (Some n) f (?w, h') = Some (window, h)"
    using m(1,3,6) nf f by (auto simp: move_focus_def on_widget_def fun_eq_iff)
  ultimately have "gt_focus_prev_widget (?w, h') = Some (window, h)"
    using nf some by (auto simp: gt_focus_prev_widget_def)
  then show ?thesis using stepped m(7,8) by (simp add: n_def ss_def)
qed

text \<open>
  C16: In a window that is in order, the key for the next widget moves the focus through the buttons and text boxes in
  the order of the list and from the last to the first, and the key for the previous one undoes it, up to the
  last bit of the heap.
\<close>

theorem focus_cycles:
  assumes "window_ok ps (window, h)" and "i < length (stops h ps)" and "win_focused window = Some (stops h ps ! i)"
  shows "\<exists>window' h'. gt_focus_next_widget (window, h) = Some (window', h') \<and> window_ok ps (window', h') \<and>
    stops h' ps = stops h ps \<and> win_focused window' = Some (stops h ps ! (Suc i mod length (stops h ps))) \<and>
    gt_focus_prev_widget (window', h') = Some (window, h)"
proof (cases "length (stops h ps) = 1")
  case True
  then obtain f where "stops h ps = [f]" by (auto simp: length_Suc_conv)
  with focus_stays [OF assms(1) this] assms show ?thesis by simp
qed (rule focus_moves [OF assms _ refl])

text \<open>What a program can do with a window, short of freeing a widget.\<close>

definition fresh_for :: "allocator \<Rightarrow> widget_heap \<Rightarrow> bool" where
  "fresh_for al h = (case new_widget al of None \<Rightarrow> True | Some (p, _) \<Rightarrow> h p = None)"

inductive gui_step :: "gt_window \<times> widget_heap \<Rightarrow> gt_window \<times> widget_heap \<Rightarrow> bool" where
  button: "fresh_for al h \<Longrightarrow> gui_step (window, h) (snd (gt_create_button al x y width height text callback user_data window h))"
| label: "fresh_for al h \<Longrightarrow> gui_step (window, h) (snd (gt_create_label al x y text fg bg attr window h))"
| textbox: "fresh_for al h \<Longrightarrow> gui_step (window, h) (snd (gt_create_textbox al x y width height text window h))"
| next_focus: "gt_focus_next_widget wh = Some wh' \<Longrightarrow> gui_step wh wh'"
| prev_focus: "gt_focus_prev_widget wh = Some wh' \<Longrightarrow> gui_step wh wh'"
| set_text: "gt_set_widget_text al p text h = Some h' \<Longrightarrow> gui_step (window, h) (window, h')"
| set_visible: "gt_set_widget_visible p b h = Some h' \<Longrightarrow> gui_step (window, h) (window, h')"
| shown: "gui_step (window, h) (gt_show_window window, h)"
| hidden: "gui_step (window, h) (gt_hide_window window, h)"
| titled: "gui_step (window, h) (gt_set_window_title al title window, h)"
| moved: "gui_step (window, h) (gt_move_window x y window, h)"
| resized: "gui_step (window, h) (gt_resize_window width height window, h)"

lemma link_widget_ok:
  assumes ok: "window_ok ps (window, h)" and "h p = None" and unfocused: "\<not> w_focused w"
  shows "\<exists>qs. window_ok qs (snd (link_widget p w window h))"
proof -
  have p: "p \<notin> set ps" using ok assms(2) links_allocated unfolding window_ok_def by fastforce
  let ?h = "\<lambda>w'. h(p \<mapsto> w')"
  have links: "links (?h w') (win_widgets window) ps" for w'
    using ok p by (auto simp: window_ok_def intro: links_update)
  have stops: "stops (?h w') ps = stops h ps" for w'
    by (rule stops_flags) (use p in auto)
  have flags: "w_focused v = (win_focused window = Some a)" if "a \<in> set ps" "h a = Some v" for a v
    using ok that by (auto simp: window_ok_def)
  have "window_ok (p # ps) (snd (link_widget p w window h))"
  proof (cases "win_focused window")
    case None
    then have "stops h ps = []" using ok by (simp add: window_ok_def)
    then show ?thesis using None links stops flags p ok unfocused
      by (cases "w_type w") (auto simp: link_widget_def Let_def window_ok_def inter_at_def interactive_def)
  next
    case (Some f)
    then have "f \<in> set (stops h ps)" "f \<noteq> p" using ok p by (auto simp: window_ok_def stops_def)
    then show ?thesis using Some links stops flags p ok unfocused
      by (auto simp: link_widget_def Let_def window_ok_def inter_at_def)
  qed
  then show ?thesis by blast
qed

lemma on_widget_ok:
  assumes ok: "window_ok ps (window, h)" and "on_widget f p h = Some h'"
    and "\<And>w. w_type (f w) = w_type w \<and> w_next (f w) = w_next w \<and> w_focused (f w) = w_focused w"
  shows "window_ok ps (window, h')"
proof (cases p)
  case (Some a)
  then obtain w where h': "h' = h(a \<mapsto> f w)" "h a = Some w" using assms(2) by (auto simp: on_widget_def split: option.splits)
  have "stops h' ps = stops h ps" by (rule stops_flags) (use h' assms(3) in auto)
  moreover have "links h' (win_widgets window) ps"
    by (rule links_update [of h]) (use ok h' assms(3) in \<open>auto simp: window_ok_def\<close>)
  ultimately show ?thesis using ok h' assms(3) by (auto simp: window_ok_def split: option.splits)
qed (use assms in \<open>simp add: on_widget_def\<close>)

lemma focused_stop:
  assumes "window_ok ps (window, h)" and "win_focused window = Some f"
  obtains i where "i < length (stops h ps)" and "win_focused window = Some (stops h ps ! i)"
  using assms by (auto simp: window_ok_def in_set_conv_nth)

lemma unfocused_stops: "window_ok ps (window, h) \<Longrightarrow> win_focused window = None \<Longrightarrow> stops h ps = []"
  by (simp add: window_ok_def)

lemma focus_next_ok:
  assumes "gt_focus_next_widget wh = Some wh'" and "window_ok ps wh"
  shows "window_ok ps wh'"
proof -
  obtain window h where wh: "wh = (window, h)" by (cases wh)
  show ?thesis
  proof (cases "win_focused window")
    case None
    have "first_interactive None (win_widgets window) h = Some (first_of (stops h ps))"
      using assms(2) by (intro first_interactive_all) (simp add: wh window_ok_def)
    then show ?thesis using assms None unfocused_stops [OF assms(2) [unfolded wh] None]
      by (auto simp: wh gt_focus_next_widget_def next_of_focus_def first_of_def split: if_splits)
  next
    case (Some f)
    obtain i where i: "i < length (stops h ps)" "win_focused window = Some (stops h ps ! i)"
      using focused_stop [OF assms(2) [unfolded wh] Some] .
    have "stops h ps ! (Suc i mod length (stops h ps)) \<in> set (stops h ps)" using i(1) by (intro nth_mem mod_less_divisor) auto
    from move_focus_ok [OF assms(2) [unfolded wh] this Some] show ?thesis
      using assms next_of_focus_is [OF assms(2) [unfolded wh] i] Some
      by (auto simp: wh gt_focus_next_widget_def split: if_splits)
  qed
qed

lemma focus_prev_ok:
  assumes "gt_focus_prev_widget wh = Some wh'" and "window_ok ps wh"
  shows "window_ok ps wh'"
proof -
  obtain window h where wh: "wh = (window, h)" by (cases wh)
  show ?thesis
  proof (cases "win_focused window")
    case None
    have "last_interactive None None (win_widgets window) h = Some (last_of None (stops h ps))"
      using assms(2) by (intro last_interactive_all) (simp add: wh window_ok_def)
    then show ?thesis using assms None unfocused_stops [OF assms(2) [unfolded wh] None]
      by (auto simp: wh gt_focus_prev_widget_def prev_of_focus_def last_of_def split: if_splits)
  next
    case (Some f)
    obtain i where i: "i < length (stops h ps)" "win_focused window = Some (stops h ps ! i)"
      using focused_stop [OF assms(2) [unfolded wh] Some] .
    have "stops h ps ! ((i + length (stops h ps) - 1) mod length (stops h ps)) \<in> set (stops h ps)"
      using i(1) by (intro nth_mem mod_less_divisor) auto
    from move_focus_ok [OF assms(2) [unfolded wh] this Some] show ?thesis
      using assms prev_of_focus_is [OF assms(2) [unfolded wh] i] Some
      by (auto simp: wh gt_focus_prev_widget_def split: if_splits)
  qed
qed

lemma gui_step_ok:
  assumes "gui_step wh wh'" and "window_ok ps wh"
  shows "\<exists>qs. window_ok qs wh'"
  using assms
proof cases
  case (button al h window x y width height tx callback user_data)
  then show ?thesis using assms(2) link_widget_ok [of ps window h]
    by (cases "new_widget al") (auto simp: gt_create_button_def fresh_for_def)
next
  case (label al h window x y tx fg bg attr)
  then show ?thesis using assms(2) link_widget_ok [of ps window h]
    by (cases "new_widget al") (auto simp: gt_create_label_def fresh_for_def)
next
  case (textbox al h window x y width height tx)
  then show ?thesis using assms(2) link_widget_ok [of ps window h]
    by (cases "new_widget al") (auto simp: gt_create_textbox_def fresh_for_def)
next
  case next_focus
  then show ?thesis using focus_next_ok assms(2) by blast
next
  case prev_focus
  then show ?thesis using focus_prev_ok assms(2) by blast
next
  case (set_text al p tx h h' window)
  then show ?thesis using assms(2) on_widget_ok [of ps window h "w_text_update (\<lambda>_. strdup al tx)" p h'] by (auto simp: gt_set_widget_text_def)
next
  case (set_visible p b h h' window)
  then show ?thesis using assms(2) on_widget_ok [of ps window h "w_visible_update (\<lambda>_. b)" p h'] by (auto simp: gt_set_widget_visible_def)
qed (use assms(2) in \<open>auto simp: window_ok_def gt_show_window_def gt_hide_window_def gt_set_window_title_def
  gt_move_window_def gt_resize_window_def\<close>)

definition empty_window :: "gt_window \<Rightarrow> bool" where
  "empty_window window \<longleftrightarrow> win_widgets window = None \<and> win_focused window = None"

text \<open>
  C15: Whatever a program does with a window, short of freeing a widget, the window stays in order: its widgets form a
  finite list of allocated widgets without repetition, exactly the widget that has the focus is marked, and some
  button or text box has it as soon as there is one.
\<close>

theorem windows_stay_in_order:
  assumes "gui_step\<^sup>*\<^sup>* (window, h) wh" and "empty_window window"
  shows "\<exists>ps. window_ok ps wh"
  using assms(1)
proof (induction rule: rtranclp_induct)
  case base
  show ?case using assms(2) by (intro exI [of _ "[]"]) (simp add: window_ok_def empty_window_def)
next
  case (step wh wh')
  then show ?case using gui_step_ok by blast
qed

definition demo_widget :: "gt_widget_type \<Rightarrow> ptr option \<Rightarrow> bool \<Rightarrow> gt_widget" where
  "demo_widget ty nxt foc = \<lparr>w_type = ty, w_x = 1, w_y = 1, w_width = 9, w_height = 3, w_text = Some ''OK'', w_fg = GT_COLOR_BLACK,
     w_bg = GT_COLOR_BLACK, w_attr = 0, w_visible = True, w_focused = foc, w_callback = None, w_user_data = 0, w_next = nxt\<rparr>"

definition demo_window :: "ptr option \<Rightarrow> ptr option \<Rightarrow> gt_window" where
  "demo_window ws f = \<lparr>win_x = 2, win_y = 2, win_width = 20, win_height = 10, win_title = None, win_visible = True,
     win_widgets = ws, win_focused = f\<rparr>"

definition demo_widgets :: widget_heap where
  "demo_widgets = [10 \<mapsto> demo_widget GT_WIDGET_BUTTON (Some 20) False, 20 \<mapsto> demo_widget GT_WIDGET_LABEL (Some 30) False,
     30 \<mapsto> demo_widget GT_WIDGET_TEXTBOX None True]"

lemma demo_in_order:
  "window_ok [10, 20, 30] (demo_window (Some 10) (Some 30), demo_widgets)" "stops demo_widgets [10, 20, 30] = [10, 30]"
  by (auto simp: window_ok_def demo_window_def demo_widgets_def demo_widget_def inter_at_def interactive_def)

theorem focus_cycles_witness:
  "\<exists>window' h'. gt_focus_next_widget (demo_window (Some 10) (Some 30), demo_widgets) = Some (window', h') \<and>
    win_focused window' = Some 10 \<and> gt_focus_prev_widget (window', h') = Some (demo_window (Some 10) (Some 30), demo_widgets)"
proof -
  have "win_focused (demo_window (Some 10) (Some 30)) = Some ([10, 30] ! 1)" by (simp add: demo_window_def)
  with focus_cycles [OF demo_in_order(1), of 1, unfolded demo_in_order(2)] show ?thesis by (auto simp del: stops_simps)
qed

theorem windows_stay_in_order_witness:
  "\<exists>ps. window_ok ps (snd (gt_create_button \<lparr>new_widget = Some (10, demo_widget GT_WIDGET_LABEL None True), can_copy = True\<rparr>
    1 1 9 3 (Some ''OK'') None 0 (demo_window None None) Map.empty))"
proof (rule windows_stay_in_order [OF r_into_rtranclp])
  show "gui_step (demo_window None None, Map.empty) (snd (gt_create_button \<lparr>new_widget = Some (10, demo_widget GT_WIDGET_LABEL None True),
    can_copy = True\<rparr> 1 1 9 3 (Some ''OK'') None 0 (demo_window None None) Map.empty))"
    by (rule gui_step.button) (simp add: fresh_for_def)
  show "empty_window (demo_window None None)" by (simp add: empty_window_def demo_window_def)
qed

text \<open>A destroyed widget leaves the window with a pointer to freed memory: the next look at the list is undefined.\<close>

lemma destroyed_widget_dangles:
  assumes "win_widgets window = Some p" and "h p = Some w" and "w_type w = GT_WIDGET_LABEL" and "win_focused window = None"
  shows "\<exists>h'. gt_destroy_widget (Some p) h = Some h' \<and> gt_focus_next_widget (window, h') = None"
  using assms by (simp add: gt_destroy_widget_def gt_focus_next_widget_def next_of_focus_def first_interactive.simps)

section \<open>What a button looks like\<close>

text \<open>The character that is seen at a position: the last one that was put there.\<close>

definition shown_at :: "puts \<Rightarrow> int \<times> int \<Rightarrow> cell option" where
  "shown_at out p = map_of (rev out) p"

lemma shown_at_append [simp]: "shown_at (xs @ ys) p = (case shown_at ys p of Some c \<Rightarrow> Some c | None \<Rightarrow> shown_at xs p)"
  by (simp add: shown_at_def map_add_def split: option.split)

lemma shown_at_unique:
  assumes "(p, c) \<in> set out" and "\<And>c'. (p, c') \<in> set out \<Longrightarrow> c' = c"
  shows "shown_at out p = Some c"
proof -
  have "p \<in> fst ` set (rev out)" using assms(1) by force
  then obtain c' where "map_of (rev out) p = Some c'" by (metis map_of_eq_None_iff not_None_eq)
  then have "(p, c') \<in> set out" using map_of_SomeD by fastforce
  then show ?thesis using assms(2) \<open>map_of (rev out) p = Some c'\<close> by (simp add: shown_at_def)
qed

lemma shown_at_None: "p \<notin> fst ` set out \<Longrightarrow> shown_at out p = None"
  by (simp add: shown_at_def map_of_eq_None_iff)

text \<open>The picture of a button: its text in the middle of the middle line, on its frame.\<close>

definition text_start :: "gt_widget \<Rightarrow> string \<Rightarrow> int" where
  "text_start w t = (w_width w - int (length t)) div 2"

definition button_cell :: "gt_widget \<Rightarrow> int \<Rightarrow> int \<Rightarrow> cell" where
  "button_cell w x y =
     (let fg = (if w_focused w then GT_COLOR_YELLOW else GT_COLOR_WHITE);
          bg = (if w_focused w then GT_COLOR_BLUE else GT_COLOR_DEFAULT);
          frame = (button_frame w x y, fg, bg, GT_ATTR_NORMAL)
      in case w_text w of
           Some t \<Rightarrow> (if y = w_height w div 2 \<and> text_start w t \<le> x \<and> x < text_start w t + int (length t)
             then (t ! nat (x - text_start w t), fg, bg, if w_focused w then GT_ATTR_BOLD else GT_ATTR_NORMAL) else frame)
         | None \<Rightarrow> frame)"

definition in_window :: "int \<times> int \<Rightarrow> gt_window \<Rightarrow> bool" where
  "in_window tm window \<longleftrightarrow> win_visible window \<and> 0 \<le> win_x window \<and> win_x window + win_width window \<le> fst tm \<and>
     0 \<le> win_y window \<and> win_y window + win_height window \<le> snd tm"

lemma gt_char_inside:
  assumes "in_window tm window" and "0 \<le> x" and "x < win_width window" and "0 \<le> y" and "y < win_height window"
  shows "gt_draw_char tm window x y ch fg bg attr = [((win_x window + x, win_y window + y), (ch, fg, bg, attr))]"
  using assms by (simp add: gt_draw_char_def in_window_def Let_def)

lemma gt_string_inside:
  assumes "in_window tm window" and "0 \<le> x" and "x + int (length t) \<le> win_width window" and "0 \<le> y" and "y < win_height window"
  shows "gt_draw_string tm window x y t fg bg attr =
    map (\<lambda>i. ((win_x window + x + int i, win_y window + y), (t ! i, fg, bg, attr))) [0..<length t]"
  using assms
proof (induction t arbitrary: x)
  case (Cons c t)
  then show ?case using gt_char_inside [OF Cons.prems(1,2) _ Cons.prems(4,5)]
    by (simp add: map_upt_Suc ac_simps del: upt_Suc)
qed simp

text \<open>A rectangle filled cell by cell, and a text on one line.\<close>

lemma filled_shown:
  assumes "in_window tm window" and "0 \<le> wx" and "wx + width \<le> win_width window" and "0 \<le> wy" and "wy + height \<le> win_height window"
    and "0 \<le> x" and "x < width" and "0 \<le> y" and "y < height"
  shows "shown_at (concat (map (\<lambda>y. concat (map (\<lambda>x. gt_draw_char tm window (wx + x) (wy + y) (ch x y) fg bg attr) [0..width - 1])) [0..height - 1]))
    (win_x window + wx + x, win_y window + wy + y) = Some (ch x y, fg, bg, attr)" (is "shown_at ?out ?p = _")
proof (rule shown_at_unique)
  have cell: "gt_draw_char tm window (wx + a) (wy + b) c fg bg attr = [((win_x window + wx + a, win_y window + wy + b), (c, fg, bg, attr))]"
    if "a \<in> {0..width - 1}" "b \<in> {0..height - 1}" for a b c
    using gt_char_inside [OF assms(1), of "wx + a" "wy + b"] that assms(2-5) by (simp add: add.assoc)
  have mem: "(p, c) \<in> set ?out \<longleftrightarrow> (\<exists>b \<in> {0..height - 1}. \<exists>a \<in> {0..width - 1}.
      (p, c) = ((win_x window + wx + a, win_y window + wy + b), (ch a b, fg, bg, attr)))" for p c
    by (simp add: cell)
  show "(?p, (ch x y, fg, bg, attr)) \<in> set ?out" unfolding mem using assms(6-9) by auto
  show "c' = (ch x y, fg, bg, attr)" if "(?p, c') \<in> set ?out" for c' using that unfolding mem by auto
qed

lemma text_shown:
  assumes "in_window tm window" and "0 \<le> tx" and "tx + int (length t) \<le> win_width window" and "0 \<le> ty" and "ty < win_height window"
  shows "shown_at (gt_draw_string tm window tx ty t fg bg attr) (win_x window + x, win_y window + y) =
    (if y = ty \<and> tx \<le> x \<and> x < tx + int (length t) then Some (t ! nat (x - tx), fg, bg, attr) else None)"
proof (cases "y = ty \<and> tx \<le> x \<and> x < tx + int (length t)")
  case True
  have "shown_at (gt_draw_string tm window tx ty t fg bg attr) (win_x window + x, win_y window + y) = Some (t ! nat (x - tx), fg, bg, attr)"
    unfolding gt_string_inside [OF assms]
    by (rule shown_at_unique) (use True in \<open>auto simp: image_iff intro!: bexI [of _ "nat (x - tx)"]\<close>)
  with True show ?thesis by simp
next
  case False
  then have "shown_at (gt_draw_string tm window tx ty t fg bg attr) (win_x window + x, win_y window + y) = None"
    unfolding gt_string_inside [OF assms] by (intro shown_at_None) auto
  with False show ?thesis by simp
qed

lemma centred:
  assumes "int (length t) \<le> w_width w" and "0 < w_height w"
  shows "(w_width w - int (length t)) sdiv 2 = text_start w t" and "w_height w sdiv 2 = w_height w div 2"
    and "0 \<le> text_start w t" and "text_start w t + int (length t) \<le> w_width w" and "0 \<le> w_height w div 2" and "w_height w div 2 < w_height w"
proof -
  have "a sdiv 2 = a div 2" if "0 \<le> a" for a :: int using that by (cases "a = 0") (simp_all add: signed_divide_int_def sgn_if)
  then show "(w_width w - int (length t)) sdiv 2 = text_start w t" "w_height w sdiv 2 = w_height w div 2"
    using assms by (simp_all add: text_start_def)
qed (use assms in \<open>simp_all add: text_start_def\<close>)

text \<open>Each place of a button that is visible, in a window that is, has its part of the picture.\<close>

lemma button_seen:
  assumes "in_window tm window" and "w_type w = GT_WIDGET_BUTTON" and "w_visible w"
    and "0 \<le> w_x w" and "w_x w + w_width w \<le> win_width window" and "0 \<le> w_y w" and "w_y w + w_height w \<le> win_height window"
    and "case w_text w of None \<Rightarrow> True | Some t \<Rightarrow> int (length t) \<le> w_width w"
    and "0 \<le> x" and "x < w_width w" and "0 \<le> y" and "y < w_height w"
  shows "shown_at (gt_render_widget tm window w) (win_x window + w_x w + x, win_y window + w_y w + y) = Some (button_cell w x y)"
proof -
  define fg where "fg = (if w_focused w then GT_COLOR_YELLOW else GT_COLOR_WHITE)"
  define bg where "bg = (if w_focused w then GT_COLOR_BLUE else GT_COLOR_DEFAULT)"
  note frame = filled_shown [OF assms(1,4-7,9-12), of "button_frame w" fg bg GT_ATTR_NORMAL]
  show ?thesis
  proof (cases "w_text w")
    case None
    then show ?thesis using frame assms(2,3)
      by (simp add: gt_render_widget_def render_button_def button_cell_def Let_def fg_def bg_def)
  next
    case (Some t)
    have len: "int (length t) \<le> w_width w" using assms(8) Some by simp
    have "0 < w_height w" using assms(11,12) by simp
    note mid = centred [OF len this]
    have seen: "shown_at (gt_draw_string tm window (w_x w + text_start w t) (w_y w + w_height w div 2) t fg bg b)
        (win_x window + w_x w + x, win_y window + w_y w + y) =
      (if y = w_height w div 2 \<and> text_start w t \<le> x \<and> x < text_start w t + int (length t)
       then Some (t ! nat (x - text_start w t), fg, bg, b) else None)" for b
      using text_shown [OF assms(1), of "w_x w + text_start w t" t "w_y w + w_height w div 2" fg bg b "w_x w + x" "w_y w + y"]
        assms(4-7) mid(3-6) by (simp add: ac_simps)
    show ?thesis using frame seen assms(2,3) Some
      by (simp add: gt_render_widget_def render_button_def button_cell_def Let_def fg_def [symmetric] bg_def [symmetric] mid(1,2))
  qed
qed

text \<open>And it is all that is put: nothing outside the rectangle, and no characters but those of the frame and the text.\<close>

lemma put_char_where:
  assumes "((px, py), (c, l)) \<in> set (gt_draw_char tm window x y ch fg bg attr)"
  shows "px = win_x window + x" and "py = win_y window + y" and "c = ch" and "0 \<le> px" and "0 \<le> py"
  using assms by (auto simp: gt_draw_char_def Let_def split: if_splits)

lemma put_string_where:
  assumes "((px, py), (c, l)) \<in> set (gt_draw_string tm window x y t fg bg attr)"
  shows "win_x window + x \<le> px \<and> px < win_x window + x + int (length t) \<and> py = win_y window + y \<and> c \<in> set t \<and> 0 \<le> px \<and> 0 \<le> py"
  using assms
proof (induction t arbitrary: x)
  case (Cons ch t)
  from Cons.prems consider "((px, py), (c, l)) \<in> set (gt_draw_char tm window x y ch fg bg attr)"
    | "((px, py), (c, l)) \<in> set (gt_draw_string tm window (x + 1) y t fg bg attr)" by (auto split: if_splits)
  then show ?case
  proof cases
    case 1
    from put_char_where [OF this] show ?thesis by simp
  next
    case 2
    from Cons.IH [OF this] show ?thesis by simp
  qed
qed simp

definition in_rectangle :: "gt_window \<Rightarrow> gt_widget \<Rightarrow> int \<times> int \<Rightarrow> bool" where
  "in_rectangle window w p \<longleftrightarrow> win_x window + w_x w \<le> fst p \<and> fst p < win_x window + w_x w + w_width w \<and>
     win_y window + w_y w \<le> snd p \<and> snd p < win_y window + w_y w + w_height w"

lemma button_put_where:
  assumes put: "(p, (c, l)) \<in> set (render_button tm window w)"
    and fits: "case w_text w of None \<Rightarrow> True | Some t \<Rightarrow> int (length t) \<le> w_width w" and "0 < w_height w"
  shows "in_rectangle window w p \<and> 0 \<le> fst p \<and> 0 \<le> snd p \<and> (c \<in> set ''+-| '' \<or> (\<exists>t. w_text w = Some t \<and> c \<in> set t))"
proof -
  obtain px py where p: "p = (px, py)" by (cases p)
  define fg where "fg = (if w_focused w then GT_COLOR_YELLOW else GT_COLOR_WHITE)"
  define bg where "bg = (if w_focused w then GT_COLOR_BLUE else GT_COLOR_DEFAULT)"
  define b where "b = (if w_focused w then GT_ATTR_BOLD else GT_ATTR_NORMAL)"
  from put consider x y where "x \<in> {0..w_width w - 1}" "y \<in> {0..w_height w - 1}"
      "(p, (c, l)) \<in> set (gt_draw_char tm window (w_x w + x) (w_y w + y) (button_frame w x y) fg bg GT_ATTR_NORMAL)"
    | t where "w_text w = Some t"
      "(p, (c, l)) \<in> set (gt_draw_string tm window (w_x w + (w_width w - int (length t)) sdiv 2) (w_y w + w_height w sdiv 2) t fg bg b)"
    unfolding render_button_def Let_def fg_def [symmetric] bg_def [symmetric] b_def [symmetric] by (cases "w_text w") auto
  then show ?thesis
  proof cases
    case (1 x y)
    then have "c \<in> set ''+-| ''" using put_char_where(3) [OF 1(3) [unfolded p]] by (simp add: button_frame_def)
    moreover have "in_rectangle window w p \<and> 0 \<le> px \<and> 0 \<le> py" using 1(1,2) put_char_where [OF 1(3) [unfolded p]] by (simp add: in_rectangle_def p)
    ultimately show ?thesis by (simp add: p)
  next
    case (2 t)
    then have "int (length t) \<le> w_width w" using fits by simp
    note mid = centred [OF this assms(3)]
    show ?thesis using 2(1) put_string_where [OF 2(2) [unfolded p]] mid(3-6) unfolding mid(1,2) by (simp add: in_rectangle_def p)
  qed
qed

section \<open>The same functions in one file (gtlib.c)\<close>

text \<open>There the new window's focus and a new widget's mark are not set: they hold what the memory held.\<close>

definition gtlib_create_window :: "allocator \<Rightarrow> (bool \<times> ptr option) \<Rightarrow> int \<Rightarrow> int \<Rightarrow> int \<Rightarrow> int \<Rightarrow> string option \<Rightarrow> gt_window option" where
  "gtlib_create_window al mem x y width height title =
     (if \<not> fst mem then None
      else Some \<lparr>win_x = x, win_y = y, win_width = width, win_height = height, win_title = strdup al title,
        win_visible = False, win_widgets = None, win_focused = snd mem\<rparr>)"

definition gtlib_create_button :: "allocator \<Rightarrow> int \<Rightarrow> int \<Rightarrow> int \<Rightarrow> int \<Rightarrow> string option \<Rightarrow> nat option \<Rightarrow> nat \<Rightarrow>
    gt_window \<Rightarrow> widget_heap \<Rightarrow> ptr option \<times> gt_window \<times> widget_heap" where
  "gtlib_create_button al x y width height text callback user_data window h = (case new_widget al of
     None \<Rightarrow> (None, window, h)
   | Some (p, junk) \<Rightarrow> (Some p, window\<lparr>win_widgets := Some p\<rparr>,
       h(p \<mapsto> junk\<lparr>w_type := GT_WIDGET_BUTTON, w_x := x, w_y := y, w_width := width, w_height := height,
         w_text := strdup al text, w_visible := True, w_callback := callback, w_user_data := user_data,
         w_next := win_widgets window\<rparr>)))"

definition gtlib_create_label :: "allocator \<Rightarrow> int \<Rightarrow> int \<Rightarrow> string option \<Rightarrow> gt_color \<Rightarrow> gt_color \<Rightarrow> gt_attr \<Rightarrow>
    gt_window \<Rightarrow> widget_heap \<Rightarrow> ptr option \<times> gt_window \<times> widget_heap" where
  "gtlib_create_label al x y text fg bg attr window h = (case new_widget al of
     None \<Rightarrow> (None, window, h)
   | Some (p, junk) \<Rightarrow> (Some p, window\<lparr>win_widgets := Some p\<rparr>,
       h(p \<mapsto> junk\<lparr>w_type := GT_WIDGET_LABEL, w_x := x, w_y := y, w_text := strdup al text,
         w_fg := fg, w_bg := bg, w_attr := attr, w_visible := True, w_next := win_widgets window\<rparr>)))"

definition gtlib_create_textbox :: "allocator \<Rightarrow> int \<Rightarrow> int \<Rightarrow> int \<Rightarrow> int \<Rightarrow> string option \<Rightarrow>
    gt_window \<Rightarrow> widget_heap \<Rightarrow> ptr option \<times> gt_window \<times> widget_heap" where
  "gtlib_create_textbox al x y width height text window h = (case new_widget al of
     None \<Rightarrow> (None, window, h)
   | Some (p, junk) \<Rightarrow> (Some p, window\<lparr>win_widgets := Some p\<rparr>,
       h(p \<mapsto> junk\<lparr>w_type := GT_WIDGET_TEXTBOX, w_x := x, w_y := y, w_width := width, w_height := height,
         w_text := strdup al text, w_visible := True, w_next := win_widgets window\<rparr>)))"

text \<open>Destroying a window frees its widgets, each after its pointer to the next is read.\<close>

partial_function (option) destroy_from :: "ptr option \<Rightarrow> widget_heap \<Rightarrow> widget_heap option" where
  "destroy_from p h = (case p of
     None \<Rightarrow> Some h
   | Some a \<Rightarrow> (case h a of
       None \<Rightarrow> None
     | Some w \<Rightarrow> (case gt_destroy_widget p h of None \<Rightarrow> None | Some h \<Rightarrow> destroy_from (w_next w) h)))"

definition gtlib_destroy_window :: "gt_window option \<Rightarrow> widget_heap \<Rightarrow> widget_heap option" where
  "gtlib_destroy_window window h = (case window of None \<Rightarrow> Some h | Some win \<Rightarrow> destroy_from (win_widgets win) h)"

text \<open>Clearing stops at the right and the lower edge of the terminal.\<close>

definition gtlib_clear_window :: "int \<times> int \<Rightarrow> gt_window \<Rightarrow> puts" where
  "gtlib_clear_window tm window =
     (if \<not> win_visible window then []
      else concat (map (\<lambda>y. map (\<lambda>x. ((win_x window + x, y), (CHR '' '', GT_COLOR_DEFAULT, GT_COLOR_DEFAULT, GT_ATTR_NORMAL)))
        [0..min (win_width window) (fst tm - win_x window) - 1]) [win_y window..min (win_y window + win_height window) (snd tm) - 1]))"

definition gtlib_frame :: "int \<times> int \<Rightarrow> gt_window \<Rightarrow> gt_widget \<Rightarrow> puts" where
  "gtlib_frame tm window w =
     (let put = (\<lambda>x y ch. gt_draw_char tm window (w_x w + x) (w_y w + y) ch GT_COLOR_WHITE GT_COLOR_DEFAULT GT_ATTR_NORMAL)
      in concat (map (\<lambda>x. put x 0 (CHR ''-'') @ put x (w_height w - 1) (CHR ''-'')) [0..w_width w - 1]) @
         concat (map (\<lambda>y. put 0 y (CHR ''|'') @ put (w_width w - 1) y (CHR ''|'')) [1..w_height w - 2]))"

definition gtlib_draw_widget :: "int \<times> int \<Rightarrow> gt_window \<Rightarrow> gt_widget \<Rightarrow> puts" where
  "gtlib_draw_widget tm window w =
     (if \<not> w_visible w then []
      else (case w_type w of
          GT_WIDGET_LABEL \<Rightarrow> (case w_text w of None \<Rightarrow> []
            | Some t \<Rightarrow> gt_draw_string tm window (w_x w) (w_y w) t (w_fg w) (w_bg w) (w_attr w))
        | GT_WIDGET_BUTTON \<Rightarrow> gtlib_frame tm window w @ (case w_text w of None \<Rightarrow> []
            | Some t \<Rightarrow> gt_draw_string tm window (w_x w + (w_width w - int (length t)) sdiv 2) (w_y w + w_height w sdiv 2) t
                GT_COLOR_CYAN GT_COLOR_DEFAULT GT_ATTR_BOLD)
        | GT_WIDGET_TEXTBOX \<Rightarrow> gtlib_frame tm window w @ (case w_text w of None \<Rightarrow> []
            | Some t \<Rightarrow> gt_draw_string tm window (w_x w + 1) (w_y w + 1) t GT_COLOR_WHITE GT_COLOR_DEFAULT GT_ATTR_NORMAL)))"

partial_function (option) gtlib_refresh_from :: "int \<times> int \<Rightarrow> gt_window \<Rightarrow> widget_heap \<Rightarrow> ptr option \<Rightarrow> puts \<Rightarrow> puts option" where
  "gtlib_refresh_from tm window h p out = (case p of
     None \<Rightarrow> Some out
   | Some a \<Rightarrow> (case h a of
       None \<Rightarrow> None
     | Some w \<Rightarrow> gtlib_refresh_from tm window h (w_next w) (out @ gtlib_draw_widget tm window w)))"

definition gtlib_refresh_window :: "int \<times> int \<Rightarrow> gt_window \<times> widget_heap \<Rightarrow> puts option" where
  "gtlib_refresh_window tm wh = (case wh of (window, h) \<Rightarrow>
     if \<not> win_visible window then Some [] else gtlib_refresh_from tm window h (win_widgets window) [])"

text \<open>
  Of the two ways to destroy a window, the one in gtlib.c frees exactly its widgets, the one in window.c none of them.
\<close>

lemma destroy_frees_widgets:
  assumes "window_ok ps (window, h)"
  shows "gtlib_destroy_window (Some window) h = Some (h |` (- set ps))" and "gt_destroy_window (Some window) h = h"
proof -
  have "destroy_from p h = Some (h |` (- set ps))" if "links h p ps" "distinct ps" for p
    using that
  proof (induction ps arbitrary: p h)
    case Nil
    then show ?case by (simp add: destroy_from.simps)
  next
    case (Cons a ps)
    then obtain w where w: "p = Some a" "h a = Some w" "links h (w_next w) ps" by auto
    have "links (h(a := None)) (w_next w) ps"
      by (rule links_update [of h]) (use w Cons.prems in auto)
    then have "destroy_from (w_next w) (h(a := None)) = Some (h(a := None) |` (- set ps))"
      by (rule Cons.IH) (use Cons.prems in simp)
    moreover have "h(a := None) |` (- set ps) = h |` (- set (a # ps))" by (auto simp: restrict_map_def fun_eq_iff)
    ultimately show ?case using w by (subst destroy_from.simps) (simp add: gt_destroy_widget_def)
  qed
  then show "gtlib_destroy_window (Some window) h = Some (h |` (- set ps))"
    using assms by (simp add: gtlib_destroy_window_def window_ok_def)
qed (simp add: gt_destroy_window_def)

section \<open>The IPC of the library (ipc.c)\<close>

text \<open>The window manager's process, 0 for none; looking it up and sending are the library's (\<open>Eclib_Service\<close>), here given.\<close>

definition gt_ipc_connect_wm :: "u32 \<Rightarrow> int \<times> u32" where
  "gt_ipc_connect_wm found = (if found > 0 then 0 else -1, found)"

definition gt_ipc_disconnect_wm :: u32 where "gt_ipc_disconnect_wm = 0"

text \<open>The payload of a message: its type and the window in 4 bytes each, then the data.\<close>

definition gt_ipc_payload :: "u32 \<Rightarrow> u32 \<Rightarrow> u8 list \<Rightarrow> u8 list" where
  "gt_ipc_payload ty window_id bytes = le_enc 4 (unat ty) @ le_enc 4 (unat window_id) @ bytes"

definition gt_ipc_send_msg :: "bool \<Rightarrow> (u32 \<Rightarrow> u32 \<Rightarrow> u8 list \<Rightarrow> bool) \<Rightarrow> u32 \<Rightarrow> u32 \<Rightarrow> u32 \<Rightarrow> u8 list \<Rightarrow> int" where
  "gt_ipc_send_msg has_memory send wm ty window_id bytes =
     (if wm = 0 then -1
      else if \<not> has_memory then -1
      else if send wm ty (gt_ipc_payload ty window_id bytes) then 0 else -1)"

end
