(* ===== verification/Console.thy ===== *)
theory Console
  imports Prelude
begin

text \<open>
  Standard input of the programs that read it line by line with \<open>fgets\<close>: a string that is read up. Strings have no
  null characters inside. Also the numbers that \<open>printf\<close> writes.
\<close>

definition newline :: string where "newline = [CHR 0x0A]"

text \<open>\<open>fgets\<close> into a buffer of \<open>n\<close> characters: the rest of the line with its end, or as much as fits.\<close>

definition fgets :: "nat \<Rightarrow> string \<Rightarrow> (string \<times> string) option" where
  "fgets n input =
     (if input = [] then None
      else (let room = take (n - 1) input;
                m = length (takeWhile (\<lambda>c. c \<noteq> CHR 0x0A) room);
                k = (if m < length room then m + 1 else m)
            in Some (take k input, drop k input)))"

text \<open>A line without its end, in the two ways the programs remove it: at the end, and from the first one on.\<close>

definition chomp :: "string \<Rightarrow> string" where
  "chomp t = (if t \<noteq> [] \<and> last t = CHR 0x0A then butlast t else t)"

definition cut_line :: "string \<Rightarrow> string" where
  "cut_line t = takeWhile (\<lambda>c. c \<noteq> CHR 0x0A) t"

lemma fgets_shorter: "fgets n input = Some (line, rest) \<Longrightarrow> 2 \<le> n \<Longrightarrow> length rest < length input"
  by (cases input; cases "n - 1") (auto simp: fgets_def Let_def split: if_splits)

lemma fgets_end [simp]: "fgets n [] = None"
  by (simp add: fgets_def)

lemma fgets_line:
  assumes "CHR 0x0A \<notin> set t" and "length t + 1 < n"
  shows "fgets n (t @ newline @ rest) = Some (t @ newline, rest)"
proof -
  have "takeWhile (\<lambda>c. c \<noteq> CHR 0x0A) (t @ CHR 0x0A # cs) = t" for cs
    by (subst takeWhile_append2) (use assms(1) in auto)
  moreover have "take (n - 1) (t @ newline @ rest) = t @ CHR 0x0A # take (n - 2 - length t) rest"
    using assms(2) by (auto simp: newline_def take_Cons' numeral_2_eq_2)
  ultimately show ?thesis using assms(2) by (simp add: fgets_def Let_def newline_def)
qed

lemma chomp_line [simp]: "chomp (t @ newline) = t"
  by (simp add: chomp_def newline_def)

lemma cut_line_line: "CHR 0x0A \<notin> set t \<Longrightarrow> cut_line (t @ newline) = t"
  unfolding cut_line_def newline_def by (subst takeWhile_append2) auto

section \<open>Numbers\<close>

definition digit :: "nat \<Rightarrow> char" where
  "digit n = char_of (48 + n)"

fun decimal :: "nat \<Rightarrow> string" where
  "decimal n = (if n < 10 then [digit n] else decimal (n div 10) @ [digit (n mod 10)])"

declare decimal.simps [simp del]

text \<open>\<open>%d\<close>.\<close>

definition signed_decimal :: "int \<Rightarrow> string" where
  "signed_decimal i = (if i < 0 then CHR ''-'' # decimal (nat (- i)) else decimal (nat i))"

end
