(* ===== verification/Gtlib_Terminal.thy ===== *)
theory Gtlib_Terminal
  imports Gtlib Console
begin

text \<open>
  The bytes that gtlib/src writes to the terminal (terminal.c and its copy in gtlib.c), the start and the end of the library,
  and the cursor. A terminal that understands the sequences that are used is the specification: each character moves
  its state, so that what a drawing function of \<open>Gtlib\<close> puts is what is seen. Numbers of colours and attributes
  are those of ecomos-gtlib.h.
\<close>

section \<open>Bytes\<close>

definition csi :: "string \<Rightarrow> string" where
  "csi t = CHR 0x1B # ''['' @ t"

definition gt_set_cursor_position :: "int \<Rightarrow> int \<Rightarrow> string" where
  "gt_set_cursor_position x y = csi (signed_decimal (y + 1) @ '';'' @ signed_decimal (x + 1) @ ''H'')"

definition gt_set_cursor_visibility :: "bool \<Rightarrow> string" where
  "gt_set_cursor_visibility visible = (if visible then csi ''?25h'' else csi ''?25l'')"

primrec color_code :: "gt_color \<Rightarrow> nat" where
  "color_code GT_COLOR_BLACK = 0"
| "color_code GT_COLOR_RED = 1"
| "color_code GT_COLOR_GREEN = 2"
| "color_code GT_COLOR_YELLOW = 3"
| "color_code GT_COLOR_BLUE = 4"
| "color_code GT_COLOR_MAGENTA = 5"
| "color_code GT_COLOR_CYAN = 6"
| "color_code GT_COLOR_WHITE = 7"
| "color_code GT_COLOR_DEFAULT = 8"

definition look_bytes :: "gt_color \<Rightarrow> gt_color \<Rightarrow> gt_attr \<Rightarrow> string" where
  "look_bytes fg bg attr =
     (if bit attr 0 then csi ''1m'' else []) @ (if bit attr 1 then csi ''4m'' else []) @ (if bit attr 2 then csi ''7m'' else []) @
     (if fg \<noteq> GT_COLOR_DEFAULT then csi (''3'' @ decimal (color_code fg) @ ''m'') else []) @
     (if bg \<noteq> GT_COLOR_DEFAULT then csi (''4'' @ decimal (color_code bg) @ ''m'') else [])"

text \<open>What \<open>gt_draw_char\<close> writes for a character at its place in the terminal.\<close>

definition char_bytes :: "(int \<times> int) \<times> cell \<Rightarrow> string" where
  "char_bytes put = (case put of ((abs_x, abs_y), (ch, fg, bg, attr)) \<Rightarrow>
     gt_set_cursor_position abs_x abs_y @ look_bytes fg bg attr @ [ch] @ csi ''0m'')"

definition draw_bytes :: "puts \<Rightarrow> string" where
  "draw_bytes out = concat (map char_bytes out)"

definition clear_bytes :: "gt_window \<Rightarrow> string" where
  "clear_bytes window =
     (if \<not> win_visible window then []
      else concat (map (\<lambda>y. gt_set_cursor_position (win_x window) (win_y window + y) @ replicate (nat (win_width window)) (CHR '' ''))
        [0..win_height window - 1]))"

section \<open>Start and end\<close>

text \<open>
  The modes of a terminal are its bits \<open>c_lflag\<close>, of which \<open>cooked\<close> are those for echo and lines. \<open>win_size\<close> is what
  the terminal says of its size, if it does.
\<close>

record gt_session =
  gt_initialized :: bool
  orig_termios :: u32
  term_size :: "int \<times> int"
  tty :: u32
  written :: string

definition gt_init :: "u32 \<Rightarrow> (int \<times> int) option \<Rightarrow> gt_session \<Rightarrow> gt_session" where
  "gt_init cooked win_size s =
     s\<lparr>orig_termios := tty s, tty := tty s AND NOT cooked,
       term_size := (case win_size of Some ws \<Rightarrow> ws | None \<Rightarrow> term_size s),
       written := written s @ csi ''2J'' @ csi ''H'' @ csi ''?25l''\<rparr>"

definition gt_cleanup :: "gt_session \<Rightarrow> gt_session" where
  "gt_cleanup s = s\<lparr>written := written s @ csi ''2J'' @ csi ''H'' @ csi ''?25h'', tty := orig_termios s\<rparr>"

text \<open>The versions in gtlib.c know whether the library is started.\<close>

definition gtlib_init :: "u32 \<Rightarrow> (int \<times> int) option \<Rightarrow> gt_session \<Rightarrow> gt_session" where
  "gtlib_init cooked win_size s =
     (if gt_initialized s then s else (gt_init cooked win_size s)\<lparr>gt_initialized := True\<rparr>)"

definition gtlib_cleanup :: "gt_session \<Rightarrow> gt_session" where
  "gtlib_cleanup s = (if \<not> gt_initialized s then s else (gt_cleanup s)\<lparr>gt_initialized := False\<rparr>)"

section \<open>A terminal\<close>

text \<open>The colours, and whether it is bold, underlined, reversed.\<close>

type_synonym look = "gt_color \<times> gt_color \<times> bool \<times> bool \<times> bool"

definition plain :: look where
  "plain = (GT_COLOR_DEFAULT, GT_COLOR_DEFAULT, False, False, False)"

definition colors :: "gt_color list" where
  "colors = [GT_COLOR_BLACK, GT_COLOR_RED, GT_COLOR_GREEN, GT_COLOR_YELLOW, GT_COLOR_BLUE, GT_COLOR_MAGENTA, GT_COLOR_CYAN, GT_COLOR_WHITE]"

definition set_look :: "nat \<Rightarrow> look \<Rightarrow> look" where
  "set_look n l = (case l of (fg, bg, bold, lined, reverse) \<Rightarrow>
     if n = 0 then plain
     else if n = 1 then (fg, bg, True, lined, reverse)
     else if n = 4 then (fg, bg, bold, True, reverse)
     else if n = 7 then (fg, bg, bold, lined, True)
     else if 30 \<le> n \<and> n < 38 then (colors ! (n - 30), bg, bold, lined, reverse)
     else if 40 \<le> n \<and> n < 48 then (fg, colors ! (n - 40), bold, lined, reverse)
     else l)"

text \<open>
  Within a sequence, whether it is a private one, the numbers that are complete, and the one that is read. A sequence that
  is not used here leaves the terminal \<open>Lost\<close>: nothing is specified of it. Nor is it specified what
  is seen of a line beyond the right edge.
\<close>

datatype tmode = Ground | Escaped | Sequence bool "nat list" nat | Lost

record terminal =
  mode :: tmode
  cursor :: "int \<times> int"
  look_of :: look
  screen :: "int \<times> int \<Rightarrow> char \<times> look"
  cursor_shown :: bool

definition is_digit :: "char \<Rightarrow> bool" where
  "is_digit c \<longleftrightarrow> 48 \<le> (of_char c :: nat) \<and> (of_char c :: nat) < 58"

definition printable :: "char \<Rightarrow> bool" where
  "printable c \<longleftrightarrow> 32 \<le> (of_char c :: nat) \<and> (of_char c :: nat) < 127"

definition finish :: "bool \<Rightarrow> nat list \<Rightarrow> char \<Rightarrow> terminal \<Rightarrow> terminal" where
  "finish private ps c t =
     (let t = t\<lparr>mode := Ground\<rparr> in
      if private then
        (if ps = [25] \<and> c = CHR ''h'' then t\<lparr>cursor_shown := True\<rparr>
         else if ps = [25] \<and> c = CHR ''l'' then t\<lparr>cursor_shown := False\<rparr>
         else t\<lparr>mode := Lost\<rparr>)
      else if c = CHR ''H'' then
        (case ps of [row, col] \<Rightarrow> t\<lparr>cursor := (int col - 1, int row - 1)\<rparr> | _ \<Rightarrow> t\<lparr>cursor := (0, 0)\<rparr>)
      else if c = CHR ''m'' then t\<lparr>look_of := fold set_look ps (look_of t)\<rparr>
      else if c = CHR ''J'' \<and> ps = [2] then t\<lparr>screen := (\<lambda>_. (CHR '' '', plain))\<rparr>
      else t\<lparr>mode := Lost\<rparr>)"

definition feed :: "char \<Rightarrow> terminal \<Rightarrow> terminal" where
  "feed c t = (case mode t of
     Ground \<Rightarrow>
       (if c = CHR 0x1B then t\<lparr>mode := Escaped\<rparr>
        else if printable c then t\<lparr>screen := (screen t)(cursor t := (c, look_of t)), cursor := (fst (cursor t) + 1, snd (cursor t))\<rparr>
        else t\<lparr>mode := Lost\<rparr>)
   | Escaped \<Rightarrow> (if c = CHR ''['' then t\<lparr>mode := Sequence False [] 0\<rparr> else t\<lparr>mode := Lost\<rparr>)
   | Sequence private ps n \<Rightarrow>
       (if is_digit c then t\<lparr>mode := Sequence private ps (10 * n + of_char c - 48)\<rparr>
        else if c = CHR '';'' then t\<lparr>mode := Sequence private (ps @ [n]) 0\<rparr>
        else if c = CHR ''?'' then t\<lparr>mode := Sequence True ps n\<rparr>
        else finish private (ps @ [n]) c t)
   | Lost \<Rightarrow> t)"

abbreviation shows_text :: "string \<Rightarrow> terminal \<Rightarrow> terminal" where
  "shows_text \<equiv> fold feed"

section \<open>What the terminal makes of the bytes\<close>

abbreviation ground :: "terminal \<Rightarrow> terminal" where
  "ground t \<equiv> t\<lparr>mode := Ground\<rparr>"

lemma feed_escape: "shows_text (csi u) (ground t) = shows_text u (t\<lparr>mode := Sequence False [] 0\<rparr>)"
  by (simp add: csi_def feed_def)

lemma feed_digit: "n < 10 \<Longrightarrow> feed (digit n) (t\<lparr>mode := Sequence q ps m\<rparr>) = t\<lparr>mode := Sequence q ps (10 * m + n)\<rparr>"
  by (simp add: feed_def is_digit_def digit_def)

lemma feed_decimal: "shows_text (decimal n) (t\<lparr>mode := Sequence q ps 0\<rparr>) = t\<lparr>mode := Sequence q ps n\<rparr>"
proof (induction n rule: decimal.induct)
  case (1 n)
  show ?case
  proof (cases "n < 10")
    case False
    with 1 show ?thesis by (simp add: decimal.simps [of n] feed_digit)
  qed (simp add: decimal.simps [of n] feed_digit)
qed

lemma feed_semicolon: "feed (CHR '';'') (t\<lparr>mode := Sequence q ps n\<rparr>) = t\<lparr>mode := Sequence q (ps @ [n]) 0\<rparr>"
  by (simp add: feed_def is_digit_def)

lemma finish_mode [simp]: "finish q ps c (t\<lparr>mode := m\<rparr>) = finish q ps c t"
  by (simp add: finish_def)

lemma feed_final: "c \<in> {CHR ''H'', CHR ''m'', CHR ''J'', CHR ''h'', CHR ''l''} \<Longrightarrow>
    feed c (t\<lparr>mode := Sequence q ps n\<rparr>) = finish q (ps @ [n]) c t"
  by (elim insertE) (simp_all add: feed_def is_digit_def)

lemma cursor_moves:
  "0 \<le> x \<Longrightarrow> 0 \<le> y \<Longrightarrow> shows_text (gt_set_cursor_position x y) (ground t) = ground (t\<lparr>cursor := (x, y)\<rparr>)"
  by (simp add: gt_set_cursor_position_def feed_escape signed_decimal_def feed_decimal feed_semicolon feed_final finish_def)

lemma look_changes:
  "n < 10 \<Longrightarrow> shows_text (csi (decimal n @ ''m'')) (ground t) = ground (t\<lparr>look_of := set_look n (look_of t)\<rparr>)"
  by (simp add: feed_escape feed_decimal feed_final finish_def)

lemma one_digit: "decimal 0 = ''0''" "decimal 1 = ''1''" "decimal 4 = ''4''" "decimal 7 = ''7''"
  by (code_simp, code_simp, code_simp, code_simp)

lemma attribute_set:
  "shows_text (csi ''0m'') (ground t) = ground (t\<lparr>look_of := plain\<rparr>)"
  "shows_text (csi ''1m'') (ground t) = ground (t\<lparr>look_of := set_look 1 (look_of t)\<rparr>)"
  "shows_text (csi ''4m'') (ground t) = ground (t\<lparr>look_of := set_look 4 (look_of t)\<rparr>)"
  "shows_text (csi ''7m'') (ground t) = ground (t\<lparr>look_of := set_look 7 (look_of t)\<rparr>)"
  using look_changes [of 0 t] look_changes [of 1 t] look_changes [of 4 t] look_changes [of 7 t]
  by (simp_all add: one_digit set_look_def del: One_nat_def split: prod.splits)

lemma color_code_less: "color_code c < 10"
  by (cases c) simp_all

lemma color_set:
  "shows_text (csi (''3'' @ decimal (color_code c) @ ''m'')) (ground t) = ground (t\<lparr>look_of := set_look (30 + color_code c) (look_of t)\<rparr>)"
  "shows_text (csi (''4'' @ decimal (color_code c) @ ''m'')) (ground t) = ground (t\<lparr>look_of := set_look (40 + color_code c) (look_of t)\<rparr>)"
proof -
  have tens: "feed (CHR ''3'') (t\<lparr>mode := Sequence q ps 0\<rparr>) = t\<lparr>mode := Sequence q ps 3\<rparr>"
    "feed (CHR ''4'') (t\<lparr>mode := Sequence q ps 0\<rparr>) = t\<lparr>mode := Sequence q ps 4\<rparr>" for q ps
    by (simp_all add: feed_def is_digit_def)
  show "shows_text (csi (''3'' @ decimal (color_code c) @ ''m'')) (ground t) = ground (t\<lparr>look_of := set_look (30 + color_code c) (look_of t)\<rparr>)"
    "shows_text (csi (''4'' @ decimal (color_code c) @ ''m'')) (ground t) = ground (t\<lparr>look_of := set_look (40 + color_code c) (look_of t)\<rparr>)"
    by (simp_all add: feed_escape tens decimal.simps [of "color_code c"] color_code_less feed_digit feed_final finish_def)
qed

text \<open>The look that is asked for; blinking, dim and invisible are not shown.\<close>

definition wanted :: "gt_color \<times> gt_color \<times> gt_attr \<Rightarrow> look" where
  "wanted l = (case l of (fg, bg, attr) \<Rightarrow> (fg, bg, bit attr 0, bit attr 1, bit attr 2))"

lemma looks:
  "set_look 1 (fg, bg, b, u, r) = (fg, bg, True, u, r)"
  "set_look 4 (fg, bg, b, u, r) = (fg, bg, b, True, r)"
  "set_look 7 (fg, bg, b, u, r) = (fg, bg, b, u, True)"
  "c \<noteq> GT_COLOR_DEFAULT \<Longrightarrow> set_look (30 + color_code c) (fg, bg, b, u, r) = (c, bg, b, u, r)"
  "c \<noteq> GT_COLOR_DEFAULT \<Longrightarrow> set_look (40 + color_code c) (fg, bg, b, u, r) = (fg, c, b, u, r)"
  by (simp_all add: set_look_def) (cases c; simp add: colors_def)+

lemma look_part:
  "shows_text (if a then csi ''1m'' else []) (ground (t\<lparr>look_of := (fg, bg, False, u, r)\<rparr>)) = ground (t\<lparr>look_of := (fg, bg, a, u, r)\<rparr>)"
  "shows_text (if a then csi ''4m'' else []) (ground (t\<lparr>look_of := (fg, bg, b, False, r)\<rparr>)) = ground (t\<lparr>look_of := (fg, bg, b, a, r)\<rparr>)"
  "shows_text (if a then csi ''7m'' else []) (ground (t\<lparr>look_of := (fg, bg, b, u, False)\<rparr>)) = ground (t\<lparr>look_of := (fg, bg, b, u, a)\<rparr>)"
  "shows_text (if c \<noteq> GT_COLOR_DEFAULT then csi (''3'' @ decimal (color_code c) @ ''m'') else [])
     (ground (t\<lparr>look_of := (GT_COLOR_DEFAULT, bg, b, u, r)\<rparr>)) = ground (t\<lparr>look_of := (c, bg, b, u, r)\<rparr>)"
  "shows_text (if c \<noteq> GT_COLOR_DEFAULT then csi (''4'' @ decimal (color_code c) @ ''m'') else [])
     (ground (t\<lparr>look_of := (fg, GT_COLOR_DEFAULT, b, u, r)\<rparr>)) = ground (t\<lparr>look_of := (fg, c, b, u, r)\<rparr>)"
  by (simp_all only: if_distrib [of "\<lambda>text. shows_text text _"] attribute_set color_set looks terminal.simps fold_Nil id_apply, simp_all add: looks del: One_nat_def)

lemma look_set: "shows_text (look_bytes fg bg attr) (ground (t\<lparr>look_of := plain\<rparr>)) = ground (t\<lparr>look_of := wanted (fg, bg, attr)\<rparr>)"
  by (simp only: look_bytes_def fold_append comp_def look_part wanted_def plain_def prod.case)

lemma put_char: "printable c \<Longrightarrow> feed c (ground t) = ground (t\<lparr>screen := (screen t)(cursor t := (c, look_of t)), cursor := (fst (cursor t) + 1, snd (cursor t))\<rparr>)"
  by (auto simp: feed_def printable_def)

text \<open>A terminal between drawings.\<close>

abbreviation ready :: "int \<times> int \<Rightarrow> (int \<times> int \<Rightarrow> char \<times> look) \<Rightarrow> bool \<Rightarrow> terminal" where
  "ready p scr vis \<equiv> \<lparr>mode = Ground, cursor = p, look_of = plain, screen = scr, cursor_shown = vis\<rparr>"

lemma char_shown:
  assumes "0 \<le> x" and "0 \<le> y" and "printable c"
  shows "shows_text (char_bytes ((x, y), (c, fg, bg, attr))) (ready p scr vis) = ready (x + 1, y) (scr((x, y) := (c, wanted (fg, bg, attr)))) vis"
  using cursor_moves [OF assms(1,2), of "ready p scr vis"] look_set [of fg bg attr "ready (x, y) scr vis"]
    put_char [OF assms(3), of "(ready (x, y) scr vis)\<lparr>look_of := wanted (fg, bg, attr)\<rparr>"]
    attribute_set(1) [of "(ready (x + 1, y) (scr((x, y) := (c, wanted (fg, bg, attr)))) vis)\<lparr>look_of := wanted (fg, bg, attr)\<rparr>"]
  by (simp add: char_bytes_def)

text \<open>What is seen of a picture on a screen.\<close>

definition seen_on :: "(int \<times> int \<Rightarrow> char \<times> look) \<Rightarrow> puts \<Rightarrow> int \<times> int \<Rightarrow> char \<times> look" where
  "seen_on scr out p = (case shown_at out p of None \<Rightarrow> scr p | Some (c, l) \<Rightarrow> (c, wanted l))"

lemma seen_on_Nil [simp]: "seen_on scr [] = scr"
  by (simp add: seen_on_def shown_at_def fun_eq_iff)

lemma seen_on_Cons: "seen_on scr ((p, c, l) # out) = seen_on (scr(p := (c, wanted l))) out"
  by (auto simp: seen_on_def shown_at_def fun_eq_iff map_add_def split: option.split)

definition drawable :: "puts \<Rightarrow> bool" where
  "drawable out \<longleftrightarrow> (\<forall>((x, y), (c, l)) \<in> set out. 0 \<le> x \<and> 0 \<le> y \<and> printable c)"

lemma draw_bytes_shown:
  "drawable out \<Longrightarrow> \<exists>q. shows_text (draw_bytes out) (ready p scr vis) = ready q (seen_on scr out) vis"
proof (induction out arbitrary: p scr)
  case (Cons put out)
  obtain x y c fg bg attr where put: "put = ((x, y), (c, fg, bg, attr))" by (cases put) auto
  have ok: "0 \<le> x" "0 \<le> y" "printable c" "drawable out" using Cons.prems by (simp_all add: drawable_def put)
  from Cons.IH [OF ok(4), of "(x + 1, y)" "scr((x, y) := (c, wanted (fg, bg, attr)))"]
  show ?case by (simp only: draw_bytes_def put list.map concat.simps fold_append comp_def char_shown [OF ok(1-3)] seen_on_Cons)
qed (simp add: draw_bytes_def)

lemma screen_after:
  assumes "drawable out" and "mode t = Ground" and "look_of t = plain"
  shows "screen (shows_text (draw_bytes out) t) = seen_on (screen t) out"
proof (cases t)
  case (fields m p l scr vis)
  then show ?thesis using draw_bytes_shown [OF assms(1), of p scr vis] assms(2,3) by auto
qed





text \<open>The same for clearing a window that begins inside the terminal.\<close>

lemma seen_on_append: "seen_on scr (xs @ ys) = seen_on (seen_on scr xs) ys"
  by (auto simp: seen_on_def fun_eq_iff split: option.splits)

lemma blank_look: "wanted (GT_COLOR_DEFAULT, GT_COLOR_DEFAULT, GT_ATTR_NORMAL) = plain"
  by (simp add: wanted_def plain_def GT_ATTR_NORMAL_def)

lemma blanks_shown:
  "shows_text (replicate n (CHR '' '')) (ready (x, y) scr vis) =
    ready (x + int n, y) (seen_on scr (map (\<lambda>i. ((x + int i, y), (CHR '' '', GT_COLOR_DEFAULT, GT_COLOR_DEFAULT, GT_ATTR_NORMAL))) [0..<n])) vis"
proof (induction n arbitrary: x scr)
  case (Suc n)
  define scr' where "scr' = scr((x, y) := (CHR '' '', plain))"
  have "feed (CHR '' '') (ready (x, y) scr vis) = ready (x + 1, y) scr' vis"
    by (simp add: feed_def printable_def scr'_def)
  then show ?case using Suc.IH [of "x + 1" scr']
    by (simp add: map_upt_Suc seen_on_Cons blank_look scr'_def [symmetric] ac_simps del: upt_Suc)
qed simp

lemma upto_upt: "[0..w - 1] = map int [0..<nat w]"
  by (rule nth_equalityI) simp_all

lemma clear_bytes_shown:
  assumes "0 \<le> win_x window" and "0 \<le> win_y window"
  shows "\<exists>q. shows_text (clear_bytes window) (ready p scr vis) = ready q (seen_on scr (gt_clear_window window)) vis"
proof -
  let ?row = "\<lambda>y. map (\<lambda>x. ((win_x window + x, win_y window + y), (CHR '' '', GT_COLOR_DEFAULT, GT_COLOR_DEFAULT, GT_ATTR_NORMAL))) [0..win_width window - 1]"
  let ?bytes = "\<lambda>y. gt_set_cursor_position (win_x window) (win_y window + y) @ replicate (nat (win_width window)) (CHR '' '')"
  have "\<exists>q. shows_text (concat (map ?bytes ys)) (ready p scr vis) = ready q (seen_on scr (concat (map ?row ys))) vis"
    if "\<forall>y \<in> set ys. 0 \<le> y" for ys p scr
    using that
  proof (induction ys arbitrary: p scr)
    case (Cons y ys)
    have "shows_text (?bytes y) (ready p scr vis) = ready (win_x window + int (nat (win_width window)), win_y window + y) (seen_on scr (?row y)) vis"
      using cursor_moves [of "win_x window" "win_y window + y" "ready p scr vis"] assms Cons.prems
        blanks_shown [of "nat (win_width window)" "win_x window" "win_y window + y" scr vis] by (simp add: upto_upt comp_def)
    moreover obtain q where "shows_text (concat (map ?bytes ys)) (ready (win_x window + int (nat (win_width window)), win_y window + y) (seen_on scr (?row y)) vis) =
        ready q (seen_on (seen_on scr (?row y)) (concat (map ?row ys))) vis" using Cons by fastforce
    ultimately show ?case by (simp only: list.map concat.simps fold_append comp_def seen_on_append) blast
  qed simp
  from this [of "[0..win_height window - 1]" p scr] show ?thesis by (simp add: clear_bytes_def gt_clear_window_def)
qed

text \<open>The start of the library clears the screen and hides the cursor, and the end clears it and shows the cursor again.\<close>

lemma start_and_end_clear:
  "shows_text (csi ''2J'' @ csi ''H'' @ gt_set_cursor_visibility visible) (ready p scr vis) = ready (0, 0) (\<lambda>_. (CHR '' '', plain)) visible"
proof -
  have open_seq: "shows_text (csi u) (ready q s v) = shows_text u \<lparr>mode = Sequence False [] 0, cursor = q, look_of = plain, screen = s, cursor_shown = v\<rparr>"
    for u q s v using feed_escape [of u "ready q s v"] by simp
  have "shows_text (csi ''2J'') (ready q s v) = ready q (\<lambda>_. (CHR '' '', plain)) v"
    "shows_text (csi ''H'') (ready q s v) = ready (0, 0) s v"
    "shows_text (gt_set_cursor_visibility visible) (ready q s v) = ready q s visible" for q s v
    by (simp_all add: open_seq gt_set_cursor_visibility_def) (simp_all add: feed_def is_digit_def finish_def)
  then show ?thesis by simp
qed

section \<open>The modes of the terminal come back\<close>

datatype gt_call = Init "(int \<times> int) option" | Cleanup

primrec gtlib_call :: "u32 \<Rightarrow> gt_call \<Rightarrow> gt_session \<Rightarrow> gt_session" where
  "gtlib_call cooked (Init win_size) = gtlib_init cooked win_size"
| "gtlib_call cooked Cleanup = gtlib_cleanup"

text \<open>With gtlib.c the modes are the old ones whenever the library is not started, whatever calls came before.\<close>

lemma gtlib_restores:
  assumes "\<not> gt_initialized s"
  shows "tty (fold (gtlib_call cooked) calls s) =
    (if gt_initialized (fold (gtlib_call cooked) calls s) then tty s AND NOT cooked else tty s)"
proof -
  define good where "good r \<longleftrightarrow> (if gt_initialized r then orig_termios r = tty s \<and> tty r = tty s AND NOT cooked else tty r = tty s)" for r :: gt_session
  have "good (fold (gtlib_call cooked) calls r)" if "good r" for r :: gt_session
    using that
  proof (induction calls arbitrary: r)
    case (Cons call calls)
    have "good (gtlib_call cooked call r)"
      using Cons.prems by (cases call) (auto simp: good_def gtlib_init_def gtlib_cleanup_def gt_init_def gt_cleanup_def)
    then show ?case using Cons.IH by simp
  qed simp
  then have "good (fold (gtlib_call cooked) calls s)" using assms by (simp add: good_def)
  then show ?thesis by (simp add: good_def split: if_splits)
qed

text \<open>With terminal.c a second start forgets them.\<close>

lemma second_init_forgets: "tty (gt_cleanup (gt_init cooked ws (gt_init cooked ws s))) = tty s AND NOT cooked"
  by (simp add: gt_cleanup_def gt_init_def)

end
