(* ===== verification/Ebts_Shell.thy ===== *)
theory Ebts_Shell
  imports Console "HOL-Library.Sublist"
begin

text \<open>
  The shell ebts, ebts/src: users (shell/user.c), the tree of objects (shell/object.c), commands (shell/command.c,
  shell/commandbox.c) and the loop of the shell (shell/shell.c, main.c). Standard input is a string that is read up,
  output a string that grows. What \<open>system\<close> returns and which address \<open>malloc\<close> gives are parameters, and so is the
  execution of a pipe, whose code (shell/prompt.c) is not C.
  \<open>None\<close> stands for undefined behaviour and for a loop that never ends.
\<close>

section \<open>Data (config.h, user.h, object.h, command.h, shell.h)\<close>

datatype error_code = EC_SUCCESS | EC_ERROR | EC_INVALID_COMMAND | EC_OBJECT_NOT_FOUND | EC_NOT_A_FOLDER |
  EC_NOT_A_FILE | EC_INVALID_PATH | EC_MEMORY_ERROR

datatype object_type = OBJ_TYPE_FILE | OBJ_TYPE_FOLDER

definition MAX_INPUT_LENGTH :: nat where "MAX_INPUT_LENGTH = 1024"
definition MAX_OBJECT_NAME :: nat where "MAX_OBJECT_NAME = 256"
definition MAX_CHILDREN :: nat where "MAX_CHILDREN = 50"
definition MAX_USERS :: nat where "MAX_USERS = 10"
definition MAX_USERNAME :: nat where "MAX_USERNAME = 32"
definition MAX_COMMANDS :: nat where "MAX_COMMANDS = 250"

record user =
  username :: string
  password :: string
  is_active :: bool

text \<open>An array with its count is the list of its used elements.\<close>

record ebts_object =
  o_name :: string
  o_type :: object_type
  o_parent :: "nat option"
  o_children :: "nat list"

datatype handler = Cmd_whoami | Cmd_users | Cmd_switch | Cmd_adduser | Cmd_lookup

record command_entry =
  command_name :: string
  command_function :: handler
  command_describe :: string
  command_help :: string

record ebts =
  users :: "user list"
  current_user_index :: int
  command_registry :: "command_entry list"
  objects :: "nat \<rightharpoonup> ebts_object"
  root_object :: "nat option"
  current_object :: "nat option"
  hostname :: string
  sh_running :: bool
  sh_input :: string
  sh_output :: string

text \<open>The surroundings: whether the program is built for E-comOS, the address of a new object, the result of a command of the system, and of a pipe.\<close>

record surroundings =
  ecomos_build :: bool
  new_object :: "(nat \<rightharpoonup> ebts_object) \<Rightarrow> nat option"
  sys :: "string \<Rightarrow> int"
  execute_pipe :: "ebts \<Rightarrow> string \<Rightarrow> error_code \<times> ebts"

definition say :: "string \<Rightarrow> ebts \<Rightarrow> ebts" where
  "say t s = s\<lparr>sh_output := sh_output s @ t\<rparr>"

section \<open>Users (user.c)\<close>

definition user_add :: "string \<Rightarrow> string \<Rightarrow> ebts \<Rightarrow> error_code \<times> ebts" where
  "user_add name pass s =
     (if length (users s) \<ge> MAX_USERS then (EC_ERROR, s)
      else (EC_SUCCESS, s\<lparr>users := users s @
        [\<lparr>username = take (MAX_USERNAME - 1) name, password = take 63 pass, is_active = True\<rparr>]\<rparr>))"

definition user_system_init :: "ebts \<Rightarrow> ebts" where
  "user_system_init s =
     (let s = s\<lparr>users := [], current_user_index := -1\<rparr>;
          s = snd (user_add ''user'' ''password'' s);
          s = snd (user_add ''admin'' ''admin123'' s)
      in snd (user_add ''guest'' [] s))"

definition user_create :: "string \<Rightarrow> string \<Rightarrow> ebts \<Rightarrow> error_code \<times> ebts" where
  "user_create name pass s =
     (if \<exists>u \<in> set (users s). username u = name then (EC_ERROR, s) else user_add name pass s)"

definition find_user :: "string \<Rightarrow> ebts \<Rightarrow> nat option" where
  "find_user name s = scan (\<lambda>i. username (users s ! i) = name) 0 (length (users s))"

definition user_switch :: "string \<Rightarrow> ebts \<Rightarrow> error_code \<times> ebts" where
  "user_switch name s = (case find_user name s of
     Some i \<Rightarrow> (EC_SUCCESS, s\<lparr>current_user_index := int i\<rparr>)
   | None \<Rightarrow> (EC_ERROR, s))"

definition user_get_current :: "ebts \<Rightarrow> string" where
  "user_get_current s =
     (if 0 \<le> current_user_index s \<and> current_user_index s < int (length (users s))
      then username (users s ! nat (current_user_index s)) else ''unknown'')"

definition user_line :: "ebts \<Rightarrow> nat \<Rightarrow> string" where
  "user_line s i = ''  '' @ username (users s ! i) @ (if int i = current_user_index s then '' (current)'' else []) @ newline"

definition user_list_all :: "ebts \<Rightarrow> ebts" where
  "user_list_all s = say (''Available users:'' @ newline @ concat (map (user_line s) [0..<length (users s)])) s"

definition comma_names :: "user list \<Rightarrow> string" where
  "comma_names us = concat (map (\<lambda>i. username (us ! i) @ (if int i < int (length us) - 1 then '', '' else [])) [0..<length us])"

text \<open>The login loop: at the end of the input \<open>fgets\<close> fails again and again.\<close>

function login_loop :: "ebts \<Rightarrow> ebts option" where
  "login_loop s =
     (if current_user_index s \<noteq> -1 then Some s
      else (let s = say ''Login as: '' s in
        (case fgets MAX_USERNAME (sh_input s) of
           None \<Rightarrow> None
         | Some (line, rest) \<Rightarrow>
             (let s = s\<lparr>sh_input := rest\<rparr>; name = chomp line in
              (case user_switch name s of (code, s) \<Rightarrow>
                (if code = EC_SUCCESS then Some (say (''Welcome, '' @ name @ ''!'' @ newline) s)
                 else login_loop (say (''User '' @ [CHR 0x27] @ name @ [CHR 0x27] @ '' not found. Try again.'' @ newline) s)))))))"
  by auto

lemma say_simps [simp]: "users (say t s) = users s" "current_user_index (say t s) = current_user_index s"
  "command_registry (say t s) = command_registry s" "objects (say t s) = objects s" "root_object (say t s) = root_object s"
  "current_object (say t s) = current_object s" "sh_running (say t s) = sh_running s" "sh_input (say t s) = sh_input s"
  "sh_output (say t s) = sh_output s @ t"
  by (simp_all add: say_def)

lemma user_switch_input [simp]: "user_switch name s = (code, s') \<Longrightarrow> sh_input s' = sh_input s"
  by (auto simp: user_switch_def split: option.splits)

termination login_loop
  by (relation "measure (\<lambda>s. length (sh_input s))")
    (auto simp: MAX_USERNAME_def dest!: fgets_shorter dest: sym [THEN user_switch_input])

definition user_prompt_login :: "ebts \<Rightarrow> ebts option" where
  "user_prompt_login s = login_loop (say (''Available users: '' @ comma_names (users s) @ newline) s)"

section \<open>Objects (object.c)\<close>

definition object_create :: "surroundings \<Rightarrow> string \<Rightarrow> object_type \<Rightarrow> ebts \<Rightarrow> nat option \<times> ebts" where
  "object_create env name ty s = (case new_object env (objects s) of
     None \<Rightarrow> (None, s)
   | Some p \<Rightarrow> (Some p, s\<lparr>objects := (objects s)(p \<mapsto>
       \<lparr>o_name = take (MAX_OBJECT_NAME - 1) name, o_type = ty, o_parent = None, o_children = []\<rparr>)\<rparr>))"

text \<open>The search over the children; \<open>None\<close> when one of them is not an object.\<close>

fun find_child :: "(nat \<rightharpoonup> ebts_object) \<Rightarrow> string \<Rightarrow> nat list \<Rightarrow> nat option option" where
  "find_child h name [] = Some None"
| "find_child h name (c # cs) = (case h c of
     None \<Rightarrow> None
   | Some ob \<Rightarrow> (if o_name ob = name then Some (Some c) else find_child h name cs))"

definition object_find :: "nat option \<Rightarrow> string \<Rightarrow> ebts \<Rightarrow> nat option option" where
  "object_find parent name s = (case parent of
     None \<Rightarrow> Some None
   | Some p \<Rightarrow> (case objects s p of
       None \<Rightarrow> None
     | Some ob \<Rightarrow> (if o_type ob \<noteq> OBJ_TYPE_FOLDER then Some None else find_child (objects s) name (o_children ob))))"

definition object_add_child :: "nat option \<Rightarrow> nat option \<Rightarrow> ebts \<Rightarrow> ebts option" where
  "object_add_child parent child s = (case (parent, child) of
     (Some p, Some c) \<Rightarrow> (case objects s p of
         None \<Rightarrow> None
       | Some ob \<Rightarrow>
           (if o_type ob \<noteq> OBJ_TYPE_FOLDER \<or> length (o_children ob) \<ge> MAX_CHILDREN then Some s
            else (case objects s c of
                None \<Rightarrow> None
              | Some _ \<Rightarrow>
                  (let h = (objects s)(p \<mapsto> ob\<lparr>o_children := o_children ob @ [c]\<rparr>)
                   in Some (s\<lparr>objects := h(c \<mapsto> (the (h c))\<lparr>o_parent := Some p\<rparr>)\<rparr>)))))
   | _ \<Rightarrow> Some s)"

definition object_get_commandbox :: "ebts \<Rightarrow> nat option option" where
  "object_get_commandbox s = object_find (root_object s) ''commandbox'' s"

definition object_system_init :: "surroundings \<Rightarrow> ebts \<Rightarrow> ebts option" where
  "object_system_init env s = (case object_create env ''root'' OBJ_TYPE_FOLDER s of (root, s) \<Rightarrow>
     (case object_create env ''commandbox'' OBJ_TYPE_FOLDER (s\<lparr>root_object := root\<rparr>) of (box, s) \<Rightarrow>
       object_add_child (root_object s) box s))"

section \<open>Commands (command.c)\<close>

definition command_system_init :: "ebts \<Rightarrow> ebts" where
  "command_system_init s = say (''Command system initialized'' @ newline) (s\<lparr>command_registry := []\<rparr>)"

definition command_register :: "string \<Rightarrow> handler \<Rightarrow> string \<Rightarrow> string \<Rightarrow> ebts \<Rightarrow> int \<times> ebts" where
  "command_register name f describe help s =
     (if length (command_registry s) \<ge> MAX_COMMANDS then
        (-1, say (''Cannot register command '' @ [CHR 0x27] @ name @ [CHR 0x27] @ '': registry full'' @ newline) s)
      else (0, s\<lparr>command_registry := command_registry s @
        [\<lparr>command_name = take 49 name, command_function = f, command_describe = take 69 describe, command_help = take 104 help\<rparr>]\<rparr>))"

definition cmd_whoami :: "ebts \<Rightarrow> error_code \<times> ebts" where
  "cmd_whoami s = (EC_SUCCESS, say (user_get_current s @ newline) s)"

definition cmd_users :: "ebts \<Rightarrow> error_code \<times> ebts" where
  "cmd_users s = (EC_SUCCESS, user_list_all s)"

definition cmd_switch :: "string list \<Rightarrow> ebts \<Rightarrow> error_code \<times> ebts" where
  "cmd_switch argv s =
     (if length argv < 2 then (EC_ERROR, say (''Usage: switch <username>'' @ newline) s)
      else (case user_switch (argv ! 1) s of (code, s) \<Rightarrow>
        (if code = EC_SUCCESS then (EC_SUCCESS, say (''Switched to user: '' @ argv ! 1 @ newline) s)
         else (EC_ERROR, say (''User '' @ [CHR 0x27] @ argv ! 1 @ [CHR 0x27] @ '' not found'' @ newline) s))))"

definition cmd_adduser :: "string list \<Rightarrow> ebts \<Rightarrow> error_code \<times> ebts" where
  "cmd_adduser argv s =
     (if length argv < 2 then (EC_ERROR, say (''Usage: adduser <username> [password]'' @ newline) s)
      else (case user_create (argv ! 1) (if length argv > 2 then argv ! 2 else []) s of (code, s) \<Rightarrow>
        (if code = EC_SUCCESS then (EC_SUCCESS, say (''User '' @ [CHR 0x27] @ argv ! 1 @ [CHR 0x27] @ '' created successfully'' @ newline) s)
         else (EC_ERROR, say (''Failed to create user '' @ [CHR 0x27] @ argv ! 1 @ [CHR 0x27] @
           '' (user may already exist or max users reached)'' @ newline) s))))"

fun child_lines :: "(nat \<rightharpoonup> ebts_object) \<Rightarrow> nat list \<Rightarrow> string option" where
  "child_lines h [] = Some []"
| "child_lines h (c # cs) = (case (h c, child_lines h cs) of
     (Some ob, Some t) \<Rightarrow> Some (''  '' @ o_name ob @ '' ('' @
       (if o_type ob = OBJ_TYPE_FOLDER then ''FolderObject'' else ''FileObject'') @ '')'' @ newline @ t)
   | _ \<Rightarrow> None)"

definition list_object :: "nat option \<Rightarrow> ebts \<Rightarrow> (error_code \<times> ebts) option" where
  "list_object target s = (case target of
     None \<Rightarrow> None
   | Some p \<Rightarrow> (case objects s p of
       None \<Rightarrow> None
     | Some ob \<Rightarrow>
         (if o_type ob \<noteq> OBJ_TYPE_FOLDER
          then Some (EC_ERROR, say ([CHR 0x27] @ o_name ob @ [CHR 0x27] @ '' is a FileObject, not a FolderObject'' @ newline) s)
          else (case child_lines (objects s) (o_children ob) of
              None \<Rightarrow> None
            | Some t \<Rightarrow> Some (EC_SUCCESS, say (''Contents of '' @ o_name ob @ '':'' @ newline @ t) s)))))"

definition cmd_lookup :: "string list \<Rightarrow> ebts \<Rightarrow> (error_code \<times> ebts) option" where
  "cmd_lookup argv s =
     (if length argv > 1 \<and> argv ! 1 \<noteq> ''.'' then
        (case object_find (current_object s) (argv ! 1) s of
           None \<Rightarrow> None
         | Some None \<Rightarrow> Some (EC_ERROR, say (''Object '' @ [CHR 0x27] @ argv ! 1 @ [CHR 0x27] @ '' not found'' @ newline) s)
         | Some (Some p) \<Rightarrow> list_object (Some p) s)
      else list_object (current_object s) s)"

definition run_handler :: "handler \<Rightarrow> string list \<Rightarrow> ebts \<Rightarrow> (error_code \<times> ebts) option" where
  "run_handler f argv s = (case f of
     Cmd_whoami \<Rightarrow> Some (cmd_whoami s)
   | Cmd_users \<Rightarrow> Some (cmd_users s)
   | Cmd_switch \<Rightarrow> Some (cmd_switch argv s)
   | Cmd_adduser \<Rightarrow> Some (cmd_adduser argv s)
   | Cmd_lookup \<Rightarrow> cmd_lookup argv s)"

section \<open>External commands (commandbox.c)\<close>

definition COMMANDBOX_PATH :: "bool \<Rightarrow> string" where
  "COMMANDBOX_PATH on_ecomos = (if on_ecomos then ''/system/commandbox/bin/commands'' else ''/Users/ddd/ebts/commandbox/bin/commands'')"

text \<open>
  \<open>strtok\<close> by blanks gives the name, and then the rest behind the blank after it, if there is any. A line of blanks has no
  name: a null pointer is printed.
\<close>

definition commandbox_execute_external :: "surroundings \<Rightarrow> string \<Rightarrow> error_code option" where
  "commandbox_execute_external env cmd_line =
     (let t = dropWhile (\<lambda>c. c = CHR '' '') cmd_line;
          name = takeWhile (\<lambda>c. c \<noteq> CHR '' '') t;
          args = drop (length name + 1) t
      in if name = [] then None
         else Some (if sys env (take 511 (COMMANDBOX_PATH (ecomos_build env) @ ''/'' @ name @ (if args = [] then [] else '' '' @ args))) = 0
           then EC_SUCCESS else EC_ERROR))"

definition external_commands :: "string list" where
  "external_commands = [''lookup'', ''saw'', ''del'', ''copy'', ''goto'', ''info-of'', ''output'']"

fun add_commands :: "surroundings \<Rightarrow> nat \<Rightarrow> string list \<Rightarrow> ebts \<Rightarrow> ebts option" where
  "add_commands env box [] s = Some s"
| "add_commands env box (n # ns) s = (case object_create env n OBJ_TYPE_FILE s of (child, s) \<Rightarrow>
     (case object_add_child (Some box) child s of None \<Rightarrow> None | Some s \<Rightarrow> add_commands env box ns s))"

definition commandbox_load_commands :: "surroundings \<Rightarrow> ebts \<Rightarrow> (error_code \<times> ebts) option" where
  "commandbox_load_commands env s =
     (let s = snd (command_register ''whoami'' Cmd_whoami ''Show current user'' ''Usage: whoami'' s);
          s = snd (command_register ''users'' Cmd_users ''List all users'' ''Usage: users'' s);
          s = snd (command_register ''adduser'' Cmd_adduser ''Create new user'' ''Usage: adduser <username> [password]'' s)
      in case object_get_commandbox s of
           None \<Rightarrow> None
         | Some None \<Rightarrow> Some (EC_SUCCESS, s)
         | Some (Some box) \<Rightarrow>
             map_option (Pair EC_SUCCESS) (add_commands env box ([''whoami'', ''users'', ''switch'', ''adduser''] @ external_commands) s))"

definition commandbox_init :: "surroundings \<Rightarrow> ebts \<Rightarrow> ebts option" where
  "commandbox_init env s = map_option snd (commandbox_load_commands env (say (''CommandBox library loaded'' @ newline) s))"

section \<open>The shell (command.c, shell.c, main.c)\<close>

definition find_command :: "string \<Rightarrow> ebts \<Rightarrow> handler option" where
  "find_command input s = map_option command_function (List.find (\<lambda>e. command_name e = input) (command_registry s))"

definition command_execute :: "surroundings \<Rightarrow> string \<Rightarrow> ebts \<Rightarrow> (error_code \<times> ebts) option" where
  "command_execute env input s =
     (if sublist '' -> '' input then Some (execute_pipe env s input)
      else (case find_command input s of
        Some f \<Rightarrow> run_handler f [input] s
      | None \<Rightarrow>
          (if prefix ''switch '' input then Some (cmd_switch [''switch'', drop 7 input] s)
           else if prefix ''adduser '' input then Some (cmd_adduser [''adduser'', drop 8 input] s)
           else if prefix ''lookup '' input then cmd_lookup [''lookup'', drop 7 input] s
           else map_option (\<lambda>code. (code, s)) (commandbox_execute_external env input))))"

definition shell_print_prompt :: "ebts \<Rightarrow> ebts option" where
  "shell_print_prompt s =
     (case (case current_object s of None \<Rightarrow> Some ''unknown'' | Some p \<Rightarrow> map_option o_name (objects s p)) of
        None \<Rightarrow> None
      | Some dir \<Rightarrow> Some (say (''['' @ hostname s @ '':'' @ user_get_current s @ ''] '' @ dir @ '' > '') s))"

definition shell_set_hostname :: "string \<Rightarrow> ebts \<Rightarrow> ebts" where
  "shell_set_hostname name s = s\<lparr>hostname := take 63 name\<rparr>"

definition shell_init :: "surroundings \<Rightarrow> ebts \<Rightarrow> ebts option" where
  "shell_init env s =
     (let s = user_system_init (s\<lparr>hostname := ''computer'', sh_running := True\<rparr>) in
      case user_prompt_login s of
        None \<Rightarrow> None
      | Some s \<Rightarrow> (case object_system_init env (command_system_init s) of
          None \<Rightarrow> None
        | Some s \<Rightarrow> (case commandbox_init env s of
            None \<Rightarrow> None
          | Some s \<Rightarrow> Some (s\<lparr>current_object := root_object s\<rparr>))))"

text \<open>One turn of the loop; \<open>has_memory\<close> is the answer of \<open>malloc\<close> for the line.\<close>

definition shell_turn :: "surroundings \<Rightarrow> bool \<Rightarrow> ebts \<Rightarrow> ebts option" where
  "shell_turn env has_memory s = (case shell_print_prompt s of
     None \<Rightarrow> None
   | Some s \<Rightarrow>
       (case (if has_memory then fgets MAX_INPUT_LENGTH (sh_input s) else None) of
          None \<Rightarrow> Some (s\<lparr>sh_running := False\<rparr>)
        | Some (line, rest) \<Rightarrow>
            (let s = s\<lparr>sh_input := rest\<rparr>; input = chomp line in
             if input = [] then Some s
             else if input = ''exit'' then Some (s\<lparr>sh_running := False\<rparr>)
             else map_option snd (command_execute env input s))))"

text \<open>The loop, with memory for every line: without it a turn ends the loop as the end of the input does.\<close>

partial_function (option) shell_run :: "surroundings \<Rightarrow> ebts \<Rightarrow> ebts option" where
  "shell_run env s =
     (if \<not> sh_running s then Some s
      else (case shell_turn env True s of None \<Rightarrow> None | Some s \<Rightarrow> shell_run env s))"

text \<open>\<open>timestr\<close> is the time of the login.\<close>

definition ebts_main :: "surroundings \<Rightarrow> string \<Rightarrow> ebts \<Rightarrow> ebts option" where
  "ebts_main env timestr s =
     (let s = say (''Welcome to ebts version 1.'' @ newline @ ''Last log in is on '' @ timestr @ newline) s in
      case shell_init env s of
        None \<Rightarrow> None
      | Some s \<Rightarrow> map_option (\<lambda>s. s\<lparr>command_registry := []\<rparr>) (shell_run env s))"

section \<open>What a session is\<close>

text \<open>
  The specification: a list of names and the one who is logged in; the requests of a session change them, and each
  has its text.
\<close>

datatype request = Whoami | Users | Switch string | Adduser string

definition quoted :: "string \<Rightarrow> string" where "quoted t = [CHR 0x27] @ t @ [CHR 0x27]"

fun line_of :: "request \<Rightarrow> string" where
  "line_of Whoami = ''whoami''"
| "line_of Users = ''users''"
| "line_of (Switch u) = ''switch '' @ u"
| "line_of (Adduser u) = ''adduser '' @ u"

fun session_step :: "request \<Rightarrow> string list \<times> string \<Rightarrow> string list \<times> string" where
  "session_step (Switch u) (names, cur) = (names, if u \<in> set names then u else cur)"
| "session_step (Adduser u) (names, cur) = (if u \<in> set names \<or> length names \<ge> 10 then names else names @ [u], cur)"
| "session_step _ nc = nc"

fun session_text :: "request \<Rightarrow> string list \<times> string \<Rightarrow> string" where
  "session_text Whoami (names, cur) = cur @ newline"
| "session_text Users (names, cur) = ''Available users:'' @ newline @
     concat (map (\<lambda>n. ''  '' @ n @ (if n = cur then '' (current)'' else []) @ newline) names)"
| "session_text (Switch u) (names, cur) = (if u \<in> set names then ''Switched to user: '' @ u @ newline
     else ''User '' @ quoted u @ '' not found'' @ newline)"
| "session_text (Adduser u) (names, cur) = (if u \<in> set names \<or> length names \<ge> 10
     then ''Failed to create user '' @ quoted u @ '' (user may already exist or max users reached)'' @ newline
     else ''User '' @ quoted u @ '' created successfully'' @ newline)"

definition prompt_text :: "string \<Rightarrow> string \<Rightarrow> string \<Rightarrow> string" where
  "prompt_text host dir cur = ''['' @ host @ '':'' @ cur @ ''] '' @ dir @ '' > ''"

fun session :: "string \<Rightarrow> string \<Rightarrow> request list \<Rightarrow> string list \<times> string \<Rightarrow> string" where
  "session host dir [] nc = prompt_text host dir (snd nc)"
| "session host dir (r # rs) nc =
     prompt_text host dir (snd nc) @ session_text r nc @ session host dir rs (session_step r nc)"

text \<open>Names that the shell can keep: shorter than its field, on one line, and not looking like a pipe.\<close>

definition good_name :: "string \<Rightarrow> bool" where
  "good_name u \<longleftrightarrow> length u < MAX_USERNAME \<and> CHR 0x0A \<notin> set u \<and> \<not> sublist '' -> '' ('' '' @ u)"

fun good_request :: "request \<Rightarrow> bool" where
  "good_request (Switch u) = good_name u"
| "good_request (Adduser u) = good_name u"
| "good_request _ = True"

definition shell_ready :: "string \<Rightarrow> string list \<times> string \<Rightarrow> ebts \<Rightarrow> bool" where
  "shell_ready dir nc s \<longleftrightarrow> sh_running s \<and> map username (users s) = fst nc \<and> distinct (fst nc) \<and>
     0 \<le> current_user_index s \<and> current_user_index s < int (length (users s)) \<and>
     username (users s ! nat (current_user_index s)) = snd nc \<and>
     (\<exists>p ob. current_object s = Some p \<and> objects s p = Some ob \<and> o_name ob = dir) \<and>
     map (\<lambda>e. (command_name e, command_function e)) (command_registry s) =
       [(''whoami'', Cmd_whoami), (''users'', Cmd_users), (''adduser'', Cmd_adduser)]"

text \<open>A turn of the shell on a request is a step of the specification.\<close>

lemma find_user_some:
  assumes "u \<in> set (map username (users s))"
  obtains i where "find_user u s = Some i" and "i < length (users s)" and "username (users s ! i) = u"
proof -
  obtain j where "j < length (users s)" "username (users s ! j) = u" using assms by (auto simp: in_set_conv_nth)
  then obtain i where "find_user u s = Some i" 
    using scan_exists [of 0 j "length (users s)" "\<lambda>i. username (users s ! i) = u"] by (auto simp: find_user_def)
  with scan_SomeD [OF this [unfolded find_user_def]] show ?thesis by (intro that) auto
qed

lemma find_user_none: "u \<notin> set (map username (users s)) \<Longrightarrow> find_user u s = None"
  by (auto simp: find_user_def scan_None_iff)

lemma find_command_map: "find_command input s = map_of (map (\<lambda>e. (command_name e, command_function e)) (command_registry s)) input"
proof -
  have "map_option command_function (List.find (\<lambda>e. command_name e = input) es) =
      map_of (map (\<lambda>e. (command_name e, command_function e)) es) input" for es
    by (induction es) auto
  then show ?thesis by (simp add: find_command_def)
qed

lemma find_command_ready:
  "shell_ready dir nc s \<Longrightarrow> find_command input s =
    (if input = ''whoami'' then Some Cmd_whoami else if input = ''users'' then Some Cmd_users
     else if input = ''adduser'' then Some Cmd_adduser else None)"
  by (auto simp: find_command_map shell_ready_def)

lemma no_pipe_in_line: "good_request r \<Longrightarrow> \<not> sublist '' -> '' (line_of r)"
  by (cases r) (auto simp: good_name_def sublist_Cons_right)

lemma user_lines:
  assumes "shell_ready dir (names, cur) s"
  shows "concat (map (user_line s) [0..<length (users s)]) = concat (map (\<lambda>n. ''  '' @ n @ (if n = cur then '' (current)'' else []) @ newline) names)"
proof -
  have names: "names = map username (users s)" using assms by (simp add: shell_ready_def)
  define k where "k = nat (current_user_index s)"
  have k: "current_user_index s = int k" "k < length names" "cur = names ! k" "distinct names" "length names = length (users s)"
    using assms by (auto simp: shell_ready_def names k_def)
  have "user_line s i = ''  '' @ names ! i @ (if names ! i = cur then '' (current)'' else []) @ newline" if i: "i < length (users s)" for i
  proof -
    have "(names ! i = cur) = (i = k)" using nth_eq_iff_index_eq [OF k(4)] k(2,3,5) i by simp
    then show ?thesis using i k(1) by (simp add: user_line_def names)
  qed
  then have "map (user_line s) [0..<length (users s)] =
      map (\<lambda>n. ''  '' @ n @ (if n = cur then '' (current)'' else []) @ newline) names"
    by (intro nth_equalityI) (simp_all add: names)
  then show ?thesis by simp
qed

lemma hostname_say: "hostname (say t s) = hostname s"
  by (simp add: say_def)

lemma ready_say [simp]: "shell_ready dir nc (say t s) = shell_ready dir nc s"
  by (simp add: shell_ready_def)

definition same_line :: "ebts \<Rightarrow> ebts \<Rightarrow> bool" where
  "same_line s s' \<longleftrightarrow> sh_input s' = sh_input s \<and> hostname s' = hostname s"

lemma switch_step:
  assumes ready: "shell_ready dir (names, cur) s"
  shows "\<exists>code s'. cmd_switch [''switch'', u] s = (code, s') \<and> shell_ready dir (session_step (Switch u) (names, cur)) s' \<and>
    sh_output s' = sh_output s @ session_text (Switch u) (names, cur) \<and> same_line s s'"
proof (cases "u \<in> set names")
  case True
  then have "u \<in> set (map username (users s))" using ready by (simp add: shell_ready_def)
  then obtain i where "find_user u s = Some i" "i < length (users s)" "username (users s ! i) = u"
    using find_user_some by blast
  then show ?thesis using ready True by (simp add: cmd_switch_def user_switch_def shell_ready_def same_line_def hostname_say)
next
  case False
  then have "u \<notin> set (map username (users s))" using ready by (simp add: shell_ready_def)
  then have "find_user u s = None" by (rule find_user_none)
  then show ?thesis using ready False
    by (simp add: cmd_switch_def user_switch_def same_line_def quoted_def hostname_say)
qed

lemma adduser_step:
  assumes ready: "shell_ready dir (names, cur) s" and "good_name u"
  shows "\<exists>code s'. cmd_adduser [''adduser'', u] s = (code, s') \<and> shell_ready dir (session_step (Adduser u) (names, cur)) s' \<and>
    sh_output s' = sh_output s @ session_text (Adduser u) (names, cur) \<and> same_line s s'"
proof -
  have names: "names = map username (users s)" using ready by (simp add: shell_ready_def)
  then have known: "(\<exists>x \<in> set (users s). username x = u) = (u \<in> set names)" by auto
  have "take (MAX_USERNAME - 1) u = u" using assms(2) by (simp add: good_name_def MAX_USERNAME_def)
  then show ?thesis using ready names known
    by (cases "u \<in> set names \<or> length names \<ge> 10")
      (auto simp: cmd_adduser_def user_create_def user_add_def MAX_USERS_def shell_ready_def same_line_def quoted_def
        hostname_say nth_append)
qed

lemma execute_step:
  assumes ready: "shell_ready dir nc s" and good: "good_request r"
  shows "\<exists>code s'. command_execute env (line_of r) s = Some (code, s') \<and> shell_ready dir (session_step r nc) s' \<and>
    sh_output s' = sh_output s @ session_text r nc \<and> same_line s s'"
proof -
  obtain names cur where nc: "nc = (names, cur)" by (cases nc)
  note run = command_execute_def no_pipe_in_line [OF good] find_command_ready [OF ready] run_handler_def
  show ?thesis
  proof (cases r)
    case Whoami
    have "user_get_current s = cur" using ready by (simp add: user_get_current_def shell_ready_def nc)
    then show ?thesis using run ready by (simp add: Whoami cmd_whoami_def same_line_def hostname_say nc)
  next
    case Users
    then show ?thesis using run ready user_lines [OF ready [unfolded nc]]
      by (simp add: cmd_users_def user_list_all_def same_line_def hostname_say nc)
  next
    case (Switch u)
    then show ?thesis using run switch_step [OF ready [unfolded nc], of u] by (simp add: nc)
  next
    case (Adduser u)
    then show ?thesis using run adduser_step [OF ready [unfolded nc], of u] good by (simp add: nc)
  qed
qed

lemma line_fits: "good_request r \<Longrightarrow> CHR 0x0A \<notin> set (line_of r) \<and> length (line_of r) + 1 < MAX_INPUT_LENGTH \<and>
    line_of r \<noteq> [] \<and> line_of r \<noteq> ''exit''"
  by (cases r) (auto simp: good_name_def MAX_INPUT_LENGTH_def MAX_USERNAME_def)

lemma turn_step:
  assumes ready: "shell_ready dir nc s" and good: "good_request r" and input: "sh_input s = line_of r @ newline @ rest"
  shows "\<exists>s'. shell_turn env True s = Some s' \<and> shell_ready dir (session_step r nc) s' \<and> sh_input s' = rest \<and>
    hostname s' = hostname s \<and> sh_output s' = sh_output s @ prompt_text (hostname s) dir (snd nc) @ session_text r nc"
proof -
  let ?prompt = "prompt_text (hostname s) dir (snd nc)"
  define s1 where "s1 = (say ?prompt s)\<lparr>sh_input := rest\<rparr>"
  have prompt: "shell_print_prompt s = Some (say ?prompt s)"
    using ready by (auto simp: shell_print_prompt_def shell_ready_def user_get_current_def prompt_text_def)
  have "shell_ready dir nc s1" using ready by (simp add: s1_def shell_ready_def)
  from execute_step [OF this good, of env] obtain code s' where exec: "command_execute env (line_of r) s1 = Some (code, s')"
    "shell_ready dir (session_step r nc) s'" "sh_output s' = sh_output s1 @ session_text r nc" "same_line s1 s'" by blast
  have line: "fgets MAX_INPUT_LENGTH (sh_input (say ?prompt s)) = Some (line_of r @ newline, rest)"
    using line_fits [OF good] by (simp add: input fgets_line)
  have "shell_turn env True s = Some s'"
    using prompt line line_fits [OF good] exec(1) by (simp add: shell_turn_def Let_def s1_def)
  then show ?thesis using exec(2-4) by (simp add: s1_def same_line_def hostname_say)
qed

lemma end_of_session:
  assumes ready: "shell_ready dir nc s" and "sh_input s = []"
  shows "\<exists>s'. shell_run env s = Some s' \<and> sh_output s' = sh_output s @ prompt_text (hostname s) dir (snd nc)"
proof -
  have prompt: "shell_print_prompt s = Some (say (prompt_text (hostname s) dir (snd nc)) s)"
    using ready by (auto simp: shell_print_prompt_def shell_ready_def user_get_current_def prompt_text_def)
  have "sh_running s" using ready by (simp add: shell_ready_def)
  then show ?thesis using prompt assms(2)
    by (simp add: shell_run.simps [of env s] shell_run.simps [of env "_\<lparr>sh_running := False\<rparr>"] shell_turn_def fgets_def)
qed

lemma shell_refines_session:
  assumes "shell_ready dir nc s" and "list_all good_request rs" and "sh_input s = concat (map (\<lambda>r. line_of r @ newline) rs)"
  shows "\<exists>s'. shell_run env s = Some s' \<and> sh_output s' = sh_output s @ session (hostname s) dir rs nc"
  using assms
proof (induction rs arbitrary: s nc)
  case Nil
  then show ?case using end_of_session [of dir nc s env] by simp
next
  case (Cons r rs)
  then obtain s1 where turn: "shell_turn env True s = Some s1" "shell_ready dir (session_step r nc) s1"
    "sh_input s1 = concat (map (\<lambda>r. line_of r @ newline) rs)" "hostname s1 = hostname s"
    "sh_output s1 = sh_output s @ prompt_text (hostname s) dir (snd nc) @ session_text r nc"
    using turn_step [of dir nc s r _ env] by auto
  have "sh_running s" using Cons.prems(1) by (simp add: shell_ready_def)
  moreover obtain s' where "shell_run env s1 = Some s'" "sh_output s' = sh_output s1 @ session (hostname s1) dir rs (session_step r nc)"
    using Cons.IH [OF turn(2) _ turn(3)] Cons.prems(2) by auto
  ultimately show ?case using turn by (simp add: shell_run.simps [of env s])
qed

text \<open>
  A name that is longer than the field for it is cut when it is stored and not when it is compared: the same user
  is created again and again, and can never be logged in by that name.
\<close>

theorem long_names_duplicate:
  assumes "32 \<le> length name" and "length (users s) + 2 \<le> 10" and "\<forall>u \<in> set (users s). length (username u) < 32"
  shows "\<exists>s1 s2. user_create name pass s = (EC_SUCCESS, s1) \<and> user_create name pass s1 = (EC_SUCCESS, s2) \<and>
    \<not> distinct (map username (users s2)) \<and> user_switch name s2 = (EC_ERROR, s2)"
proof -
  have cut: "take 31 name \<noteq> name" using arg_cong [of "take 31 name" name length] assms(1) by auto
  then have no: "\<forall>u \<in> set (users s). username u \<noteq> name" "take 31 name \<noteq> name" "name \<noteq> take 31 name"
    using assms(1,3) by (auto dest: sym)
  define u where "u = \<lparr>username = take 31 name, password = take 63 pass, is_active = True\<rparr>"
  define s1 where "s1 = s\<lparr>users := users s @ [u]\<rparr>"
  define s2 where "s2 = s1\<lparr>users := users s1 @ [u]\<rparr>"
  have "user_create name pass s = (EC_SUCCESS, s1)"
    using no assms(2) by (auto simp: user_create_def user_add_def MAX_USERS_def MAX_USERNAME_def s1_def u_def)
  moreover have "user_create name pass s1 = (EC_SUCCESS, s2)"
    using no assms(2) by (auto simp: user_create_def user_add_def MAX_USERS_def MAX_USERNAME_def s1_def s2_def u_def)
  moreover have "find_user name s2 = None" by (rule find_user_none) (use no in \<open>auto simp: s1_def s2_def u_def\<close>)
  then have "user_switch name s2 = (EC_ERROR, s2)" by (simp add: user_switch_def)
  moreover have "\<not> distinct (map username (users s2))" by (simp add: s1_def s2_def)
  ultimately show ?thesis by blast
qed

section \<open>From the start\<close>

text \<open>
  The start of the shell, for a first line that is one of the three names it knows and memory for its objects: the
  named user is current and the objects are there.
\<close>

definition fresh_objects :: "surroundings \<Rightarrow> bool" where
  "fresh_objects env \<longleftrightarrow> (\<forall>h. finite (dom h) \<longrightarrow> (\<exists>p. new_object env h = Some p \<and> h p = None))"

definition first_users :: "string list" where
  "first_users = [''user'', ''admin'', ''guest'']"

text \<open>Creating an object and adding it to a folder keeps the objects that were there.\<close>

definition keeps :: "ebts \<Rightarrow> ebts \<Rightarrow> bool" where
  "keeps s s' \<longleftrightarrow> (\<exists>h. s' = s\<lparr>objects := h\<rparr> \<and> (finite (dom (objects s)) \<longrightarrow> finite (dom h)) \<and>
     (\<forall>p ob. objects s p = Some ob \<longrightarrow> (\<exists>ob'. h p = Some ob' \<and> o_name ob' = o_name ob \<and> o_type ob' = o_type ob)))"

lemma keeps_refl: "keeps s s" and keeps_trans: "keeps s s1 \<Longrightarrow> keeps s1 s2 \<Longrightarrow> keeps s s2"
proof -
  show "keeps s s" unfolding keeps_def by (rule exI [of _ "objects s"]) simp
  assume "keeps s s1" "keeps s1 s2"
  then show "keeps s s2" unfolding keeps_def by clarsimp metis
qed

lemma keeps_objects:
  "(finite (dom (objects s)) \<Longrightarrow> finite (dom h)) \<Longrightarrow>
    (\<And>p ob. objects s p = Some ob \<Longrightarrow> \<exists>ob'. h p = Some ob' \<and> o_name ob' = o_name ob \<and> o_type ob' = o_type ob) \<Longrightarrow>
    keeps s (s\<lparr>objects := h\<rparr>)"
  unfolding keeps_def by (rule exI [of _ h]) blast

lemma keeps_finite: "keeps s s' \<Longrightarrow> finite (dom (objects s)) \<Longrightarrow> finite (dom (objects s'))"
  and keeps_some: "keeps s s' \<Longrightarrow> objects s p = Some ob \<Longrightarrow> \<exists>ob'. objects s' p = Some ob' \<and> o_name ob' = o_name ob"
  unfolding keeps_def by (auto, blast+)

definition new_of :: "string \<Rightarrow> object_type \<Rightarrow> ebts_object" where
  "new_of name ty = \<lparr>o_name = take (MAX_OBJECT_NAME - 1) name, o_type = ty, o_parent = None, o_children = []\<rparr>"

lemma create_keeps:
  assumes "fresh_objects env" and "finite (dom (objects s))"
  shows "\<exists>p. objects s p = None \<and> object_create env name ty s = (Some p, s\<lparr>objects := (objects s)(p \<mapsto> new_of name ty)\<rparr>) \<and>
    keeps s (s\<lparr>objects := (objects s)(p \<mapsto> new_of name ty)\<rparr>)"
proof -
  obtain p where "new_object env (objects s) = Some p" "objects s p = None"
    using assms unfolding fresh_objects_def by blast
  then show ?thesis by (intro exI [of _ p]) (auto simp: object_create_def new_of_def intro!: keeps_objects)
qed

lemma add_child_keeps:
  assumes "objects s p = Some ob" and "objects s c = Some oc"
  shows "\<exists>s'. object_add_child (Some p) (Some c) s = Some s' \<and> keeps s s'"
  using assms by (auto simp: object_add_child_def Let_def keeps_refl intro!: keeps_objects)

lemma add_commands_keep:
  assumes "fresh_objects env"
  shows "objects s box = Some ob \<Longrightarrow> finite (dom (objects s)) \<Longrightarrow>
    \<exists>s'. add_commands env box ns s = Some s' \<and> keeps s s'"
proof (induction ns arbitrary: s ob)
  case Nil
  then show ?case by (simp add: keeps_refl)
next
  case (Cons n ns)
  obtain p where p: "object_create env n OBJ_TYPE_FILE s = (Some p, s\<lparr>objects := (objects s)(p \<mapsto> new_of n OBJ_TYPE_FILE)\<rparr>)"
      "keeps s (s\<lparr>objects := (objects s)(p \<mapsto> new_of n OBJ_TYPE_FILE)\<rparr>)"
    using create_keeps [OF assms Cons.prems(2), of n OBJ_TYPE_FILE] by blast
  define s1 where "s1 = s\<lparr>objects := (objects s)(p \<mapsto> new_of n OBJ_TYPE_FILE)\<rparr>"
  have create: "object_create env n OBJ_TYPE_FILE s = (Some p, s1)" "keeps s s1" "\<exists>oc. objects s1 p = Some oc"
    using p by (simp_all add: s1_def)
  obtain ob1 where ob1: "objects s1 box = Some ob1" using keeps_some [OF create(2) Cons.prems(1)] by blast
  obtain s2 where add: "object_add_child (Some box) (Some p) s1 = Some s2" "keeps s1 s2"
    using add_child_keeps [OF ob1] create(3) by blast
  obtain ob2 where ob2: "objects s2 box = Some ob2" using keeps_some [OF add(2) ob1] by blast
  have two: "keeps s s2" by (rule keeps_trans [OF create(2) add(2)])
  obtain s3 where rest: "add_commands env box ns s2 = Some s3" "keeps s2 s3"
    using Cons.IH [OF ob2 keeps_finite [OF two Cons.prems(2)]] by blast
  have "add_commands env box (n # ns) s = Some s3" using create(1) add(1) rest(1) by simp
  moreover have "keeps s s3" by (rule keeps_trans [OF two rest(2)])
  ultimately show ?case by blast
qed

lemma object_system_ready:
  assumes "fresh_objects env" and "finite (dom (objects s))"
  shows "\<exists>r h ob box bo. object_system_init env s = Some (s\<lparr>objects := h, root_object := Some r\<rparr>) \<and> h r = Some ob \<and> o_name ob = ''root'' \<and>
    object_get_commandbox (s\<lparr>objects := h, root_object := Some r\<rparr>) = Some (Some box) \<and> h box = Some bo \<and> finite (dom h)"
proof -
  obtain r where root: "object_create env ''root'' OBJ_TYPE_FOLDER s = (Some r, s\<lparr>objects := (objects s)(r \<mapsto> new_of ''root'' OBJ_TYPE_FOLDER)\<rparr>)"
    using create_keeps [OF assms, of "''root''" OBJ_TYPE_FOLDER] by blast
  define s1 where "s1 = s\<lparr>objects := (objects s)(r \<mapsto> new_of ''root'' OBJ_TYPE_FOLDER), root_object := Some r\<rparr>"
  have "finite (dom (objects s1))" using assms(2) by (simp add: s1_def)
  then obtain b where box: "objects s1 b = None" "object_create env ''commandbox'' OBJ_TYPE_FOLDER s1 =
      (Some b, s1\<lparr>objects := (objects s1)(b \<mapsto> new_of ''commandbox'' OBJ_TYPE_FOLDER)\<rparr>)"
    using create_keeps [OF assms(1), of s1 "''commandbox''" OBJ_TYPE_FOLDER] by blast
  have "r \<noteq> b" using box(1) by (auto simp: s1_def)
  define h where "h = (objects s)(r \<mapsto> (new_of ''root'' OBJ_TYPE_FOLDER)\<lparr>o_children := [b]\<rparr>,
      b \<mapsto> (new_of ''commandbox'' OBJ_TYPE_FOLDER)\<lparr>o_parent := Some r\<rparr>)"
  have "object_system_init env s = Some (s\<lparr>objects := h, root_object := Some r\<rparr>)"
    using root box(2) \<open>r \<noteq> b\<close> by (simp add: object_system_init_def object_add_child_def s1_def Let_def MAX_CHILDREN_def new_of_def h_def)
  moreover have "object_get_commandbox (s\<lparr>objects := h, root_object := Some r\<rparr>) = Some (Some b)"
    using \<open>r \<noteq> b\<close> by (simp add: object_get_commandbox_def object_find_def h_def new_of_def MAX_OBJECT_NAME_def)
  moreover have "finite (dom h)" using assms(2) by (simp add: h_def)
  ultimately show ?thesis using \<open>r \<noteq> b\<close>
    by (intro exI [of _ r] exI [of _ h] exI [of _ "the (h r)"] exI [of _ b] exI [of _ "the (h b)"])
      (simp add: h_def new_of_def MAX_OBJECT_NAME_def)
qed

lemma commandbox_ready:
  assumes "fresh_objects env" and "object_get_commandbox s = Some (Some box)" and "objects s box = Some bo"
    and "command_registry s = []" and "finite (dom (objects s))"
  shows "\<exists>h t es. commandbox_init env s = Some (s\<lparr>sh_output := sh_output s @ t, command_registry := es, objects := h\<rparr>) \<and>
    map (\<lambda>e. (command_name e, command_function e)) es = [(''whoami'', Cmd_whoami), (''users'', Cmd_users), (''adduser'', Cmd_adduser)] \<and>
    (\<forall>p ob. objects s p = Some ob \<longrightarrow> (\<exists>ob'. h p = Some ob' \<and> o_name ob' = o_name ob))"
proof -
  define s1 where "s1 = say (''CommandBox library loaded'' @ newline) s"
  define es where "es = [\<lparr>command_name = ''whoami'', command_function = Cmd_whoami, command_describe = ''Show current user'', command_help = ''Usage: whoami''\<rparr>,
    \<lparr>command_name = ''users'', command_function = Cmd_users, command_describe = ''List all users'', command_help = ''Usage: users''\<rparr>,
    \<lparr>command_name = ''adduser'', command_function = Cmd_adduser, command_describe = ''Create new user'', command_help = ''Usage: adduser <username> [password]''\<rparr>]"
  define s2 where "s2 = s1\<lparr>command_registry := es\<rparr>"
  have same: "objects s2 = objects s" "root_object s2 = root_object s" by (simp_all add: s2_def s1_def)
  have box: "object_get_commandbox s2 = Some (Some box)"
    using assms(2) by (simp only: object_get_commandbox_def object_find_def same)
  obtain s3 where s3: "add_commands env box ([''whoami'', ''users'', ''switch'', ''adduser''] @ external_commands) s2 = Some s3" "keeps s2 s3"
    using add_commands_keep [OF assms(1), of s2 box bo "[''whoami'', ''users'', ''switch'', ''adduser''] @ external_commands"] assms(3,5)
    by (auto simp: same simp del: add_commands.simps append.simps)
  have load: "commandbox_load_commands env s1 = Some (EC_SUCCESS, s3)"
    using s3(1) box assms(4)
    by (simp add: commandbox_load_commands_def command_register_def MAX_COMMANDS_def s2_def s1_def es_def Let_def del: add_commands.simps)
  obtain h where h: "s3 = s2\<lparr>objects := h\<rparr>" "\<forall>p ob. objects s2 p = Some ob \<longrightarrow> (\<exists>ob'. h p = Some ob' \<and> o_name ob' = o_name ob)"
    using s3(2) unfolding keeps_def by blast
  have start: "commandbox_init env s = Some s3"
    by (simp only: commandbox_init_def s1_def [symmetric] load option.map prod.sel)
  have end_state: "s3 = s\<lparr>sh_output := sh_output s @ (''CommandBox library loaded'' @ newline), command_registry := es, objects := h\<rparr>"
    using h(1) by (simp add: s2_def s1_def say_def)
  have "map (\<lambda>e. (command_name e, command_function e)) es = [(''whoami'', Cmd_whoami), (''users'', Cmd_users), (''adduser'', Cmd_adduser)]"
    by (simp add: es_def)
  then show ?thesis using h(2) unfolding same
    by - (rule exI [of _ h], rule exI [of _ "''CommandBox library loaded'' @ newline"], rule exI [of _ es],
      intro conjI, rule start [unfolded end_state])
qed

lemma login_step:
  assumes "current_user_index s = -1" and "sh_input s = name @ newline @ rest" and "CHR 0x0A \<notin> set name"
    and "length name + 1 < MAX_USERNAME" and "find_user name s = Some i"
  shows "\<exists>t. login_loop s = Some (s\<lparr>sh_output := sh_output s @ t, sh_input := rest, current_user_index := int i\<rparr>)"
proof -
  have "fgets MAX_USERNAME (sh_input (say ''Login as: '' s)) = Some (name @ newline, rest)"
    using assms(2) by (simp add: fgets_line [OF assms(3,4)])
  moreover have "find_user name ((say ''Login as: '' s)\<lparr>sh_input := rest\<rparr>) = Some i"
    using assms(5) by (simp add: find_user_def)
  ultimately have "login_loop s = Some (say (''Welcome, '' @ name @ ''!'' @ newline)
      ((say ''Login as: '' s)\<lparr>sh_input := rest, current_user_index := int i\<rparr>))"
    using assms(1) by (subst login_loop.simps) (simp add: Let_def user_switch_def del: login_loop.simps)
  then show ?thesis
    by (intro exI [of _ "''Login as: '' @ ''Welcome, '' @ name @ ''!'' @ newline"]) (simp add: say_def del: login_loop.simps)
qed

lemma login_ready:
  assumes "name \<in> set first_users" and "sh_input s = name @ newline @ rest"
  shows "\<exists>i t. user_prompt_login (user_system_init s) =
      Some ((user_system_init s)\<lparr>sh_output := sh_output s @ t, sh_input := rest, current_user_index := int i\<rparr>) \<and>
    i < 3 \<and> username (users (user_system_init s) ! i) = name \<and> map username (users (user_system_init s)) = first_users"
proof -
  define s1 where "s1 = user_system_init s"
  have start: "map username (users s1) = first_users" "current_user_index s1 = -1" "sh_input s1 = sh_input s" "sh_output s1 = sh_output s"
    by (simp_all add: s1_def user_system_init_def user_add_def MAX_USERS_def MAX_USERNAME_def first_users_def Let_def)
  have size: "length (users s1) = 3" using arg_cong [OF start(1), of length] by (simp add: first_users_def)
  have short: "CHR 0x0A \<notin> set name" "length name + 1 < MAX_USERNAME"
    using assms(1) by (auto simp: first_users_def MAX_USERNAME_def)
  define t where "t = ''Available users: '' @ comma_names (users s1) @ newline"
  have "name \<in> set (map username (users (say t s1)))" using assms(1) start(1) by simp
  then obtain i where i: "find_user name (say t s1) = Some i" "i < length (users (say t s1))" "username (users (say t s1) ! i) = name"
    by (rule find_user_some)
  have before: "current_user_index (say t s1) = -1" "sh_input (say t s1) = name @ newline @ rest"
    using start assms(2) by simp_all
  obtain t' where "login_loop (say t s1) =
      Some ((say t s1)\<lparr>sh_output := sh_output (say t s1) @ t', sh_input := rest, current_user_index := int i\<rparr>)"
    using login_step [OF before short i(1)] by blast
  then have "user_prompt_login s1 = Some (s1\<lparr>sh_output := sh_output s @ t @ t', sh_input := rest, current_user_index := int i\<rparr>)"
    unfolding user_prompt_login_def t_def [symmetric] using start(4) by (simp add: say_def del: login_loop.simps)
  moreover have "i < 3" "username (users s1 ! i) = name" using i(2,3) size by simp_all
  ultimately show ?thesis using start(1) unfolding s1_def by blast
qed

text \<open>After the start the shell is ready for the session of the one who logged in.\<close>

lemma shell_init_ready:
  assumes "fresh_objects env" and "finite (dom (objects s))" and "name \<in> set first_users" and "sh_input s = name @ newline @ rest"
  shows "\<exists>s'. shell_init env s = Some s' \<and> shell_ready ''root'' (first_users, name) s' \<and> sh_input s' = rest \<and> hostname s' = ''computer''"
proof -
  define s1 where "s1 = user_system_init (s\<lparr>hostname := ''computer'', sh_running := True\<rparr>)"
  have s1: "objects s1 = objects s" "hostname s1 = ''computer''" "sh_running s1"
    by (simp_all add: s1_def user_system_init_def user_add_def MAX_USERS_def Let_def)
  obtain i t where login: "user_prompt_login s1 = Some (s1\<lparr>sh_output := sh_output s @ t, sh_input := rest, current_user_index := int i\<rparr>)"
    "i < 3" "username (users s1 ! i) = name" "map username (users s1) = first_users"
    using login_ready [OF assms(3), of "s\<lparr>hostname := ''computer'', sh_running := True\<rparr>" rest] assms(4)
    unfolding s1_def by auto
  define s2 where "s2 = command_system_init (s1\<lparr>sh_output := sh_output s @ t, sh_input := rest, current_user_index := int i\<rparr>)"
  have s2: "users s2 = users s1" "current_user_index s2 = int i" "sh_input s2 = rest" "hostname s2 = ''computer''" "sh_running s2"
    "command_registry s2 = []" "finite (dom (objects s2))"
    using s1 assms(2) by (simp_all add: s2_def command_system_init_def hostname_say)
  obtain r h ob box bo where tree: "object_system_init env s2 = Some (s2\<lparr>objects := h, root_object := Some r\<rparr>)" "h r = Some ob" "o_name ob = ''root''"
    "object_get_commandbox (s2\<lparr>objects := h, root_object := Some r\<rparr>) = Some (Some box)" "h box = Some bo" "finite (dom h)"
    using object_system_ready [OF assms(1) s2(7)] by blast
  define s3 where "s3 = s2\<lparr>objects := h, root_object := Some r\<rparr>"
  obtain h' t' es where box: "commandbox_init env s3 = Some (s3\<lparr>sh_output := sh_output s3 @ t', command_registry := es, objects := h'\<rparr>)"
    "map (\<lambda>e. (command_name e, command_function e)) es = [(''whoami'', Cmd_whoami), (''users'', Cmd_users), (''adduser'', Cmd_adduser)]"
    "\<exists>ob'. h' r = Some ob' \<and> o_name ob' = o_name ob"
    using commandbox_ready [OF assms(1), of s3 box bo] tree(2,4-6) s2(6) unfolding s3_def by auto
  define s4 where "s4 = s3\<lparr>sh_output := sh_output s3 @ t', command_registry := es, objects := h', current_object := Some r\<rparr>"
  have "shell_init env s = Some s4"
    using login(1) tree(1) box(1) by (simp add: shell_init_def Let_def s1_def [symmetric] s2_def [symmetric] s3_def [symmetric], simp add: s4_def s3_def)
  moreover have "length (users s1) = 3" using arg_cong [OF login(4), of length] by (simp add: first_users_def)
  then have "shell_ready ''root'' (first_users, name) s4"
    using login(2-4) box(2,3) s2 tree(3) by (simp add: shell_ready_def s4_def s3_def) (simp add: first_users_def)
  moreover have "sh_input s4 = rest" "hostname s4 = ''computer''" using s2 by (simp_all add: s4_def s3_def)
  ultimately show ?thesis by blast
qed


text \<open>Concrete surroundings: an object gets the number after the largest one, every command of the system succeeds.\<close>

definition counting :: surroundings where
  "counting = \<lparr>ecomos_build = True, new_object = (\<lambda>h. Some (Suc (Max (insert 0 (dom h))))), sys = (\<lambda>_. 0), execute_pipe = (\<lambda>s _. (EC_SUCCESS, s))\<rparr>"

definition blank_shell :: "string \<Rightarrow> ebts" where
  "blank_shell input = \<lparr>users = [], current_user_index = -1, command_registry = [], objects = Map.empty, root_object = None,
    current_object = None, hostname = [], sh_running = False, sh_input = input, sh_output = []\<rparr>"

lemma counting_fresh: "fresh_objects counting"
proof -
  have "Suc (Max (insert 0 (dom h))) \<notin> dom h" if "finite (dom h)" for h :: "nat \<rightharpoonup> ebts_object"
  proof
    assume "Suc (Max (insert 0 (dom h))) \<in> dom h"
    then have "Suc (Max (insert 0 (dom h))) \<le> Max (insert 0 (dom h))" using that by (intro Max_ge) simp_all
    then show False by simp
  qed
  then show ?thesis by (auto simp: fresh_objects_def counting_def)
qed


theorem long_names_duplicate_witness:
  "\<exists>s1 s2. user_create (replicate 32 CHR ''a'') [] (user_system_init (blank_shell [])) = (EC_SUCCESS, s1) \<and>
     user_create (replicate 32 CHR ''a'') [] s1 = (EC_SUCCESS, s2) \<and>
     \<not> distinct (map username (users s2)) \<and> user_switch (replicate 32 CHR ''a'') s2 = (EC_ERROR, s2)"
  by (rule long_names_duplicate)
    (simp_all add: user_system_init_def user_add_def blank_shell_def MAX_USERS_def MAX_USERNAME_def Let_def)

end
