(* ===== verification/Dos25_Rescue.thy ===== *)
theory Dos25_Rescue
  imports Console
begin

text \<open>
  The rescue program of the boot loader, dos25/tools/hms.c: a machine of menus. A console has an input and the
  list of the texts that \<open>printf\<close> was given, one element per call. \<open>unset\<close> says what a buffer that was never filled
  holds, which shows when the input is at its end; it may differ from call to call.
\<close>

section \<open>The console\<close>

record console =
  c_in :: string
  c_out :: "string list"

definition put_all :: "string list \<Rightarrow> console \<Rightarrow> console" where
  "put_all ts c = c\<lparr>c_out := c_out c @ ts\<rparr>"

text \<open>At the end of the input \<open>getchar\<close> gives \<open>EOF\<close>, which the program does not look at, and \<open>fgets\<close> leaves the buffer as it is.\<close>

definition getchar :: "console \<Rightarrow> console" where
  "getchar c = c\<lparr>c_in := drop 1 (c_in c)\<rparr>"

definition read_into :: "nat \<Rightarrow> string \<Rightarrow> console \<Rightarrow> string \<times> console" where
  "read_into n buf c = (case fgets n (c_in c) of
     None \<Rightarrow> (buf, c)
   | Some (line, rest) \<Rightarrow> (line, c\<lparr>c_in := rest\<rparr>))"

definition first_char :: "string \<Rightarrow> char" where
  "first_char t = (if t = [] then CHR 0x00 else hd t)"

type_synonym memory = "console \<Rightarrow> string"

definition MAX_PATH_LENGTH :: nat where "MAX_PATH_LENGTH = 256"

text \<open>A prompt and the line that is typed behind it.\<close>

definition ask :: "memory \<Rightarrow> nat \<Rightarrow> string \<Rightarrow> console \<Rightarrow> string \<times> console" where
  "ask unset n question c = (let c = put_all [question] c in read_into n (unset c) c)"

definition ask_line :: "memory \<Rightarrow> nat \<Rightarrow> string \<Rightarrow> console \<Rightarrow> string \<times> console" where
  "ask_line unset n question c = (case ask unset n question c of (t, c) \<Rightarrow> (cut_line t, c))"

section \<open>Screens\<close>

definition hms_clear_screen :: "string list" where
  "hms_clear_screen = [CHR 0x1B # ''[2J'', CHR 0x1B # ''[H'']"

definition show_banner :: "string list" where
  "show_banner = [newline, ''========================================='' @ newline, ''    H E L P   M E   S C R E E N'' @ newline,
     ''     DOS25 Rescue System v1.0'' @ newline, ''========================================='' @ newline, newline]"

definition show_main_menu :: "string list" where
  "show_main_menu = [''Main Menu:'' @ newline, ''  1. System Recovery'' @ newline, ''  2. Disk Diagnostics'' @ newline,
     ''  3. Boot Sector Repair'' @ newline, ''  4. Manual System Installation'' @ newline, ''  5. View System Logs'' @ newline,
     ''  6. Exit to Boot Menu'' @ newline, newline, ''Select option (1-6): '']"

definition recovery_screen :: "string list" where
  "recovery_screen = [''System Recovery'' @ newline, ''==============='' @ newline, ''  1. Restore from DSF Backup'' @ newline,
     ''  2. Create New DSF Backup'' @ newline, ''  3. Verify Existing Backup'' @ newline, ''  4. Return to Main Menu'' @ newline,
     newline]"

definition diagnostics_screen :: "string list" where
  "diagnostics_screen = [''Disk Diagnostics'' @ newline, ''================'' @ newline, newline, ''Available diagnostic tools:'' @ newline,
     ''  1. Surface Scan'' @ newline, ''  2. SMART Status'' @ newline, ''  3. Partition Table Check'' @ newline,
     ''  4. File System Check'' @ newline, ''  5. Return to Main Menu'' @ newline, newline]"

definition repair_screen :: "string list" where
  "repair_screen = [''Boot Sector Repair'' @ newline, ''=================='' @ newline, newline, ''Repair options:'' @ newline,
     ''  1. Repair MBR (Master Boot Record)'' @ newline, ''  2. Repair GPT Header'' @ newline,
     ''  3. Rebuild Partition Table'' @ newline, ''  4. Return to Main Menu'' @ newline, newline]"

definition installation_screen :: "string list" where
  "installation_screen = [''Manual System Installation'' @ newline, ''=========================='' @ newline, newline,
     ''Installation steps:'' @ newline, ''  1. Format target disk'' @ newline, ''  2. Install boot loader'' @ newline,
     ''  3. Install kernel'' @ newline, ''  4. Configure system'' @ newline, ''  5. Return to Main Menu'' @ newline, newline]"

definition logs_screen :: "string list" where
  "logs_screen = [''System Logs'' @ newline, ''==========='' @ newline, newline, ''[Simulation] Displaying system logs...'' @ newline, newline,
     ''2024-01-15 10:30:45 - HMS: System started'' @ newline, ''2024-01-15 10:31:20 - HMS: Memory test passed'' @ newline,
     ''2024-01-15 10:32:05 - HMS: Storage devices detected'' @ newline, ''2024-01-15 10:33:10 - HMS: User entered recovery mode'' @ newline,
     newline, ''Press Enter to continue...'']"

definition invalid_option :: "string list" where
  "invalid_option = [''Invalid option. Press Enter to continue...'' @ newline]"

section \<open>Menus\<close>

definition restore_text :: "string \<Rightarrow> string \<Rightarrow> string \<Rightarrow> string list" where
  "restore_text backup device confirmation =
     (if confirmation = ''yes'' then
        [newline @ ''Starting system restore...'' @ newline, ''Backup file: '' @ backup @ newline, ''Target device: '' @ device @ newline,
         newline @ ''[Simulation] Would execute: dos25-disk install '' @ backup @ '' '' @ device @ newline,
         newline @ ''Restore operation completed.'' @ newline]
      else [newline @ ''Restore operation cancelled.'' @ newline])"

definition restore_from_backup :: "memory \<Rightarrow> console \<Rightarrow> console" where
  "restore_from_backup unset c =
     (let c = put_all (hms_clear_screen @ show_banner @ [''System Restore'' @ newline, ''=============='' @ newline, newline]) c in
      case ask_line unset MAX_PATH_LENGTH ''Enter path to DSF backup file: '' c of (backup, c) \<Rightarrow>
      (case ask_line unset MAX_PATH_LENGTH ''Enter target device (e.g., /dev/sda): '' c of (device, c) \<Rightarrow>
      (let c = put_all [newline, ''WARNING: This will overwrite all data on '' @ device @ newline] c in
       case ask_line unset 10 ''Are you sure? (yes/NO): '' c of (confirmation, c) \<Rightarrow>
         getchar (put_all (restore_text backup device confirmation @ [newline @ ''Press Enter to continue...'']) c))))"

definition create_text :: "string \<Rightarrow> string \<Rightarrow> string \<Rightarrow> string list" where
  "create_text boot kern out =
     [newline @ ''Creating backup...'' @ newline, ''Boot file: '' @ boot @ newline, ''Kernel file: '' @ kern @ newline,
      ''Output file: '' @ out @ newline,
      newline @ ''[Simulation] Would execute: dos25-disk create '' @ out @ '' '' @ boot @ '' '' @ kern @ newline,
      newline @ ''Backup creation completed.'' @ newline, newline @ ''Press Enter to continue...'']"

definition create_backup :: "memory \<Rightarrow> console \<Rightarrow> console" where
  "create_backup unset c =
     (let c = put_all (hms_clear_screen @ show_banner @ [''Create System Backup'' @ newline, ''===================='' @ newline, newline]) c in
      case ask_line unset MAX_PATH_LENGTH ''Enter path to boot sector file: '' c of (boot, c) \<Rightarrow>
      (case ask_line unset MAX_PATH_LENGTH ''Enter path to kernel file: '' c of (kern, c) \<Rightarrow>
      (case ask_line unset MAX_PATH_LENGTH ''Enter output DSF file path: '' c of (out, c) \<Rightarrow>
         getchar (put_all (create_text boot kern out) c))))"

definition verify_text :: "string \<Rightarrow> string list" where
  "verify_text backup =
     [newline @ ''Verifying backup: '' @ backup @ newline,
      newline @ ''[Simulation] Would execute: dos25-disk verify '' @ backup @ newline,
      newline @ ''Verification completed.'' @ newline, newline @ ''Press Enter to continue...'']"

definition verify_backup :: "memory \<Rightarrow> console \<Rightarrow> console" where
  "verify_backup unset c =
     (let c = put_all (hms_clear_screen @ show_banner @ [''Verify System Backup'' @ newline, ''===================='' @ newline, newline]) c in
      case ask_line unset MAX_PATH_LENGTH ''Enter path to DSF backup file: '' c of (backup, c) \<Rightarrow>
        getchar (put_all (verify_text backup) c))"

definition system_recovery_menu :: "memory \<Rightarrow> console \<Rightarrow> console" where
  "system_recovery_menu unset c =
     (let c = put_all (hms_clear_screen @ show_banner @ recovery_screen) c in
      case ask unset 10 ''Select option (1-4): '' c of (choice, c) \<Rightarrow>
        (if first_char choice = CHR ''1'' then restore_from_backup unset c
         else if first_char choice = CHR ''2'' then create_backup unset c
         else if first_char choice = CHR ''3'' then verify_backup unset c
         else if first_char choice = CHR ''4'' then c
         else getchar (put_all invalid_option c)))"

text \<open>The three menus that only say which tool they would run.\<close>

definition tool_text :: "string \<Rightarrow> char \<Rightarrow> string list" where
  "tool_text what ch = [newline @ ''[Simulation] Running '' @ what @ '' '' @ [ch] @ ''...'' @ newline, newline @ ''Press Enter to continue...'']"

definition disk_diagnostics_menu :: "memory \<Rightarrow> console \<Rightarrow> console" where
  "disk_diagnostics_menu unset c =
     (case ask unset 10 ''Select option (1-5): '' (put_all (hms_clear_screen @ show_banner @ diagnostics_screen) c) of (choice, c) \<Rightarrow>
        getchar (put_all (tool_text ''diagnostic tool'' (first_char choice)) c))"

definition boot_sector_repair_menu :: "memory \<Rightarrow> console \<Rightarrow> console" where
  "boot_sector_repair_menu unset c =
     (case ask unset 10 ''Select option (1-4): '' (put_all (hms_clear_screen @ show_banner @ repair_screen) c) of (choice, c) \<Rightarrow>
        getchar (put_all (tool_text ''repair tool'' (first_char choice)) c))"

definition manual_installation_menu :: "memory \<Rightarrow> console \<Rightarrow> console" where
  "manual_installation_menu unset c =
     (case ask unset 10 ''Select option (1-5): '' (put_all (hms_clear_screen @ show_banner @ installation_screen) c) of (choice, c) \<Rightarrow>
        getchar (put_all (tool_text ''installation step'' (first_char choice)) c))"

definition view_system_logs :: "console \<Rightarrow> console" where
  "view_system_logs c = getchar (put_all (hms_clear_screen @ show_banner @ logs_screen) c)"

section \<open>The machine\<close>

datatype hms_state = HMS_STATE_BOOTING | HMS_STATE_MAIN_MENU | HMS_STATE_RECOVERY | HMS_STATE_DIAGNOSTICS | HMS_STATE_EXIT

text \<open>The buffer \<open>choice\<close> lives as long as the program: what is in it is still there when nothing can be read.\<close>

record hms =
  h_state :: hms_state
  h_choice :: string
  h_con :: console

definition exit_text :: string where
  "exit_text = newline @ ''Exiting HELP ME SCREEN...'' @ newline"

definition main_menu :: "memory \<Rightarrow> hms \<Rightarrow> hms" where
  "main_menu unset s =
     (case read_into 10 (h_choice s) (put_all (hms_clear_screen @ show_banner @ show_main_menu) (h_con s)) of (choice, c) \<Rightarrow>
       (let s = s\<lparr>h_choice := choice, h_con := c\<rparr>; ch = first_char choice in
        if ch = CHR ''1'' then s\<lparr>h_state := HMS_STATE_RECOVERY\<rparr>
        else if ch = CHR ''2'' then s\<lparr>h_con := disk_diagnostics_menu unset c\<rparr>
        else if ch = CHR ''3'' then s\<lparr>h_con := boot_sector_repair_menu unset c\<rparr>
        else if ch = CHR ''4'' then s\<lparr>h_con := manual_installation_menu unset c\<rparr>
        else if ch = CHR ''5'' then s\<lparr>h_con := view_system_logs c\<rparr>
        else if ch = CHR ''6'' then s\<lparr>h_state := HMS_STATE_EXIT\<rparr>
        else s\<lparr>h_con := getchar (put_all invalid_option c)\<rparr>))"

definition booting_text :: "string list" where
  "booting_text = hms_clear_screen @ show_banner @ [''System initializing...'' @ newline, ''Press Enter to continue...'']"

definition hms_turn :: "memory \<Rightarrow> hms \<Rightarrow> hms" where
  "hms_turn unset s = (case h_state s of
     HMS_STATE_BOOTING \<Rightarrow> s\<lparr>h_con := getchar (put_all booting_text (h_con s)), h_state := HMS_STATE_MAIN_MENU\<rparr>
   | HMS_STATE_MAIN_MENU \<Rightarrow> main_menu unset s
   | HMS_STATE_RECOVERY \<Rightarrow> s\<lparr>h_con := system_recovery_menu unset (h_con s), h_state := HMS_STATE_MAIN_MENU\<rparr>
   | HMS_STATE_DIAGNOSTICS \<Rightarrow> s\<lparr>h_con := disk_diagnostics_menu unset (h_con s), h_state := HMS_STATE_MAIN_MENU\<rparr>
   | HMS_STATE_EXIT \<Rightarrow> s\<lparr>h_con := put_all [exit_text] (h_con s)\<rparr>)"

partial_function (option) hms_loop :: "memory \<Rightarrow> hms \<Rightarrow> hms option" where
  "hms_loop unset s = (if h_state s = HMS_STATE_EXIT then Some s else hms_loop unset (hms_turn unset s))"

definition hms_main :: "memory \<Rightarrow> string \<Rightarrow> string \<Rightarrow> console option" where
  "hms_main unset choice input = map_option h_con
     (hms_loop unset \<lparr>h_state = HMS_STATE_BOOTING, h_choice = choice, h_con = \<lparr>c_in = input, c_out = []\<rparr>\<rparr>)"

section \<open>A dialogue\<close>

text \<open>The specification: what a user can ask for, the keys that ask for it, and what is shown.\<close>

datatype rescue = Restore string string string | Create string string string | Verify string | Back | Bad_recovery char |
  Diagnose char | Repair char | Install char | Logs | Bad char

definition lines_of :: "string list \<Rightarrow> string" where
  "lines_of ts = concat (map (\<lambda>t. t @ newline) ts)"

fun keys :: "rescue \<Rightarrow> string list" where
  "keys (Restore p d a) = [''1'', ''1'', p, d, a, []]"
| "keys (Create b k f) = [''1'', ''2'', b, k, f, []]"
| "keys (Verify p) = [''1'', ''3'', p, []]"
| "keys Back = [''1'', ''4'']"
| "keys (Bad_recovery ch) = [''1'', [ch], []]"
| "keys (Diagnose ch) = [''2'', [ch], []]"
| "keys (Repair ch) = [''3'', [ch], []]"
| "keys (Install ch) = [''4'', [ch], []]"
| "keys Logs = [''5'', []]"
| "keys (Bad ch) = [[ch], []]"

definition good_path :: "string \<Rightarrow> bool" where
  "good_path t \<longleftrightarrow> CHR 0x0A \<notin> set t \<and> length t < 255"

fun good_rescue :: "rescue \<Rightarrow> bool" where
  "good_rescue (Restore p d a) \<longleftrightarrow> good_path p \<and> good_path d \<and> CHR 0x0A \<notin> set a \<and> length a < 9"
| "good_rescue (Create b k f) \<longleftrightarrow> good_path b \<and> good_path k \<and> good_path f"
| "good_rescue (Verify p) \<longleftrightarrow> good_path p"
| "good_rescue (Bad_recovery ch) \<longleftrightarrow> ch \<notin> set ''1234'' \<and> ch \<noteq> CHR 0x0A"
| "good_rescue (Diagnose ch) \<longleftrightarrow> ch \<noteq> CHR 0x0A"
| "good_rescue (Repair ch) \<longleftrightarrow> ch \<noteq> CHR 0x0A"
| "good_rescue (Install ch) \<longleftrightarrow> ch \<noteq> CHR 0x0A"
| "good_rescue (Bad ch) \<longleftrightarrow> ch \<notin> set ''123456'' \<and> ch \<noteq> CHR 0x0A"
| "good_rescue _ \<longleftrightarrow> True"

definition titled :: "string list \<Rightarrow> string list" where
  "titled ts = hms_clear_screen @ show_banner @ ts"

definition recovery_shown :: "string list" where
  "recovery_shown = titled (recovery_screen @ [''Select option (1-4): ''])"

fun shown :: "rescue \<Rightarrow> string list" where
  "shown (Restore p d a) = recovery_shown @ titled [''System Restore'' @ newline, ''=============='' @ newline, newline,
     ''Enter path to DSF backup file: '', ''Enter target device (e.g., /dev/sda): '', newline,
     ''WARNING: This will overwrite all data on '' @ d @ newline, ''Are you sure? (yes/NO): ''] @ restore_text p d a @ [newline @ ''Press Enter to continue...'']"
| "shown (Create b k f) = recovery_shown @ titled [''Create System Backup'' @ newline, ''===================='' @ newline, newline,
     ''Enter path to boot sector file: '', ''Enter path to kernel file: '', ''Enter output DSF file path: ''] @ create_text b k f"
| "shown (Verify p) = recovery_shown @ titled [''Verify System Backup'' @ newline, ''===================='' @ newline, newline,
     ''Enter path to DSF backup file: ''] @ verify_text p"
| "shown Back = recovery_shown"
| "shown (Bad_recovery ch) = recovery_shown @ invalid_option"
| "shown (Diagnose ch) = titled (diagnostics_screen @ [''Select option (1-5): '']) @ tool_text ''diagnostic tool'' ch"
| "shown (Repair ch) = titled (repair_screen @ [''Select option (1-4): '']) @ tool_text ''repair tool'' ch"
| "shown (Install ch) = titled (installation_screen @ [''Select option (1-5): '']) @ tool_text ''installation step'' ch"
| "shown Logs = titled logs_screen"
| "shown (Bad ch) = invalid_option"

definition menu_shown :: "string list" where
  "menu_shown = titled show_main_menu"

text \<open>Reading what was typed.\<close>

definition con :: "string \<Rightarrow> string list \<Rightarrow> console" where
  "con i out = \<lparr>c_in = i, c_out = out\<rparr>"

lemma put_all_con: "put_all ts (con i out) = con i (out @ ts)"
  by (simp add: put_all_def con_def)

lemma read_key: "ch \<noteq> CHR 0x0A \<Longrightarrow> read_into 10 buf (con ([ch] @ newline @ rest) out) = ([ch] @ newline, con rest out)"
  using fgets_line [of "[ch]" 10 rest] by (simp add: read_into_def con_def)

lemma ask_key: "ch \<noteq> CHR 0x0A \<Longrightarrow> ask unset 10 q (con ([ch] @ newline @ rest) out) = ([ch] @ newline, con rest (out @ [q]))"
  by (simp only: ask_def Let_def put_all_con read_key simp_thms)

lemma ask_typed:
  "CHR 0x0A \<notin> set t \<Longrightarrow> length t + 1 < n \<Longrightarrow> ask_line unset n q (con (t @ newline @ rest) out) = (t, con rest (out @ [q]))"
  by (simp add: ask_line_def ask_def read_into_def put_all_con) (simp add: con_def fgets_line cut_line_line)

lemma ask_path:
  "good_path t \<Longrightarrow> ask_line unset MAX_PATH_LENGTH q (con (t @ newline @ rest) out) = (t, con rest (out @ [q]))"
  by (rule ask_typed) (simp_all add: good_path_def MAX_PATH_LENGTH_def)

lemma enter: "getchar (con (newline @ rest) out) = con rest out"
  by (simp add: getchar_def con_def newline_def)

lemma first_char_key: "first_char ([ch] @ t) = ch"
  by (simp add: first_char_def)

lemmas typed = simp_thms Let_def put_all_con read_key ask_key ask_path enter first_char_key prod.case append_assoc titled_def

lemma restore_shown:
  assumes "good_rescue (Restore p d a)"
  shows "restore_from_backup unset (con (p @ newline @ d @ newline @ a @ newline @ newline @ rest) out) = con rest (out @
    titled [''System Restore'' @ newline, ''=============='' @ newline, newline,
     ''Enter path to DSF backup file: '', ''Enter target device (e.g., /dev/sda): '', newline,
     ''WARNING: This will overwrite all data on '' @ d @ newline, ''Are you sure? (yes/NO): ''] @ restore_text p d a @ [newline @ ''Press Enter to continue...''])"
proof -
  have "good_path p" "good_path d" "CHR 0x0A \<notin> set a" "length a + 1 < 10" using assms by simp_all
  then show ?thesis by (simp only: restore_from_backup_def typed ask_typed) (simp only: append_Cons append_Nil append_assoc)
qed

lemma create_shown:
  assumes "good_rescue (Create b k f)"
  shows "create_backup unset (con (b @ newline @ k @ newline @ f @ newline @ newline @ rest) out) = con rest (out @
    titled [''Create System Backup'' @ newline, ''===================='' @ newline, newline,
     ''Enter path to boot sector file: '', ''Enter path to kernel file: '', ''Enter output DSF file path: ''] @ create_text b k f)"
proof -
  have "good_path b" "good_path k" "good_path f" using assms by simp_all
  then show ?thesis by (simp only: create_backup_def typed) (simp only: append_Cons append_Nil append_assoc)
qed

lemma verify_shown:
  assumes "good_path p"
  shows "verify_backup unset (con (p @ newline @ newline @ rest) out) = con rest (out @
    titled [''Verify System Backup'' @ newline, ''===================='' @ newline, newline, ''Enter path to DSF backup file: ''] @ verify_text p)"
  using assms by (simp only: verify_backup_def typed) (simp only: append_Cons append_Nil append_assoc)

lemma tool_shown:
  assumes "ch \<noteq> CHR 0x0A"
  shows "disk_diagnostics_menu unset (con ([ch] @ newline @ newline @ rest) out) = con rest (out @ shown (Diagnose ch))"
    and "boot_sector_repair_menu unset (con ([ch] @ newline @ newline @ rest) out) = con rest (out @ shown (Repair ch))"
    and "manual_installation_menu unset (con ([ch] @ newline @ newline @ rest) out) = con rest (out @ shown (Install ch))"
  by (simp_all only: disk_diagnostics_menu_def boot_sector_repair_menu_def manual_installation_menu_def shown.simps typed assms simp_thms)

lemma lines_of_simps: "lines_of [] = []" "lines_of (t # ts) = t @ newline @ lines_of ts"
  by (simp_all add: lines_of_def)

definition at_menu :: "string \<Rightarrow> string \<Rightarrow> string list \<Rightarrow> hms" where
  "at_menu choice i out = \<lparr>h_state = HMS_STATE_MAIN_MENU, h_choice = choice, h_con = con i out\<rparr>"

definition recovers :: "rescue \<Rightarrow> bool" where
  "recovers r \<longleftrightarrow> hd (keys r) = ''1''"

lemma recovery_served:
  assumes "good_rescue r" and "recovers r"
  shows "system_recovery_menu unset (con (lines_of (tl (keys r)) @ rest) out) = con rest (out @ shown r)"
proof -
  note menu = system_recovery_menu_def keys.simps shown.simps lines_of_simps list.sel recovery_shown_def
  note picked = typed char.inject append_Nil append_Nil2 refl if_True if_False
  show ?thesis
  proof (cases r)
    case (Restore p d a)
    note served = restore_shown [OF assms(1) [unfolded Restore]]
    show ?thesis unfolding Restore menu
      by (simp only: picked served)
  next
    case (Create b k f)
    note served = create_shown [OF assms(1) [unfolded Create]]
    show ?thesis unfolding Create menu
      by (simp only: picked served)
  next
    case (Verify p)
    then have "good_path p" using assms(1) by simp
    note served = verify_shown [OF this]
    show ?thesis unfolding Verify menu
      by (simp only: picked served)
  next
    case Back
    show ?thesis unfolding Back menu
      by (simp only: picked)
  next
    case (Bad_recovery ch)
    then have ch: "ch \<noteq> CHR ''1''" "ch \<noteq> CHR ''2''" "ch \<noteq> CHR ''3''" "ch \<noteq> CHR ''4''" "ch \<noteq> CHR 0x0A" using assms(1) by simp_all
    show ?thesis unfolding Bad_recovery menu
      by (simp only: typed ch append_Nil append_Nil2 if_False)
  qed (use assms in \<open>auto simp: recovers_def\<close>)
qed

lemma main_menu_key:
  assumes "ch \<noteq> CHR 0x0A"
  shows "main_menu unset (at_menu choice ([ch] @ newline @ i) out) =
    (let s = at_menu ([ch] @ newline) i (out @ menu_shown) in
     if ch = CHR ''1'' then s\<lparr>h_state := HMS_STATE_RECOVERY\<rparr>
     else if ch = CHR ''2'' then s\<lparr>h_con := disk_diagnostics_menu unset (h_con s)\<rparr>
     else if ch = CHR ''3'' then s\<lparr>h_con := boot_sector_repair_menu unset (h_con s)\<rparr>
     else if ch = CHR ''4'' then s\<lparr>h_con := manual_installation_menu unset (h_con s)\<rparr>
     else if ch = CHR ''5'' then s\<lparr>h_con := view_system_logs (h_con s)\<rparr>
     else if ch = CHR ''6'' then s\<lparr>h_state := HMS_STATE_EXIT\<rparr>
     else s\<lparr>h_con := getchar (put_all invalid_option (h_con s))\<rparr>)"
  unfolding main_menu_def at_menu_def menu_shown_def titled_def
  by (simp only: put_all_con read_key assms hms.simps prod.case Let_def first_char_key simp_thms append_assoc)

lemma loop_turn: "h_state s \<noteq> HMS_STATE_EXIT \<Longrightarrow> hms_loop unset s = hms_loop unset (hms_turn unset s)"
  by (subst hms_loop.simps) simp

lemma turn_at_menu: "hms_loop unset (at_menu choice i out) = hms_loop unset (main_menu unset (at_menu choice i out))"
  by (subst loop_turn) (simp_all add: at_menu_def hms_turn_def)

lemma turn_in_recovery:
  "hms_loop unset ((at_menu choice i out)\<lparr>h_state := HMS_STATE_RECOVERY\<rparr>) =
   hms_loop unset ((at_menu choice i out)\<lparr>h_con := system_recovery_menu unset (con i out)\<rparr>)"
  by (subst loop_turn) (simp_all add: at_menu_def hms_turn_def)

lemma recovery_request:
  assumes "good_rescue r" and "recovers r"
  shows "hms_loop unset (at_menu choice (lines_of (keys r) @ rest) out) =
    hms_loop unset (at_menu (''1'' @ newline) rest (out @ menu_shown @ shown r))"
proof -
  have "keys r = ''1'' # tl (keys r)" using assms(2) by (cases r) (simp_all add: recovers_def)
  then have keys: "lines_of (keys r) @ rest = ''1'' @ newline @ lines_of (tl (keys r)) @ rest"
    by (metis append_assoc lines_of_simps(2))
  have "hms_loop unset (at_menu choice (lines_of (keys r) @ rest) out) =
      hms_loop unset ((at_menu (''1'' @ newline) (lines_of (tl (keys r)) @ rest) (out @ menu_shown))\<lparr>h_state := HMS_STATE_RECOVERY\<rparr>)"
    unfolding keys by (subst turn_at_menu, subst main_menu_key) (simp_all add: Let_def)
  also have "\<dots> = hms_loop unset (at_menu (''1'' @ newline) rest (out @ menu_shown @ shown r))"
    by (simp only: turn_in_recovery recovery_served [OF assms] append_assoc) (simp add: at_menu_def)
  finally show ?thesis .
qed

lemma at_menu_con: "h_con (at_menu choice i out) = con i out" "(at_menu choice i out)\<lparr>h_con := con i' out'\<rparr> = at_menu choice i' out'"
  by (simp_all add: at_menu_def)

lemma direct_request:
  assumes "good_rescue r" and "\<not> recovers r"
  shows "main_menu unset (at_menu choice (lines_of (keys r) @ rest) out) = at_menu (hd (keys r) @ newline) rest (out @ menu_shown @ shown r)"
proof -
  have logs: "view_system_logs (con (newline @ rest) o1) = con rest (o1 @ shown Logs)" for o1
    by (simp only: view_system_logs_def put_all_con enter shown.simps titled_def)
  have bad: "getchar (put_all invalid_option (con (newline @ rest) o1)) = con rest (o1 @ shown (Bad ch))" for o1 ch
    by (simp only: put_all_con enter shown.simps)
  have tool: "ch \<noteq> CHR 0x0A" if "r \<in> {Diagnose ch, Repair ch, Install ch, Bad ch}" for ch using assms(1) that by auto
  note keys = keys.simps lines_of_simps list.sel append_assoc append_Nil
  note turn = Let_def at_menu_con tool_shown logs bad char.inject append_assoc simp_thms if_False if_True
  show ?thesis
  proof (cases r)
    case (Diagnose ch)
    show ?thesis unfolding Diagnose keys by (subst main_menu_key, simp) (use tool Diagnose in \<open>simp only: turn insert_iff\<close>)
  next
    case (Repair ch)
    show ?thesis unfolding Repair keys by (subst main_menu_key, simp) (use tool Repair in \<open>simp only: turn insert_iff\<close>)
  next
    case (Install ch)
    show ?thesis unfolding Install keys by (subst main_menu_key, simp) (use tool Install in \<open>simp only: turn insert_iff\<close>)
  next
    case Logs
    show ?thesis unfolding Logs keys by (subst main_menu_key, simp) (simp only: turn)
  next
    case (Bad ch)
    then have "ch \<noteq> CHR ''1''" "ch \<noteq> CHR ''2''" "ch \<noteq> CHR ''3''" "ch \<noteq> CHR ''4''" "ch \<noteq> CHR ''5''" "ch \<noteq> CHR ''6''" "ch \<noteq> CHR 0x0A"
      using assms by simp_all
    then show ?thesis unfolding Bad keys by (subst main_menu_key, simp) (simp only: turn bad [of _ ch])
  qed (use assms in \<open>auto simp: recovers_def\<close>)
qed

lemma request_served:
  assumes "good_rescue r"
  shows "hms_loop unset (at_menu choice (lines_of (keys r) @ rest) out) =
    hms_loop unset (at_menu (hd (keys r) @ newline) rest (out @ menu_shown @ shown r))"
proof (cases "recovers r")
  case True
  then show ?thesis using recovery_request [OF assms] by (simp add: recovers_def)
next
  case False
  then show ?thesis using direct_request [OF assms] by (subst turn_at_menu) simp
qed

lemma dialogue_served:
  assumes "list_all good_rescue rs"
  shows "\<exists>choice'. hms_loop unset (at_menu choice (concat (map (\<lambda>r. lines_of (keys r)) rs) @ rest) out) =
    hms_loop unset (at_menu choice' rest (out @ concat (map (\<lambda>r. menu_shown @ shown r) rs)))"
  using assms
proof (induction rs arbitrary: choice out)
  case Nil
  show ?case by (intro exI [of _ choice]) simp
next
  case (Cons r rs)
  have "hms_loop unset (at_menu choice (concat (map (\<lambda>r. lines_of (keys r)) (r # rs)) @ rest) out) =
      hms_loop unset (at_menu (hd (keys r) @ newline) (concat (map (\<lambda>r. lines_of (keys r)) rs) @ rest) (out @ menu_shown @ shown r))"
    using request_served [of r unset choice "concat (map (\<lambda>r. lines_of (keys r)) rs) @ rest" out] Cons.prems by (simp del: keys.simps shown.simps)
  moreover have "list_all good_rescue rs" using Cons.prems by simp
  ultimately show ?case
    using Cons.IH [of "hd (keys r) @ newline" "out @ menu_shown @ shown r"] by (simp del: keys.simps shown.simps)
qed



section \<open>The end of the input\<close>

text \<open>
  With nothing left to read the buffer keeps the last option, and the program goes round in its menus without end
  unless that option was 6. The text of the state \<open>HMS_STATE_EXIT\<close> is never shown, and the state for diagnostics never entered.
\<close>

definition adrift :: "hms \<Rightarrow> bool" where
  "adrift s \<longleftrightarrow> c_in (h_con s) = [] \<and> h_state s \<noteq> HMS_STATE_EXIT \<and> first_char (h_choice s) \<noteq> CHR ''6''"

lemma put_all_in: "c_in (put_all ts c) = c_in c"
  by (simp add: put_all_def)

lemma getchar_end: "c_in c = [] \<Longrightarrow> c_in (getchar c) = []"
  by (simp add: getchar_def)

lemma ask_end: "c_in c = [] \<Longrightarrow> c_in (snd (ask unset n q c)) = []"
  by (simp add: ask_def read_into_def put_all_in Let_def)

lemma ask_line_end: "c_in c = [] \<Longrightarrow> c_in (snd (ask_line unset n q c)) = []"
  using ask_end [of c unset n q] by (cases "ask unset n q c") (simp add: ask_line_def)

lemmas at_end = put_all_in getchar_end ask_end ask_line_end

lemma menus_end:
  assumes "c_in c = []"
  shows "c_in (system_recovery_menu unset c) = []" and "c_in (disk_diagnostics_menu unset c) = []"
    and "c_in (boot_sector_repair_menu unset c) = []" and "c_in (manual_installation_menu unset c) = []"
    and "c_in (view_system_logs c) = []"
proof -
  have "c_in (restore_from_backup unset d) = []" "c_in (create_backup unset d) = []" "c_in (verify_backup unset d) = []"
    if "c_in d = []" for d
    using that by (simp_all only: restore_from_backup_def create_backup_def verify_backup_def Let_def prod.case_eq_if at_end)
  then show "c_in (system_recovery_menu unset c) = []"
    using assms by (simp add: system_recovery_menu_def Let_def prod.case_eq_if at_end)
qed (use assms in \<open>simp_all only: disk_diagnostics_menu_def boot_sector_repair_menu_def manual_installation_menu_def
    view_system_logs_def prod.case_eq_if at_end\<close>)

lemma adrift_turn: "adrift s \<Longrightarrow> adrift (hms_turn unset s)"
  by (cases "h_state s")
    (simp_all add: adrift_def hms_turn_def main_menu_def read_into_def put_all_in getchar_end menus_end Let_def)

lemma adrift_never_ends: "hms_loop unset s = Some s' \<Longrightarrow> \<not> adrift s"
proof (induction rule: hms_loop.raw_induct [rotated, consumes 1])
  case (1 hms_loop unset s s')
  then show ?case using adrift_turn [of s unset] by (cases "h_state s = HMS_STATE_EXIT") (auto simp: adrift_def)
qed

lemma no_diagnostics: "h_state s \<noteq> HMS_STATE_DIAGNOSTICS \<Longrightarrow> h_state (hms_turn unset s) \<noteq> HMS_STATE_DIAGNOSTICS"
  by (cases "h_state s") (auto simp: hms_turn_def main_menu_def Let_def split: prod.splits)

lemma dialogue_option:
  assumes "list_all good_rescue rs" and "rs \<noteq> []"
  shows "hms_loop unset (at_menu choice (concat (map (\<lambda>r. lines_of (keys r)) rs)) out) =
    hms_loop unset (at_menu (hd (keys (last rs)) @ newline) [] (out @ concat (map (\<lambda>r. menu_shown @ shown r) rs)))"
proof -
  have rs: "rs = butlast rs @ [last rs]" using assms(2) by simp
  define i where "i = lines_of (keys (last rs))"
  have good: "list_all good_rescue (butlast rs)" "good_rescue (last rs)"
    using assms by (auto simp: list_all_iff dest: in_set_butlastD)
  obtain choice' where "hms_loop unset (at_menu choice (concat (map (\<lambda>r. lines_of (keys r)) (butlast rs)) @ i @ []) out) =
      hms_loop unset (at_menu choice' (i @ []) (out @ concat (map (\<lambda>r. menu_shown @ shown r) (butlast rs))))"
    using dialogue_served [OF good(1)] by blast
  also have "\<dots> = hms_loop unset (at_menu (hd (keys (last rs)) @ newline) []
      ((out @ concat (map (\<lambda>r. menu_shown @ shown r) (butlast rs))) @ menu_shown @ shown (last rs)))"
    unfolding i_def by (rule request_served [OF good(2)])
  finally show ?thesis by (subst (1 3) rs) (simp add: i_def del: append_butlast_last_id)
qed



end
