(* ===== verification/Commandbox.thy ===== *)
theory Commandbox
  imports Console
begin

text \<open>
  The command box, commandbox/: the loop that reads lines and runs commands (src/simple\_commandbox.c), and the commands
  (commands/*.c). A program gives its status, the texts that it prints, one for each \<open>printf\<close>, and the disk. What the host decides is
  a parameter: which files may be opened (or folders entered) and which removed, how much can still be written, the text for an
  error, the full name of a folder. Each file has one name. \<open>None\<close> stands for undefined
  behaviour and for a loop that never ends.
\<close>

section \<open>The disk\<close>

record disk =
  d_files :: "string \<rightharpoonup> string"
  d_folders :: "string \<rightharpoonup> string list"

record host =
  may :: "string \<Rightarrow> bool"
  may_unlink :: "string \<Rightarrow> bool"
  can_write :: nat
  strerror :: string
  home :: "string option"
  resolved :: "string \<Rightarrow> string"
  hostname_now :: "string option"

text \<open>A folder can be opened for reading like a file; nothing can be read from it.\<close>

definition can_open :: "host \<Rightarrow> disk \<Rightarrow> string \<Rightarrow> bool" where
  "can_open env d path \<longleftrightarrow> (d_files d path \<noteq> None \<or> d_folders d path \<noteq> None) \<and> may env path"

definition readable :: "disk \<Rightarrow> string \<Rightarrow> string" where
  "readable d path = (case d_files d path of None \<Rightarrow> [] | Some t \<Rightarrow> t)"

definition complain :: "host \<Rightarrow> string \<Rightarrow> string \<Rightarrow> string" where
  "complain env what path = ''Error: Cannot '' @ what @ '' '' @ path @ '': '' @ strerror env @ newline"

type_synonym outcome = "int \<times> string list \<times> disk"

section \<open>copy.c\<close>

text \<open>
  The loop over chunks of 4096 bytes, from position \<open>pos\<close> of the source. Both files are looked up in the disk, so that the
  source is what it is at the time, also when it is the destination. What does not fit any more is not written.
\<close>

partial_function (option) copy_loop :: "nat \<Rightarrow> string \<Rightarrow> string \<Rightarrow> nat \<Rightarrow> disk \<Rightarrow> disk option" where
  "copy_loop room src dst pos d =
     (let chunk = take 4096 (drop pos (readable d src)) in
      if chunk = [] then Some d
      else copy_loop (room - length chunk) src dst (pos + length chunk)
        (d\<lparr>d_files := (d_files d)(dst \<mapsto> readable d dst @ take room chunk)\<rparr>))"

definition copy_main :: "host \<Rightarrow> string list \<Rightarrow> disk \<Rightarrow> outcome option" where
  "copy_main env args d =
     (case args of
        src # dst # others \<Rightarrow>
          (if \<not> can_open env d src then Some (1, [complain env ''open source file'' src], d)
           else if d_folders d dst \<noteq> None \<or> \<not> may env dst then Some (1, [complain env ''create destination file'' dst], d)
           else map_option
             (\<lambda>d. if others \<noteq> [] \<and> hd others = ''move''
                  then (0, [''Moved: '' @ src @ '' -> '' @ dst @ newline],
                    if may_unlink env src then d\<lparr>d_files := (d_files d)(src := None)\<rparr> else d)
                  else (0, [''Copied: '' @ src @ '' -> '' @ dst @ newline], d))
             (copy_loop (can_write env) src dst 0 (d\<lparr>d_files := (d_files d)(dst \<mapsto> [])\<rparr>)))
      | _ \<Rightarrow> Some (1, [''Usage: copy <source> <destination> [move]'' @ newline], d))"

section \<open>del.c, saw.c, output.c, goto.c, hostname.c\<close>

definition del_main :: "host \<Rightarrow> string list \<Rightarrow> disk \<Rightarrow> outcome" where
  "del_main env args d =
     (case args of
        [] \<Rightarrow> (1, [''Usage: del <file/directory>'' @ newline], d)
      | path # _ \<Rightarrow>
          (let deleted = [''Deleted: '' @ path @ newline] in
           case d_folders d path of
             Some entries \<Rightarrow>
               (if entries \<noteq> [] \<or> \<not> may_unlink env path then (1, [complain env ''remove directory'' path], d)
                else (0, deleted, d\<lparr>d_folders := (d_folders d)(path := None)\<rparr>))
           | None \<Rightarrow>
               (if d_files d path = None \<or> \<not> may_unlink env path then (1, [complain env ''remove file'' path], d)
                else (0, deleted, d\<lparr>d_files := (d_files d)(path := None)\<rparr>))))"

text \<open>What \<open>printf\<close> shows of a piece in the buffer ends at its first null character.\<close>

definition as_text :: "string \<Rightarrow> string" where
  "as_text t = takeWhile (\<lambda>c. c \<noteq> CHR 0x00) t"

function saw_loop :: "string \<Rightarrow> string list" where
  "saw_loop t = (case fgets 1024 t of None \<Rightarrow> [] | Some (line, rest) \<Rightarrow> as_text line # saw_loop rest)"
  by auto
termination by (relation "measure length") (auto dest: fgets_shorter)

definition saw_main :: "host \<Rightarrow> string list \<Rightarrow> disk \<Rightarrow> outcome" where
  "saw_main env args d =
     (case args of
        [] \<Rightarrow> (1, [''Usage: saw <filename>'' @ newline], d)
      | path # _ \<Rightarrow>
          (if can_open env d path then (0, saw_loop (readable d path), d) else (1, [complain env ''open file'' path], d)))"

fun output_words :: "string list \<Rightarrow> string" where
  "output_words [] = []"
| "output_words [w] = w"
| "output_words (w # ws) = w @ '' '' @ output_words ws"

definition output_main :: "string list \<Rightarrow> disk \<Rightarrow> outcome" where
  "output_main args d = (0, [output_words args @ newline], d)"

text \<open>The folder that becomes the current one, for this process only.\<close>

definition goto_main :: "host \<Rightarrow> string list \<Rightarrow> disk \<Rightarrow> (int \<times> string list \<times> string option) option" where
  "goto_main env args d =
     (case (if args = [] then home env else Some (hd args)) of
        None \<Rightarrow> None
      | Some path \<Rightarrow>
          (if d_folders d path = None \<or> \<not> may env path
           then Some (1, [complain env ''change to directory'' path], None)
           else Some (0, [''Current directory: '' @ resolved env path @ newline], Some path)))"

definition hostname_usage :: "string list" where
  "hostname_usage = [''Usage: hostname [new_hostname]'' @ newline, ''  hostname          - Display current hostname'' @ newline,
     ''  hostname <name>   - Set new hostname'' @ newline]"

text \<open>The status, the texts, and the name that is set.\<close>

definition hostname_main :: "host \<Rightarrow> string list \<Rightarrow> int \<times> string list \<times> string option" where
  "hostname_main env args =
     (case hostname_now env of
        None \<Rightarrow> (1, [''Error: Cannot get current hostname: '' @ strerror env @ newline], None)
      | Some current \<Rightarrow> (case args of
          [] \<Rightarrow> (0, [current @ newline], None)
        | [name] \<Rightarrow>
            (if name = ''--help'' \<or> name = ''-h'' then (0, hostname_usage, None)
             else if \<not> may env name then
               (1, [''Error: Cannot set hostname to '' @ name @ '': '' @ strerror env @ newline,
                    ''Note: Setting hostname may require root privileges'' @ newline], None)
             else (0, [''Hostname changed from '' @ current @ '' to '' @ name @ newline], Some name))
        | _ \<Rightarrow> (1, hostname_usage, None)))"

section \<open>lookup.c\<close>

text \<open>The text for a mode has room for nine characters, and the type takes the first.\<close>

definition permissions :: "bool \<Rightarrow> nat \<Rightarrow> string" where
  "permissions is_dir mode = take 9
     ((if is_dir then CHR ''d'' else CHR ''-'') #
      map (\<lambda>(b, c). if odd (mode div 2 ^ b) then c else CHR ''-'')
        (zip (rev [0..<9]) [CHR ''r'', CHR ''w'', CHR ''x'', CHR ''r'', CHR ''w'', CHR ''x'', CHR ''r'', CHR ''w'', CHR ''x'']))"

definition pad_left :: "nat \<Rightarrow> string \<Rightarrow> string" where
  "pad_left n t = replicate (n - length t) (CHR '' '') @ t"

definition pad_right :: "nat \<Rightarrow> string \<Rightarrow> string" where
  "pad_right n t = t @ replicate (n - length t) (CHR '' '')"

text \<open>\<open>stat\<close> gives whether it is a folder, the mode, and the size as text.\<close>

definition print_file_info :: "(string \<Rightarrow> (bool \<times> nat \<times> string) option) \<Rightarrow> string \<Rightarrow> string \<Rightarrow> string" where
  "print_file_info stat path name = (case stat path of
     None \<Rightarrow> pad_right 20 name @ '' [error]'' @ newline
   | Some (is_dir, mode, size_text) \<Rightarrow> permissions is_dir mode @ '' '' @ pad_left 8 size_text @ '' '' @ name @ newline)"

definition lookup_main :: "host \<Rightarrow> (string \<Rightarrow> (bool \<times> nat \<times> string) option) \<Rightarrow> string list \<Rightarrow> disk \<Rightarrow> outcome" where
  "lookup_main env stat args d =
     (let path = (if args = [] then ''.'' else hd args) in
      case d_folders d path of
        None \<Rightarrow> (1, [complain env ''open directory'' path], d)
      | Some entries \<Rightarrow>
          (if \<not> may env path then (1, [complain env ''open directory'' path], d)
           else (0, map (\<lambda>name. print_file_info stat (take 1023 (path @ ''/'' @ name)) name)
             (filter (\<lambda>name. name = [] \<or> hd name \<noteq> CHR ''.'') entries), d)))"

section \<open>info-of.c\<close>

definition show_lookup_info :: "string list" where
  "show_lookup_info =
     [newline @ ''=== LOOKUP(1) ==='' @ newline @ newline, ''NAME'' @ newline,
      ''    lookup - list directory contents'' @ newline @ newline, ''SYNOPSIS'' @ newline,
      ''    lookup [DIRECTORY]'' @ newline @ newline, ''DESCRIPTION'' @ newline,
      ''    List information about files and directories. Similar to ls -l.'' @ newline,
      ''    If DIRECTORY is not specified, list current directory.'' @ newline @ newline,
      ''    Output format: permissions size name'' @ newline @ newline, ''EXAMPLES'' @ newline,
      ''    lookup          List current directory'' @ newline,
      ''    lookup /home    List /home directory'' @ newline @ newline, ''SEE ALSO'' @ newline,
      ''    saw(1), del(1), goto(1)'' @ newline @ newline]"

definition show_saw_info :: "string list" where
  "show_saw_info =
     [newline @ ''=== SAW(1) ==='' @ newline @ newline, ''NAME'' @ newline,
      ''    saw - display file contents'' @ newline @ newline, ''SYNOPSIS'' @ newline,
      ''    saw FILE'' @ newline @ newline, ''DESCRIPTION'' @ newline,
      ''    Display the contents of FILE to standard output. Similar to cat.'' @ newline,
      ''    The entire file is read and displayed.'' @ newline @ newline, ''EXAMPLES'' @ newline,
      ''    saw file.txt    Display contents of file.txt'' @ newline,
      ''    saw README.md   Display README.md'' @ newline @ newline, ''SEE ALSO'' @ newline,
      ''    lookup(1), output(1)'' @ newline @ newline]"

definition show_del_info :: "string list" where
  "show_del_info =
     [newline @ ''=== DEL(1) ==='' @ newline @ newline, ''NAME'' @ newline,
      ''    del - delete files and directories'' @ newline @ newline, ''SYNOPSIS'' @ newline,
      ''    del FILE|DIRECTORY'' @ newline @ newline, ''DESCRIPTION'' @ newline,
      ''    Remove files and directories. Similar to rm.'' @ newline,
      ''    WARNING: This permanently deletes files. Use with caution.'' @ newline @ newline, ''EXAMPLES'' @ newline,
      ''    del file.txt    Delete file.txt'' @ newline,
      ''    del mydir       Delete empty directory mydir'' @ newline @ newline, ''SEE ALSO'' @ newline,
      ''    lookup(1), copy(1)'' @ newline @ newline]"

definition show_copy_info :: "string list" where
  "show_copy_info =
     [newline @ ''=== COPY(1) ==='' @ newline @ newline, ''NAME'' @ newline,
      ''    copy - copy or move files'' @ newline @ newline, ''SYNOPSIS'' @ newline,
      ''    copy SOURCE DEST [move]'' @ newline @ newline, ''DESCRIPTION'' @ newline,
      ''    Copy SOURCE to DEST. Similar to cp.'' @ newline,
      ''    If '' @ [CHR 0x27] @ ''move'' @ [CHR 0x27] @ '' is specified as third argument, move instead of copy.'' @ newline @ newline,
      ''EXAMPLES'' @ newline, ''    copy file1.txt file2.txt      Copy file1.txt to file2.txt'' @ newline,
      ''    copy old.txt new.txt move     Move old.txt to new.txt'' @ newline @ newline, ''SEE ALSO'' @ newline,
      ''    del(1), lookup(1)'' @ newline @ newline]"

definition show_goto_info :: "string list" where
  "show_goto_info =
     [newline @ ''=== GOTO(1) ==='' @ newline @ newline, ''NAME'' @ newline,
      ''    goto - change directory'' @ newline @ newline, ''SYNOPSIS'' @ newline,
      ''    goto [DIRECTORY]'' @ newline @ newline, ''DESCRIPTION'' @ newline,
      ''    Change current working directory. Similar to cd.'' @ newline,
      ''    If DIRECTORY is not specified, change to home directory.'' @ newline @ newline, ''EXAMPLES'' @ newline,
      ''    goto /home      Change to /home'' @ newline, ''    goto            Change to home directory'' @ newline,
      ''    goto ..         Change to parent directory'' @ newline @ newline, ''SEE ALSO'' @ newline,
      ''    lookup(1)'' @ newline @ newline]"

definition show_output_info :: "string list" where
  "show_output_info =
     [newline @ ''=== OUTPUT(1) ==='' @ newline @ newline, ''NAME'' @ newline,
      ''    output - display text'' @ newline @ newline, ''SYNOPSIS'' @ newline,
      ''    output [TEXT...]'' @ newline @ newline, ''DESCRIPTION'' @ newline,
      ''    Display TEXT to standard output. Similar to echo.'' @ newline,
      ''    All arguments are printed separated by spaces.'' @ newline @ newline, ''EXAMPLES'' @ newline,
      ''    output Hello World     Print '' @ [CHR 0x27] @ ''Hello World'' @ [CHR 0x27] @ newline,
      ''    output \"Test message\"   Print '' @ [CHR 0x27] @ ''Test message'' @ [CHR 0x27] @ newline @ newline,
      ''SEE ALSO'' @ newline, ''    saw(1)'' @ newline @ newline]"

definition show_info_of_info :: "string list" where
  "show_info_of_info =
     [newline @ ''=== INFO-OF(1) ==='' @ newline @ newline, ''NAME'' @ newline,
      ''    info-of - display command information'' @ newline @ newline, ''SYNOPSIS'' @ newline,
      ''    info-of [COMMAND]'' @ newline @ newline, ''DESCRIPTION'' @ newline,
      ''    Display detailed information about E-comOS commands. Similar to GNU info.'' @ newline,
      ''    If COMMAND is not specified, show list of available commands.'' @ newline @ newline,
      ''EXAMPLES'' @ newline, ''    info-of         Show all commands'' @ newline,
      ''    info-of lookup  Show lookup command info'' @ newline @ newline, ''SEE ALSO'' @ newline,
      ''    All E-comOS commands'' @ newline @ newline]"

definition info_of_usage :: "string list" where
  "info_of_usage =
     [''E-comOS CommandBox Information System'' @ newline, ''Usage: info-of COMMAND'' @ newline @ newline,
      ''Available commands:'' @ newline, ''  lookup    - List directory contents'' @ newline,
      ''  saw       - Display file contents'' @ newline, ''  del       - Delete files/directories'' @ newline,
      ''  copy      - Copy or move files'' @ newline, ''  goto      - Change directory'' @ newline,
      ''  output    - Display text'' @ newline, ''  info-of   - Show command information'' @ newline @ newline,
      ''Use '' @ [CHR 0x27] @ ''info-of COMMAND'' @ [CHR 0x27] @ '' for detailed information.'' @ newline]"

definition info_of_main :: "string list \<Rightarrow> int \<times> string list" where
  "info_of_main args =
     (case args of
        [] \<Rightarrow> (0, info_of_usage)
      | name # _ \<Rightarrow>
          (if name = ''lookup'' then (0, show_lookup_info)
           else if name = ''saw'' then (0, show_saw_info)
           else if name = ''del'' then (0, show_del_info)
           else if name = ''copy'' then (0, show_copy_info)
           else if name = ''goto'' then (0, show_goto_info)
           else if name = ''output'' then (0, show_output_info)
           else if name = ''info-of'' then (0, show_info_of_info)
           else (1, [''No information available for '' @ [CHR 0x27] @ name @ [CHR 0x27] @ newline,
             ''Use '' @ [CHR 0x27] @ ''info-of'' @ [CHR 0x27] @ '' without arguments to see available commands.'' @ newline])))"

section \<open>The loop (simple\_commandbox.c)\<close>

text \<open>The words of a line, as \<open>strtok\<close> with blanks and tabs gives them.\<close>

definition blank :: "char \<Rightarrow> bool" where
  "blank c \<longleftrightarrow> c = CHR '' '' \<or> c = CHR 0x09"

function words_of :: "string \<Rightarrow> string list" where
  "words_of t =
     (let s = dropWhile blank t in
      if s = [] then [] else takeWhile (\<lambda>c. \<not> blank c) s # words_of (dropWhile (\<lambda>c. \<not> blank c) s))"
  by auto
termination
proof (relation "measure length", simp, clarsimp)
  fix t :: string and c
  assume c: "c \<in> set t" "\<not> blank c"
  have "dropWhile blank t \<noteq> []" using c by (auto simp: dropWhile_eq_Nil_conv)
  then obtain a s where s: "dropWhile blank t = a # s" by (cases "dropWhile blank t") auto
  then have "\<not> blank a" using hd_dropWhile [of blank t] by simp
  then have "length (dropWhile (\<lambda>c. \<not> blank c) (dropWhile blank t)) < length (dropWhile blank t)"
    by (simp add: s less_Suc_eq_le length_dropWhile_le)
  also have "\<dots> \<le> length t" by (rule length_dropWhile_le)
  finally show "length (dropWhile (\<lambda>c. \<not> blank c) (dropWhile blank t)) < length t" .
qed

declare words_of.simps [simp del]

record box =
  b_in :: string
  b_out :: "string list"
  b_run :: "(string \<times> string list) list"

text \<open>
  \<open>status\<close> says what comes of a command with its arguments: nothing when there is no such command, nothing
  inside when no process can be made, else its exit status. The commands that are run are recorded.
\<close>

definition execute_external_command :: "(string \<Rightarrow> string list \<Rightarrow> nat option option) \<Rightarrow> string \<Rightarrow> string list \<Rightarrow> box \<Rightarrow> int \<times> box" where
  "execute_external_command status cmd args b = (case status (take 511 (''./bin/commands/'' @ cmd)) args of
     None \<Rightarrow> (-1, b)
   | Some None \<Rightarrow> (1, b)
   | Some (Some st) \<Rightarrow> (int st, b\<lparr>b_run := b_run b @ [(cmd, args)]\<rparr>))"

definition run_line :: "(string \<Rightarrow> string list \<Rightarrow> nat option option) \<Rightarrow> string \<Rightarrow> box \<Rightarrow> box" where
  "run_line status input b = (case words_of input of
     [] \<Rightarrow> b
   | cmd # args \<Rightarrow> (case execute_external_command status cmd (take 31 args) b of (result, b) \<Rightarrow>
       (if result = -1 then b\<lparr>b_out := b_out b @ [''Unknown command: '' @ cmd @ newline]\<rparr> else b)))"

lemma run_line_in [simp]: "b_in (run_line status input b) = b_in b"
  by (auto simp: run_line_def execute_external_command_def split: list.splits option.splits)

function box_loop :: "(string \<Rightarrow> string list \<Rightarrow> nat option option) \<Rightarrow> box \<Rightarrow> box" where
  "box_loop status b =
     (let b = b\<lparr>b_out := b_out b @ [''commandbox> '']\<rparr> in
      case fgets 256 (b_in b) of
        None \<Rightarrow> b
      | Some (line, rest) \<Rightarrow>
          (let input = cut_line line; b = b\<lparr>b_in := rest\<rparr> in
           if input = [] then box_loop status b
           else if input = ''exit'' then b
           else box_loop status (run_line status input b)))"
  by auto
termination by (relation "measure (\<lambda>(_, b). length (b_in b))") (auto dest: fgets_shorter)

declare box_loop.simps [simp del]

text \<open>With arguments the first names the command and the others are its arguments.\<close>

definition box_main :: "(string \<Rightarrow> string list \<Rightarrow> nat option option) \<Rightarrow> string list \<Rightarrow> string \<Rightarrow> int \<times> box" where
  "box_main status args input =
     (let b = \<lparr>b_in = input, b_out = [], b_run = []\<rparr> in
      case args of
        cmd # others \<Rightarrow> (case execute_external_command status cmd others b of (result, b) \<Rightarrow>
          (if result = -1 then (1, b\<lparr>b_out := [''Unknown command: '' @ cmd @ newline]\<rparr>) else (result, b)))
      | [] \<Rightarrow> (0, box_loop status (b\<lparr>b_out := [''E-comOS CommandBox (Simple)'' @ newline]\<rparr>)))"

section \<open>Copies\<close>

text \<open>What is in the destination after \<open>pos\<close> bytes of the source, when \<open>fit\<close> bytes fit.\<close>

lemma copy_loop_exact:
  assumes "src \<noteq> dst" and "d_files d src = Some from" and "d_files d dst = Some (take fit (take pos from))" and "pos \<le> length from"
  shows "copy_loop (fit - pos) src dst pos d = Some (d\<lparr>d_files := (d_files d)(dst \<mapsto> take fit from)\<rparr>)"
  using assms(2-4)
proof (induction "length from - pos" arbitrary: pos d rule: less_induct)
  case less
  define chunk where "chunk = take 4096 (drop pos from)"
  show ?case
  proof (cases "chunk = []")
    case True
    then have "pos = length from" using less.prems(3) by (simp add: chunk_def)
    then have "(d_files d)(dst \<mapsto> take fit from) = d_files d" using less.prems(2) by (simp add: fun_upd_idem)
    then show ?thesis using True less.prems by (subst copy_loop.simps) (simp add: Let_def readable_def chunk_def [symmetric])
  next
    case False
    define pos' where "pos' = pos + length chunk"
    define d' where "d' = d\<lparr>d_files := (d_files d)(dst \<mapsto> take fit (take pos from) @ take (fit - pos) chunk)\<rparr>"
    have step: "take pos' from = take pos from @ chunk" "pos < pos'" "pos' \<le> length from"
      using False less.prems(3) by (auto simp: pos'_def chunk_def take_add min_def)
    have turn: "copy_loop (fit - pos) src dst pos d = copy_loop (fit - pos') src dst pos' d'"
      using False less.prems by (subst copy_loop.simps) (simp add: Let_def readable_def chunk_def [symmetric] pos'_def d'_def)
    have dst: "d_files d' dst = Some (take fit (take pos' from))" using less.prems(3) by (simp add: d'_def step(1))
    have src: "d_files d' src = Some from" using less.prems(1) assms(1) by (simp add: d'_def)
    have "length from - pos' < length from - pos" using step(2,3) by simp
    then have "copy_loop (fit - pos') src dst pos' d' = Some (d'\<lparr>d_files := (d_files d')(dst \<mapsto> take fit from)\<rparr>)"
      by (rule less.hyps) (fact src dst step(3))+
    then show ?thesis by (simp add: turn d'_def)
  qed
qed

definition asks_move :: "string list \<Rightarrow> bool" where
  "asks_move others \<longleftrightarrow> others \<noteq> [] \<and> hd others = ''move''"

text \<open>
  C39: Copying a file to another name gives it the bytes of the source, as far as there is room for them; copying a file to
  its own name empties it, and moving it there deletes it. The status is 0 in all these cases; a move deletes its source,
  where that is allowed, also when not all of it could be written.
\<close>

theorem copy_exact:
  assumes "d_files d src = Some from" and "may env src" and "may env dst" and "d_folders d dst = None"
  shows "\<exists>texts. copy_main env (src # dst # others) d = Some (0, texts, d\<lparr>d_files :=
    (if asks_move others \<and> may_unlink env src then (d_files d)(dst \<mapsto> if src = dst then [] else take (can_write env) from, src := None)
     else (d_files d)(dst \<mapsto> if src = dst then [] else take (can_write env) from))\<rparr>)"
proof -
  define d1 where "d1 = d\<lparr>d_files := (d_files d)(dst \<mapsto> [])\<rparr>"
  have "copy_loop (can_write env) src dst 0 d1 =
      Some (d\<lparr>d_files := (d_files d)(dst \<mapsto> if src = dst then [] else take (can_write env) from)\<rparr>)"
  proof (cases "src = dst")
    case True
    then show ?thesis by (subst copy_loop.simps) (simp add: readable_def d1_def)
  next
    case False
    then show ?thesis using copy_loop_exact [of src dst d1 "from" "can_write env" 0] assms(1) by (simp add: d1_def)
  qed
  then show ?thesis using assms by (auto simp: copy_main_def can_open_def asks_move_def d1_def)
qed

definition quiet_host :: host where
  "quiet_host = \<lparr>may = (\<lambda>_. True), may_unlink = (\<lambda>_. True), can_write = 100, strerror = [], home = None, resolved = (\<lambda>path. path),
     hostname_now = None\<rparr>"

theorem copy_exact_witness:
  "\<exists>texts. copy_main quiet_host [''a'', ''a'', ''move'']
     \<lparr>d_files = [''a'' \<mapsto> ''text''], d_folders = Map.empty\<rparr> = Some (0, texts, \<lparr>d_files = Map.empty, d_folders = Map.empty\<rparr>)"
  using copy_exact [of "\<lparr>d_files = [''a'' \<mapsto> ''text''], d_folders = Map.empty\<rparr>" "''a''" "''text''"
      quiet_host "''a''" "[''move'']"]
  by (simp add: asks_move_def quiet_host_def)

text \<open>The right of others to execute is cut off the text.\<close>

lemma permissions_hide_execute: "permissions is_dir (2 * k) = permissions is_dir (2 * k + 1)"
proof -
  have half: "Suc (2 * k) div 2 ^ Suc b = k div 2 ^ b" for b :: nat
    by (simp add: div_mult2_eq)
  show ?thesis
    using half [of 1] half [of 2] half [of 3] half [of 4] half [of 5] half [of 6] half [of 7]
    by (simp add: permissions_def upt_rec)
qed

section \<open>What the loop runs\<close>

definition good_word :: "string \<Rightarrow> bool" where
  "good_word w \<longleftrightarrow> w \<noteq> [] \<and> (\<forall>c \<in> set w. \<not> blank c \<and> c \<noteq> CHR 0x0A)"

definition good_line :: "string list \<Rightarrow> bool" where
  "good_line ws \<longleftrightarrow> ws \<noteq> [] \<and> list_all good_word ws \<and> length ws \<le> 32 \<and> length (output_words ws) < 255 \<and> ws \<noteq> [''exit'']"

lemma words_of_nothing [simp]: "words_of [] = []"
  by (simp add: words_of.simps)

lemma words_of_word: "good_word w \<Longrightarrow> words_of w = [w]"
proof -
  assume w: "good_word w"
  then have "dropWhile blank w = w" by (cases w) (auto simp: good_word_def)
  moreover have "takeWhile (\<lambda>c. \<not> blank c) w = w" "dropWhile (\<lambda>c. \<not> blank c) w = []"
    using w by (simp_all add: good_word_def takeWhile_eq_all_conv dropWhile_eq_Nil_conv)
  moreover have "w \<noteq> []" using w by (simp add: good_word_def)
  ultimately show ?thesis by (simp only: words_of.simps [of w] Let_def if_False words_of_nothing)
qed

lemma words_of_more: "good_word w \<Longrightarrow> words_of (w @ CHR '' '' # t) = w # words_of t"
proof -
  assume w: "good_word w"
  then have "dropWhile blank (w @ CHR '' '' # t) = w @ CHR '' '' # t" by (cases w) (auto simp: good_word_def)
  moreover have "takeWhile (\<lambda>c. \<not> blank c) (w @ CHR '' '' # t) = w" "dropWhile (\<lambda>c. \<not> blank c) (w @ CHR '' '' # t) = CHR '' '' # t"
    using w by (simp_all add: good_word_def blank_def takeWhile_append2 dropWhile_append2)
  moreover have "words_of (CHR '' '' # t) = words_of t"
    by (simp add: words_of.simps [of "CHR '' '' # t"] words_of.simps [of t] blank_def)
  ultimately show ?thesis using w by (simp add: words_of.simps [of "w @ CHR '' '' # t"] Let_def good_word_def)
qed

lemma words_of_output: "list_all good_word ws \<Longrightarrow> words_of (output_words ws) = ws"
  by (induction ws rule: output_words.induct) (simp_all add: words_of_word words_of_more)

lemma no_newline_in_words: "list_all good_word ws \<Longrightarrow> CHR 0x0A \<notin> set (output_words ws)"
  by (induction ws rule: output_words.induct) (auto simp: good_word_def)

text \<open>What one command prints after its prompt, and what it adds to the commands that were run.\<close>

definition reply :: "(string \<Rightarrow> string list \<Rightarrow> nat option option) \<Rightarrow> string list \<Rightarrow> string list" where
  "reply status ws = ''commandbox> '' #
     (if status (take 511 (''./bin/commands/'' @ hd ws)) (tl ws) = None then [''Unknown command: '' @ hd ws @ newline] else [])"

definition ran :: "(string \<Rightarrow> string list \<Rightarrow> nat option option) \<Rightarrow> string list \<Rightarrow> (string \<times> string list) list" where
  "ran status ws = (case status (take 511 (''./bin/commands/'' @ hd ws)) (tl ws) of
     Some (Some _) \<Rightarrow> [(hd ws, tl ws)] | _ \<Rightarrow> [])"

lemma run_line_good:
  assumes "good_line ws"
  shows "run_line status (output_words ws) b = b\<lparr>b_out := b_out b @ tl (reply status ws), b_run := b_run b @ ran status ws\<rparr>"
proof -
  obtain cmd args where ws: "ws = cmd # args" and len: "length args \<le> 31" using assms by (cases ws) (auto simp: good_line_def)
  have "words_of (output_words ws) = cmd # args" using assms by (simp add: words_of_output good_line_def flip: ws)
  then show ?thesis using len
    by (simp add: ws run_line_def execute_external_command_def reply_def ran_def split: option.splits)
qed

lemma box_turn:
  assumes "good_line ws"
  shows "box_loop status \<lparr>b_in = output_words ws @ newline @ t, b_out = out, b_run = run\<rparr> =
    box_loop status \<lparr>b_in = t, b_out = out @ reply status ws, b_run = run @ ran status ws\<rparr>"
proof -
  have good: "list_all good_word ws" "length (output_words ws) + 1 < 256" "ws \<noteq> []" "ws \<noteq> [''exit'']"
    using assms by (simp_all add: good_line_def)
  have no_end: "CHR 0x0A \<notin> set (output_words ws)" by (rule no_newline_in_words [OF good(1)])
  have again: "words_of (output_words ws) = ws" by (rule words_of_output [OF good(1)])
  have "words_of ''exit'' = [''exit'']" by (rule words_of_word) (simp add: good_word_def blank_def)
  then have "output_words ws \<noteq> ''exit''" "output_words ws \<noteq> []" using again good(3,4) by auto
  then show ?thesis
    using fgets_line [OF no_end good(2), of t] run_line_good [OF assms, of status]
    by (subst box_loop.simps) (simp add: Let_def cut_line_line [OF no_end], simp add: reply_def)
qed

lemma box_loop_lines:
  "list_all good_line lss \<Longrightarrow> box_loop status \<lparr>b_in = concat (map (\<lambda>ws. output_words ws @ newline) lss), b_out = out, b_run = run\<rparr> =
    \<lparr>b_in = [], b_out = out @ concat (map (reply status) lss) @ [''commandbox> ''], b_run = run @ concat (map (ran status) lss)\<rparr>"
  by (induction lss arbitrary: out run) (simp_all add: box_turn, simp add: box_loop.simps)



end
