(* ===== verification/Poweroffer.thy ===== *)
theory Poweroffer
  imports Console
begin

text \<open>
  The shutdown service, poweroffer/src: main.c, shutdown.c, error\_handling.c, appendix\_s.c and virtual\_port.c. It is a first version, in
  which most steps print what they stand for: the functions give what they print and their results. The normal shutdown is
  not part of the repository; what it prints and its result are a parameter. The delay of the ports and the data
  of a message, at which no function looks, are left out.
\<close>

section \<open>What is printed\<close>

datatype power_text = Out string | Err string | Info string | Warning string | Failure string

section \<open>The start (main.c, shutdown.c)\<close>

definition init_virtual_ports :: "int \<times> power_text list" where
  "init_virtual_ports = (0, [Out (''Initializing virtual ports...'' @ newline), Out (''Virtual ports initialized.'' @ newline)])"

definition poweroffer_init :: "int \<times> power_text list" where
  "poweroffer_init =
     (let out = [Out (''Initializing PowerOffer service...'' @ newline)] in
      case init_virtual_ports of (ret, ports) \<Rightarrow>
        (if ret \<noteq> 0 then (-1, out @ ports @ [Err (''Failed to initialize virtual ports.'' @ newline)])
         else (0, out @ ports @ [Out (''PowerOffer service initialized successfully.'' @ newline)])))"

definition poweroffer_main :: "int \<times> power_text list" where
  "poweroffer_main =
     (let out = [Out (''PowerOffer Shutdown Service Starting...'' @ newline)] in
      case poweroffer_init of (ret, init) \<Rightarrow>
        (if ret \<noteq> 0 then (1, out @ init @ [Err (''Failed to initialize PowerOffer service.'' @ newline)])
         else (0, out @ init @ [Out (''PowerOffer Shutdown Service Initialized.'' @ newline)])))"

section \<open>Shutting down (shutdown.c, error\_handling.c)\<close>

definition try_alternative_shutdown :: "int \<times> power_text list" where
  "try_alternative_shutdown = (0, [Out (''Attempting alternative shutdown...'' @ newline)])"

definition log_critical_failure :: "power_text list" where
  "log_critical_failure = [Err (''Critical failure during shutdown. Logging for audit purposes.'' @ newline)]"

definition press_button :: power_text where
  "press_button = Out (''Please press and hold the power button for 4 seconds to force shutdown.'' @ newline)"

definition handle_shutdown_failure :: "power_text list" where
  "handle_shutdown_failure =
     Err (''Shutdown failed. Attempting fallback mechanisms.'' @ newline) #
     (case try_alternative_shutdown of (ret, out) \<Rightarrow> out @
        (if ret \<noteq> 0 then [Err (''Fallback shutdown failed. Manual intervention required.'' @ newline), press_button]
         else [Out (''Fallback shutdown succeeded.'' @ newline)]))"

definition shutdown_with_error_handling :: "int \<times> power_text list \<Rightarrow> power_text list" where
  "shutdown_with_error_handling try_normal_shutdown =
     Info ''Starting shutdown process...'' # snd try_normal_shutdown @
     (if fst try_normal_shutdown \<noteq> 0 then
        Warning ''Normal shutdown failed. Attempting fallback.'' #
        (case try_alternative_shutdown of (ret, out) \<Rightarrow> out @
           (if ret \<noteq> 0 then Failure ''All shutdown methods failed. Manual intervention required.'' # log_critical_failure @ [press_button]
            else [Info ''Fallback shutdown succeeded.'']))
      else [Info ''Normal shutdown completed successfully.''])"

section \<open>Messages and tokens (appendix\_s.c, virtual\_port.c)\<close>

definition handle_appendix_s_wait :: "int \<Rightarrow> power_text list" where
  "handle_appendix_s_wait sender_pid =
     [Out (''Handling WAIT message from PID '' @ signed_decimal sender_pid @ newline),
      Out (''Granted '' @ signed_decimal 100 @ '' ms to PID '' @ signed_decimal sender_pid @ newline)]"

definition handle_appendix_s_okthanks :: "int \<Rightarrow> power_text list" where
  "handle_appendix_s_okthanks sender_pid =
     [Out (''Handling OKTHANKS message from PID '' @ signed_decimal sender_pid @ newline),
      Out (''Process '' @ signed_decimal sender_pid @ '' completed its shutdown sequence.'' @ newline)]"

definition port_send_token :: "u64 \<Rightarrow> power_text list" where
  "port_send_token token_id =
     [Out (''Sending token '' @ decimal (unat token_id) @ '' to virtual port.'' @ newline), Out (''Token sent successfully.'' @ newline)]"

section \<open>What a shutdown reports\<close>

text \<open>
  The fallback cannot fail, so a shutdown always ends with a report of success, and never asks for the button unless
  the normal shutdown does itself; the service leaves with status 0 as soon as it is initialised.
\<close>

lemma shutdown_reports_success:
  "last (shutdown_with_error_handling normal) \<in> {Info ''Fallback shutdown succeeded.'', Info ''Normal shutdown completed successfully.''}"
  by (simp add: shutdown_with_error_handling_def try_alternative_shutdown_def)

lemma never_asks_for_button:
  "press_button \<notin> set (snd normal) \<Longrightarrow> press_button \<notin> set (shutdown_with_error_handling normal)"
  "press_button \<notin> set handle_shutdown_failure"
  by (auto simp: shutdown_with_error_handling_def handle_shutdown_failure_def try_alternative_shutdown_def press_button_def)

lemma service_ends: "fst poweroffer_main = 0"
  by (simp add: poweroffer_main_def poweroffer_init_def init_virtual_ports_def Let_def)

end
