(* ===== verification/Spec2Isabelle.thy ===== *)
theory Spec2Isabelle
  imports Kernel_Main Kernel_Print Fs_Nefs_Tree Fs_Efs Fs_Wm2ud Eclc_Driver Dos25_Boot Dos25_Graphics Dos25_Disk Init_Service Marius_Client
    Eclib_Env Eclib_Service Eclib_On_Kernel Eclib_Start Gtlib_Terminal Ebts_Shell Dos25_Rescue Commandbox Poweroffer
begin

text \<open>
  A verification development of E-comOS, an operating system around a small kernel. The programs
  are under src/source; this development models those of them that are written in C and carry
  their own logic.

  The parts and how they interact. The boot loader dos25 starts the machine and leaves behind a
  daemon that serves requests over two queues in shared memory. The kernel manages pages, threads
  and one ring of messages, and gives them to programs through numbered system calls; interrupts
  wake threads that wait for them. The first program is the init service, of which there are two: one
  built into the kernel image, one a program of its own; both keep a table of services and answer
  look-ups over the message ring. The file-system programs keep files (NEFS, EFS) and swapped pages
  (WM2UD) on a block device. FCEF is the format of executables, with a library and a tool; ECLC is a
  compiler that writes it. The shell ebts reads commands and runs them, and the command box, which runs programs of its own; gtlib draws windows and widgets on a terminal.

  How the theories correspond to the code.
  \<^item> \<open>Prelude\<close>: widths of machine integers, loops over array indices (\<open>scan\<close>: the first index that
    satisfies a test; \<open>fill_loop\<close>: an array filled in order), bitmaps, index arithmetic of rings,
    bytes of words. \<open>Bytes\<close>: memory from \<open>malloc\<close>, fields of structures as bytes, the bitwise CRC-32 of
    the file systems, with the proof that it detects a changed byte.
  \<^item> \<open>Interfaces\<close>: the contracts as locales: bounded queues, allocators of numbered resources,
    registries, stores of blocks, pools of addresses. They are interpreted on the code's models: the kernel's ring
    (\<open>Kernel_Ipc\<close>, 31 messages) and the boot loader's queues (\<open>Dos25_Runtime\<close>, 256 messages) are bounded
    queues, the page allocator (\<open>Kernel_Mm\<close>) is an allocator, the two service tables (\<open>Kernel_Init\<close>, 32
    services, \<open>Init_Service\<close>, 16 services) are registries, the block device (\<open>Fs_Common\<close>) is a store, the leases of the DHCP server
    (\<open>Marius_Dhcp\<close>) are a pool of addresses.
  \<^item> \<open>Kernel_Ipc\<close>, \<open>Kernel_Mm\<close>, \<open>Kernel_Sched\<close>, \<open>Kernel_Syscall\<close>, \<open>Kernel_Init\<close>, \<open>Kernel_Print\<close>,
    \<open>Kernel_Arch\<close>, \<open>Kernel_Main\<close>: the kernel, kernel/src and kernel/arch/x86_64, one record per C file
    with static variables (\<open>ipc_state\<close>, the memory manager's state with physical memory, \<open>sched\<close>, the
    waiters for interrupts), joined in the record \<open>kernel\<close>. Every handler is a function of the whole
    state; the dispatcher \<open>syscall_handler\<close> composes them, and \<open>main_loop_turn\<close> is one turn of the main loop.
  \<^item> \<open>Fs_Common\<close>, \<open>Fs_Nefs\<close>, \<open>Fs_Efs\<close>, \<open>Fs_Wm2ud\<close>: fs/src. A device is the content of its host file;
    blocks are lists of bytes, and the structures in them are decoded field by field. \<open>Fs_Nefs_Tree\<close>: the files of NEFS as
    trees of blocks, on which the proof of reading back what was written rests.
  \<^item> \<open>Fcef_File\<close>, \<open>Fcef_Check\<close>: fcef/src. A file handle owns bytes; the header is a view of the first 82.
  \<^item> \<open>Eclc_Lexer\<close>, \<open>Eclc_Parser\<close>, \<open>Eclc_Driver\<close>: eclc/src. The lexer works on the source buffer with
    positions as indices, and the parser on the token stream with an index; files are a map from names
    to bytes. The files that the compiler writes are read by the models of the FCEF library.
  \<^item> \<open>Dos25_Runtime\<close>: dos25/src/uefi/runtime.c and daemon.c. \<open>Dos25_Boot\<close>: the boot sequence with its self-test, boot.c, main.c,
    ipc_test.c, file.c and memory.c there, as programs in the state monad whose calls of the firmware are recorded; the rules
    \<open>emits\<close> walk through a program call by call. \<open>Dos25_Graphics\<close>: graphics.c. \<open>Dos25_Disk\<close>: dos25/tools/dos25-disk.c.
    \<open>Dos25_Rescue\<close>: dos25/tools/hms.c, the machine of menus on a console (\<open>Console\<close>: reading lines, shared with the shell).
    \<open>Init_Service\<close>: init-service/src.
  \<^item> \<open>Marius_Dhcp\<close>: marius/dhcp_bare.c and the loop of example_bare.c, on frames of bytes. \<open>Marius_Hosted\<close>: the
    server in marius/dhcp.c. \<open>Marius_Client\<close>: the client there, and its conversation with the server.
  \<^item> \<open>Eclib_Utils\<close>, \<open>Eclib_Env\<close>, \<open>Eclib_Service\<close>: the user library, eclib/src: utils/utils.c on one memory with
    pointers into it, env/env.c, and service.c, service/service.c and men/men.c.
    \<open>Eclib_Requests\<close>: messages, capabilities, shutdown and the clients of the services, with the system calls they make as a list.
    \<open>Eclib_On_Kernel\<close>: these system calls, answered by the kernel's dispatcher.
    \<open>Eclib_Start\<close>: start.c and the standard streams of stdio.c, on a screen that is a parameter and for which the kernel's console can stand.
  \<^item> \<open>Gtlib\<close>: gtlib/src. A window and a heap of widgets that are linked by pointers; drawing gives the list of what is put
    on the terminal. window.c, widget.c, widget_render.c, terminal.c, event.c and ipc.c, and the versions in gtlib.c that differ.
    \<open>Gtlib_Terminal\<close>: the bytes of a drawing, and a terminal that reads them; the start and the end of the library.
  \<^item> \<open>Ebts_Shell\<close>: ebts/src. Users, objects, commands and the loop from standard input to output; the section on sessions
    is the specification that the shell refines.
  \<^item> \<open>Commandbox\<close>: commandbox/. The loop that reads lines, and the commands as functions of their arguments and the disk.
  \<^item> \<open>Poweroffer\<close>: the shutdown service, poweroffer/src, which so far prints what it is to do.

  What the lemmas show. For the kernel: the ring refines a bounded queue; any sequence of system
  calls, interrupts and turns of the main loop keeps the invariant \<open>kernel_ok\<close>; the scheduler
  chooses the next ready thread and starves none; pages are handed out once and lowest first; the page
  tables built at the start map each address to itself; interrupts wake exactly the waiters for them.
  For the file systems: what NEFS writes, over direct, indirect and double indirect blocks, is read
  back and no other byte of the file changes, as long as free blocks are blank; the hashed page table of WM2UD refines a map from addresses to pages. For FCEF: a saved file
  validates, a changed byte does not, and loading a segment changes exactly the memory that it covers. For
  ECLC: lexing undoes printing, the parser accepts exactly its grammar, and the composition of both is
  stated on whole programs. For the DHCP server: it never gives an address to two clients, and its replies are
  the frames of the protocol, with a correct checksum; a client ends with the address that it was offered, whatever the server does
  for others in between. For the user library: copies of overlapping areas,
  searches, tokens and formatted text are exact, the environment refines a map, service numbers are never
  used twice, a block for many members has room for all of them, a new program gets the arguments that fit, and
  a released capability is not used again; but the kernel refuses the system calls of the library, whose numbers it does not know. For the boot loader: the daemon serves requests in order and counts all of them; what a boot asks of the firmware is
  known call by call; loading a file closes and frees what it opens and allocates; drawing stays in the frame of the mode, and the
  best mode is chosen; what goes into a disk image comes out of it. For the widgets: whatever a program does with a window short of
  freeing widgets, its list stays well-formed with exactly one widget in focus, the focus goes round; the bytes that are written show a
  terminal what the drawing puts, so that a button looks as it should and nothing beside it changes, and the modes of the terminal come back. For
  the shell and the rescue program: a whole run on a given input prints exactly what the specification of a session, or of a
  dialogue, says; the command box runs the lines it is given in their order, and copy and move do to the disk what is stated.
  Where the code does not do what it means to, the theorem states what it does; these theorems are
  the ones that the findings of the manifest name.

  Errors and undefined behaviour. A status code stays the integer that the code returns. \<open>None\<close> is
  the value of an operation whose C code reads or writes outside an object, or where a loop never ends.
  A value that C leaves indeterminate (fresh memory, an uninitialised variable, the result of a
  function that ends without \<open>return\<close>) is a parameter, and the theorems hold for all its values. Integers
  keep their width where they can wrap.

  Termination. Loops over indices are structural recursions or recursions by the distance to
  their bound. The loops of the lexer end because each turn moves the position forward inside the
  buffer. The probing loops of WM2UD, which may never end, are \<open>partial_function\<close>s with results in
  \<open>option\<close>; that they end on a table with a free entry is proved. The waiting loop for interrupts runs over the
  list of events that happen during the wait, which is given; a loop that serves messages is modelled one turn
  at a time, or over the list of its inputs. No fuel is used elsewhere.

  Not modelled: of ebts the pipe (prompt.c is not C as it stands, so that it has no meaning to translate) and the entry as a
  service; the functions of gtlib.c and stdio.c that return a constant; copies of a function in another file, which is modelled
  once (gtlib.c, utils.c of the command box, ipc.c of eclib); assembly (entry stubs, context switch, loading of
  descriptor tables); gnu-make (a third-party program, by far the most of the lines in C); programs in
  other languages (cook and rui in Rust, esecp in Java); examples and tests. Output to
  a terminal is part of a model where it is the function's purpose (the console, the dump tool, trees
  and progress of the compiler, the start-up screens) and left out where it only accompanies an operation.
\<close>

end
